(* ===== verification/Prelude.thy ===== *)
theory Prelude
  imports Main
begin

text \<open>
  The vocabulary every component shares.  Identifiers, instants and errors; the transaction
  type of the services (a function from the database to an error or a result with the
  database it leaves) with its sequencing operators and their rules; the list-as-table
  operations that the SQL statements and Prisma calls of the code are written with.
\<close>

named_theorems tx_simps \<open>unfolding of the transaction operators\<close>
named_theorems table_simps \<open>rewriting of table updates, filters and counts\<close>

type_synonym uuid = nat
type_synonym time = int

text \<open>The HTTP exceptions the services throw, and the database errors they may meet.\<close>

datatype error =
    BadRequest string
  | Unauthorized string
  | Forbidden string
  | NotFound string
  | Conflict string
  | TooManyRequests string
  | InternalError string
  | ServiceUnavailable string
  | ClientError "string option" "string option"  \<comment> \<open>of an external client: its name and code\<close>
  | RangeErr string
  | UniqueViolation string  \<comment> \<open>Prisma P2002, a unique index of the schema\<close>
  | RecordMissing string    \<comment> \<open>Prisma P2025, the target row of an update is absent\<close>
  | WriteConflict           \<comment> \<open>Prisma P2034, a serialization failure\<close>
  | CheckViolation string   \<comment> \<open>SQLSTATE 23514, raised by a trigger of the schema\<close>
  | ValidationError string  \<comment> \<open>the code of a validation error class of the code\<close>

definition safe_integer :: "int \<Rightarrow> bool" where
  "safe_integer n \<longleftrightarrow> - 9007199254740991 \<le> n \<and> n \<le> 9007199254740991"

section \<open>Checks without a state\<close>

definition bindE :: "error + 'a \<Rightarrow> ('a \<Rightarrow> error + 'b) \<Rightarrow> error + 'b" where
  "bindE m f = (case m of Inl e \<Rightarrow> Inl e | Inr x \<Rightarrow> f x)"

definition guardE :: "bool \<Rightarrow> error \<Rightarrow> error + unit" where
  "guardE b e = (if b then Inr () else Inl e)"

lemma bindE_simps [simp]: "bindE (Inl e) f = Inl e" "bindE (Inr x) f = f x"
  by (simp_all add: bindE_def)

lemma bindE_Inr_iff: "bindE m f = Inr y \<longleftrightarrow> (\<exists>x. m = Inr x \<and> f x = Inr y)"
  by (cases m) simp_all

lemma guardE_Inr_iff: "guardE b e = Inr u \<longleftrightarrow> b"
  by (simp add: guardE_def)

lemmas check_iffs = bindE_Inr_iff guardE_Inr_iff

section \<open>Transactions\<close>

type_synonym ('s, 'a) tx = "'s \<Rightarrow> error + ('a \<times> 's)"

definition returnT :: "'a \<Rightarrow> ('s, 'a) tx" where
  "returnT x s = Inr (x, s)"

definition throwT :: "error \<Rightarrow> ('s, 'a) tx" where
  "throwT e s = Inl e"

definition bindT :: "('s, 'a) tx \<Rightarrow> ('a \<Rightarrow> ('s, 'b) tx) \<Rightarrow> ('s, 'b) tx" where
  "bindT m f s = (case m s of Inl e \<Rightarrow> Inl e | Inr (x, s') \<Rightarrow> f x s')"

definition getT :: "('s \<Rightarrow> 'a) \<Rightarrow> ('s, 'a) tx" where
  "getT f s = Inr (f s, s)"

definition modifyT :: "('s \<Rightarrow> 's) \<Rightarrow> ('s, unit) tx" where
  "modifyT f s = Inr ((), f s)"

definition guardT :: "bool \<Rightarrow> error \<Rightarrow> ('s, unit) tx" where
  "guardT b e s = (if b then Inr ((), s) else Inl e)"

definition liftT :: "error + 'a \<Rightarrow> ('s, 'a) tx" where
  "liftT r s = (case r of Inl e \<Rightarrow> Inl e | Inr x \<Rightarrow> Inr (x, s))"

fun mapT :: "('a \<Rightarrow> ('s, 'b) tx) \<Rightarrow> 'a list \<Rightarrow> ('s, 'b list) tx" where
  "mapT f [] = returnT []"
| "mapT f (x # xs) = bindT (f x) (\<lambda>y. bindT (mapT f xs) (\<lambda>ys. returnT (y # ys)))"

lemma returnT_eq [tx_simps]: "returnT x s = Inr (x, s)"
  by (simp add: returnT_def)

lemma throwT_eq [tx_simps]: "throwT e s = Inl e"
  by (simp add: throwT_def)

lemma getT_eq [tx_simps]: "getT f s = Inr (f s, s)"
  by (simp add: getT_def)

lemma modifyT_eq [tx_simps]: "modifyT f s = Inr ((), f s)"
  by (simp add: modifyT_def)

lemma guardT_eq [tx_simps]: "guardT b e s = (if b then Inr ((), s) else Inl e)"
  by (simp add: guardT_def)

lemma liftT_Inr_iff: "liftT r s = Inr (x, s') \<longleftrightarrow> r = Inr x \<and> s' = s"
  by (auto simp: liftT_def split: sum.splits)

lemma liftT_eqs [tx_simps]: "liftT (Inl e) s = Inl e" "liftT (Inr x) s = Inr (x, s)"
  by (simp_all add: liftT_def)

lemma bindT_Inl: "m s = Inl e \<Longrightarrow> bindT m f s = Inl e"
  by (simp add: bindT_def)

lemma bindT_Inr: "m s = Inr (x, s') \<Longrightarrow> bindT m f s = f x s'"
  by (simp add: bindT_def)

lemma bindT_Inr_iff:
  "bindT m f s = Inr r \<longleftrightarrow> (\<exists>x s'. m s = Inr (x, s') \<and> f x s' = Inr r)"
  by (auto simp: bindT_def split: sum.splits)

lemma bindT_Inl_iff:
  "bindT m f s = Inl e \<longleftrightarrow>
     m s = Inl e \<or> (\<exists>x s'. m s = Inr (x, s') \<and> f x s' = Inl e)"
  by (auto simp: bindT_def split: sum.splits)

lemma guardT_Inr_iff: "guardT b e s = Inr r \<longleftrightarrow> b \<and> r = ((), s)"
  by (auto simp: guardT_def)

lemma guardT_Inl_iff: "guardT b e s = Inl e' \<longleftrightarrow> \<not> b \<and> e' = e"
  by (auto simp: guardT_def)

lemmas tx_iffs = bindT_Inr_iff guardT_Inr_iff bindT_Inl_iff guardT_Inl_iff
  returnT_eq throwT_eq getT_eq modifyT_eq

lemma mapT_length: "mapT f xs s = Inr (ys, s') \<Longrightarrow> length ys = length xs"
  by (induction xs arbitrary: s ys s') (auto simp: tx_iffs)

text \<open>
  A contract several operations share: the operation keeps an invariant of the state.
  Its loop over a list of rows keeps it as well.
\<close>

locale keeps_invariant =
  fixes inv :: "'s \<Rightarrow> bool"
    and op :: "'a \<Rightarrow> ('s, 'b) tx"
  assumes step_keeps: "inv s \<Longrightarrow> op x s = Inr (y, s') \<Longrightarrow> inv s'"
begin

lemma loop_keeps: "inv s \<Longrightarrow> mapT op xs s = Inr (ys, s') \<Longrightarrow> inv s'"
proof (induction xs arbitrary: s ys)
  case Nil
  then show ?case by (simp add: tx_simps)
next
  case (Cons x xs)
  from Cons.prems(2) obtain y s1 zs where
    "op x s = Inr (y, s1)" and "mapT op xs s1 = Inr (zs, s')"
    by (auto simp: tx_iffs)
  note steps = this
  have "inv s1" using Cons.prems(1) steps(1) by (rule step_keeps)
  then show ?case using steps(2) by (rule Cons.IH)
qed

end

section \<open>Tables\<close>

text \<open>
  A table is the list of its rows.  \<open>upd_where\<close> is an UPDATE with its WHERE clause,
  \<open>count_where\<close> a SELECT count; a DELETE or a SELECT is a filter.
\<close>

definition upd_where :: "('r \<Rightarrow> bool) \<Rightarrow> ('r \<Rightarrow> 'r) \<Rightarrow> 'r list \<Rightarrow> 'r list" where
  "upd_where P f rows = map (\<lambda>r. if P r then f r else r) rows"

definition count_where :: "('r \<Rightarrow> bool) \<Rightarrow> 'r list \<Rightarrow> nat" where
  "count_where P rows = length (filter P rows)"

lemma upd_where_simps [simp]:
  "upd_where P f [] = []"
  "upd_where P f (r # rows) = (if P r then f r else r) # upd_where P f rows"
  "upd_where P f (rows @ rows') = upd_where P f rows @ upd_where P f rows'"
  by (simp_all add: upd_where_def)

lemma count_where_simps [simp]:
  "count_where P [] = 0"
  "count_where P (r # rows) = (if P r then Suc (count_where P rows) else count_where P rows)"
  "count_where P (rows @ rows') = count_where P rows + count_where P rows'"
  by (simp_all add: count_where_def)

lemma set_upd_where: "set (upd_where P f rows) = (\<lambda>r. if P r then f r else r) ` set rows"
  by (simp add: upd_where_def)

lemma upd_where_in: "r \<in> set rows \<Longrightarrow> K r \<Longrightarrow> f r \<in> set (upd_where K f rows)"
  by (induction rows) auto

lemma map_upd_where [table_simps]:
  "(\<And>r. P r \<Longrightarrow> key (f r) = key r) \<Longrightarrow> map key (upd_where P f rows) = map key rows"
  by (induction rows) auto

lemma image_upd_where [table_simps]:
  "(\<And>r. P r \<Longrightarrow> key (f r) = key r) \<Longrightarrow> key ` set (upd_where P f rows) = key ` set rows"
  by (metis map_upd_where set_map)

lemma count_where_0_iff: "count_where P rows = 0 \<longleftrightarrow> (\<forall>r \<in> set rows. \<not> P r)"
  by (induction rows) auto

lemma count_where_pos: "r \<in> set rows \<Longrightarrow> P r \<Longrightarrow> 0 < count_where P rows"
  by (induction rows) auto

lemma count_where_mono:
  "(\<And>r. r \<in> set rows \<Longrightarrow> P r \<Longrightarrow> Q r) \<Longrightarrow> count_where P rows \<le> count_where Q rows"
  by (induction rows) (auto simp: le_SucI)

lemma count_where_cong:
  "(\<And>r. r \<in> set rows \<Longrightarrow> P r = Q r) \<Longrightarrow> count_where P rows = count_where Q rows"
  by (induction rows) auto

lemma count_where_key_le:
  "distinct (map key rows) \<Longrightarrow> count_where (\<lambda>r. key r = k) rows \<le> 1"
proof (induction rows)
  case (Cons r rows)
  then show ?case
    by (cases "key r = k") (auto simp: count_where_0_iff image_iff)
qed simp

lemma count_where_unique:
  assumes "count_where P rows \<le> 1" "r \<in> set rows" "r' \<in> set rows" "P r" "P r'"
  shows "r = r'"
  using assms
proof (induction rows)
  case (Cons x rows)
  then show ?case
    by (cases "P x") (auto simp: count_where_0_iff)
qed simp

lemma distinct_key_eq:
  "distinct (map key rows) \<Longrightarrow> r \<in> set rows \<Longrightarrow> r' \<in> set rows \<Longrightarrow> key r = key r' \<Longrightarrow> r = r'"
  by (induction rows) (auto simp: image_iff)

lemma find_key_eq:
  "distinct (map key rows) \<Longrightarrow> r \<in> set rows \<Longrightarrow> find (\<lambda>x. key x = key r) rows = Some r"
  by (induction rows) (auto simp: image_iff)

lemma find_append: "find P (xs @ ys) = (case find P xs of None \<Rightarrow> find P ys | Some x \<Rightarrow> Some x)"
  by (induction xs) auto

text \<open>An UPDATE of one row by its key takes that row out of a count, or brings it in.\<close>

lemma count_upd_key_out:
  assumes "distinct (map key rows)" "r \<in> set rows" "P r" "\<not> P (f r)"
  shows "Suc (count_where P (upd_where (\<lambda>x. key x = key r) f rows)) = count_where P rows"
  using assms
proof (induction rows)
  case (Cons x rows)
  show ?case
  proof (cases "x = r")
    case True
    with Cons.prems have "upd_where (\<lambda>x. key x = key r) f rows = rows"
      by (auto simp: upd_where_def image_iff intro!: map_idI)
    with True Cons.prems show ?thesis by simp
  next
    case False
    with Cons.prems have "r \<in> set rows" "key x \<noteq> key r" by (auto simp: image_iff)
    with Cons show ?thesis by auto
  qed
qed simp

lemma count_upd_same:
  "(\<And>r. r \<in> set rows \<Longrightarrow> K r \<Longrightarrow> P (f r) = P r) \<Longrightarrow>
     count_where P (upd_where K f rows) = count_where P rows"
  by (induction rows) auto

lemma find_SomeD: "find P xs = Some x \<Longrightarrow> x \<in> set xs \<and> P x"
  by (auto simp: find_Some_iff)

end
