(* ===== verification/Database.thy ===== *)
theory Database
  imports Prelude
begin

text \<open>
  The tables of the relational schema (apps/api/prisma) that the modelled services read and
  write, one record per row type with the columns the code uses, and the database state.
  Row identifiers come from the UUID generators of PostgreSQL and node:crypto and random
  indices from node:crypto's randomInt; both are parameters (\<open>env\<close>), indexed by the number
  of draws made so far (\<open>draws\<close>).  What the code relies on is stated as \<open>supply_ok\<close>
  (a drawn UUID is new) and \<open>random_ok\<close> (a random index is below its bound).
\<close>

section \<open>Enumerations\<close>

datatype user_role = CLIENT | CASHIER | ADMIN
datatype account_status = AccPending | AccActive | AccSuspended | AccDeleted
datatype approval_status = ApprovalPending | Approved | ApprovalRejected | ApprovalRevoked
datatype subscription_status = SubActive | SubInactive | SubExpired | SubCancelled
datatype conversation_status = ConvActive | ConvClosed

datatype reassignment_reason =
    RrClientBlockedCashier | RrClientReportedCashier | RrCashierBlockedClient
  | RrCashierUnavailable | RrAdministrative

datatype reassignment_status = RrPending | RrCompleted | RrCancelled

datatype start_reason =
    StInvitation | StClientBlockedCashier | StClientReportedCashier
  | StCashierBlockedClient | StCashierUnavailable | StAdministrative

datatype end_reason =
    EnClientBlockedCashier | EnClientReportedCashier | EnCashierBlockedClient
  | EnCashierUnavailable | EnClientSuspended | EnCashierSuspended | EnAccountDeleted
  | EnAdministrative

datatype block_initiator = ByClient | ByCashier

datatype notification_type =
    NotifNewMessage | NotifMessageDelivered | NotifMessageRead | NotifAssignmentChanged
  | NotifAccountStatusChanged | NotifReportResolved | NotifReportWarning

datatype change_type = CHANGED | LEFT
datatype device_status = DevActive | DevRevoked

datatype audit_state = AuditUser uuid | AuditPendingReassignment

section \<open>Rows\<close>

record user_row =
  u_id :: uuid
  u_role :: user_role
  u_status :: account_status
  u_reset_required :: bool
  u_session_version :: nat

record cashier_profile =
  cp_user :: uuid
  cp_approval :: approval_status
  cp_email_verified :: "time option"
  cp_phone_verified :: "time option"

record subscription_row =
  cs_id :: uuid
  cs_cashier :: uuid
  cs_status :: subscription_status
  cs_starts :: time
  cs_ends :: "time option"
  cs_updated :: time

record block_row =
  b_id :: uuid
  b_client :: uuid
  b_cashier :: uuid
  b_assignment :: uuid
  b_initiator :: block_initiator

record assignment_row =
  a_id :: uuid
  a_client :: uuid
  a_cashier :: uuid
  a_previous :: "uuid option"
  a_admin :: "uuid option"
  a_start_reason :: start_reason
  a_end_reason :: "end_reason option"
  a_started :: time
  a_ended :: "time option"

record conversation_row =
  c_id :: uuid
  c_assignment :: uuid
  c_status :: conversation_status
  c_created :: time
  c_closed :: "time option"

record request_row =
  rr_id :: uuid
  rr_client :: uuid
  rr_previous :: uuid
  rr_excluded :: uuid
  rr_block :: "uuid option"
  rr_result :: "uuid option"
  rr_reason :: reassignment_reason
  rr_status :: reassignment_status
  rr_attempts :: nat
  rr_requested :: time
  rr_last_attempt :: "time option"
  rr_completed :: "time option"
  rr_cancel_code :: "string option"

record notification_row =
  n_user :: uuid
  n_type :: notification_type
  n_related :: uuid
  n_message :: "uuid option"
  n_expires :: "time option"

record audit_row =
  au_actor :: uuid
  au_target :: uuid
  au_target_user :: uuid
  au_reason :: string
  au_before :: uuid
  au_after :: audit_state

record device_row =
  d_id :: uuid
  d_user :: uuid
  d_status :: device_status
  d_protocol :: string
  d_binding :: string

record list_state_row =
  ls_user :: uuid
  ls_matrix_user :: string
  ls_version :: nat
  ls_updated :: time

record list_change_row =
  lc_id :: uuid
  lc_change :: uuid
  lc_position :: nat
  lc_recipient :: uuid
  lc_subject :: uuid
  lc_version :: nat
  lc_type :: change_type
  lc_source :: "uuid option"
  lc_created :: time

section \<open>The state\<close>

record db =
  draws :: nat
  users :: "user_row list"
  cashiers :: "cashier_profile list"
  subscriptions :: "subscription_row list"
  blocks :: "block_row list"
  assignments :: "assignment_row list"
  conversations :: "conversation_row list"
  requests :: "request_row list"
  notifications :: "notification_row list"
  audits :: "audit_row list"
  devices :: "device_row list"
  list_states :: "list_state_row list"
  list_position :: nat
  list_changes :: "list_change_row list"

definition empty_db :: db where
  "empty_db = \<lparr>draws = 0, users = [], cashiers = [], subscriptions = [], blocks = [],
     assignments = [], conversations = [], requests = [], notifications = [], audits = [],
     devices = [], list_states = [], list_position = 0, list_changes = []\<rparr>"

record env =
  uuid_at :: "nat \<Rightarrow> uuid"
  random_at :: "nat \<Rightarrow> int \<Rightarrow> int"
  has_publisher :: bool

text \<open>
  The services run on \<open>'x db_scheme\<close>, so that a component with more tables extends the
  record and runs the operations of this one unchanged.
\<close>

definition new_uuid :: "env \<Rightarrow> ('x db_scheme, uuid) tx" where
  "new_uuid e s = Inr (uuid_at e (draws s), s\<lparr>draws := Suc (draws s)\<rparr>)"

definition random_ok :: "env \<Rightarrow> bool" where
  "random_ok e \<longleftrightarrow> (\<forall>i n. 0 < n \<longrightarrow> 0 \<le> random_at e i n \<and> random_at e i n < n)"

definition supply_ok :: "env \<Rightarrow> nat \<Rightarrow> uuid set \<Rightarrow> bool" where
  "supply_ok e k used \<longleftrightarrow>
     (\<forall>i j. uuid_at e i = uuid_at e j \<longrightarrow> i = j) \<and> (\<forall>i. k \<le> i \<longrightarrow> uuid_at e i \<notin> used)"

lemma supply_ok_fresh: "supply_ok e k used \<Longrightarrow> k \<le> i \<Longrightarrow> uuid_at e i \<notin> used"
  by (simp add: supply_ok_def)

lemma supply_ok_mono: "supply_ok e k used \<Longrightarrow> k \<le> k' \<Longrightarrow> supply_ok e k' used"
  by (simp add: supply_ok_def)

lemma supply_ok_draw:
  "supply_ok e k used \<Longrightarrow> k \<le> i \<Longrightarrow> supply_ok e (Suc i) (insert (uuid_at e i) used)"
proof -
  assume ok: "supply_ok e k used" and ki: "k \<le> i"
  have "uuid_at e j \<notin> insert (uuid_at e i) used" if "Suc i \<le> j" for j
  proof -
    from that have "j \<noteq> i" "k \<le> j" using ki by simp_all
    with ok show ?thesis by (auto simp: supply_ok_def)
  qed
  with ok show ?thesis by (simp add: supply_ok_def)
qed

lemma supply_ok_cong: "supply_ok e k used \<Longrightarrow> used' \<subseteq> used \<Longrightarrow> supply_ok e k used'"
  by (auto simp: supply_ok_def)

definition active_user :: "('x) db_scheme \<Rightarrow> user_role \<Rightarrow> uuid \<Rightarrow> bool" where
  "active_user s role i \<longleftrightarrow>
     (\<exists>u \<in> set (users s). u_id u = i \<and> u_role u = role \<and> u_status u = AccActive)"

end
