(* ===== verification/CashierSelection.thy ===== *)
theory CashierSelection
  imports Database
begin

text \<open>
  apps/api/src/assignments/cashier-selection.ts: the choice of the least loaded cashier, ties
  broken by a random index.  The two RangeErrors of the code are branches of the model.
  The contract its client relies on is the locale \<open>load_balancer\<close>, interpreted here on the
  model of the function.
\<close>

record cashier_load =
  l_user :: uuid
  l_active :: int

definition count_invalid :: "cashier_load \<Rightarrow> bool" where
  "count_invalid c \<longleftrightarrow> \<not> safe_integer (l_active c) \<or> l_active c < 0"

text \<open>The validating loop: None is the RangeError, Some the running minimum at its end.\<close>

fun scan_minimum :: "cashier_load list \<Rightarrow> int option \<Rightarrow> int option option" where
  "scan_minimum [] minimum = Some minimum"
| "scan_minimum (c # cs) minimum =
     (if count_invalid c then None
      else scan_minimum cs
        (case minimum of None \<Rightarrow> Some (l_active c) | Some m \<Rightarrow> Some (min m (l_active c))))"

definition selectLeastLoadedCashier ::
    "cashier_load list \<Rightarrow> (int \<Rightarrow> int) \<Rightarrow> error + cashier_load option" where
  "selectLeastLoadedCashier candidates randomIndex =
     (if candidates = [] then Inr None
      else case scan_minimum candidates None of
        None \<Rightarrow> Inl (RangeErr ''El conteo de clientes activos no es valido.'')
      | Some minimum \<Rightarrow>
          let tied = filter (\<lambda>c. Some (l_active c) = minimum) candidates;
              selectedIndex = randomIndex (int (length tied))
          in if \<not> safe_integer selectedIndex \<or> selectedIndex < 0 \<or>
                int (length tied) \<le> selectedIndex
             then Inl (RangeErr ''El indice aleatorio no es valido.'')
             else Inr (Some (tied ! nat selectedIndex)))"

lemma scan_minimum_None_iff:
  "scan_minimum cs m = None \<longleftrightarrow> (\<exists>c \<in> set cs. count_invalid c)"
  by (induction cs m rule: scan_minimum.induct) auto

lemma scan_minimum_Some:
  "scan_minimum cs (Some m) = Some r \<Longrightarrow>
     \<exists>k. r = Some k \<and> k \<le> m \<and> (\<forall>c \<in> set cs. k \<le> l_active c) \<and>
       (k = m \<or> (\<exists>c \<in> set cs. l_active c = k))"
proof (induction cs arbitrary: m)
  case (Cons c cs)
  then have "scan_minimum cs (Some (min m (l_active c))) = Some r"
    by (auto split: if_splits)
  from Cons.IH [OF this] show ?case by (auto simp: min_def split: if_splits)
qed simp

lemma scan_minimum_attained:
  assumes "scan_minimum cs None = Some r" "cs \<noteq> []"
  obtains k c where "r = Some k" "c \<in> set cs" "l_active c = k"
    "\<forall>c' \<in> set cs. k \<le> l_active c'"
proof (cases cs)
  case (Cons c cs')
  with assms have "scan_minimum cs' (Some (l_active c)) = Some r" by (auto split: if_splits)
  from scan_minimum_Some [OF this] Cons that show ?thesis by auto
qed (use assms in simp)

lemma select_Some:
  assumes "selectLeastLoadedCashier cs rnd = Inr (Some c)"
  shows "c \<in> set cs \<and> (\<forall>c' \<in> set cs. l_active c \<le> l_active c')"
proof -
  from assms have ne: "cs \<noteq> []" by (auto simp: selectLeastLoadedCashier_def)
  with assms obtain r where r: "scan_minimum cs None = Some r"
    by (auto simp: selectLeastLoadedCashier_def split: option.splits)
  let ?tied = "filter (\<lambda>c. Some (l_active c) = r) cs"
  from assms ne r have "c = ?tied ! nat (rnd (int (length ?tied)))"
    and "nat (rnd (int (length ?tied))) < length ?tied"
    by (auto simp: selectLeastLoadedCashier_def Let_def split: if_splits)
  then have "c \<in> set ?tied" by (metis nth_mem)
  then have c: "c \<in> set cs" "Some (l_active c) = r" by simp_all
  from scan_minimum_attained [OF r ne] obtain k where "r = Some k" "\<forall>c' \<in> set cs. k \<le> l_active c'"
    by metis
  with c show ?thesis by simp
qed

lemma select_returns:
  assumes "\<forall>c \<in> set cs. \<not> count_invalid c"
    and "\<And>n. 0 < n \<Longrightarrow> n \<le> int (length cs) \<Longrightarrow> 0 \<le> rnd n \<and> rnd n < n"
    and "int (length cs) \<le> 9007199254740991"
  shows "\<exists>r. selectLeastLoadedCashier cs rnd = Inr r \<and> (r = None \<longleftrightarrow> cs = [])"
proof (cases "cs = []")
  case True
  then show ?thesis by (simp add: selectLeastLoadedCashier_def)
next
  case False
  have "scan_minimum cs None \<noteq> None" using assms(1) by (simp add: scan_minimum_None_iff)
  then obtain r where r: "scan_minimum cs None = Some r" by auto
  from scan_minimum_attained [OF r False] obtain k c
    where kc: "r = Some k" "c \<in> set cs" "l_active c = k" by metis
  let ?tied = "filter (\<lambda>c. Some (l_active c) = r) cs"
  have "c \<in> set ?tied" using kc by simp
  then have pos: "0 < int (length ?tied)" by (metis length_pos_if_in_set of_nat_0_less_iff)
  have le: "int (length ?tied) \<le> int (length cs)" by simp
  have b: "0 \<le> rnd (int (length ?tied))" "rnd (int (length ?tied)) < int (length ?tied)"
    using assms(2) [OF pos le] by simp_all
  have "safe_integer (rnd (int (length ?tied)))"
    unfolding safe_integer_def using b le assms(3) by linarith
  note b this
  with False r show ?thesis by (simp add: selectLeastLoadedCashier_def Let_def)
qed

section \<open>The contract\<close>

text \<open>
  What the assignment service needs of a chooser: the result is one of the candidates, none
  is less loaded, and no result means there was no candidate.
\<close>

locale load_balancer =
  fixes pick :: "cashier_load list \<Rightarrow> (int \<Rightarrow> int) \<Rightarrow> error + cashier_load option"
  assumes chosen_member: "pick cs rnd = Inr (Some c) \<Longrightarrow> c \<in> set cs"
    and chosen_least: "pick cs rnd = Inr (Some c) \<Longrightarrow> c' \<in> set cs \<Longrightarrow> l_active c \<le> l_active c'"
    and none_only_empty: "pick cs rnd = Inr None \<Longrightarrow> cs = []"
begin

lemma chosen_property:
  assumes "pick (map f xs) rnd = Inr (Some c)"
  obtains x where "x \<in> set xs" "c = f x"
  using chosen_member [OF assms] that by auto

end

interpretation selection: load_balancer selectLeastLoadedCashier
proof unfold_locales
  fix cs rnd c c'
  show "selectLeastLoadedCashier cs rnd = Inr (Some c) \<Longrightarrow> c \<in> set cs"
    by (simp add: select_Some)
  show "selectLeastLoadedCashier cs rnd = Inr (Some c) \<Longrightarrow> c' \<in> set cs \<Longrightarrow>
      l_active c \<le> l_active c'"
    by (simp add: select_Some)
  show "selectLeastLoadedCashier cs rnd = Inr None \<Longrightarrow> cs = []"
    by (auto simp: selectLeastLoadedCashier_def Let_def split: if_splits option.splits)
qed

section \<open>Properties\<close>

text \<open>C1: the selected cashier is one of the candidates and no candidate has fewer active clients;
  no cashier is selected exactly when there is no candidate.\<close>

theorem selection_is_least_loaded:
  assumes "selectLeastLoadedCashier cs rnd = Inr r"
  shows "case r of None \<Rightarrow> cs = []
    | Some c \<Rightarrow> c \<in> set cs \<and> (\<forall>c' \<in> set cs. l_active c \<le> l_active c')"
proof (cases r)
  case None
  with assms show ?thesis using selection.none_only_empty by simp
next
  case (Some c)
  with assms show ?thesis using selection.chosen_member selection.chosen_least by simp
qed

theorem selection_is_least_loaded_witness:
  "selectLeastLoadedCashier [\<lparr>l_user = 1, l_active = 4\<rparr>, \<lparr>l_user = 2, l_active = 3\<rparr>] (\<lambda>_. 0)
     = Inr (Some \<lparr>l_user = 2, l_active = 3\<rparr>) \<and> (3::int) \<le> 4"
proof -
  have run: "selectLeastLoadedCashier [\<lparr>l_user = 1, l_active = 4\<rparr>, \<lparr>l_user = 2, l_active = 3\<rparr>]
      (\<lambda>_. 0) = Inr (Some \<lparr>l_user = 2, l_active = 3\<rparr>)"
    by (simp add: selectLeastLoadedCashier_def count_invalid_def safe_integer_def Let_def)
  from selection_is_least_loaded [OF run] run show ?thesis by simp
qed

text \<open>Every candidate of minimal load can be selected: some random index below the number of ties
  selects it, so no eligible cashier is starved by the tie break.\<close>

theorem selection_reaches_every_tie:
  assumes "\<forall>c' \<in> set cs. \<not> count_invalid c'" "c \<in> set cs"
    and "\<forall>c' \<in> set cs. l_active c \<le> l_active c'" "int (length cs) \<le> 9007199254740991"
  shows "\<exists>i. 0 \<le> i \<and> i < int (length (filter (\<lambda>c'. l_active c' = l_active c) cs)) \<and>
    selectLeastLoadedCashier cs (\<lambda>_. i) = Inr (Some c)"
proof -
  have ne: "cs \<noteq> []" using assms(2) by auto
  have "scan_minimum cs None \<noteq> None" using assms(1) by (simp add: scan_minimum_None_iff)
  then obtain r where r: "scan_minimum cs None = Some r" by auto
  from scan_minimum_attained [OF r ne] assms(2,3) have rk: "r = Some (l_active c)"
    by (metis order_antisym)
  let ?tied = "filter (\<lambda>c'. l_active c' = l_active c) cs"
  have "c \<in> set ?tied" using assms(2) by simp
  then obtain i where i: "i < length ?tied" "?tied ! i = c" by (metis in_set_conv_nth)
  have "length ?tied \<le> length cs" by simp
  then have "safe_integer (int i)" unfolding safe_integer_def using i(1) assms(4) by linarith
  with i ne r rk have "selectLeastLoadedCashier cs (\<lambda>_. int i) = Inr (Some c)"
    by (simp add: selectLeastLoadedCashier_def Let_def)
  with i(1) show ?thesis by (intro exI [of _ "int i"]) simp
qed

theorem selection_reaches_every_tie_witness:
  "\<exists>i. selectLeastLoadedCashier [\<lparr>l_user = 1, l_active = 3\<rparr>, \<lparr>l_user = 2, l_active = 3\<rparr>] (\<lambda>_. i)
     = Inr (Some \<lparr>l_user = 2, l_active = 3\<rparr>)"
  using selection_reaches_every_tie [of
      "[\<lparr>l_user = 1, l_active = 3\<rparr>, \<lparr>l_user = 2, l_active = 3\<rparr>]" "\<lparr>l_user = 2, l_active = 3\<rparr>"]
  by (auto simp: count_invalid_def safe_integer_def)

end
