(* ===== verification/DeviceLists.thy ===== *)
theory DeviceLists
  imports Database "HOL-Library.Product_Lexorder"
begin

text \<open>
  apps/api/src/database/matrix-device-list.publisher.ts: the device-list stream.  Each publication takes
  the next position of the singleton stream row and appends one change per recipient, in the
  transaction of the change it announces.
\<close>

definition active_relations :: "'x db_scheme \<Rightarrow> (conversation_row \<times> assignment_row) list" where
  "active_relations s =
     [(c, a). c \<leftarrow> conversations s, a \<leftarrow> assignments s,
        a_id a = c_assignment c \<and> c_status c = ConvActive \<and> a_ended a = None]"

definition counterpart :: "uuid \<Rightarrow> assignment_row \<Rightarrow> uuid" where
  "counterpart i a = (if a_client a = i then a_cashier a else a_client a)"

definition currentRelationshipRecipients :: "uuid \<Rightarrow> 'x db_scheme \<Rightarrow> uuid list" where
  "currentRelationshipRecipients i s =
     sort (remdups (i # map (\<lambda>(c, a). counterpart i a)
       (filter (\<lambda>(c, a). i = a_client a \<or> i = a_cashier a) (active_relations s))))"

definition change_rows ::
    "env \<Rightarrow> nat \<Rightarrow> nat \<Rightarrow> uuid \<Rightarrow> nat \<Rightarrow> change_type \<Rightarrow> uuid option \<Rightarrow> time \<Rightarrow> uuid list \<Rightarrow>
       list_change_row list" where
  "change_rows e k position subject version ct source at recipients =
     map (\<lambda>(i, r). \<lparr>lc_id = uuid_at e (Suc k + i), lc_change = uuid_at e k,
        lc_position = position, lc_recipient = r, lc_subject = subject, lc_version = version,
        lc_type = ct, lc_source = source, lc_created = at\<rparr>)
       (zip [0..<length recipients] recipients)"

text \<open>
  The private method publish: k uuids are drawn in the order of the code, the change id first
  and then one id per recipient.
\<close>

definition publish ::
    "env \<Rightarrow> uuid \<Rightarrow> uuid list \<Rightarrow> change_type \<Rightarrow> time \<Rightarrow> uuid option \<Rightarrow> bool \<Rightarrow>
       ('x db_scheme, unit) tx" where
  "publish e subject rawRecipients ct at source bump s =
     (let recipients = sort (remdups rawRecipients) in
      if recipients = [] then Inr ((), s)
      else case find (\<lambda>l. ls_user l = subject) (list_states s) of
        None \<Rightarrow> Inr ((), s)
      | Some state \<Rightarrow>
          let version = (if bump then ls_version state + 1 else ls_version state);
              s1 = (if bump
                    then s\<lparr>list_states := upd_where (\<lambda>l. ls_user l = subject)
                      (\<lambda>l. l\<lparr>ls_version := ls_version l + 1, ls_updated := at\<rparr>) (list_states s)\<rparr>
                    else s)
          in if version < 1 then Inr ((), s1)
             else
               let position = list_position s1 + 1;
                   rows = change_rows e (draws s1) position subject version ct source at recipients
               in Inr ((), s1\<lparr>list_position := position,
                    list_changes := list_changes s1 @ rows,
                    draws := draws s1 + 1 + length recipients\<rparr>))"

definition publishDeviceSetChanged ::
    "env \<Rightarrow> uuid \<Rightarrow> uuid \<Rightarrow> time \<Rightarrow> ('x db_scheme, unit) tx" where
  "publishDeviceSetChanged e subject source at s =
     publish e subject (currentRelationshipRecipients subject s) CHANGED at (Some source) True s"

definition publishRelationshipChanged ::
    "env \<Rightarrow> uuid \<Rightarrow> uuid \<Rightarrow> change_type \<Rightarrow> time \<Rightarrow> ('x db_scheme, unit) tx" where
  "publishRelationshipChanged e client cashier ct at =
     bindT (publish e client [cashier] ct at None False)
       (\<lambda>_. publish e cashier [client] ct at None False)"

definition publishCurrentPeersToRecipient ::
    "env \<Rightarrow> uuid \<Rightarrow> time \<Rightarrow> ('x db_scheme, unit list) tx" where
  "publishCurrentPeersToRecipient e recipient at =
     bindT (getT (\<lambda>s. sort (filter (\<lambda>i. i \<noteq> recipient) (currentRelationshipRecipients recipient s))))
       (mapT (\<lambda>subject. publish e subject [recipient] CHANGED at None False))"

definition publishCurrentRelationshipsForUser ::
    "env \<Rightarrow> uuid \<Rightarrow> change_type \<Rightarrow> time \<Rightarrow> ('x db_scheme, unit list) tx" where
  "publishCurrentRelationshipsForUser e i ct at =
     bindT (getT (\<lambda>s. sort (map (\<lambda>(c, a). (a_client a, a_cashier a))
         (filter (\<lambda>(c, a). i = a_client a \<or> i = a_cashier a) (active_relations s)))))
       (mapT (\<lambda>(client, cashier). publishRelationshipChanged e client cashier ct at))"

section \<open>Frame and totality\<close>

text \<open>What the publications leave alone: every table but the device-list ones.\<close>

definition same_core :: "'x db_scheme \<Rightarrow> 'x db_scheme \<Rightarrow> bool" where
  "same_core s s' \<longleftrightarrow>
     s' = s\<lparr>draws := draws s', list_states := list_states s', list_position := list_position s',
       list_changes := list_changes s'\<rparr> \<and> draws s \<le> draws s' \<and>
     list_position s \<le> list_position s'"

lemma same_core_refl [simp]: "same_core s s"
  by (simp add: same_core_def)

lemma same_core_trans: "same_core s s' \<Longrightarrow> same_core s' s'' \<Longrightarrow> same_core s s''"
  unfolding same_core_def by (cases s; cases s'; cases s'') simp

lemma same_core_fields:
  assumes "same_core s s'"
  shows "users s' = users s" "cashiers s' = cashiers s" "subscriptions s' = subscriptions s"
    "blocks s' = blocks s" "assignments s' = assignments s" "conversations s' = conversations s"
    "requests s' = requests s" "notifications s' = notifications s" "audits s' = audits s"
    "devices s' = devices s" "draws s \<le> draws s'"
  using assms unfolding same_core_def by (cases s; cases s'; simp)+

lemma publish_total: "\<exists>s'. publish e i rs ct at src bump s = Inr ((), s') \<and> same_core s s'"
proof (cases "find (\<lambda>l. ls_user l = i) (list_states s)")
  case None
  then show ?thesis by (simp add: publish_def Let_def)
next
  case (Some l)
  then show ?thesis by (simp add: publish_def Let_def same_core_def)
qed

lemma publishRelationshipChanged_total:
  "\<exists>s'. publishRelationshipChanged e a b ct at s = Inr ((), s') \<and> same_core s s'"
proof -
  obtain s1 where s1: "publish e a [b] ct at None False s = Inr ((), s1)" "same_core s s1"
    using publish_total by blast
  obtain s2 where s2: "publish e b [a] ct at None False s1 = Inr ((), s2)" "same_core s1 s2"
    using publish_total by blast
  from s1 s2 show ?thesis
    by (auto simp: publishRelationshipChanged_def bindT_def intro: same_core_trans)
qed

section \<open>The stream invariant\<close>

text \<open>
  Positions never exceed the stream row and grow along the table; a list of version 0 is never
  announced.
\<close>

definition stream_ok :: "'x db_scheme \<Rightarrow> bool" where
  "stream_ok s \<longleftrightarrow>
     sorted (map lc_position (list_changes s)) \<and>
     (\<forall>l \<in> set (list_changes s). 1 \<le> lc_position l \<and> lc_position l \<le> list_position s \<and>
        1 \<le> lc_version l)"

lemma change_rows_props:
  "l \<in> set (change_rows e k p i v ct src at rs) \<Longrightarrow>
     lc_position l = p \<and> lc_version l = v \<and> lc_subject l = i \<and> lc_type l = ct \<and>
     lc_recipient l \<in> set rs"
  by (auto simp: change_rows_def dest: set_zip_rightD)

lemma change_rows_sorted: "sorted (map lc_position (change_rows e k p i v ct src at rs))"
  by (rule sorted_wrt_mono_rel [of _ "\<lambda>x y. x = p \<and> y = p"])
    (auto simp: sorted_wrt_iff_nth_less change_rows_def)

lemma publish_stream_ok:
  assumes "stream_ok s" "publish e i rs ct at src bump s = Inr (x, s')"
  shows "stream_ok s'"
proof -
  have app: "stream_ok (s1\<lparr>list_position := Suc (list_position s1),
      list_changes := list_changes s1 @ change_rows e k (Suc (list_position s1)) i v ct src at rs',
      draws := d\<rparr>)" if "stream_ok s1" "1 \<le> v" for s1 :: "'a db_scheme" and k v rs' d
    using that change_rows_props change_rows_sorted
    by (fastforce simp: stream_ok_def sorted_append dest: change_rows_props)
  have bump: "stream_ok (s\<lparr>list_states := ls\<rparr>)" for ls using assms(1) by (simp add: stream_ok_def)
  show ?thesis
    using assms app [of s] app [OF bump] bump
    by (auto simp: publish_def Let_def split: option.splits if_splits)
qed

interpretation publishing: keeps_invariant stream_ok
    "\<lambda>(i, rs, ct, at, src, bump). publish e i rs ct at src bump" for e
  by unfold_locales (auto intro: publish_stream_ok)

lemma publishRelationshipChanged_stream_ok:
  "stream_ok s \<Longrightarrow> publishRelationshipChanged e a b ct at s = Inr (x, s') \<Longrightarrow> stream_ok s'"
  unfolding publishRelationshipChanged_def bindT_Inr_iff
  by (blast intro: publish_stream_ok)

interpretation peer_loop: keeps_invariant stream_ok
    "\<lambda>subject. publish e subject [recipient] CHANGED at None False" for e recipient at
  by unfold_locales (rule publish_stream_ok)

interpretation relationship_loop: keeps_invariant stream_ok
    "\<lambda>(client, cashier). publishRelationshipChanged e client cashier ct at" for e ct at
  by unfold_locales (auto intro: publishRelationshipChanged_stream_ok)

section \<open>Properties\<close>

text \<open>C2: every publication of the publisher keeps the stream invariant: positions of the change log never
  decrease, never exceed the stream position, and no list of version 0 is announced.\<close>

theorem publications_keep_stream:
  assumes "stream_ok s"
  shows "(\<forall>x s'. publishDeviceSetChanged e i src at s = Inr (x, s') \<longrightarrow> stream_ok s') \<and>
    (\<forall>x s'. publishRelationshipChanged e i j ct at s = Inr (x, s') \<longrightarrow> stream_ok s') \<and>
    (\<forall>x s'. publishCurrentPeersToRecipient e i at s = Inr (x, s') \<longrightarrow> stream_ok s') \<and>
    (\<forall>x s'. publishCurrentRelationshipsForUser e i ct at s = Inr (x, s') \<longrightarrow> stream_ok s')"
  using assms
  by (auto simp: publishDeviceSetChanged_def publishCurrentPeersToRecipient_def
      publishCurrentRelationshipsForUser_def bindT_Inr_iff getT_eq
      intro: publish_stream_ok publishRelationshipChanged_stream_ok
        peer_loop.loop_keeps relationship_loop.loop_keeps)

definition demo_env :: env where
  "demo_env = \<lparr>uuid_at = (\<lambda>i. 1000 + i), random_at = (\<lambda>_ _. 0), has_publisher = True\<rparr>"

definition demo_lists :: db where
  "demo_lists = empty_db\<lparr>list_states :=
     [\<lparr>ls_user = 1, ls_matrix_user = ''@u1'', ls_version = 1, ls_updated = 0\<rparr>,
      \<lparr>ls_user = 2, ls_matrix_user = ''@u2'', ls_version = 3, ls_updated = 0\<rparr>]\<rparr>"

theorem publications_keep_stream_witness:
  "\<exists>s'. publishRelationshipChanged demo_env 1 2 LEFT 5 demo_lists = Inr ((), s') \<and>
     stream_ok s' \<and> map lc_position (list_changes s') = [1, 2]"
proof -
  have ok: "stream_ok demo_lists" by (simp add: stream_ok_def demo_lists_def empty_db_def)
  have pos: "map lc_position (list_changes (snd (projr
      (publishRelationshipChanged demo_env 1 2 LEFT 5 demo_lists)))) = [1, 2]"
    by (simp add: publishRelationshipChanged_def publish_def bindT_def Let_def demo_lists_def
        empty_db_def change_rows_def demo_env_def)
  obtain s' where run: "publishRelationshipChanged demo_env 1 2 LEFT 5 demo_lists = Inr ((), s')"
    using publishRelationshipChanged_total by blast
  with publications_keep_stream [OF ok] have "stream_ok s'" by blast
  with run pos show ?thesis by auto
qed

end
