(* ===== verification/Eligibility.thy ===== *)
theory Eligibility
  imports Database
begin

text \<open>
  apps/api/src/assignments/conversation-eligibility.service.ts: who may use a conversation now.
  Each query is the join of the code, row for row, with its clock reading as an argument; the
  FOR SHARE locks have no effect in a sequential model.  \<open>schema_keys\<close> collects the primary
  keys and unique indexes of the schema the joins rely on.
\<close>

record conversation_access =
  ca_id :: uuid
  ca_assignment :: uuid
  ca_client :: uuid
  ca_cashier :: uuid
  ca_ends :: "time option"

record cashier_access =
  ka_user :: uuid
  ka_ends :: "time option"

definition singleOrNull :: "'r list \<Rightarrow> error + 'r option" where
  "singleOrNull rows =
     (if 1 < length rows then Inl (InternalError ''Se detecto mas de una elegibilidad activa.'')
      else Inr (case rows of [] \<Rightarrow> None | r # _ \<Rightarrow> Some r))"

section \<open>The predicates of the SQL fragments\<close>

definition verified_profile :: "cashier_profile \<Rightarrow> bool" where
  "verified_profile cp \<longleftrightarrow>
     cp_approval cp = Approved \<and> cp_email_verified cp \<noteq> None \<and> cp_phone_verified cp \<noteq> None"

definition usable_cashier :: "user_row \<Rightarrow> bool" where
  "usable_cashier u \<longleftrightarrow> u_role u = CASHIER \<and> u_status u = AccActive \<and> \<not> u_reset_required u"

definition usable_client :: "user_row \<Rightarrow> bool" where
  "usable_client u \<longleftrightarrow> u_role u = CLIENT \<and> u_status u = AccActive"

definition in_period :: "time \<Rightarrow> subscription_row \<Rightarrow> bool" where
  "in_period now cs \<longleftrightarrow>
     cs_starts cs \<le> now \<and> (case cs_ends cs of None \<Rightarrow> True | Some t \<Rightarrow> now < t)"

definition participant :: "uuid \<Rightarrow> assignment_row \<Rightarrow> bool" where
  "participant i a \<longleftrightarrow> i = a_client a \<or> i = a_cashier a"

text \<open>
  ELIGIBILITY_JOINS and ELIGIBILITY_PREDICATES for one assignment: one row per profile, pair of
  users and active subscription that join with it.
\<close>

definition eligible_joins :: "time \<Rightarrow> 'x db_scheme \<Rightarrow> assignment_row \<Rightarrow> subscription_row list" where
  "eligible_joins now s a =
     [cs. cp \<leftarrow> cashiers s, cp_user cp = a_cashier a \<and> verified_profile cp,
          cu \<leftarrow> users s, u_id cu = cp_user cp \<and> usable_cashier cu,
          u \<leftarrow> users s, u_id u = a_client a \<and> usable_client u,
          cs \<leftarrow> subscriptions s,
          cs_cashier cs = cp_user cp \<and> cs_status cs = SubActive \<and> in_period now cs]"

definition access_of ::
    "conversation_row \<times> assignment_row \<times> subscription_row \<Rightarrow> conversation_access" where
  "access_of = (\<lambda>(c, a, cs). \<lparr>ca_id = c_id c, ca_assignment = a_id a, ca_client = a_client a,
     ca_cashier = a_cashier a, ca_ends = cs_ends cs\<rparr>)"

text \<open>The body the conversation queries share, with their WHERE clause as a parameter.\<close>

definition eligible_rows ::
    "time \<Rightarrow> 'x db_scheme \<Rightarrow> (conversation_row \<Rightarrow> assignment_row \<Rightarrow> bool) \<Rightarrow>
       (conversation_row \<times> assignment_row \<times> subscription_row) list" where
  "eligible_rows now s W =
     [(c, a, cs). c \<leftarrow> conversations s, c_status c = ConvActive,
        a \<leftarrow> assignments s, a_id a = c_assignment c \<and> a_ended a = None \<and> W c a,
        cs \<leftarrow> eligible_joins now s a]"

section \<open>The service\<close>

definition lockOperationalUser :: "uuid \<Rightarrow> ('x db_scheme, unit) tx" where
  "lockOperationalUser i s =
     (if count_where (\<lambda>u. u_id u = i \<and> u_status u \<notin> {AccSuspended, AccDeleted} \<and>
           \<not> u_reset_required u) (users s) \<noteq> 1
      then Inl (Forbidden ''La cuenta no esta disponible para esta accion.'') else Inr ((), s))"

definition findCurrent ::
    "time \<Rightarrow> uuid \<Rightarrow> uuid \<Rightarrow> 'x db_scheme \<Rightarrow> error + conversation_access option" where
  "findCurrent now i conv s =
     singleOrNull (map access_of
       (eligible_rows now s (\<lambda>c a. c_id c = conv \<and> participant i a)))"

definition requireCurrent ::
    "time \<Rightarrow> uuid \<Rightarrow> uuid \<Rightarrow> 'x db_scheme \<Rightarrow> error + conversation_access" where
  "requireCurrent now i conv s =
     (case findCurrent now i conv s of
        Inl e \<Rightarrow> Inl e
      | Inr None \<Rightarrow> Inl (Forbidden ''Conversacion no disponible.'')
      | Inr (Some a) \<Rightarrow> Inr a)"

definition lockCurrent ::
    "time \<Rightarrow> uuid \<Rightarrow> uuid \<Rightarrow> uuid option \<Rightarrow> ('x db_scheme, conversation_access) tx" where
  "lockCurrent now i conv device s =
     (let rows = (case device of
          Some d \<Rightarrow>
            [access_of r. r \<leftarrow> eligible_rows now s (\<lambda>c a. c_id c = conv \<and> participant i a),
               dv \<leftarrow> devices s, d_id dv = d \<and> d_user dv = i \<and> d_status dv = DevActive]
        | None \<Rightarrow>
            map access_of (eligible_rows now s (\<lambda>c a. c_id c = conv \<and> participant i a)))
      in case singleOrNull rows of
        Inl e \<Rightarrow> Inl e
      | Inr None \<Rightarrow> Inl (Forbidden ''Conversacion no disponible.'')
      | Inr (Some a) \<Rightarrow> Inr (a, s))"

definition lockCurrentByParticipants ::
    "time \<Rightarrow> uuid \<Rightarrow> uuid \<Rightarrow> ('x db_scheme, conversation_access) tx" where
  "lockCurrentByParticipants now client cashier s =
     (case singleOrNull (map access_of
         (eligible_rows now s (\<lambda>c a. a_client a = client \<and> a_cashier a = cashier))) of
        Inl e \<Rightarrow> Inl e
      | Inr None \<Rightarrow> Inl (Forbidden ''Conversacion no disponible.'')
      | Inr (Some a) \<Rightarrow> Inr (a, s))"

definition lockCurrentCashier :: "time \<Rightarrow> uuid \<Rightarrow> ('x db_scheme, cashier_access) tx" where
  "lockCurrentCashier now cashier s =
     (case singleOrNull
         [\<lparr>ka_user = cp_user cp, ka_ends = cs_ends cs\<rparr>.
            cp \<leftarrow> cashiers s, cp_user cp = cashier \<and> verified_profile cp,
            cu \<leftarrow> users s, u_id cu = cp_user cp \<and> usable_cashier cu,
            cs \<leftarrow> subscriptions s,
            cs_cashier cs = cp_user cp \<and> cs_status cs = SubActive \<and> in_period now cs] of
        Inl e \<Rightarrow> Inl e
      | Inr None \<Rightarrow> Inl (Forbidden ''El cajero no esta disponible para esta accion.'')
      | Inr (Some k) \<Rightarrow> Inr (k, s))"

definition listCurrentCounterparts :: "time \<Rightarrow> uuid \<Rightarrow> 'x db_scheme \<Rightarrow> uuid list" where
  "listCurrentCounterparts now i s =
     remdups (map (\<lambda>(c, a, cs). if a_client a = i then a_cashier a else a_client a)
       (eligible_rows now s (\<lambda>c a. participant i a)))"

definition assertPeriodStillActive :: "time \<Rightarrow> time option \<Rightarrow> error + time" where
  "assertPeriodStillActive now ends =
     (case ends of
        Some t \<Rightarrow> if t \<le> now then Inl (Forbidden ''La suscripcion del cajero vencio.'') else Inr now
      | None \<Rightarrow> Inr now)"

section \<open>Joins over unique keys have at most one row\<close>

definition schema_keys :: "'x db_scheme \<Rightarrow> bool" where
  "schema_keys s \<longleftrightarrow>
     distinct (map u_id (users s)) \<and> distinct (map cp_user (cashiers s)) \<and>
     distinct (map c_id (conversations s)) \<and> distinct (map a_id (assignments s)) \<and>
     distinct (map c_assignment (conversations s)) \<and> distinct (map d_id (devices s)) \<and>
     (\<forall>k. count_where (\<lambda>cs. cs_cashier cs = k \<and> cs_status cs = SubActive) (subscriptions s) \<le> 1) \<and>
     (\<forall>k. count_where (\<lambda>a. a_client a = k \<and> a_ended a = None) (assignments s) \<le> 1)"

text \<open>One level of a join: at most one row matches and each match gives at most one row.\<close>

lemma join_le_one:
  assumes "count_where P xs \<le> 1" "\<And>x. x \<in> set xs \<Longrightarrow> P x \<Longrightarrow> length (f x) \<le> 1"
    "\<And>x. x \<in> set xs \<Longrightarrow> \<not> P x \<Longrightarrow> f x = []"
  shows "length (concat (map f xs)) \<le> 1"
  using assms
proof (induction xs)
  case (Cons x xs)
  show ?case
  proof (cases "P x")
    case True
    with Cons.prems(1) have none: "\<forall>y \<in> set xs. \<not> P y" by (simp add: count_where_0_iff)
    with Cons.prems(3) have "concat (map f xs) = []" by simp
    with Cons.prems(2) [of x] True show ?thesis by (simp del: concat_eq_Nil_conv)
  next
    case False
    with Cons show ?thesis by simp
  qed
qed simp

lemma key_count: "distinct (map key rows) \<Longrightarrow> count_where (\<lambda>r. key r = k \<and> Q r) rows \<le> 1"
  by (rule order_trans [OF count_where_mono count_where_key_le [of key]]) auto

lemma join_if:
  assumes "count_where P xs \<le> 1" "\<And>x. P x \<Longrightarrow> length (g x) \<le> 1"
  shows "length (concat (map (\<lambda>x. if P x then g x else []) xs)) \<le> 1"
  using assms by (intro join_le_one [where P = P]) auto

lemma schema_counts:
  assumes "schema_keys s"
  shows "count_where (\<lambda>u. u_id u = k \<and> Q u) (users s) \<le> 1"
    and "count_where (\<lambda>cp. cp_user cp = k \<and> Qp cp) (cashiers s) \<le> 1"
    and "count_where (\<lambda>d. d_id d = k \<and> Qd d) (devices s) \<le> 1"
    and "count_where (\<lambda>a. a_id a = k \<and> Qa a) (assignments s) \<le> 1"
    and "count_where (\<lambda>c. c_id c = k \<and> Qc c) (conversations s) \<le> 1"
    and "count_where (\<lambda>cs. cs_cashier cs = k \<and> cs_status cs = SubActive \<and> Qs cs)
           (subscriptions s) \<le> 1"
    and "count_where (\<lambda>a. a_client a = k \<and> a_ended a = None \<and> Qa a) (assignments s) \<le> 1"
proof -
  note keys = assms [unfolded schema_keys_def]
  show "count_where (\<lambda>u. u_id u = k \<and> Q u) (users s) \<le> 1"
    "count_where (\<lambda>cp. cp_user cp = k \<and> Qp cp) (cashiers s) \<le> 1"
    "count_where (\<lambda>d. d_id d = k \<and> Qd d) (devices s) \<le> 1"
    "count_where (\<lambda>a. a_id a = k \<and> Qa a) (assignments s) \<le> 1"
    "count_where (\<lambda>c. c_id c = k \<and> Qc c) (conversations s) \<le> 1"
    using keys by (blast intro: key_count)+
  show "count_where (\<lambda>cs. cs_cashier cs = k \<and> cs_status cs = SubActive \<and> Qs cs)
      (subscriptions s) \<le> 1"
    by (rule order_trans [OF count_where_mono
          [where Q = "\<lambda>cs. cs_cashier cs = k \<and> cs_status cs = SubActive"]]) (use keys in auto)
  show "count_where (\<lambda>a. a_client a = k \<and> a_ended a = None \<and> Qa a) (assignments s) \<le> 1"
    by (rule order_trans [OF count_where_mono
          [where Q = "\<lambda>a. a_client a = k \<and> a_ended a = None"]]) (use keys in auto)
qed

lemma eligible_joins_le_one: "schema_keys s \<Longrightarrow> length (eligible_joins now s a) \<le> 1"
  unfolding eligible_joins_def by (intro join_if schema_counts) simp_all

text \<open>A WHERE clause that fixes the conversation, or both participants, leaves one row.\<close>

lemma eligible_level:
  assumes "schema_keys s"
  shows "length (concat (map (\<lambda>a. if a_id a = k \<and> a_ended a = None \<and> Q a
      then map (\<lambda>cs. (c, a, cs)) (eligible_joins now s a) else []) (assignments s))) \<le> 1"
  using assms by (intro join_if schema_counts) (simp_all add: eligible_joins_le_one del: One_nat_def)

lemma eligible_rows_alt:
  "eligible_rows now s W = concat (map (\<lambda>c. if c_status c = ConvActive then
     concat (map (\<lambda>a. if a_id a = c_assignment c \<and> a_ended a = None \<and> W c a
       then map (\<lambda>cs. (c, a, cs)) (eligible_joins now s a) else []) (assignments s)) else [])
     (conversations s))"
  by (simp add: eligible_rows_def)

lemma eligible_rows_le_one_conversation:
  assumes "schema_keys s"
  shows "length (eligible_rows now s (\<lambda>c a. c_id c = conv \<and> W c a)) \<le> 1"
  unfolding eligible_rows_alt
proof (rule join_le_one [where P = "\<lambda>c. c_id c = conv \<and> c_status c = ConvActive"])
  show "count_where (\<lambda>c. c_id c = conv \<and> c_status c = ConvActive) (conversations s) \<le> 1"
    using assms by (rule schema_counts)
qed (use eligible_level [OF assms, simplified] in auto)

lemma eligible_rows_iff:
  "(c, a, cs) \<in> set (eligible_rows now s W) \<longleftrightarrow>
     c \<in> set (conversations s) \<and> c_status c = ConvActive \<and> a \<in> set (assignments s) \<and>
     a_id a = c_assignment c \<and> a_ended a = None \<and> W c a \<and> cs \<in> set (eligible_joins now s a)"
  by (auto simp: eligible_rows_def)

lemma eligible_joins_iff:
  "cs \<in> set (eligible_joins now s a) \<longleftrightarrow>
     cs \<in> set (subscriptions s) \<and> cs_cashier cs = a_cashier a \<and> cs_status cs = SubActive \<and>
     in_period now cs \<and>
     (\<exists>cp \<in> set (cashiers s). cp_user cp = a_cashier a \<and> verified_profile cp) \<and>
     (\<exists>u \<in> set (users s). u_id u = a_cashier a \<and> usable_cashier u) \<and>
     (\<exists>u \<in> set (users s). u_id u = a_client a \<and> usable_client u)"
  by (auto simp: eligible_joins_def)

lemma eligible_rows_le_one_participants:
  assumes "schema_keys s"
  shows "length (eligible_rows now s (\<lambda>c a. a_client a = client \<and> a_cashier a = cashier)) \<le> 1"
proof -
  let ?W = "\<lambda>c a. a_client a = client \<and> a_cashier a = cashier"
  let ?open = "\<lambda>c. c_status c = ConvActive \<and>
    (\<exists>a \<in> set (assignments s). a_id a = c_assignment c \<and> a_ended a = None \<and> a_client a = client)"
  have key: "distinct (map c_assignment (conversations s))"
    using assms by (simp add: schema_keys_def)
  have "count_where ?open (conversations s) \<le> 1"
  proof (cases "\<exists>a \<in> set (assignments s). a_ended a = None \<and> a_client a = client")
    case True
    then obtain a where a: "a \<in> set (assignments s)" "a_ended a = None" "a_client a = client" by auto
    have "count_where (\<lambda>a. a_client a = client \<and> a_ended a = None) (assignments s) \<le> 1"
      using assms by (simp add: schema_keys_def)
    then have "c_assignment c = a_id a" if "?open c" for c
      using that a by (metis (mono_tags, lifting) count_where_unique)
    then have "count_where ?open (conversations s)
        \<le> count_where (\<lambda>c. c_assignment c = a_id a) (conversations s)"
      by (intro count_where_mono) blast
    with count_where_key_le [OF key] show ?thesis by (meson order_trans)
  next
    case False
    then have "count_where ?open (conversations s) = 0" by (auto simp: count_where_0_iff)
    then show ?thesis by simp
  qed
  then show ?thesis
    unfolding eligible_rows_alt
    by (rule join_le_one) (use eligible_level [OF assms, simplified] in auto)
qed

section \<open>The access contract\<close>

text \<open>
  What a granted access means: an active conversation of an open assignment whose two
  parties may use it at the instant of the check.
\<close>

definition access_granted :: "time \<Rightarrow> 'x db_scheme \<Rightarrow> conversation_access \<Rightarrow> bool" where
  "access_granted now s k \<longleftrightarrow>
     (\<exists>c \<in> set (conversations s). \<exists>a \<in> set (assignments s). \<exists>cs \<in> set (eligible_joins now s a).
        c_status c = ConvActive \<and> a_id a = c_assignment c \<and> a_ended a = None \<and>
        k = access_of (c, a, cs))"

lemma singleOrNull_Some:
  "singleOrNull rows = Inr (Some r) \<Longrightarrow> rows = [r]"
  by (cases rows) (auto simp: singleOrNull_def split: if_splits)

lemma singleOrNull_le_one: "length rows \<le> 1 \<Longrightarrow> singleOrNull rows \<noteq> Inl e"
  by (simp add: singleOrNull_def)

lemma lockCurrent_granted:
  assumes "lockCurrent now i conv dev s = Inr (k, s')"
  shows "s' = s \<and> access_granted now s k \<and> ca_id k = conv \<and> i \<in> {ca_client k, ca_cashier k} \<and>
    (\<forall>d. dev = Some d \<longrightarrow> (\<exists>dv \<in> set (devices s). d_id dv = d \<and> d_user dv = i \<and> d_status dv = DevActive))"
proof -
  let ?rows = "eligible_rows now s (\<lambda>c a. c_id c = conv \<and> participant i a)"
  have step: "k \<in> set (map access_of ?rows) \<and> s' = s \<and>
    (\<forall>d. dev = Some d \<longrightarrow> (\<exists>dv \<in> set (devices s). d_id dv = d \<and> d_user dv = i \<and> d_status dv = DevActive))"
  proof (cases dev)
    case None
    with assms have "singleOrNull (map access_of ?rows) = Inr (Some k)" "s' = s"
      by (auto simp: lockCurrent_def split: sum.splits option.splits)
    then show ?thesis using None singleOrNull_Some by fastforce
  next
    case (Some d)
    let ?r = "[access_of r. r \<leftarrow> ?rows, dv \<leftarrow> devices s,
        d_id dv = d \<and> d_user dv = i \<and> d_status dv = DevActive]"
    from assms Some have "singleOrNull ?r = Inr (Some k)" "s' = s"
      by (auto simp: lockCurrent_def split: sum.splits option.splits)
    from singleOrNull_Some [OF this(1)] have "set ?r = {k}" by simp
    then have "k \<in> set ?r" by simp
    then obtain r dv where "r \<in> set ?rows" "k = access_of r" "dv \<in> set (devices s)"
        "d_id dv = d \<and> d_user dv = i \<and> d_status dv = DevActive"
      by (fastforce split: if_splits)
    with Some \<open>s' = s\<close> show ?thesis by auto
  qed
  then obtain c a cs where row: "(c, a, cs) \<in> set ?rows" and k: "k = access_of (c, a, cs)" by auto
  from row have "access_granted now s k"
    unfolding access_granted_def k eligible_rows_iff by blast
  moreover from row have "ca_id k = conv \<and> i \<in> {ca_client k, ca_cashier k}"
    by (simp add: k eligible_rows_iff access_of_def participant_def)
  ultimately show ?thesis using step by blast
qed

lemma lockCurrentByParticipants_granted:
  assumes "lockCurrentByParticipants now client cashier s = Inr (k, s')"
  shows "s' = s \<and> access_granted now s k \<and> ca_client k = client \<and> ca_cashier k = cashier"
proof -
  let ?rows = "eligible_rows now s (\<lambda>c a. a_client a = client \<and> a_cashier a = cashier)"
  from assms have one: "singleOrNull (map access_of ?rows) = Inr (Some k)" and "s' = s"
    by (auto simp: lockCurrentByParticipants_def split: sum.splits option.splits)
  from singleOrNull_Some [OF one] obtain c a cs
    where row: "(c, a, cs) \<in> set ?rows" and k: "k = access_of (c, a, cs)" by auto
  from row have "access_granted now s k"
    unfolding access_granted_def k eligible_rows_iff by blast
  moreover from row have "ca_client k = client \<and> ca_cashier k = cashier"
    by (simp add: k eligible_rows_iff access_of_def)
  ultimately show ?thesis using \<open>s' = s\<close> by blast
qed

text \<open>Under the unique indexes the check is complete: an eligible participant is let in.\<close>

lemma lockCurrent_complete:
  assumes "schema_keys s" "(c, a, cs) \<in> set (eligible_rows now s (\<lambda>c a. c_id c = conv \<and> participant i a))"
  shows "lockCurrent now i conv None s = Inr (access_of (c, a, cs), s)"
proof -
  let ?rows = "eligible_rows now s (\<lambda>c a. c_id c = conv \<and> participant i a)"
  have "length ?rows \<le> 1" by (rule eligible_rows_le_one_conversation [OF assms(1)])
  with assms(2) have "?rows = [(c, a, cs)]" by (cases ?rows) auto
  then show ?thesis by (simp add: lockCurrent_def singleOrNull_def)
qed

text \<open>A conversation that is not active lets nobody in, whatever the device.\<close>

lemma lockCurrent_closed:
  assumes "\<forall>c \<in> set (conversations s). c_id c = conv \<longrightarrow> c_status c = ConvClosed"
  shows "lockCurrent now i conv dev s = Inl (Forbidden ''Conversacion no disponible.'')"
proof -
  have "eligible_rows now s (\<lambda>c a. c_id c = conv \<and> participant i a) = []"
    using assms by (auto simp: eligible_rows_def)
  then show ?thesis by (simp add: lockCurrent_def singleOrNull_def split: option.splits)
qed

text \<open>
  The interface the messaging services use: an access check is a read, what it grants is an
  access of a participant, and it refuses with Forbidden and no other error.
\<close>

locale access_control =
  fixes ok :: "'s \<Rightarrow> bool"
    and check :: "time \<Rightarrow> uuid \<Rightarrow> uuid \<Rightarrow> uuid option \<Rightarrow> 's \<Rightarrow> error + (conversation_access \<times> 's)"
    and granted :: "time \<Rightarrow> 's \<Rightarrow> conversation_access \<Rightarrow> bool"
  assumes check_reads: "check now i conv dev s = Inr (k, s') \<Longrightarrow> s' = s"
    and check_grants: "check now i conv dev s = Inr (k, s') \<Longrightarrow> granted now s k"
    and check_target: "check now i conv dev s = Inr (k, s') \<Longrightarrow> ca_id k = conv"
    and check_party: "check now i conv dev s = Inr (k, s') \<Longrightarrow> i = ca_client k \<or> i = ca_cashier k"
    and check_refuses: "ok s \<Longrightarrow> check now i conv dev s = Inl e \<Longrightarrow> \<exists>m. e = Forbidden m"
begin

text \<open>A second check in the same transaction sees the same conversation.\<close>

lemma recheck_same:
  assumes "check now i conv dev s = Inr (k, s1)" "check now' i conv dev' s1 = Inr (k', s2)"
  shows "s2 = s \<and> ca_id k' = ca_id k"
  using assms check_reads check_target by metis

text \<open>The counterpart the services compute from an access is the party that is not the caller.\<close>

lemma counterpart_is_other:
  assumes "check now i conv dev s = Inr (k, s')" "ca_client k \<noteq> ca_cashier k"
  shows "(if ca_client k = i then ca_cashier k else ca_client k) \<noteq> i \<and>
    {i, if ca_client k = i then ca_cashier k else ca_client k} = {ca_client k, ca_cashier k}"
  using check_party [OF assms(1)] assms(2) by auto

end

lemma device_join_le_one:
  assumes "schema_keys s" "length rows \<le> 1"
  shows "length [f r. r \<leftarrow> rows, dv \<leftarrow> devices s, d_id dv = d \<and> Q dv] \<le> 1"
proof (cases rows)
  case (Cons r rs)
  with assms(2) have "rs = []" by simp
  have "length (concat (map (\<lambda>dv. if d_id dv = d \<and> Q dv then [f r] else []) (devices s))) \<le> 1"
    using assms(1) by (intro join_if schema_counts) simp_all
  with Cons \<open>rs = []\<close> show ?thesis by simp
qed simp

lemma lockCurrent_Forbidden:
  assumes "schema_keys s" "lockCurrent now i conv dev s = Inl e"
  shows "\<exists>m. e = Forbidden m"
proof -
  let ?rows = "eligible_rows now s (\<lambda>c a. c_id c = conv \<and> participant i a)"
  have one: "length ?rows \<le> 1" by (rule eligible_rows_le_one_conversation [OF assms(1)])
  have "singleOrNull (map access_of ?rows) \<noteq> Inl x" for x
    using one by (intro singleOrNull_le_one) simp
  moreover have "singleOrNull [access_of r. r \<leftarrow> ?rows, dv \<leftarrow> devices s,
      d_id dv = d \<and> d_user dv = i \<and> d_status dv = DevActive] \<noteq> Inl x" for d x
    by (intro singleOrNull_le_one device_join_le_one assms(1) one)
  ultimately show ?thesis
    using assms(2) by (auto simp: lockCurrent_def split: option.splits sum.splits)
qed

interpretation eligibility: access_control schema_keys lockCurrent access_granted
  by unfold_locales (auto dest: lockCurrent_granted lockCurrent_Forbidden)

section \<open>Properties\<close>

text \<open>C3: an access the eligibility check grants is to a conversation that exists, is active and belongs to an
  open assignment, whose client or cashier the user is: both accounts have their role and are
  active, the cashier needs no password reset, is approved and has a verified address and telephone,
  and now lies in the period of an active subscription of the cashier, whose end the access carries;
  a given device is an active one of the user.  The database is left as it was.\<close>

theorem granted_access_is_eligible:
  assumes "lockCurrent now i conv dev s = Inr (k, s')"
  shows "s' = s \<and> ca_id k = conv \<and> i \<in> {ca_client k, ca_cashier k} \<and>
    (\<exists>c \<in> set (conversations s). c_id c = conv \<and> c_status c = ConvActive \<and>
       c_assignment c = ca_assignment k) \<and>
    (\<exists>a \<in> set (assignments s). a_id a = ca_assignment k \<and> a_ended a = None \<and>
       a_client a = ca_client k \<and> a_cashier a = ca_cashier k) \<and>
    (\<exists>u \<in> set (users s). u_id u = ca_client k \<and> u_role u = CLIENT \<and> u_status u = AccActive) \<and>
    (\<exists>u \<in> set (users s). u_id u = ca_cashier k \<and> u_role u = CASHIER \<and> u_status u = AccActive \<and>
       \<not> u_reset_required u) \<and>
    (\<exists>cp \<in> set (cashiers s). cp_user cp = ca_cashier k \<and> cp_approval cp = Approved \<and>
       cp_email_verified cp \<noteq> None \<and> cp_phone_verified cp \<noteq> None) \<and>
    (\<exists>cs \<in> set (subscriptions s). cs_cashier cs = ca_cashier k \<and> cs_status cs = SubActive \<and>
       cs_starts cs \<le> now \<and> (case cs_ends cs of None \<Rightarrow> True | Some t \<Rightarrow> now < t) \<and>
       ca_ends k = cs_ends cs) \<and>
    (\<forall>d. dev = Some d \<longrightarrow>
       (\<exists>dv \<in> set (devices s). d_id dv = d \<and> d_user dv = i \<and> d_status dv = DevActive))"
proof -
  from lockCurrent_granted [OF assms] have g: "access_granted now s k" and id: "ca_id k = conv"
    by simp_all
  from g obtain c a cs where row: "c \<in> set (conversations s)" "c_status c = ConvActive"
      "a_id a = c_assignment c" "a \<in> set (assignments s)" "cs \<in> set (eligible_joins now s a)"
      "a_ended a = None" "k = access_of (c, a, cs)"
    unfolding access_granted_def by blast
  have k: "ca_id k = c_id c" "ca_assignment k = a_id a" "ca_client k = a_client a"
      "ca_cashier k = a_cashier a" "ca_ends k = cs_ends cs"
    using row(7) by (simp_all add: access_of_def)
  have conv: "\<exists>c \<in> set (conversations s). c_id c = conv \<and> c_status c = ConvActive \<and>
      c_assignment c = ca_assignment k"
    using row(1,2,3) k(1,2) id by metis
  from row(5) conv show ?thesis
    using lockCurrent_granted [OF assms] row(4,6)
    unfolding k eligible_joins_iff usable_client_def usable_cashier_def verified_profile_def
      in_period_def
    by blast
qed

text \<open>Under the unique indexes of the schema no eligibility query ever meets two rows, so the
  internal error of singleOrNull is unreachable and the only refusal is Forbidden.\<close>

theorem eligibility_never_ambiguous:
  assumes "schema_keys s"
  shows "(\<forall>e. findCurrent now i conv s \<noteq> Inl e) \<and>
    (\<forall>e. lockCurrent now i conv dev s = Inl e \<longrightarrow> (\<exists>m. e = Forbidden m)) \<and>
    (\<forall>e. lockCurrentByParticipants now i j s = Inl e \<longrightarrow> (\<exists>m. e = Forbidden m))"
proof (intro conjI allI impI)
  fix e
  show "findCurrent now i conv s \<noteq> Inl e"
    unfolding findCurrent_def using eligible_rows_le_one_conversation [OF assms]
    by (intro singleOrNull_le_one) simp
next
  fix e assume "lockCurrent now i conv dev s = Inl e"
  then show "\<exists>m. e = Forbidden m" by (rule eligibility.check_refuses [OF assms])
next
  fix e assume "lockCurrentByParticipants now i j s = Inl e"
  moreover have "singleOrNull (map access_of
      (eligible_rows now s (\<lambda>c a. a_client a = i \<and> a_cashier a = j))) \<noteq> Inl x" for x
    using eligible_rows_le_one_participants [OF assms] by (intro singleOrNull_le_one) simp
  ultimately show "\<exists>m. e = Forbidden m"
    by (auto simp: lockCurrentByParticipants_def split: sum.splits option.splits)
qed

section \<open>A concrete state\<close>

definition demo_world :: db where
  "demo_world = empty_db\<lparr>
     users := [\<lparr>u_id = 1, u_role = CLIENT, u_status = AccActive, u_reset_required = False, u_session_version = 0\<rparr>,
       \<lparr>u_id = 2, u_role = CASHIER, u_status = AccActive, u_reset_required = False, u_session_version = 0\<rparr>,
       \<lparr>u_id = 3, u_role = CASHIER, u_status = AccActive, u_reset_required = False, u_session_version = 0\<rparr>],
     cashiers := [\<lparr>cp_user = 2, cp_approval = Approved, cp_email_verified = Some 0, cp_phone_verified = Some 0\<rparr>,
       \<lparr>cp_user = 3, cp_approval = Approved, cp_email_verified = Some 0, cp_phone_verified = Some 0\<rparr>],
     subscriptions := [\<lparr>cs_id = 20, cs_cashier = 2, cs_status = SubActive, cs_starts = 0, cs_ends = Some 100, cs_updated = 0\<rparr>,
       \<lparr>cs_id = 30, cs_cashier = 3, cs_status = SubActive, cs_starts = 0, cs_ends = None, cs_updated = 0\<rparr>],
     assignments := [\<lparr>a_id = 40, a_client = 1, a_cashier = 2, a_previous = None, a_admin = None,
       a_start_reason = StInvitation, a_end_reason = None, a_started = 0, a_ended = None\<rparr>],
     conversations := [\<lparr>c_id = 50, c_assignment = 40, c_status = ConvActive, c_created = 0, c_closed = None\<rparr>],
     devices := [\<lparr>d_id = 60, d_user = 1, d_status = DevActive, d_protocol = ''matrix-olm-v1'', d_binding = []\<rparr>]\<rparr>"

lemmas demo_defs = demo_world_def empty_db_def

lemma demo_world_keys: "schema_keys demo_world"
  by (simp add: schema_keys_def demo_defs)

lemma demo_world_lock:
  "lockCurrent 10 1 50 (Some 60) demo_world =
     Inr (\<lparr>ca_id = 50, ca_assignment = 40, ca_client = 1, ca_cashier = 2, ca_ends = Some 100\<rparr>, demo_world)"
  by (simp add: lockCurrent_def eligible_rows_def eligible_joins_def demo_defs participant_def
      verified_profile_def usable_cashier_def usable_client_def in_period_def access_of_def
      singleOrNull_def)

theorem granted_access_is_eligible_witness:
  "\<exists>c \<in> set (conversations demo_world). c_id c = 50 \<and> c_status c = ConvActive \<and> c_assignment c = 40"
  using granted_access_is_eligible [OF demo_world_lock] by auto

theorem eligibility_never_ambiguous_witness: "\<forall>e. findCurrent 10 1 50 demo_world \<noteq> Inl e"
  using eligibility_never_ambiguous [OF demo_world_keys] by blast

end
