(* ===== verification/Assignments.thy ===== *)
theory Assignments
  imports CashierSelection DeviceLists Eligibility
begin

text \<open>
  apps/api/src/assignments/assignments.service.ts: the relation between a client and its
  cashier.  An assignment is open until it gets an end instant; ending it closes its
  conversation and leaves a reassignment request, which is completed at once when an eligible
  cashier exists and stays pending otherwise.  Clock readings are arguments; the unique
  indexes and the immediate history triggers of the schema are branches of the operations.
\<close>

section \<open>Inputs and outcomes\<close>

record assignment_ref =
  ar_id :: uuid
  ar_client :: uuid
  ar_cashier :: uuid

definition ref_of :: "assignment_row \<Rightarrow> assignment_ref" where
  "ref_of a = \<lparr>ar_id = a_id a, ar_client = a_client a, ar_cashier = a_cashier a\<rparr>"

record begin_input =
  bi_assignment :: assignment_ref
  bi_reason :: reassignment_reason
  bi_end_reason :: end_reason
  bi_admin :: "uuid option"
  bi_reason_code :: "string option"
  bi_block :: "uuid option"

datatype outcome_status = REASSIGNED | PENDING_REASSIGNMENT

record reassignment_outcome =
  ro_status :: outcome_status
  ro_request :: uuid
  ro_client :: uuid
  ro_previous_cashier :: uuid
  ro_cashier :: "uuid option"
  ro_assignment :: "uuid option"

fun startReason :: "reassignment_reason \<Rightarrow> start_reason" where
  "startReason RrClientBlockedCashier = StClientBlockedCashier"
| "startReason RrClientReportedCashier = StClientReportedCashier"
| "startReason RrCashierBlockedClient = StCashierBlockedClient"
| "startReason RrCashierUnavailable = StCashierUnavailable"
| "startReason RrAdministrative = StAdministrative"

section \<open>Row operations\<close>

definition is_open :: "assignment_row \<Rightarrow> bool" where
  "is_open a \<longleftrightarrow> a_ended a = None"

definition is_pending :: "request_row \<Rightarrow> bool" where
  "is_pending r \<longleftrightarrow> rr_status r = RrPending"

text \<open>tx.assignment.update of beginReassignment, behind the trigger assignments_history_trigger.\<close>

definition end_assignment :: "uuid \<Rightarrow> end_reason \<Rightarrow> time \<Rightarrow> ('x db_scheme, unit) tx" where
  "end_assignment i er now s =
     (case find (\<lambda>a. a_id a = i) (assignments s) of
        None \<Rightarrow> Inl (RecordMissing ''assignment'')
      | Some a \<Rightarrow>
          if a_ended a \<noteq> None \<and> (a_ended a \<noteq> Some now \<or> a_end_reason a \<noteq> Some er)
          then Inl (CheckViolation ''an ended assignment cannot be reopened or changed'')
          else Inr ((), s\<lparr>assignments := upd_where (\<lambda>a. a_id a = i)
            (\<lambda>a. a\<lparr>a_ended := Some now, a_end_reason := Some er\<rparr>) (assignments s)\<rparr>))"

definition close_conversation :: "uuid \<Rightarrow> time \<Rightarrow> ('x db_scheme, unit) tx" where
  "close_conversation i now s =
     (case find (\<lambda>c. c_assignment c = i) (conversations s) of
        None \<Rightarrow> Inl (RecordMissing ''conversation'')
      | Some c \<Rightarrow>
          if c_closed c \<noteq> None \<and> (c_closed c \<noteq> Some now \<or> c_status c \<noteq> ConvClosed)
          then Inl (CheckViolation ''conversation history'')
          else Inr ((), s\<lparr>conversations := upd_where (\<lambda>c. c_assignment c = i)
            (\<lambda>c. c\<lparr>c_status := ConvClosed, c_closed := Some now\<rparr>) (conversations s)\<rparr>))"

definition publish_relationship ::
    "env \<Rightarrow> uuid \<Rightarrow> uuid \<Rightarrow> change_type \<Rightarrow> time \<Rightarrow> ('x db_scheme, unit) tx" where
  "publish_relationship e client cashier ct now =
     (if has_publisher e then publishRelationshipChanged e client cashier ct now else returnT ())"

definition create_request :: "env \<Rightarrow> begin_input \<Rightarrow> time \<Rightarrow> ('x db_scheme, request_row) tx" where
  "create_request e input now s =
     (let ref = bi_assignment input;
          r = \<lparr>rr_id = uuid_at e (draws s), rr_client = ar_client ref, rr_previous = ar_id ref,
            rr_excluded = ar_cashier ref, rr_block = bi_block input, rr_result = None,
            rr_reason = bi_reason input, rr_status = RrPending, rr_attempts = 0,
            rr_requested = now, rr_last_attempt = None, rr_completed = None,
            rr_cancel_code = None\<rparr>
      in if \<exists>q \<in> set (requests s). rr_previous q = ar_id ref
         then Inl (UniqueViolation ''reassignment_requests_previous_assignment_key'')
         else if bi_block input \<noteq> None \<and> (\<exists>q \<in> set (requests s). rr_block q = bi_block input)
         then Inl (UniqueViolation ''reassignment_requests_trigger_block_key'')
         else if \<exists>q \<in> set (requests s). rr_client q = ar_client ref \<and> is_pending q
         then Inl (UniqueViolation ''reassignment_requests_one_pending_per_client_key'')
         else Inr (r, s\<lparr>draws := Suc (draws s), requests := requests s @ [r]\<rparr>))"

definition update_request ::
    "uuid \<Rightarrow> (request_row \<Rightarrow> request_row) \<Rightarrow> ('x db_scheme, unit) tx" where
  "update_request i f s =
     (if \<exists>r \<in> set (requests s). rr_id r = i
      then Inr ((), s\<lparr>requests := upd_where (\<lambda>r. rr_id r = i) f (requests s)\<rparr>)
      else Inl (RecordMissing ''reassignmentRequest''))"

text \<open>The nested create of an assignment with its conversation.\<close>

definition create_assignment ::
    "env \<Rightarrow> request_row \<Rightarrow> uuid \<Rightarrow> uuid option \<Rightarrow> time \<Rightarrow> ('x db_scheme, assignment_row) tx" where
  "create_assignment e r cashier admin now s =
     (let a = \<lparr>a_id = uuid_at e (draws s), a_client = rr_client r, a_cashier = cashier,
            a_previous = Some (rr_previous r), a_admin = admin,
            a_start_reason = startReason (rr_reason r), a_end_reason = None, a_started = now,
            a_ended = None\<rparr>;
          c = \<lparr>c_id = uuid_at e (Suc (draws s)), c_assignment = a_id a, c_status = ConvActive,
            c_created = now, c_closed = None\<rparr>
      in if \<exists>b \<in> set (assignments s). a_client b = rr_client r \<and> is_open b
         then Inl (UniqueViolation ''assignments_one_active_per_client_key'')
         else if \<exists>b \<in> set (assignments s). a_previous b = Some (rr_previous r)
         then Inl (UniqueViolation ''assignments_previous_assignment_key'')
         else Inr (a, s\<lparr>draws := Suc (Suc (draws s)), assignments := assignments s @ [a],
           conversations := conversations s @ [c]\<rparr>))"

definition auditReassignment ::
    "uuid \<Rightarrow> uuid \<Rightarrow> uuid \<Rightarrow> uuid \<Rightarrow> audit_state \<Rightarrow> string \<Rightarrow> ('x db_scheme, unit) tx" where
  "auditReassignment admin client target previous next code =
     modifyT (\<lambda>s. s\<lparr>audits := audits s @ [\<lparr>au_actor = admin, au_target = target,
       au_target_user = client, au_reason = code, au_before = previous, au_after = next\<rparr>]\<rparr>)"

text \<open>A guard \<open>adminUserId && reasonCode\<close>: both given, the code not the empty string.\<close>

definition audit_if ::
    "uuid option \<Rightarrow> string option \<Rightarrow> (uuid \<Rightarrow> string \<Rightarrow> ('x db_scheme, unit) tx) \<Rightarrow>
       ('x db_scheme, unit) tx" where
  "audit_if admin code act =
     (case (admin, code) of
        (Some i, Some c) \<Rightarrow> if c = [] then returnT () else act i c
      | _ \<Rightarrow> returnT ())"

section \<open>Candidates\<close>

definition eligible_candidate ::
    "'x db_scheme \<Rightarrow> uuid \<Rightarrow> uuid \<Rightarrow> time \<Rightarrow> cashier_profile \<Rightarrow> bool" where
  "eligible_candidate s client excluded now cp \<longleftrightarrow>
     cp_user cp \<noteq> excluded \<and> cp_approval cp = Approved \<and>
     cp_email_verified cp \<noteq> None \<and> cp_phone_verified cp \<noteq> None \<and>
     (\<exists>u \<in> set (users s). u_id u = cp_user cp \<and> u_status u = AccActive \<and> \<not> u_reset_required u) \<and>
     (\<exists>cs \<in> set (subscriptions s). cs_cashier cs = cp_user cp \<and> cs_status cs = SubActive \<and>
        in_period now cs) \<and>
     \<not> (\<exists>b \<in> set (blocks s). b_cashier b = cp_user cp \<and> b_client b = client)"

definition active_load :: "'x db_scheme \<Rightarrow> uuid \<Rightarrow> nat" where
  "active_load s cashier = count_where (\<lambda>a. a_cashier a = cashier \<and> is_open a) (assignments s)"

definition findEligibleCandidates ::
    "'x db_scheme \<Rightarrow> uuid \<Rightarrow> uuid \<Rightarrow> time \<Rightarrow> cashier_load list" where
  "findEligibleCandidates s client excluded now =
     map (\<lambda>cp. \<lparr>l_user = cp_user cp, l_active = int (active_load s (cp_user cp))\<rparr>)
       (filter (eligible_candidate s client excluded now) (cashiers s))"

definition select_candidate ::
    "env \<Rightarrow> cashier_load list \<Rightarrow> ('x db_scheme, cashier_load option) tx" where
  "select_candidate e candidates s =
     (case selectLeastLoadedCashier candidates (random_at e (draws s)) of
        Inl err \<Rightarrow> Inl err
      | Inr r \<Rightarrow> Inr (r, s\<lparr>draws := Suc (draws s)\<rparr>))"

section \<open>Completing and beginning a reassignment\<close>

text \<open>The data of the two updates of a request row.\<close>

definition attempted :: "time \<Rightarrow> request_row \<Rightarrow> request_row" where
  "attempted now q = q\<lparr>rr_last_attempt := Some now, rr_attempts := Suc (rr_attempts q)\<rparr>"

definition completed_with :: "uuid \<Rightarrow> time \<Rightarrow> request_row \<Rightarrow> request_row" where
  "completed_with i now q = q\<lparr>rr_status := RrCompleted, rr_result := Some i,
     rr_last_attempt := Some now, rr_attempts := Suc (rr_attempts q), rr_completed := Some now\<rparr>"

definition pending_outcome :: "request_row \<Rightarrow> reassignment_outcome" where
  "pending_outcome r = \<lparr>ro_status = PENDING_REASSIGNMENT, ro_request = rr_id r,
     ro_client = rr_client r, ro_previous_cashier = rr_excluded r, ro_cashier = None,
     ro_assignment = None\<rparr>"

definition assign_candidate ::
    "env \<Rightarrow> request_row \<Rightarrow> uuid option \<Rightarrow> string option \<Rightarrow> time \<Rightarrow> cashier_load \<Rightarrow>
       ('x db_scheme, reassignment_outcome) tx" where
  "assign_candidate e r admin code now candidate =
     bindT (create_assignment e r (l_user candidate) admin now) (\<lambda>a.
     bindT (publish_relationship e (rr_client r) (a_cashier a) CHANGED now) (\<lambda>_.
     bindT (update_request (rr_id r) (completed_with (a_id a) now)) (\<lambda>_.
     bindT (modifyT (\<lambda>s. s\<lparr>notifications := notifications s @ [\<lparr>n_user = rr_client r,
       n_type = NotifAssignmentChanged, n_related = a_id a, n_message = None, n_expires = None\<rparr>]\<rparr>)) (\<lambda>_.
     bindT (audit_if admin code (\<lambda>i c. auditReassignment i (rr_client r) (a_id a) (rr_excluded r)
       (AuditUser (a_cashier a)) c)) (\<lambda>_.
     returnT \<lparr>ro_status = REASSIGNED, ro_request = rr_id r, ro_client = rr_client r,
       ro_previous_cashier = rr_excluded r, ro_cashier = Some (a_cashier a),
       ro_assignment = Some (a_id a)\<rparr>)))))"

definition defer_request ::
    "request_row \<Rightarrow> uuid option \<Rightarrow> string option \<Rightarrow> bool \<Rightarrow> time \<Rightarrow>
       ('x db_scheme, reassignment_outcome) tx" where
  "defer_request r admin code auditPending now =
     bindT (update_request (rr_id r) (attempted now)) (\<lambda>_.
     bindT (if auditPending
       then audit_if admin code (\<lambda>i c. auditReassignment i (rr_client r) (rr_previous r)
         (rr_excluded r) AuditPendingReassignment c)
       else returnT ()) (\<lambda>_.
     returnT (pending_outcome r)))"

definition completePending ::
    "env \<Rightarrow> request_row \<Rightarrow> uuid option \<Rightarrow> string option \<Rightarrow> bool \<Rightarrow> time \<Rightarrow>
       ('x db_scheme, reassignment_outcome) tx" where
  "completePending e r admin code auditPending now =
     bindT (getT (\<lambda>s. active_user s CLIENT (rr_client r))) (\<lambda>clientIsActive.
       if \<not> clientIsActive then returnT (pending_outcome r)
       else
         bindT (getT (\<lambda>s. findEligibleCandidates s (rr_client r) (rr_excluded r) now)) (\<lambda>candidates.
         bindT (select_candidate e candidates) (\<lambda>candidate.
           case candidate of
             None \<Rightarrow> defer_request r admin code auditPending now
           | Some c \<Rightarrow> assign_candidate e r admin code now c)))"

definition beginReassignment ::
    "env \<Rightarrow> time \<Rightarrow> begin_input \<Rightarrow> ('x db_scheme, reassignment_outcome) tx" where
  "beginReassignment e now input =
     (let ref = bi_assignment input in
      bindT (end_assignment (ar_id ref) (bi_end_reason input) now) (\<lambda>_.
      bindT (close_conversation (ar_id ref) now) (\<lambda>_.
      bindT (publish_relationship e (ar_client ref) (ar_cashier ref) LEFT now) (\<lambda>_.
      bindT (create_request e input now) (\<lambda>request.
      completePending e request (bi_admin input) (bi_reason_code input) True now)))))"

section \<open>The public operations\<close>

text \<open>
  runSerializable: at most three attempts; \<open>conflict n\<close> says that PostgreSQL aborts attempt n
  with a serialization failure.  An error of any kind leaves the database as it was.
\<close>

fun serializable_from ::
    "nat \<Rightarrow> nat \<Rightarrow> (nat \<Rightarrow> bool) \<Rightarrow> ('s, 'a) tx \<Rightarrow> 's \<Rightarrow> (error + 'a) \<times> 's" where
  "serializable_from 0 attempt conflict op s =
     (Inl (InternalError ''No se pudo completar la transaccion serializable.''), s)"
| "serializable_from (Suc left) attempt conflict op s =
     (if conflict attempt
      then if left = 0 then (Inl WriteConflict, s)
           else serializable_from left (Suc attempt) conflict op s
      else case op s of
        Inl err \<Rightarrow> (Inl err, s)
      | Inr (x, s') \<Rightarrow> (Inr x, s'))"

definition runSerializable ::
    "(nat \<Rightarrow> bool) \<Rightarrow> ('s, 'a) tx \<Rightarrow> 's \<Rightarrow> (error + 'a) \<times> 's" where
  "runSerializable conflict op s = serializable_from 3 1 conflict op s"

definition pending_of :: "'x db_scheme \<Rightarrow> uuid \<Rightarrow> request_row list" where
  "pending_of s client =
     sort_key rr_requested (filter (\<lambda>r. rr_client r = client \<and> is_pending r) (requests s))"

definition reassignAdministrative ::
    "env \<Rightarrow> time \<Rightarrow> uuid \<Rightarrow> uuid \<Rightarrow> string \<Rightarrow> ('x db_scheme, reassignment_outcome) tx" where
  "reassignAdministrative e now admin client code s =
     (if \<not> active_user s CLIENT client then Inl (NotFound ''El cliente activo no existe.'')
      else case pending_of s client of
        r # _ \<Rightarrow> completePending e r (Some admin) (Some code) True now s
      | [] \<Rightarrow>
        (case find (\<lambda>a. a_client a = client \<and> is_open a) (assignments s) of
           None \<Rightarrow> Inl (Conflict ''El cliente no tiene una asignacion activa ni una reasignacion pendiente.'')
         | Some a \<Rightarrow> beginReassignment e now
             \<lparr>bi_assignment = ref_of a, bi_reason = RrAdministrative,
              bi_end_reason = EnAdministrative, bi_admin = Some admin,
              bi_reason_code = Some code, bi_block = None\<rparr> s))"

definition reassignAssignmentAdministrative ::
    "env \<Rightarrow> time \<Rightarrow> uuid \<Rightarrow> uuid \<Rightarrow> string \<Rightarrow> ('x db_scheme, reassignment_outcome) tx" where
  "reassignAssignmentAdministrative e now admin i code s =
     (case find (\<lambda>a. a_id a = i \<and> is_open a \<and>
         (\<exists>u \<in> set (users s). u_id u = a_client a \<and> u_status u = AccActive)) (assignments s) of
        None \<Rightarrow> Inl (NotFound ''La asignacion activa no existe.'')
      | Some a \<Rightarrow> beginReassignment e now
          \<lparr>bi_assignment = ref_of a, bi_reason = RrAdministrative,
           bi_end_reason = EnAdministrative, bi_admin = Some admin,
           bi_reason_code = Some code, bi_block = None\<rparr> s)"

text \<open>Open assignments of a cashier in the order \<open>startedAt, id\<close>.\<close>

definition open_of_cashier :: "'x db_scheme \<Rightarrow> uuid \<Rightarrow> assignment_row list" where
  "open_of_cashier s cashier =
     sort_key (\<lambda>a. (a_started a, a_id a))
       (filter (\<lambda>a. a_cashier a = cashier \<and> is_open a) (assignments s))"

definition unavailable_input ::
    "end_reason \<Rightarrow> uuid option \<Rightarrow> string \<Rightarrow> assignment_row \<Rightarrow> begin_input" where
  "unavailable_input er admin code a =
     \<lparr>bi_assignment = ref_of a, bi_reason = RrCashierUnavailable, bi_end_reason = er,
      bi_admin = admin, bi_reason_code = Some code, bi_block = None\<rparr>"

definition reassignCashierClientsInTransaction ::
    "env \<Rightarrow> time \<Rightarrow> uuid \<Rightarrow> uuid \<Rightarrow> string \<Rightarrow> end_reason \<Rightarrow>
       ('x db_scheme, reassignment_outcome list) tx" where
  "reassignCashierClientsInTransaction e now cashier admin code er s =
     mapT (\<lambda>a. beginReassignment e now (unavailable_input er (Some admin) code a))
       (open_of_cashier s cashier) s"

record deletion_summary =
  ds_assignments :: nat
  ds_conversations :: nat
  ds_requests :: nat

definition endClientRelationshipsForDeletionInTransaction ::
    "env \<Rightarrow> time \<Rightarrow> uuid \<Rightarrow> ('x db_scheme, deletion_summary) tx" where
  "endClientRelationshipsForDeletionInTransaction e now client s =
     (let active = filter (\<lambda>a. a_client a = client \<and> is_open a) (assignments s);
          ids = set (map a_id active);
          convOf = (\<lambda>c. c_assignment c \<in> ids \<and> c_status c = ConvActive);
          asgOf = (\<lambda>a. a_id a \<in> ids \<and> is_open a);
          pendOf = (\<lambda>r. rr_client r = client \<and> is_pending r);
          s1 = s\<lparr>conversations := upd_where convOf
                 (\<lambda>c. c\<lparr>c_status := ConvClosed, c_closed := Some now\<rparr>) (conversations s),
               assignments := upd_where asgOf
                 (\<lambda>a. a\<lparr>a_ended := Some now, a_end_reason := Some EnAccountDeleted\<rparr>) (assignments s)\<rparr>
      in bindT (mapT (\<lambda>a. publish_relationship e client (a_cashier a) LEFT now) active) (\<lambda>_.
         bindT (getT (\<lambda>s'. count_where pendOf (requests s'))) (\<lambda>cancelled.
         bindT (modifyT (\<lambda>s'. s'\<lparr>requests := upd_where pendOf
           (\<lambda>r. r\<lparr>rr_status := RrCancelled, rr_completed := Some now,
                  rr_cancel_code := Some ''ACCOUNT_DELETED''\<rparr>) (requests s')\<rparr>)) (\<lambda>_.
         returnT \<lparr>ds_assignments = count_where asgOf (assignments s),
           ds_conversations = count_where convOf (conversations s), ds_requests = cancelled\<rparr>)))
         (if active = [] then s else s1))"

definition reassignAfterModerationInTransaction ::
    "env \<Rightarrow> time \<Rightarrow> assignment_ref \<Rightarrow> reassignment_reason \<Rightarrow> end_reason \<Rightarrow> uuid \<Rightarrow>
       ('x db_scheme, reassignment_outcome) tx" where
  "reassignAfterModerationInTransaction e now ref reason er block =
     beginReassignment e now \<lparr>bi_assignment = ref, bi_reason = reason, bi_end_reason = er,
       bi_admin = None, bi_reason_code = None, bi_block = Some block\<rparr>"

definition retryPendingInTransaction ::
    "env \<Rightarrow> time \<Rightarrow> uuid \<Rightarrow> string \<Rightarrow> nat \<Rightarrow> ('x db_scheme, reassignment_outcome list) tx" where
  "retryPendingInTransaction e now admin code limit s =
     mapT (\<lambda>r. completePending e r (Some admin) (Some code) False now)
       (take limit (sort_key (\<lambda>r. (rr_requested r, rr_id r))
         (filter (\<lambda>r. is_pending r \<and>
            (\<exists>u \<in> set (users s). u_id u = rr_client r \<and> u_status u = AccActive)) (requests s)))) s"

definition retryClientPendingInTransaction ::
    "env \<Rightarrow> time \<Rightarrow> uuid \<Rightarrow> uuid \<Rightarrow> string \<Rightarrow> ('x db_scheme, reassignment_outcome option) tx" where
  "retryClientPendingInTransaction e now client admin code s =
     (case pending_of s client of
        [] \<Rightarrow> Inr (None, s)
      | r # _ \<Rightarrow> bindT (completePending e r (Some admin) (Some code) False now)
          (\<lambda>out. returnT (Some out)) s)"

end
