(* ===== verification/AssignmentLinks.thy ===== *)
theory AssignmentLinks
  imports Assignments
begin

text \<open>
  The invariant of the assignment tables: a client has at most one link, an open assignment or
  a pending request; a conversation is active exactly while its assignment is open; a request
  points at the ended assignment it follows.  First the invariant on the three tables, then
  what each transaction of the service does to them.
\<close>

named_theorems link_rows \<open>columns the row updates leave alone\<close>

definition links :: "uuid \<Rightarrow> assignment_row list \<Rightarrow> request_row list \<Rightarrow> nat" where
  "links k A R = count_where (\<lambda>a. a_client a = k \<and> is_open a) A +
     count_where (\<lambda>r. rr_client r = k \<and> is_pending r) R"

definition keys_wf :: "assignment_row list \<Rightarrow> conversation_row list \<Rightarrow> request_row list \<Rightarrow> bool" where
  "keys_wf A C R \<longleftrightarrow>
     distinct (map a_id A) \<and> distinct (map c_id C) \<and> distinct (map rr_id R) \<and>
     distinct (map rr_previous R) \<and> map c_assignment C = map a_id A"

definition lifecycle_wf :: "assignment_row list \<Rightarrow> conversation_row list \<Rightarrow> bool" where
  "lifecycle_wf A C \<longleftrightarrow>
     list_all2 (\<lambda>a c. (c_status c = ConvActive \<longleftrightarrow> is_open a) \<and> c_closed c = a_ended a) A C"

definition history_wf :: "assignment_row list \<Rightarrow> request_row list \<Rightarrow> bool" where
  "history_wf A R \<longleftrightarrow>
     (\<forall>r \<in> set R. \<exists>a \<in> set A. a_id a = rr_previous r \<and> \<not> is_open a \<and>
        a_client a = rr_client r \<and> a_cashier a = rr_excluded r) \<and>
     (\<forall>a \<in> set A. \<forall>p. a_previous a = Some p \<longrightarrow>
        (\<exists>r \<in> set R. rr_previous r = p \<and> rr_status r = RrCompleted))"

definition links_wf ::
    "assignment_row list \<Rightarrow> conversation_row list \<Rightarrow> request_row list \<Rightarrow> bool" where
  "links_wf A C R \<longleftrightarrow> keys_wf A C R \<and> lifecycle_wf A C \<and> history_wf A R \<and> (\<forall>k. links k A R \<le> 1)"

definition used_ids :: "'x db_scheme \<Rightarrow> uuid set" where
  "used_ids s = a_id ` set (assignments s) \<union> c_id ` set (conversations s) \<union> rr_id ` set (requests s)"

definition wf :: "env \<Rightarrow> 'x db_scheme \<Rightarrow> bool" where
  "wf e s \<longleftrightarrow> links_wf (assignments s) (conversations s) (requests s) \<and>
     supply_ok e (draws s) (used_ids s)"

section \<open>The table updates\<close>

definition ended_row :: "end_reason \<Rightarrow> time \<Rightarrow> assignment_row \<Rightarrow> assignment_row" where
  "ended_row er now a = a\<lparr>a_ended := Some now, a_end_reason := Some er\<rparr>"

definition closed_row :: "time \<Rightarrow> conversation_row \<Rightarrow> conversation_row" where
  "closed_row now c = c\<lparr>c_status := ConvClosed, c_closed := Some now\<rparr>"

lemma ended_row_simps [link_rows, simp]:
  "a_id (ended_row er now a) = a_id a" "a_client (ended_row er now a) = a_client a"
  "a_cashier (ended_row er now a) = a_cashier a" "a_previous (ended_row er now a) = a_previous a"
  "is_open (ended_row er now a) = False" "a_ended (ended_row er now a) = Some now"
  by (simp_all add: ended_row_def is_open_def)

lemma closed_row_simps [link_rows, simp]:
  "c_id (closed_row now c) = c_id c" "c_assignment (closed_row now c) = c_assignment c"
  "c_status (closed_row now c) = ConvClosed" "c_closed (closed_row now c) = Some now"
  by (simp_all add: closed_row_def)

lemma attempted_simps [link_rows, simp]:
  "rr_id (attempted now q) = rr_id q" "rr_previous (attempted now q) = rr_previous q"
  "rr_client (attempted now q) = rr_client q" "rr_excluded (attempted now q) = rr_excluded q"
  "rr_status (attempted now q) = rr_status q" "is_pending (attempted now q) = is_pending q"
  by (simp_all add: attempted_def is_pending_def)

lemma completed_with_simps [link_rows, simp]:
  "rr_id (completed_with i now q) = rr_id q" "rr_previous (completed_with i now q) = rr_previous q"
  "rr_client (completed_with i now q) = rr_client q"
  "rr_excluded (completed_with i now q) = rr_excluded q"
  "rr_status (completed_with i now q) = RrCompleted" "is_pending (completed_with i now q) = False"
  by (simp_all add: completed_with_def is_pending_def)

lemma count_upd_le:
  "(\<And>r. K r \<Longrightarrow> P (f r) \<Longrightarrow> P r) \<Longrightarrow> count_where P (upd_where K f rows) \<le> count_where P rows"
  by (induction rows) (auto simp: le_SucI)

lemma bex_upd_where:
  "(\<And>r. K r \<Longrightarrow> P r \<Longrightarrow> P (f r)) \<Longrightarrow> \<exists>r \<in> set rows. P r \<Longrightarrow> \<exists>r \<in> set (upd_where K f rows). P r"
  by (induction rows) auto

text \<open>Ending some assignments together with their conversations.\<close>

lemma lifecycle_close:
  assumes "lifecycle_wf A C" "map c_assignment C = map a_id A"
    and "\<And>a c. a \<in> set A \<Longrightarrow> c \<in> set C \<Longrightarrow> c_assignment c = a_id a \<Longrightarrow>
      (c_status c = ConvActive \<longleftrightarrow> is_open a) \<Longrightarrow> KA a \<longleftrightarrow> KC c"
  shows "lifecycle_wf (upd_where KA (ended_row er now) A) (upd_where KC (closed_row now) C)"
  using assms unfolding lifecycle_wf_def
proof (induction A C rule: list_all2_induct)
  case (Cons a A c C)
  have same: "KA a \<longleftrightarrow> KC c" using Cons.hyps(1) Cons.prems by simp
  have "list_all2 (\<lambda>a c. (c_status c = ConvActive \<longleftrightarrow> is_open a) \<and> c_closed c = a_ended a)
      (upd_where KA (ended_row er now) A) (upd_where KC (closed_row now) C)"
    using Cons.prems by (intro Cons.IH) auto
  with Cons.hyps(1) same show ?case by simp
qed simp

lemma links_wf_close:
  assumes "links_wf A C R"
    and match: "\<And>a c. a \<in> set A \<Longrightarrow> c \<in> set C \<Longrightarrow> c_assignment c = a_id a \<Longrightarrow>
      (c_status c = ConvActive \<longleftrightarrow> is_open a) \<Longrightarrow> KA a \<longleftrightarrow> KC c"
  shows "links_wf (upd_where KA (ended_row er now) A) (upd_where KC (closed_row now) C) R"
proof -
  let ?A = "upd_where KA (ended_row er now) A"
  from assms have wf: "keys_wf A C R" "lifecycle_wf A C" "history_wf A R" "\<And>k. links k A R \<le> 1"
    by (simp_all add: links_wf_def)
  have "keys_wf ?A (upd_where KC (closed_row now) C) R"
    using wf(1) by (simp add: keys_wf_def map_upd_where)
  moreover have "lifecycle_wf ?A (upd_where KC (closed_row now) C)"
    using wf(1,2) match by (intro lifecycle_close) (auto simp: keys_wf_def)
  moreover have "history_wf ?A R"
    unfolding history_wf_def
  proof (intro conjI ballI allI impI)
    fix r assume "r \<in> set R"
    with wf(3) show "\<exists>a \<in> set ?A. a_id a = rr_previous r \<and> \<not> is_open a \<and>
        a_client a = rr_client r \<and> a_cashier a = rr_excluded r"
      by (intro bex_upd_where) (auto simp: history_wf_def)
  next
    fix a p assume "a \<in> set ?A" "a_previous a = Some p"
    with wf(3) show "\<exists>r \<in> set R. rr_previous r = p \<and> rr_status r = RrCompleted"
      by (auto simp: history_wf_def set_upd_where split: if_splits)
  qed
  moreover have "links k ?A R \<le> 1" for k
  proof -
    have "links k ?A R \<le> links k A R"
      unfolding links_def by (intro add_mono count_upd_le) simp_all
    then show ?thesis using wf(4) [of k] by linarith
  qed
  ultimately show ?thesis by (simp add: links_wf_def)
qed

lemma links_wf_request:
  assumes "links_wf A C R" "links (rr_client r) A R = 0" "is_pending r"
    and "rr_id r \<notin> rr_id ` set R" "rr_previous r \<notin> rr_previous ` set R"
    and "\<exists>a \<in> set A. a_id a = rr_previous r \<and> \<not> is_open a \<and> a_client a = rr_client r \<and>
      a_cashier a = rr_excluded r"
  shows "links_wf A C (R @ [r])"
proof -
  have "links k A (R @ [r]) \<le> 1" for k
    using assms(1,2,3) by (auto simp: links_wf_def links_def)
  with assms show ?thesis by (auto simp: links_wf_def keys_wf_def history_wf_def)
qed

lemma links_wf_upd_request:
  assumes "links_wf A C R"
    and f: "\<And>q. K q \<Longrightarrow> rr_id (f q) = rr_id q \<and> rr_previous (f q) = rr_previous q \<and>
      rr_client (f q) = rr_client q \<and> rr_excluded (f q) = rr_excluded q \<and>
      (is_pending (f q) \<longrightarrow> is_pending q) \<and> (rr_status q = RrCompleted \<longrightarrow> rr_status (f q) = RrCompleted)"
  shows "links_wf A C (upd_where K f R)"
proof -
  let ?R = "upd_where K f R"
  from assms(1) have wf: "keys_wf A C R" "lifecycle_wf A C" "history_wf A R" "\<And>k. links k A R \<le> 1"
    by (simp_all add: links_wf_def)
  have "keys_wf A C ?R" using wf(1) f by (simp add: keys_wf_def map_upd_where)
  moreover have "history_wf A ?R"
    unfolding history_wf_def
  proof (intro conjI ballI allI impI)
    fix r assume "r \<in> set ?R"
    then obtain q where "q \<in> set R" "rr_previous r = rr_previous q" "rr_client r = rr_client q"
        "rr_excluded r = rr_excluded q"
      using f by (auto simp: set_upd_where)
    with wf(3) show "\<exists>a \<in> set A. a_id a = rr_previous r \<and> \<not> is_open a \<and>
        a_client a = rr_client r \<and> a_cashier a = rr_excluded r"
      by (simp add: history_wf_def)
  next
    fix a p assume "a \<in> set A" "a_previous a = Some p"
    with wf(3) f show "\<exists>r \<in> set ?R. rr_previous r = p \<and> rr_status r = RrCompleted"
      by (intro bex_upd_where) (auto simp: history_wf_def)
  qed
  moreover have "links k A ?R \<le> 1" for k
  proof -
    have "links k A ?R \<le> links k A R"
      unfolding links_def using f by (intro add_mono count_upd_le) auto
    then show ?thesis using wf(4) [of k] by linarith
  qed
  ultimately show ?thesis using wf(2) by (simp add: links_wf_def)
qed

lemma links_complete:
  assumes "distinct (map rr_id R)" "r \<in> set R" "is_pending r" "a_client a = rr_client r" "is_open a"
  shows "links k (A @ [a]) (upd_where (\<lambda>q. rr_id q = rr_id r) (completed_with i now) R) = links k A R"
proof (cases "k = rr_client r")
  case True
  have "Suc (count_where (\<lambda>q. rr_client q = k \<and> is_pending q)
      (upd_where (\<lambda>q. rr_id q = rr_id r) (completed_with i now) R)) =
      count_where (\<lambda>q. rr_client q = k \<and> is_pending q) R"
    using assms True by (intro count_upd_key_out) auto
  with assms True show ?thesis by (simp add: links_def)
next
  case False
  have "q = r" if "q \<in> set R" "rr_id q = rr_id r" for q
    using assms(1) that(1) assms(2) that(2) by (rule distinct_key_eq)
  then have "count_where (\<lambda>q. rr_client q = k \<and> is_pending q)
      (upd_where (\<lambda>q. rr_id q = rr_id r) (completed_with i now) R) =
      count_where (\<lambda>q. rr_client q = k \<and> is_pending q) R"
    using False by (intro count_upd_same) auto
  with assms False show ?thesis by (simp add: links_def)
qed

lemma links_wf_complete:
  assumes "links_wf A C R" "r \<in> set R" "is_pending r"
    and a: "a_id a \<notin> a_id ` set A" "a_client a = rr_client r" "is_open a"
      "a_previous a = Some (rr_previous r)"
    and c: "c_id c \<notin> c_id ` set C" "c_assignment c = a_id a" "c_status c = ConvActive"
      "c_closed c = None"
  shows "links_wf (A @ [a]) (C @ [c])
    (upd_where (\<lambda>q. rr_id q = rr_id r) (completed_with i now) R)"
proof -
  let ?R = "upd_where (\<lambda>q. rr_id q = rr_id r) (completed_with i now) R"
  have old: "links_wf A C ?R"
    using assms(1) by (rule links_wf_upd_request) (simp add: is_pending_def)
  then have wf: "keys_wf A C ?R" "lifecycle_wf A C" "history_wf A ?R"
    by (simp_all add: links_wf_def)
  have "keys_wf (A @ [a]) (C @ [c]) ?R" using wf(1) a c by (auto simp: keys_wf_def)
  moreover have "lifecycle_wf (A @ [a]) (C @ [c])"
    using wf(2) a c
    by (auto simp: lifecycle_wf_def list_all2_append list_all2_lengthD is_open_def)
  moreover have "\<exists>q \<in> set ?R. rr_previous q = rr_previous r \<and> rr_status q = RrCompleted"
    using upd_where_in [OF assms(2)] by (intro bexI [of _ "completed_with i now r"]) simp_all
  then have "history_wf (A @ [a]) ?R"
    using wf(3) a by (auto simp: history_wf_def)
  moreover have "links k (A @ [a]) ?R \<le> 1" for k
    using assms links_complete [of R r a k A i now] by (simp add: links_wf_def keys_wf_def)
  ultimately show ?thesis by (simp add: links_wf_def)
qed

end
