(* ===== verification/AssignmentService.thy ===== *)
theory AssignmentService
  imports AssignmentLinks
begin

text \<open>
  What each transaction of the assignment service does to the state: run lemmas that give the
  resulting tables, and the preservation of \<open>wf\<close> they imply.
\<close>

section \<open>Steps that cannot fail\<close>

lemma publish_relationship_total:
  "\<exists>s'. publish_relationship e a b ct now s = Inr ((), s') \<and> same_core s s'"
  using publishRelationshipChanged_total by (simp add: publish_relationship_def returnT_def) blast

lemma audit_if_total:
  "\<exists>au. audit_if admin code (\<lambda>i c. auditReassignment i k t p n c) s = Inr ((), s\<lparr>audits := au\<rparr>)"
proof -
  have id: "s = s\<lparr>audits := audits s\<rparr>" by simp
  show ?thesis
    unfolding audit_if_def auditReassignment_def modifyT_def returnT_def
    by (auto split: option.splits intro: exI [of _ "audits s"])
qed

lemma update_request_run:
  "r \<in> set (requests s) \<Longrightarrow> update_request (rr_id r) f s =
     Inr ((), s\<lparr>requests := upd_where (\<lambda>q. rr_id q = rr_id r) f (requests s)\<rparr>)"
  by (auto simp: update_request_def)

section \<open>Ending an assignment\<close>

lemma conversation_of:
  assumes "links_wf A C R" "a \<in> set A"
  obtains c where "c \<in> set C" "c_assignment c = a_id a" "c_closed c = a_ended a"
    "c_status c = ConvActive \<longleftrightarrow> is_open a"
proof -
  from assms(1) have keys: "map c_assignment C = map a_id A"
    and life: "list_all2 (\<lambda>a c. (c_status c = ConvActive \<longleftrightarrow> is_open a) \<and> c_closed c = a_ended a) A C"
    by (simp_all add: links_wf_def keys_wf_def lifecycle_wf_def)
  obtain i where i: "i < length A" "A ! i = a" using assms(2) by (metis in_set_conv_nth)
  have len: "length C = length A" using keys by (metis length_map)
  from keys i len have "c_assignment (C ! i) = a_id a" by (metis nth_map)
  moreover from life i have "(c_status (C ! i) = ConvActive \<longleftrightarrow> is_open a) \<and> c_closed (C ! i) = a_ended a"
    by (auto simp: list_all2_conv_all_nth)
  moreover have "C ! i \<in> set C" using i len by simp
  ultimately show ?thesis using that by blast
qed

lemma end_assignment_run:
  assumes "wf e s" "a \<in> set (assignments s)" "is_open a"
  shows "end_assignment (a_id a) er now s =
    Inr ((), s\<lparr>assignments := upd_where (\<lambda>b. a_id b = a_id a) (ended_row er now) (assignments s)\<rparr>)"
proof -
  from assms(1) have "distinct (map a_id (assignments s))"
    by (simp add: wf_def links_wf_def keys_wf_def)
  from find_key_eq [OF this assms(2)] assms(3) show ?thesis
    by (simp add: end_assignment_def is_open_def ended_row_def [abs_def])
qed

lemma close_conversation_run:
  assumes "wf e s" "a \<in> set (assignments s)" "is_open a" "conversations s' = conversations s"
  shows "close_conversation (a_id a) now s' = Inr ((), s'\<lparr>conversations :=
    upd_where (\<lambda>c. c_assignment c = a_id a) (closed_row now) (conversations s)\<rparr>)"
proof -
  from assms(1) have links: "links_wf (assignments s) (conversations s) (requests s)"
    by (simp add: wf_def)
  from conversation_of [OF links assms(2)] obtain c where c: "c \<in> set (conversations s)"
      "c_assignment c = a_id a" "c_closed c = a_ended a" by blast
  from links have "map c_assignment (conversations s) = map a_id (assignments s)"
      "distinct (map a_id (assignments s))" by (simp_all add: links_wf_def keys_wf_def)
  then have "distinct (map c_assignment (conversations s))" by metis
  from find_key_eq [OF this c(1)] c(2,3) assms(3,4) show ?thesis
    by (simp add: close_conversation_def is_open_def closed_row_def [abs_def])
qed

lemma links_wf_end_one:
  assumes "links_wf A C R"
  shows "links_wf (upd_where (\<lambda>b. a_id b = i) (ended_row er now) A)
    (upd_where (\<lambda>c. c_assignment c = i) (closed_row now) C) R"
  using assms by (rule links_wf_close) simp

lemma links_zero_after_end:
  assumes "links_wf A C R" "a \<in> set A" "is_open a"
  shows "links (a_client a) (upd_where (\<lambda>b. a_id b = a_id a) (ended_row er now) A) R = 0"
proof -
  have "Suc (count_where (\<lambda>b. a_client b = a_client a \<and> is_open b)
      (upd_where (\<lambda>b. a_id b = a_id a) (ended_row er now) A)) =
      count_where (\<lambda>b. a_client b = a_client a \<and> is_open b) A"
    using assms by (intro count_upd_key_out) (auto simp: links_wf_def keys_wf_def)
  moreover have "links (a_client a) A R \<le> 1" using assms(1) by (simp add: links_wf_def)
  ultimately show ?thesis by (simp add: links_def)
qed

section \<open>Completing a request\<close>

definition same_people :: "'x db_scheme \<Rightarrow> 'x db_scheme \<Rightarrow> bool" where
  "same_people s s' \<longleftrightarrow> users s' = users s \<and> cashiers s' = cashiers s \<and>
     subscriptions s' = subscriptions s \<and> blocks s' = blocks s \<and> devices s' = devices s"

lemma same_core_people: "same_core s s' \<Longrightarrow> same_people s s'"
  by (simp add: same_people_def same_core_fields)

text \<open>The state after an assignment to \<open>cashier\<close>; \<open>k\<close> is where the draws stood.\<close>

definition assigned_step ::
    "env \<Rightarrow> request_row \<Rightarrow> uuid option \<Rightarrow> time \<Rightarrow> uuid \<Rightarrow> nat \<Rightarrow> 'x db_scheme \<Rightarrow> 'x db_scheme \<Rightarrow> bool" where
  "assigned_step e r admin now cashier k s s' \<longleftrightarrow>
     assignments s' = assignments s @ [\<lparr>a_id = uuid_at e k, a_client = rr_client r,
       a_cashier = cashier, a_previous = Some (rr_previous r), a_admin = admin,
       a_start_reason = startReason (rr_reason r), a_end_reason = None, a_started = now,
       a_ended = None\<rparr>] \<and>
     conversations s' = conversations s @ [\<lparr>c_id = uuid_at e (Suc k), c_assignment = uuid_at e k,
       c_status = ConvActive, c_created = now, c_closed = None\<rparr>] \<and>
     requests s' = upd_where (\<lambda>q. rr_id q = rr_id r) (completed_with (uuid_at e k) now) (requests s) \<and>
     notifications s' = notifications s @ [\<lparr>n_user = rr_client r, n_type = NotifAssignmentChanged,
       n_related = uuid_at e k, n_message = None, n_expires = None\<rparr>] \<and>
     same_people s s' \<and> draws s \<le> k \<and> Suc (Suc k) \<le> draws s'"

definition deferred_step :: "request_row \<Rightarrow> time \<Rightarrow> 'x db_scheme \<Rightarrow> 'x db_scheme \<Rightarrow> bool" where
  "deferred_step r now s s' \<longleftrightarrow>
     assignments s' = assignments s \<and> conversations s' = conversations s \<and>
     requests s' = upd_where (\<lambda>q. rr_id q = rr_id r) (attempted now) (requests s) \<and>
     notifications s' = notifications s \<and> same_people s s' \<and> draws s \<le> draws s'"

definition assigned_outcome :: "request_row \<Rightarrow> uuid \<Rightarrow> uuid \<Rightarrow> reassignment_outcome" where
  "assigned_outcome r cashier i = \<lparr>ro_status = REASSIGNED, ro_request = rr_id r,
     ro_client = rr_client r, ro_previous_cashier = rr_excluded r, ro_cashier = Some cashier,
     ro_assignment = Some i\<rparr>"

lemma no_link_clash:
  assumes "links_wf A C R" "r \<in> set R" "is_pending r"
  shows "\<not> (\<exists>b \<in> set A. a_client b = rr_client r \<and> is_open b)"
    and "\<not> (\<exists>b \<in> set A. a_previous b = Some (rr_previous r))"
proof -
  from assms have one: "links (rr_client r) A R \<le> 1" by (simp add: links_wf_def)
  moreover have "0 < count_where (\<lambda>q. rr_client q = rr_client r \<and> is_pending q) R"
    using assms(2,3) by (intro count_where_pos) auto
  ultimately have "count_where (\<lambda>b. a_client b = rr_client r \<and> is_open b) A = 0"
    by (simp add: links_def)
  then show "\<not> (\<exists>b \<in> set A. a_client b = rr_client r \<and> is_open b)" by (simp add: count_where_0_iff)
  show "\<not> (\<exists>b \<in> set A. a_previous b = Some (rr_previous r))"
  proof
    assume "\<exists>b \<in> set A. a_previous b = Some (rr_previous r)"
    then obtain q where q: "q \<in> set R" "rr_previous q = rr_previous r" "rr_status q = RrCompleted"
      using assms(1) unfolding links_wf_def history_wf_def by blast
    from assms(1) have "distinct (map rr_previous R)" by (simp add: links_wf_def keys_wf_def)
    from distinct_key_eq [OF this q(1) assms(2) q(2)] q(3) assms(3) show False
      by (simp add: is_pending_def)
  qed
qed

lemma assign_candidate_run:
  assumes "links_wf (assignments s) (conversations s) (requests s)" "r \<in> set (requests s)"
    "is_pending r"
  shows "\<exists>s'. assign_candidate e r admin code now cand s =
      Inr (assigned_outcome r (l_user cand) (uuid_at e (draws s)), s') \<and>
    assigned_step e r admin now (l_user cand) (draws s) s s'"
proof -
  let ?a = "\<lparr>a_id = uuid_at e (draws s), a_client = rr_client r, a_cashier = l_user cand,
    a_previous = Some (rr_previous r), a_admin = admin, a_start_reason = startReason (rr_reason r),
    a_end_reason = None, a_started = now, a_ended = None\<rparr>"
  let ?c = "\<lparr>c_id = uuid_at e (Suc (draws s)), c_assignment = uuid_at e (draws s),
    c_status = ConvActive, c_created = now, c_closed = None\<rparr>"
  let ?s1 = "s\<lparr>draws := Suc (Suc (draws s)), assignments := assignments s @ [?a],
    conversations := conversations s @ [?c]\<rparr>"
  have create: "create_assignment e r (l_user cand) admin now s = Inr (?a, ?s1)"
    using no_link_clash [OF assms] by (auto simp: create_assignment_def Let_def)
  obtain s2 where pub: "publish_relationship e (rr_client r) (l_user cand) CHANGED now ?s1 = Inr ((), s2)"
    and core: "same_core ?s1 s2"
    using publish_relationship_total by blast
  note f = same_core_fields [OF core]
  have "r \<in> set (requests s2)" using f assms(2) by simp
  note upd = update_request_run [OF this]
  let ?s3 = "s2\<lparr>requests := upd_where (\<lambda>q. rr_id q = rr_id r)
    (completed_with (uuid_at e (draws s)) now) (requests s2)\<rparr>"
  let ?s4 = "?s3\<lparr>notifications := notifications ?s3 @ [\<lparr>n_user = rr_client r,
    n_type = NotifAssignmentChanged, n_related = uuid_at e (draws s), n_message = None,
    n_expires = None\<rparr>]\<rparr>"
  obtain au where au: "audit_if admin code (\<lambda>i c. auditReassignment i (rr_client r)
      (uuid_at e (draws s)) (rr_excluded r) (AuditUser (l_user cand)) c) ?s4
      = Inr ((), ?s4\<lparr>audits := au\<rparr>)"
    using audit_if_total by blast
  have "assign_candidate e r admin code now cand s =
      Inr (assigned_outcome r (l_user cand) (uuid_at e (draws s)), ?s4\<lparr>audits := au\<rparr>)"
    using create pub upd au
    by (simp add: assign_candidate_def bindT_def modifyT_def returnT_def assigned_outcome_def)
  moreover have "assigned_step e r admin now (l_user cand) (draws s) s (?s4\<lparr>audits := au\<rparr>)"
    using f by (simp add: assigned_step_def same_people_def)
  ultimately show ?thesis by blast
qed

lemma defer_request_run:
  assumes "r \<in> set (requests s)"
  shows "\<exists>s'. defer_request r admin code ap now s = Inr (pending_outcome r, s') \<and>
    deferred_step r now s s'"
proof -
  let ?s1 = "s\<lparr>requests := upd_where (\<lambda>q. rr_id q = rr_id r) (attempted now) (requests s)\<rparr>"
  have "\<exists>au. (if ap then audit_if admin code (\<lambda>i c. auditReassignment i (rr_client r)
      (rr_previous r) (rr_excluded r) AuditPendingReassignment c) else returnT ()) ?s1
      = Inr ((), ?s1\<lparr>audits := au\<rparr>)"
  proof (cases ap)
    case True
    then show ?thesis using audit_if_total by simp
  next
    case False
    then show ?thesis by (intro exI [of _ "audits ?s1"]) (simp add: returnT_def)
  qed
  then obtain au where "(if ap then audit_if admin code (\<lambda>i c. auditReassignment i (rr_client r)
      (rr_previous r) (rr_excluded r) AuditPendingReassignment c) else returnT ()) ?s1
      = Inr ((), ?s1\<lparr>audits := au\<rparr>)" by blast
  then have "defer_request r admin code ap now s = Inr (pending_outcome r, ?s1\<lparr>audits := au\<rparr>)"
    using update_request_run [OF assms] by (simp add: defer_request_def bindT_def returnT_def)
  then show ?thesis by (auto simp: deferred_step_def same_people_def)
qed

text \<open>
  The three ways a completion ends: the client is not active, there is no candidate, or a
  candidate of least load is assigned.
\<close>

definition completion ::
    "env \<Rightarrow> request_row \<Rightarrow> uuid option \<Rightarrow> time \<Rightarrow> 'x db_scheme \<Rightarrow> reassignment_outcome \<Rightarrow>
       'x db_scheme \<Rightarrow> bool" where
  "completion e r admin now s out s' \<longleftrightarrow>
     (let cands = findEligibleCandidates s (rr_client r) (rr_excluded r) now in
      if \<not> active_user s CLIENT (rr_client r) then out = pending_outcome r \<and> s' = s
      else if cands = [] then out = pending_outcome r \<and> deferred_step r now s s'
      else \<exists>cand \<in> set cands. (\<forall>c \<in> set cands. l_active cand \<le> l_active c) \<and>
        (\<exists>k. out = assigned_outcome r (l_user cand) (uuid_at e k) \<and>
           assigned_step e r admin now (l_user cand) k s s'))"

lemma completePending_result:
  assumes "links_wf (assignments s) (conversations s) (requests s)" "r \<in> set (requests s)"
    "is_pending r" "completePending e r admin code ap now s = Inr (out, s')"
  shows "completion e r admin now s out s'"
proof (cases "active_user s CLIENT (rr_client r)")
  case False
  with assms(4) show ?thesis
    by (simp add: completePending_def completion_def bindT_def getT_def returnT_def)
next
  case True
  let ?cands = "findEligibleCandidates s (rr_client r) (rr_excluded r) now"
  let ?s1 = "s\<lparr>draws := Suc (draws s)\<rparr>"
  from True assms(4) obtain sel where sel: "selectLeastLoadedCashier ?cands (random_at e (draws s)) = Inr sel"
    and rest: "(case sel of None \<Rightarrow> defer_request r admin code ap now
        | Some c \<Rightarrow> assign_candidate e r admin code now c) ?s1 = Inr (out, s')"
    by (auto simp: completePending_def bindT_def getT_def select_candidate_def split: sum.splits)
  show ?thesis
  proof (cases sel)
    case None
    with sel have "?cands = []" using selection.none_only_empty by blast
    moreover from rest None defer_request_run [of r ?s1 admin code ap now] assms(2)
    have "out = pending_outcome r" "deferred_step r now ?s1 s'" by auto
    then have "deferred_step r now s s'" by (auto simp: deferred_step_def same_people_def)
    ultimately show ?thesis using True \<open>out = pending_outcome r\<close> by (simp add: completion_def)
  next
    case (Some cand)
    with sel have c: "cand \<in> set ?cands" "\<forall>c \<in> set ?cands. l_active cand \<le> l_active c"
      using selection.chosen_member selection.chosen_least by blast+
    from assign_candidate_run [of ?s1 r e admin code now cand] assms(1-3) rest Some
    have "out = assigned_outcome r (l_user cand) (uuid_at e (Suc (draws s)))"
      and "assigned_step e r admin now (l_user cand) (Suc (draws s)) ?s1 s'" by auto
    moreover from this(2) have "assigned_step e r admin now (l_user cand) (Suc (draws s)) s s'"
      by (simp add: assigned_step_def same_people_def)
    ultimately show ?thesis using True c by (auto simp: completion_def Let_def)
  qed
qed

lemma active_load_le: "active_load s k \<le> length (assignments s)"
  by (simp add: active_load_def count_where_def)

lemma completePending_returns:
  assumes "links_wf (assignments s) (conversations s) (requests s)" "r \<in> set (requests s)"
    "is_pending r" "random_ok e"
    and size: "int (length (assignments s)) \<le> 9007199254740991"
      "int (length (cashiers s)) \<le> 9007199254740991"
  shows "\<exists>out s'. completePending e r admin code ap now s = Inr (out, s')"
proof (cases "active_user s CLIENT (rr_client r)")
  case False
  then show ?thesis by (simp add: completePending_def bindT_def getT_def returnT_def)
next
  case True
  let ?cands = "findEligibleCandidates s (rr_client r) (rr_excluded r) now"
  let ?s1 = "s\<lparr>draws := Suc (draws s)\<rparr>"
  have "\<not> count_invalid c" if "c \<in> set ?cands" for c
  proof -
    from that obtain k where "l_active c = int (active_load s k)"
      by (auto simp: findEligibleCandidates_def)
    then show ?thesis using active_load_le [of s k] size(1)
      unfolding count_invalid_def safe_integer_def by linarith
  qed
  moreover have "length ?cands \<le> length (cashiers s)" by (simp add: findEligibleCandidates_def)
  then have "int (length ?cands) \<le> 9007199254740991" using size(2) by linarith
  ultimately obtain sel where sel: "selectLeastLoadedCashier ?cands (random_at e (draws s)) = Inr sel"
    using select_returns [of ?cands "random_at e (draws s)"] assms(4) by (auto simp: random_ok_def)
  have "\<exists>out s'. (case sel of None \<Rightarrow> defer_request r admin code ap now
        | Some c \<Rightarrow> assign_candidate e r admin code now c) ?s1 = Inr (out, s')"
  proof (cases sel)
    case None
    then show ?thesis using defer_request_run [of r ?s1] assms(2) by fastforce
  next
    case (Some c)
    then show ?thesis using assign_candidate_run [of ?s1 r] assms(1-3) by fastforce
  qed
  with True sel show ?thesis
    by (simp add: completePending_def bindT_def getT_def select_candidate_def)
qed

lemma completion_wf:
  assumes "wf e s" "r \<in> set (requests s)" "is_pending r" "completion e r admin now s out s'"
  shows "wf e s'"
proof (cases "active_user s CLIENT (rr_client r)")
  case False
  with assms show ?thesis by (simp add: completion_def)
next
  case True
  from assms(1) have lw: "links_wf (assignments s) (conversations s) (requests s)"
    and sup: "supply_ok e (draws s) (used_ids s)" by (simp_all add: wf_def)
  show ?thesis
  proof (cases "findEligibleCandidates s (rr_client r) (rr_excluded r) now = []")
    case cands: True
    with True assms(4) have d: "deferred_step r now s s'" by (simp add: completion_def)
    have "links_wf (assignments s') (conversations s') (requests s')"
      using d links_wf_upd_request [OF lw, of "\<lambda>q. rr_id q = rr_id r" "attempted now"]
      by (simp add: deferred_step_def)
    moreover have "used_ids s' = used_ids s"
      using d by (simp add: deferred_step_def used_ids_def image_upd_where)
    ultimately show ?thesis using d sup by (simp add: wf_def deferred_step_def supply_ok_mono)
  next
    case False
    with True assms(4) obtain cashier k where st: "assigned_step e r admin now cashier k s s'"
      by (auto simp: completion_def Let_def)
    then have k: "draws s \<le> k" "Suc (Suc k) \<le> draws s'" by (simp_all add: assigned_step_def)
    have fresh: "uuid_at e k \<notin> used_ids s" "uuid_at e (Suc k) \<notin> used_ids s"
      using supply_ok_fresh [OF sup] k by simp_all
    have "links_wf (assignments s') (conversations s') (requests s')"
      using st fresh links_wf_complete [OF lw assms(2,3)]
      by (auto simp: assigned_step_def used_ids_def is_open_def)
    moreover have "supply_ok e (Suc (Suc k)) (insert (uuid_at e (Suc k)) (insert (uuid_at e k) (used_ids s)))"
      by (rule supply_ok_draw [OF supply_ok_draw [OF sup k(1)]]) simp
    moreover have "used_ids s' = insert (uuid_at e (Suc k)) (insert (uuid_at e k) (used_ids s))"
      using st by (simp add: assigned_step_def used_ids_def image_upd_where)
    ultimately have "links_wf (assignments s') (conversations s') (requests s')"
        "supply_ok e (draws s') (used_ids s')"
      using k supply_ok_mono by auto
    then show ?thesis by (simp add: wf_def)
  qed
qed

section \<open>Beginning a reassignment\<close>

text \<open>
  The prefix of beginReassignment, up to the creation of the request, on an open assignment
  under the invariant: it succeeds and leaves the client with the new pending request as its
  only link.
\<close>

definition begun :: "begin_input \<Rightarrow> time \<Rightarrow> 'x db_scheme \<Rightarrow> request_row \<Rightarrow> 'x db_scheme \<Rightarrow> bool" where
  "begun input now s r s1 \<longleftrightarrow>
     (let i = ar_id (bi_assignment input) in
      assignments s1 = upd_where (\<lambda>b. a_id b = i) (ended_row (bi_end_reason input) now) (assignments s) \<and>
      conversations s1 = upd_where (\<lambda>c. c_assignment c = i) (closed_row now) (conversations s) \<and>
      requests s1 = requests s @ [r] \<and> same_people s s1 \<and> draws s \<le> draws s1 \<and>
      notifications s1 = notifications s \<and> is_pending r \<and>
      rr_client r = ar_client (bi_assignment input) \<and> rr_previous r = i \<and>
      rr_excluded r = ar_cashier (bi_assignment input) \<and> rr_reason r = bi_reason input \<and>
      rr_block r = bi_block input)"

text \<open>A block may trigger one request only (reassignment_requests_trigger_block_key).\<close>

definition block_unused :: "uuid option \<Rightarrow> 'x db_scheme \<Rightarrow> bool" where
  "block_unused b s \<longleftrightarrow> b = None \<or> (\<forall>q \<in> set (requests s). rr_block q \<noteq> b)"

lemma begin_prefix:
  assumes wf: "wf e s" and a: "a \<in> set (assignments s)" "is_open a"
    and input: "bi_assignment input = ref_of a" and block: "block_unused (bi_block input) s"
  shows "\<exists>r s1. begun input now s r s1 \<and> wf e s1 \<and>
    beginReassignment e now input s =
      completePending e r (bi_admin input) (bi_reason_code input) True now s1"
proof -
  note ref = input ref_of_def
  let ?er = "bi_end_reason input"
  let ?A = "upd_where (\<lambda>b. a_id b = a_id a) (ended_row ?er now) (assignments s)"
  let ?C = "upd_where (\<lambda>c. c_assignment c = a_id a) (closed_row now) (conversations s)"
  let ?s1 = "s\<lparr>assignments := ?A\<rparr>" and ?s2 = "s\<lparr>assignments := ?A, conversations := ?C\<rparr>"
  from wf have lw: "links_wf (assignments s) (conversations s) (requests s)"
    and sup: "supply_ok e (draws s) (used_ids s)" by (simp_all add: wf_def)
  obtain s3 where pub: "publish_relationship e (a_client a) (a_cashier a) LEFT now ?s2 = Inr ((), s3)"
    and core: "same_core ?s2 s3"
    using publish_relationship_total by blast
  note f = same_core_fields [OF core]
  let ?r = "\<lparr>rr_id = uuid_at e (draws s3), rr_client = a_client a, rr_previous = a_id a,
    rr_excluded = a_cashier a, rr_block = bi_block input, rr_result = None,
    rr_reason = bi_reason input, rr_status = RrPending, rr_attempts = 0, rr_requested = now,
    rr_last_attempt = None, rr_completed = None, rr_cancel_code = None\<rparr>"
  let ?s4 = "s3\<lparr>draws := Suc (draws s3), requests := requests s3 @ [?r]\<rparr>"
  have zero: "links (a_client a) ?A (requests s) = 0" by (rule links_zero_after_end [OF lw a])
  have nopend: "\<not> (\<exists>q \<in> set (requests s). rr_client q = a_client a \<and> is_pending q)"
    using zero by (simp add: links_def count_where_0_iff)
  have noprev: "rr_previous q \<noteq> a_id a" if "q \<in> set (requests s)" for q
  proof
    assume q: "rr_previous q = a_id a"
    from lw that obtain b where b: "b \<in> set (assignments s)" "a_id b = rr_previous q" "\<not> is_open b"
      unfolding links_wf_def history_wf_def by blast
    from lw have "distinct (map a_id (assignments s))" by (simp add: links_wf_def keys_wf_def)
    from distinct_key_eq [OF this b(1) a(1)] b q a(2) show False by simp
  qed
  have create: "create_request e input now s3 = Inr (?r, ?s4)"
    using f nopend noprev block
    by (auto simp: create_request_def Let_def ref block_unused_def)
  have "beginReassignment e now input s =
      completePending e ?r (bi_admin input) (bi_reason_code input) True now ?s4"
    using end_assignment_run [OF wf a, of ?er now] close_conversation_run [OF wf a, of ?s1 now]
      pub create
    by (simp add: beginReassignment_def bindT_def ref)
  moreover have "begun input now s ?r ?s4"
    using f by (simp add: begun_def ref same_people_def is_pending_def)
  moreover have "wf e ?s4"
  proof -
    have "links_wf ?A ?C (requests s)" by (rule links_wf_end_one [OF lw])
    moreover have "uuid_at e (draws s3) \<notin> rr_id ` set (requests s)"
      using supply_ok_fresh [OF sup, of "draws s3"] f by (auto simp: used_ids_def)
    moreover have "ended_row ?er now a \<in> set ?A" using a(1) by (rule upd_where_in) simp
    then have "\<exists>b \<in> set ?A. a_id b = a_id a \<and> \<not> is_open b \<and> a_client b = a_client a \<and>
        a_cashier b = a_cashier a" by (intro bexI [of _ "ended_row ?er now a"]) simp_all
    moreover have "a_id a \<notin> rr_previous ` set (requests s)" by (auto dest: noprev)
    ultimately have "links_wf ?A ?C (requests s @ [?r])"
      using zero by (intro links_wf_request) (simp_all add: is_pending_def)
    moreover have "supply_ok e (Suc (draws s3)) (insert (uuid_at e (draws s3)) (used_ids s))"
      using f by (intro supply_ok_draw [OF sup]) simp
    moreover have "used_ids ?s4 = insert (uuid_at e (draws s3)) (used_ids s)"
      using f by (simp add: used_ids_def image_upd_where)
    ultimately show ?thesis using f by (simp add: wf_def)
  qed
  ultimately show ?thesis by blast
qed

lemma begin_result:
  assumes "wf e s" "a \<in> set (assignments s)" "is_open a" "bi_assignment input = ref_of a"
    "block_unused (bi_block input) s" "beginReassignment e now input s = Inr (out, s')"
  obtains r s1 where "begun input now s r s1" "wf e s1"
    "completion e r (bi_admin input) now s1 out s'" "wf e s'"
proof -
  from begin_prefix [OF assms(1-5)] obtain r s1 where p: "begun input now s r s1" "wf e s1"
    "beginReassignment e now input s =
      completePending e r (bi_admin input) (bi_reason_code input) True now s1" by blast
  from p(1) have r: "r \<in> set (requests s1)" "is_pending r" by (simp_all add: begun_def Let_def)
  from p(2) have "links_wf (assignments s1) (conversations s1) (requests s1)" by (simp add: wf_def)
  from completePending_result [OF this r] p(3) assms(6)
  have c: "completion e r (bi_admin input) now s1 out s'" by simp
  from completion_wf [OF p(2) r c] p(1,2) c that show ?thesis by blast
qed

end
