(* ===== verification/Reconciliation.thy ===== *)
theory Reconciliation
  imports AssignmentService
begin

text \<open>
  The background work on assignments: reconcileNextExpiredSubscription and
  reconcilePendingReassignments of apps/api/src/assignments/assignments.service.ts and the batch of
  apps/api/src/assignments/subscription-expiry.worker.ts that runs them.  Instants are milliseconds;
  each operation takes the readings of the PostgreSQL clock it makes, in order.
\<close>

section \<open>Expired subscriptions\<close>

definition ends_by :: "time \<Rightarrow> subscription_row \<Rightarrow> bool" where
  "ends_by t cs \<longleftrightarrow> (case cs_ends cs of None \<Rightarrow> False | Some x \<Rightarrow> x \<le> t)"

definition expiring :: "time \<Rightarrow> subscription_row \<Rightarrow> bool" where
  "expiring t cs \<longleftrightarrow> cs_status cs = SubActive \<and> ends_by t cs"

definition expired_queue :: "time \<Rightarrow> 'x db_scheme \<Rightarrow> subscription_row list" where
  "expired_queue t s =
     sort_key (\<lambda>cs. (cs_updated cs, case cs_ends cs of None \<Rightarrow> 0 | Some x \<Rightarrow> x, cs_id cs))
       (filter (expiring t) (subscriptions s))"

record expiry_reconciliation =
  er_subscription :: uuid
  er_cashier :: uuid
  er_processed :: nat
  er_reassigned :: nat
  er_pending :: nat
  er_expired :: bool
  er_has_more :: bool

text \<open>
  The two updateMany calls at the end of a turn.  Prisma sets the @updatedAt column of the row it
  expires from the clock of the application (\<open>tu\<close>); the rotation sets it to the turn's instant.
\<close>

definition finish_turn ::
    "subscription_row \<Rightarrow> time \<Rightarrow> time \<Rightarrow> nat \<Rightarrow> ('x db_scheme, bool) tx" where
  "finish_turn sub t tu remaining s =
     (let hit = (\<lambda>cs. cs_id cs = cs_id sub \<and> expiring t cs);
          f = (if remaining = 0 then (\<lambda>cs. cs\<lparr>cs_status := SubExpired, cs_updated := tu\<rparr>)
               else (\<lambda>cs. cs\<lparr>cs_updated := t\<rparr>))
      in if count_where hit (subscriptions s) \<noteq> 1
         then Inl (InternalError (if remaining = 0
           then ''El vencimiento cambio durante la conciliacion.''
           else ''El turno de conciliacion cambio durante la tanda.''))
         else Inr (remaining = 0, s\<lparr>subscriptions := upd_where hit f (subscriptions s)\<rparr>))"

definition expire_one ::
    "env \<Rightarrow> nat \<Rightarrow> time \<Rightarrow> time \<Rightarrow> time \<Rightarrow> subscription_row \<Rightarrow> ('x db_scheme, expiry_reconciliation) tx" where
  "expire_one e batch t2 t3 tu sub =
     bindT (getT (\<lambda>s. take batch (open_of_cashier s (cs_cashier sub)))) (\<lambda>batchRows.
     bindT (mapT (\<lambda>a. beginReassignment e t2
         (unavailable_input EnCashierUnavailable None ''SUBSCRIPTION_EXPIRED'' a)) batchRows) (\<lambda>outcomes.
     bindT (getT (\<lambda>s. active_load s (cs_cashier sub))) (\<lambda>remaining.
     bindT (finish_turn sub t3 tu remaining) (\<lambda>expired.
     returnT \<lparr>er_subscription = cs_id sub, er_cashier = cs_cashier sub,
       er_processed = length outcomes,
       er_reassigned = count_where (\<lambda>out. ro_status out = REASSIGNED) outcomes,
       er_pending = count_where (\<lambda>out. ro_status out = PENDING_REASSIGNMENT) outcomes,
       er_expired = expired, er_has_more = (0 < remaining)\<rparr>))))"

definition reconcileNextExpiredSubscription ::
    "env \<Rightarrow> int \<Rightarrow> time \<Rightarrow> time \<Rightarrow> time \<Rightarrow> time \<Rightarrow> ('x db_scheme, expiry_reconciliation option) tx" where
  "reconcileNextExpiredSubscription e batch t1 t2 t3 tu s =
     (if \<not> safe_integer batch \<or> batch < 1 \<or> 100 < batch
      then Inl (InternalError ''El lote de vencimientos debe estar entre 1 y 100.'')
      else case expired_queue t1 s of
        [] \<Rightarrow> Inr (None, s)
      | sub # _ \<Rightarrow> bindT (expire_one e (nat batch) t2 t3 tu sub) (\<lambda>r. returnT (Some r)) s)"

section \<open>Pending requests\<close>

text \<open>LEAST(300, (5 * power(2, LEAST(attempt_count, 6)))::integer) seconds.\<close>

definition backoff_seconds :: "nat \<Rightarrow> int" where
  "backoff_seconds attempts = min 300 (5 * 2 ^ min attempts 6)"

definition due :: "time \<Rightarrow> 'x db_scheme \<Rightarrow> request_row \<Rightarrow> bool" where
  "due t s r \<longleftrightarrow> is_pending r \<and> active_user s CLIENT (rr_client r) \<and>
     (case rr_last_attempt r of None \<Rightarrow> True | Some l \<Rightarrow> l \<le> t - 1000 * backoff_seconds (rr_attempts r))"

definition due_requests :: "nat \<Rightarrow> time \<Rightarrow> 'x db_scheme \<Rightarrow> request_row list" where
  "due_requests batch t s =
     take batch (sort_key (\<lambda>r. (rr_requested r, rr_id r)) (filter (due t s) (requests s)))"

record pending_reconciliation =
  pr_processed :: nat
  pr_reassigned :: nat
  pr_still_pending :: nat
  pr_has_more :: bool

definition reconcilePendingReassignments ::
    "env \<Rightarrow> int \<Rightarrow> time \<Rightarrow> time \<Rightarrow> ('x db_scheme, pending_reconciliation) tx" where
  "reconcilePendingReassignments e batch t1 t2 s =
     (if \<not> safe_integer batch \<or> batch < 1 \<or> 100 < batch
      then Inl (InternalError ''El lote de pendientes debe estar entre 1 y 100.'')
      else
        let rows = due_requests (nat batch) t1 s in
        if rows = []
        then Inr (\<lparr>pr_processed = 0, pr_reassigned = 0, pr_still_pending = 0, pr_has_more = False\<rparr>, s)
        else bindT (mapT (\<lambda>r. completePending e r None None False t2) rows) (\<lambda>outcomes.
          let reassigned = count_where (\<lambda>out. ro_status out = REASSIGNED) outcomes in
          returnT \<lparr>pr_processed = length outcomes, pr_reassigned = reassigned,
            pr_still_pending = length outcomes - reassigned,
            pr_has_more = (length rows = nat batch)\<rparr>) s)"

section \<open>The worker's batch\<close>

text \<open>
  reconcileBatch: up to eight expiry transactions, then one pending transaction.  Each runs
  under runSerializable with its own conflicts and clock readings, numbered by the turn; an
  error ends the batch, as the rejected promise does.
\<close>

record turn_env =
  te_conflict :: "nat \<Rightarrow> bool"
  te_clock :: "nat \<Rightarrow> time"

fun expiry_turns ::
    "env \<Rightarrow> (nat \<Rightarrow> turn_env) \<Rightarrow> nat \<Rightarrow> nat \<Rightarrow> 'x db_scheme \<Rightarrow>
       (error + expiry_reconciliation list) \<times> 'x db_scheme" where
  "expiry_turns e turn 0 index s = (Inr [], s)"
| "expiry_turns e turn (Suc left) index s =
     (case runSerializable (te_conflict (turn index))
         (reconcileNextExpiredSubscription e 25 (te_clock (turn index) 1) (te_clock (turn index) 2)
            (te_clock (turn index) 3) (te_clock (turn index) 4)) s of
        (Inl err, s') \<Rightarrow> (Inl err, s')
      | (Inr None, s') \<Rightarrow> (Inr [], s')
      | (Inr (Some r), s') \<Rightarrow>
          (case expiry_turns e turn left (Suc index) s' of
             (Inl err, s'') \<Rightarrow> (Inl err, s'')
           | (Inr rs, s'') \<Rightarrow> (Inr (r # rs), s'')))"

definition reconcileBatch ::
    "env \<Rightarrow> (nat \<Rightarrow> turn_env) \<Rightarrow> 'x db_scheme \<Rightarrow>
       (error + (expiry_reconciliation list \<times> pending_reconciliation)) \<times> 'x db_scheme" where
  "reconcileBatch e turn s =
     (case expiry_turns e turn 8 0 s of
        (Inl err, s') \<Rightarrow> (Inl err, s')
      | (Inr rs, s') \<Rightarrow>
          (case runSerializable (te_conflict (turn 8))
              (reconcilePendingReassignments e 50 (te_clock (turn 8) 1) (te_clock (turn 8) 2)) s' of
             (Inl err, s'') \<Rightarrow> (Inl err, s'')
           | (Inr p, s'') \<Rightarrow> (Inr (rs, p), s'')))"

section \<open>The loops keep the invariant\<close>

text \<open>A row another reassignment of the loop does not name stays in the table, unchanged.\<close>

lemma begun_keeps_row:
  "begun input now s r s1 \<Longrightarrow> a \<in> set (assignments s) \<Longrightarrow> a_id a \<noteq> ar_id (bi_assignment input) \<Longrightarrow>
     a \<in> set (assignments s1)"
  by (auto simp: begun_def Let_def set_upd_where)

lemma completion_assignments:
  assumes "completion e r admin now s out s'"
  obtains (same) "assignments s' = assignments s"
  | (more) a where "assignments s' = assignments s @ [a]" "a_cashier a \<noteq> rr_excluded r" "is_open a"
      "a_client a = rr_client r"
proof (cases "assignments s' = assignments s")
  case False
  with assms obtain cand k where "cand \<in> set (findEligibleCandidates s (rr_client r) (rr_excluded r) now)"
      "assigned_step e r admin now (l_user cand) k s s'"
    by (auto simp: completion_def Let_def deferred_step_def split: if_splits)
  then show ?thesis
    by (intro more) (auto simp: assigned_step_def findEligibleCandidates_def eligible_candidate_def is_open_def)
qed (rule same)

lemma completion_keeps_row:
  "completion e r admin now s out s' \<Longrightarrow> a \<in> set (assignments s) \<Longrightarrow> a \<in> set (assignments s')"
  by (erule completion_assignments) auto

lemma active_load_end_one:
  assumes "distinct (map a_id A)" "a \<in> set A" "is_open a" "a_cashier a = k"
  shows "Suc (count_where (\<lambda>b. a_cashier b = k \<and> is_open b)
      (upd_where (\<lambda>b. a_id b = a_id a) (ended_row er now) A)) =
    count_where (\<lambda>b. a_cashier b = k \<and> is_open b) A"
  using assms by (intro count_upd_key_out) auto

text \<open>One step of a loop that empties a cashier: the load drops by one.\<close>

lemma begin_unloads:
  assumes "wf e s" "a \<in> set (assignments s)" "is_open a"
    "beginReassignment e now (unavailable_input er admin code a) s = Inr (out, s')"
  shows "wf e s' \<and> Suc (active_load s' (a_cashier a)) = active_load s (a_cashier a) \<and>
    (\<forall>b \<in> set (assignments s). b \<noteq> a \<longrightarrow> b \<in> set (assignments s'))"
proof -
  let ?input = "unavailable_input er admin code a"
  have input: "bi_assignment ?input = ref_of a" "block_unused (bi_block ?input) s"
    by (simp_all add: unavailable_input_def block_unused_def)
  from begin_result [OF assms(1-3) input assms(4)] obtain r s1 where
    b: "begun ?input now s r s1" and c: "completion e r admin now s1 out s'" and w: "wf e s'"
    by (metis begin_input.select_convs(4) unavailable_input_def)
  have keys: "distinct (map a_id (assignments s))"
    using assms(1) by (simp add: wf_def links_wf_def keys_wf_def)
  have A1: "assignments s1 = upd_where (\<lambda>b. a_id b = a_id a) (ended_row er now) (assignments s)"
    and ex: "rr_excluded r = a_cashier a"
    using b by (simp_all add: begun_def Let_def unavailable_input_def ref_of_def)
  have "active_load s' (a_cashier a) = active_load s1 (a_cashier a)"
    using c by (rule completion_assignments) (simp_all add: active_load_def ex)
  then have "Suc (active_load s' (a_cashier a)) = active_load s (a_cashier a)"
    using active_load_end_one [OF keys assms(2,3) refl] A1 by (simp add: active_load_def)
  moreover have "b \<in> set (assignments s')" if "b \<in> set (assignments s)" "b \<noteq> a" for b
  proof -
    have "a_id b \<noteq> a_id a" using distinct_key_eq [OF keys that(1) assms(2)] that(2) by blast
    then have "b \<in> set (assignments s1)"
      using begun_keeps_row [OF b that(1)] by (simp add: unavailable_input_def ref_of_def)
    with c show ?thesis by (rule completion_keeps_row)
  qed
  ultimately show ?thesis using w by blast
qed

lemma unload_loop:
  assumes "wf e s" "distinct xs" "set xs \<subseteq> set (assignments s)"
    "\<forall>a \<in> set xs. is_open a \<and> a_cashier a = k"
    "mapT (\<lambda>a. beginReassignment e now (unavailable_input er admin code a)) xs s = Inr (outs, s')"
  shows "wf e s' \<and> active_load s' k + length xs = active_load s k"
  using assms
proof (induction xs arbitrary: s outs)
  case Nil
  then show ?case by (simp add: tx_simps)
next
  case (Cons a xs)
  from Cons.prems(5) obtain out s1 outs' where
    step: "beginReassignment e now (unavailable_input er admin code a) s = Inr (out, s1)" and
    rest: "mapT (\<lambda>a. beginReassignment e now (unavailable_input er admin code a)) xs s1 = Inr (outs', s')"
    by (auto simp: tx_iffs)
  have a: "a \<in> set (assignments s)" "is_open a" "a_cashier a = k" using Cons.prems by simp_all
  from begin_unloads [OF Cons.prems(1) a(1,2) step] a(3)
  have s1: "wf e s1" "Suc (active_load s1 k) = active_load s k"
    "\<forall>b \<in> set (assignments s). b \<noteq> a \<longrightarrow> b \<in> set (assignments s1)" by simp_all
  have "set xs \<subseteq> set (assignments s1)" using s1(3) Cons.prems(2,3) by auto
  with Cons.IH [OF s1(1) _ _ _ rest] Cons.prems(2,4) s1(2) show ?case by simp
qed

lemma open_of_cashier_props:
  assumes "wf e s"
  shows "distinct (open_of_cashier s k)" "set (open_of_cashier s k) \<subseteq> set (assignments s)"
    "\<forall>a \<in> set (open_of_cashier s k). is_open a \<and> a_cashier a = k"
    "length (open_of_cashier s k) = active_load s k"
proof -
  have "distinct (assignments s)"
    using assms by (simp add: wf_def links_wf_def keys_wf_def distinct_map)
  then show "distinct (open_of_cashier s k)" by (simp add: open_of_cashier_def)
qed (auto simp: open_of_cashier_def active_load_def count_where_def)

text \<open>Completing one pending request leaves the other pending requests of the loop as they are.\<close>

lemma completion_keeps_request:
  assumes "completion e r admin now s out s'" "q \<in> set (requests s)" "rr_id q \<noteq> rr_id r"
  shows "q \<in> set (requests s')"
  using assms by (auto simp: completion_def Let_def deferred_step_def assigned_step_def set_upd_where
      split: if_splits)

lemma pending_loop:
  assumes "wf e s" "distinct (map rr_id rs)" "\<forall>r \<in> set rs. r \<in> set (requests s) \<and> is_pending r"
    "mapT (\<lambda>r. completePending e r admin code ap now) rs s = Inr (outs, s')"
  shows "wf e s'"
  using assms
proof (induction rs arbitrary: s outs)
  case Nil
  then show ?case by (simp add: tx_simps)
next
  case (Cons r rs)
  from Cons.prems(4) obtain out s1 outs' where
    step: "completePending e r admin code ap now s = Inr (out, s1)" and
    rest: "mapT (\<lambda>r. completePending e r admin code ap now) rs s1 = Inr (outs', s')"
    by (auto simp: tx_iffs)
  have r: "r \<in> set (requests s)" "is_pending r" using Cons.prems by simp_all
  from Cons.prems(1) have "links_wf (assignments s) (conversations s) (requests s)" by (simp add: wf_def)
  from completePending_result [OF this r step] have c: "completion e r admin now s out s1" .
  have "wf e s1" using completion_wf [OF Cons.prems(1) r c] .
  moreover have "\<forall>q \<in> set rs. q \<in> set (requests s1) \<and> is_pending q"
  proof
    fix q assume "q \<in> set rs"
    with Cons.prems(2,3) have "q \<in> set (requests s)" "rr_id q \<noteq> rr_id r" "is_pending q"
      by (auto simp: image_iff)
    with completion_keeps_request [OF c] show "q \<in> set (requests s1) \<and> is_pending q" by blast
  qed
  ultimately show ?case using Cons.IH [OF _ _ _ rest] Cons.prems(2) by simp
qed

lemma distinct_keys_selected:
  "distinct (map rr_id R) \<Longrightarrow> distinct (map rr_id (take n (sort_key f (filter P R))))"
proof -
  assume "distinct (map rr_id R)"
  then have inj: "inj_on rr_id (set R)" and "distinct R" by (simp_all add: distinct_map)
  have "set (take n (sort_key f (filter P R))) \<subseteq> set R"
    by (auto dest!: in_set_takeD)
  with inj have "inj_on rr_id (set (take n (sort_key f (filter P R))))"
    by (rule inj_on_subset)
  with \<open>distinct R\<close> show ?thesis by (simp add: distinct_map)
qed

end
