(* ===== verification/AssignmentProperties.thy ===== *)
theory AssignmentProperties
  imports Reconciliation
begin

text \<open>
  The public operations of the assignment service as data with one function that runs them, and
  the preservation of the invariant by every one of them.
\<close>

section \<open>Operations\<close>

datatype assignment_op =
    OpReassign time uuid uuid string
  | OpReassignAssignment time uuid uuid string
  | OpCashierClients time uuid uuid string end_reason
  | OpDeletion time uuid
  | OpModeration time assignment_ref reassignment_reason end_reason uuid
  | OpRetryAll time uuid string nat
  | OpRetryClient time uuid uuid string
  | OpExpiry int time time time time
  | OpPending int time time

definition state_of :: "error + ('a \<times> 's) \<Rightarrow> error + 's" where
  "state_of r = (case r of Inl e \<Rightarrow> Inl e | Inr (_, s) \<Rightarrow> Inr s)"

fun run_op :: "env \<Rightarrow> assignment_op \<Rightarrow> 'x db_scheme \<Rightarrow> error + 'x db_scheme" where
  "run_op e (OpReassign now admin client code) s = state_of (reassignAdministrative e now admin client code s)"
| "run_op e (OpReassignAssignment now admin i code) s =
     state_of (reassignAssignmentAdministrative e now admin i code s)"
| "run_op e (OpCashierClients now k admin code er) s =
     state_of (reassignCashierClientsInTransaction e now k admin code er s)"
| "run_op e (OpDeletion now client) s =
     state_of (endClientRelationshipsForDeletionInTransaction e now client s)"
| "run_op e (OpModeration now ref reason er block) s =
     state_of (reassignAfterModerationInTransaction e now ref reason er block s)"
| "run_op e (OpRetryAll now admin code limit) s =
     state_of (retryPendingInTransaction e now admin code limit s)"
| "run_op e (OpRetryClient now client admin code) s =
     state_of (retryClientPendingInTransaction e now client admin code s)"
| "run_op e (OpExpiry batch t1 t2 t3 tu) s = state_of (reconcileNextExpiredSubscription e batch t1 t2 t3 tu s)"
| "run_op e (OpPending batch t1 t2) s = state_of (reconcilePendingReassignments e batch t1 t2 s)"

text \<open>
  The callers of reassignAfterModerationInTransaction pass an assignment they have just locked
  as open, and a block they have just created.
\<close>

fun op_pre :: "assignment_op \<Rightarrow> 'x db_scheme \<Rightarrow> bool" where
  "op_pre (OpModeration now ref reason er block) s \<longleftrightarrow>
     (\<exists>a \<in> set (assignments s). is_open a \<and> ref = ref_of a) \<and> block_unused (Some block) s"
| "op_pre _ s \<longleftrightarrow> True"

lemma state_of_Inr: "state_of r = Inr s \<longleftrightarrow> (\<exists>x. r = Inr (x, s))"
  by (auto simp: state_of_def split: sum.splits)

section \<open>Every operation keeps the invariant\<close>

lemma begin_wf:
  assumes "wf e s" "a \<in> set (assignments s)" "is_open a" "bi_assignment input = ref_of a"
    "block_unused (bi_block input) s" "beginReassignment e now input s = Inr (out, s')"
  shows "wf e s'"
  using begin_result [OF assms] .

lemma complete_wf:
  assumes "wf e s" "r \<in> set (requests s)" "is_pending r"
    "completePending e r admin code ap now s = Inr (out, s')"
  shows "wf e s'"
proof -
  from assms(1) have "links_wf (assignments s) (conversations s) (requests s)" by (simp add: wf_def)
  from completion_wf [OF assms(1-3) completePending_result [OF this assms(2-4)]] show ?thesis .
qed

lemma pending_of_row:
  "pending_of s client = r # rs \<Longrightarrow> r \<in> set (requests s) \<and> is_pending r \<and> rr_client r = client"
proof -
  assume "pending_of s client = r # rs"
  then have "r \<in> set (pending_of s client)" by simp
  then show ?thesis by (simp add: pending_of_def)
qed

lemma find_row: "find P xs = Some x \<Longrightarrow> x \<in> set xs \<and> P x"
  by (auto simp: find_Some_iff)

lemma reassignAdministrative_wf:
  assumes "wf e s" "reassignAdministrative e now admin client code s = Inr (out, s')"
  shows "wf e s'"
proof (cases "pending_of s client")
  case (Cons r rs)
  with assms complete_wf [of e s r] pending_of_row [OF Cons] show ?thesis
    by (auto simp: reassignAdministrative_def split: if_splits)
next
  case Nil
  with assms(2) obtain a where a: "find (\<lambda>a. a_client a = client \<and> is_open a) (assignments s) = Some a"
    and run: "beginReassignment e now \<lparr>bi_assignment = ref_of a, bi_reason = RrAdministrative,
      bi_end_reason = EnAdministrative, bi_admin = Some admin, bi_reason_code = Some code,
      bi_block = None\<rparr> s = Inr (out, s')"
    by (auto simp: reassignAdministrative_def split: if_splits option.splits)
  from find_row [OF a] show ?thesis
    by (intro begin_wf [OF assms(1) _ _ _ _ run, where a = a]) (simp_all add: block_unused_def)
qed

lemma reassignAssignmentAdministrative_wf:
  assumes "wf e s" "reassignAssignmentAdministrative e now admin i code s = Inr (out, s')"
  shows "wf e s'"
proof -
  from assms(2) obtain a where a: "a \<in> set (assignments s)" "is_open a"
    and run: "beginReassignment e now \<lparr>bi_assignment = ref_of a, bi_reason = RrAdministrative,
      bi_end_reason = EnAdministrative, bi_admin = Some admin, bi_reason_code = Some code,
      bi_block = None\<rparr> s = Inr (out, s')"
    by (auto simp: reassignAssignmentAdministrative_def split: option.splits dest!: find_row)
  from begin_wf [OF assms(1) a _ _ run] show ?thesis by (simp add: block_unused_def)
qed

lemma wf_same_tables:
  "wf e s \<Longrightarrow> assignments s' = assignments s \<Longrightarrow> conversations s' = conversations s \<Longrightarrow>
     requests s' = requests s \<Longrightarrow> draws s \<le> draws s' \<Longrightarrow> wf e s'"
  by (auto simp: wf_def used_ids_def intro: supply_ok_mono)

lemma publish_loop:
  "\<exists>us s'. mapT (\<lambda>a. publish_relationship e client (a_cashier a) LEFT now) xs s = Inr (us, s') \<and>
     same_core s s'"
proof (induction xs arbitrary: s)
  case Nil
  then show ?case by (simp add: tx_simps)
next
  case (Cons a xs)
  obtain s1 where s1: "publish_relationship e client (a_cashier a) LEFT now s = Inr ((), s1)"
    "same_core s s1" using publish_relationship_total by blast
  obtain us s2 where "mapT (\<lambda>a. publish_relationship e client (a_cashier a) LEFT now) xs s1 = Inr (us, s2)"
    "same_core s1 s2" using Cons.IH by blast
  with s1 show ?case by (auto simp: bindT_def returnT_def intro: same_core_trans)
qed

lemma count_where_emptied: "(\<And>r. \<not> P (f r)) \<Longrightarrow> count_where P (upd_where P f rows) = 0"
  by (induction rows) auto

lemma own_rows:
  assumes "links_wf A C R" "a \<in> set A"
  shows "a_id a \<in> set (map a_id (filter (\<lambda>a. a_client a = k \<and> is_open a) A)) \<and> is_open a \<longleftrightarrow>
    a_client a = k \<and> is_open a"
proof -
  from assms(1) have "distinct (map a_id A)" by (simp add: links_wf_def keys_wf_def)
  with assms(2) distinct_key_eq show ?thesis by (fastforce simp: image_iff)
qed

text \<open>The deletion of a client's relationships always succeeds; its tables in closed form.\<close>

lemma deletion_run:
  assumes "wf e s"
  shows "\<exists>out s'. endClientRelationshipsForDeletionInTransaction e now client s = Inr (out, s') \<and>
    wf e s' \<and> links client (assignments s') (requests s') = 0 \<and>
    length (assignments s') = length (assignments s) \<and> same_people s s' \<and>
    ds_assignments out + ds_requests out = links client (assignments s) (requests s) \<and>
    (\<forall>k. k \<noteq> client \<longrightarrow> links k (assignments s') (requests s') = links k (assignments s) (requests s))"
proof -
  let ?active = "filter (\<lambda>a. a_client a = client \<and> is_open a) (assignments s)"
  let ?ids = "set (map a_id ?active)"
  let ?asg = "\<lambda>a. a_id a \<in> ?ids \<and> is_open a" and ?conv = "\<lambda>c. c_assignment c \<in> ?ids \<and> c_status c = ConvActive"
  let ?pend = "\<lambda>r. rr_client r = client \<and> is_pending r"
  let ?cancel = "\<lambda>r. r\<lparr>rr_status := RrCancelled, rr_completed := Some now,
    rr_cancel_code := Some ''ACCOUNT_DELETED''\<rparr>"
  let ?A = "upd_where ?asg (ended_row EnAccountDeleted now) (assignments s)"
  let ?C = "upd_where ?conv (closed_row now) (conversations s)"
  let ?R = "upd_where ?pend ?cancel (requests s)"
  let ?s1 = "if ?active = [] then s else s\<lparr>conversations := ?C, assignments := ?A\<rparr>"
  from assms have lw: "links_wf (assignments s) (conversations s) (requests s)"
    and sup: "supply_ok e (draws s) (used_ids s)" by (simp_all add: wf_def)
  have "assignments ?s1 = ?A \<and> conversations ?s1 = ?C"
  proof (cases "?active = []")
    case True
    then have "?ids = {}" by (simp only: list.map list.set)
    then have "?A = assignments s" "?C = conversations s"
      by (simp_all only: upd_where_def empty_iff simp_thms if_False map_ident)
    with True show ?thesis by (simp only: if_P simp_thms)
  qed simp
  then have s1: "assignments ?s1 = ?A" "conversations ?s1 = ?C" "requests ?s1 = requests s"
    "draws ?s1 = draws s" by simp_all
  obtain us s2 where pub: "mapT (\<lambda>a. publish_relationship e client (a_cashier a) LEFT now) ?active ?s1
      = Inr (us, s2)" and core: "same_core ?s1 s2"
    using publish_loop by blast
  define A C R where "A = ?A" and "C = ?C" and "R = ?R"
  have t: "assignments s2 = A" "conversations s2 = C" "requests s2 = requests s" "draws s \<le> draws s2"
    using same_core_fields [OF core] s1 by (simp_all only: A_def C_def)
  let ?s' = "s2\<lparr>requests := upd_where ?pend ?cancel (requests s2)\<rparr>"
  let ?out = "\<lparr>ds_assignments = count_where ?asg (assignments s),
    ds_conversations = count_where ?conv (conversations s), ds_requests = count_where ?pend (requests s2)\<rparr>"
  have run: "endClientRelationshipsForDeletionInTransaction e now client s = Inr (?out, ?s')"
    using pub unfolding endClientRelationshipsForDeletionInTransaction_def Let_def
      ended_row_def [abs_def] closed_row_def [abs_def]
    by (simp only: bindT_def getT_def modifyT_def returnT_def sum.case prod.case)
  have R: "requests ?s' = R" using t(3) by (simp add: R_def)
  have "links_wf A C (requests s)" unfolding A_def C_def by (rule links_wf_close [OF lw]) auto
  then have lw': "links_wf A C R"
    unfolding R_def by (rule links_wf_upd_request) (auto simp: is_pending_def)
  have "used_ids ?s' = used_ids s"
    using t unfolding used_ids_def by (simp add: A_def C_def image_upd_where)
  then have wf': "wf e ?s'" using t R lw' supply_ok_mono [OF sup] by (simp add: wf_def)
  have "count_where (\<lambda>a. a_client a = client \<and> is_open a) A = 0"
    unfolding A_def by (auto simp: count_where_0_iff set_upd_where split: if_splits)
  moreover have "count_where ?pend R = 0"
    unfolding R_def by (intro count_where_emptied) (simp add: is_pending_def)
  ultimately have "links client (assignments ?s') (requests ?s') = 0"
    using t R by (simp add: links_def)
  moreover have "length (assignments ?s') = length (assignments s)"
    using t by (simp add: A_def upd_where_def)
  moreover have "same_people s ?s'"
    using same_core_people [OF core] by (auto simp: same_people_def split: if_splits)
  moreover have "ds_assignments ?out + ds_requests ?out = links client (assignments s) (requests s)"
    using count_where_cong [of "assignments s" ?asg "\<lambda>a. a_client a = client \<and> is_open a"] own_rows [OF lw] t(3)
    unfolding links_def by (simp only: deletion_summary.select_convs)
  moreover have "links k (assignments ?s') (requests ?s') = links k (assignments s) (requests s)"
    if "k \<noteq> client" for k
  proof -
    have "count_where (\<lambda>a. a_client a = k \<and> is_open a) A = count_where (\<lambda>a. a_client a = k \<and> is_open a) (assignments s)"
      unfolding A_def using that own_rows [OF lw] by (intro count_upd_same) auto
    moreover have "count_where (\<lambda>r. rr_client r = k \<and> is_pending r) R = count_where (\<lambda>r. rr_client r = k \<and> is_pending r) (requests s)"
      unfolding R_def using that by (intro count_upd_same) auto
    ultimately show ?thesis using t R by (simp add: links_def)
  qed
  ultimately show ?thesis using run wf' by blast
qed

lemma retryPending_wf:
  assumes "wf e s" "mapT (\<lambda>r. completePending e r admin code ap now)
      (take n (sort_key f (filter (\<lambda>r. is_pending r \<and> P r) (requests s)))) s = Inr (outs, s')"
  shows "wf e s'"
proof (rule pending_loop [OF assms(1) _ _ assms(2)])
  show "distinct (map rr_id (take n (sort_key f (filter (\<lambda>r. is_pending r \<and> P r) (requests s)))))"
    using assms(1) by (intro distinct_keys_selected) (simp add: wf_def links_wf_def keys_wf_def)
qed (auto dest!: in_set_takeD)

lemma expiry_wf:
  assumes "wf e s" "reconcileNextExpiredSubscription e batch t1 t2 t3 tu s = Inr (out, s')"
  shows "wf e s'"
proof (cases "expired_queue t1 s")
  case Nil
  with assms show ?thesis by (auto simp: reconcileNextExpiredSubscription_def split: if_splits)
next
  case (Cons sub subs)
  let ?xs = "take (nat batch) (open_of_cashier s (cs_cashier sub))"
  from Cons assms(2) obtain outs s1 where
    loop: "mapT (\<lambda>a. beginReassignment e t2
      (unavailable_input EnCashierUnavailable None ''SUBSCRIPTION_EXPIRED'' a)) ?xs s = Inr (outs, s1)"
    and fin: "\<exists>b. finish_turn sub t3 tu (active_load s1 (cs_cashier sub)) s1 = Inr (b, s')"
    by (auto simp: reconcileNextExpiredSubscription_def expire_one_def tx_iffs split: if_splits)
  from open_of_cashier_props [OF assms(1), of "cs_cashier sub"]
  have "distinct ?xs" "set ?xs \<subseteq> set (assignments s)"
    "\<forall>a \<in> set ?xs. is_open a \<and> a_cashier a = cs_cashier sub"
    by (auto dest!: in_set_takeD)
  from unload_loop [OF assms(1) this loop] have "wf e s1" by blast
  then show ?thesis using fin
    by (auto simp: finish_turn_def Let_def split: if_splits intro: wf_same_tables)
qed

lemma run_op_wf:
  assumes "wf e s" "op_pre op s" "run_op e op s = Inr s'"
  shows "wf e s'"
proof (cases op)
  case (OpReassign now admin client code)
  with assms show ?thesis by (auto simp: state_of_Inr intro: reassignAdministrative_wf)
next
  case (OpReassignAssignment now admin i code)
  with assms show ?thesis by (auto simp: state_of_Inr intro: reassignAssignmentAdministrative_wf)
next
  case (OpCashierClients now k admin code er)
  with assms(3) obtain outs where "mapT (\<lambda>a. beginReassignment e now
      (unavailable_input er (Some admin) code a)) (open_of_cashier s k) s = Inr (outs, s')"
    by (auto simp: state_of_Inr reassignCashierClientsInTransaction_def)
  from unload_loop [OF assms(1) _ _ _ this] open_of_cashier_props [OF assms(1)] show ?thesis by blast
next
  case (OpDeletion now client)
  with assms deletion_run [OF assms(1), of now client] show ?thesis by (auto simp: state_of_Inr)
next
  case (OpModeration now ref reason er block)
  with assms obtain a out where "a \<in> set (assignments s)" "is_open a" "ref = ref_of a"
    "block_unused (Some block) s"
    "reassignAfterModerationInTransaction e now ref reason er block s = Inr (out, s')"
    by (auto simp: state_of_Inr)
  then show ?thesis
    unfolding reassignAfterModerationInTransaction_def
    by (intro begin_wf [OF assms(1), where a = a]) simp_all
next
  case (OpRetryAll now admin code limit)
  with assms show ?thesis
    by (auto simp: state_of_Inr retryPendingInTransaction_def intro: retryPending_wf)
next
  case (OpRetryClient now client admin code)
  show ?thesis
  proof (cases "pending_of s client")
    case Nil
    with OpRetryClient assms show ?thesis
      by (auto simp: state_of_Inr retryClientPendingInTransaction_def)
  next
    case (Cons r rs)
    with OpRetryClient assms obtain out where
      "completePending e r (Some admin) (Some code) False now s = Inr (out, s')"
      by (auto simp: state_of_Inr retryClientPendingInTransaction_def tx_iffs)
    with complete_wf [OF assms(1)] pending_of_row [OF Cons] show ?thesis by blast
  qed
next
  case (OpExpiry batch t1 t2 t3 tu)
  with assms show ?thesis by (auto simp: state_of_Inr intro: expiry_wf)
next
  case (OpPending batch t1 t2)
  with assms show ?thesis
    by (auto simp: state_of_Inr reconcilePendingReassignments_def Let_def tx_iffs due_requests_def
        due_def [abs_def] split: if_splits intro: retryPending_wf)
qed

text \<open>The loop contract of the prelude, on the operations of the service as such.\<close>

interpretation service: keeps_invariant "wf e"
    "\<lambda>(op, guard) s. if guard s \<and> op_pre op s then map_sum id (Pair ()) (run_op e op s) else Inr ((), s)"
  for e
  by unfold_locales (auto split: if_splits sum.splits prod.splits intro: run_op_wf
      simp: map_sum_def)

end
