(* ===== verification/AssignmentClaims.thy ===== *)
theory AssignmentClaims
  imports AssignmentProperties
begin

text \<open>
  The properties of the assignment service: what a reassignment does to the client, its
  cashier and its conversation, and what the background work achieves.  Counts stay exact while the tables fit the safe integers of JavaScript
  (\<open>within_counts\<close>).
\<close>

section \<open>The operations return\<close>

definition within_counts :: "nat \<Rightarrow> 'x db_scheme \<Rightarrow> bool" where
  "within_counts n s \<longleftrightarrow> int (length (assignments s) + n) \<le> 9007199254740991 \<and>
     int (length (cashiers s)) \<le> 9007199254740991"

lemma wf_links: "wf e s \<Longrightarrow> links_wf (assignments s) (conversations s) (requests s)"
  by (simp add: wf_def)

lemma begin_returns:
  assumes "wf e s" "a \<in> set (assignments s)" "is_open a" "bi_assignment input = ref_of a"
    "block_unused (bi_block input) s" "random_ok e" "within_counts 0 s"
  shows "\<exists>out s'. beginReassignment e now input s = Inr (out, s')"
proof -
  from begin_prefix [OF assms(1-5)] obtain r s1 where b: "begun input now s r s1" and w: "wf e s1"
    and run: "beginReassignment e now input s =
      completePending e r (bi_admin input) (bi_reason_code input) True now s1" by blast
  from b have r: "r \<in> set (requests s1)" "is_pending r"
    and len: "length (assignments s1) = length (assignments s)" "cashiers s1 = cashiers s"
    by (simp_all add: begun_def Let_def same_people_def upd_where_def)
  from assms(7) len have "int (length (assignments s1)) \<le> 9007199254740991"
    "int (length (cashiers s1)) \<le> 9007199254740991" by (simp_all add: within_counts_def)
  from completePending_returns [OF wf_links [OF w] r assms(6) this] run show ?thesis by metis
qed

lemma completion_grows:
  assumes "completion e r admin now s out s'"
  shows "length (assignments s') \<le> Suc (length (assignments s))" "same_people s s'"
  using assms
  by (auto simp: completion_def Let_def deferred_step_def assigned_step_def same_people_def
      split: if_splits)

lemma begin_grows:
  assumes "wf e s" "a \<in> set (assignments s)" "is_open a" "bi_assignment input = ref_of a"
    "block_unused (bi_block input) s" "beginReassignment e now input s = Inr (out, s')"
  shows "length (assignments s') \<le> Suc (length (assignments s)) \<and> same_people s s'"
proof -
  from begin_result [OF assms] obtain r s1 where "begun input now s r s1"
    "completion e r (bi_admin input) now s1 out s'" by blast
  with completion_grows [OF this(2)] show ?thesis
    by (auto simp: begun_def Let_def upd_where_def same_people_def)
qed

lemma within_counts_step:
  "within_counts (Suc n) s \<Longrightarrow> length (assignments s') \<le> Suc (length (assignments s)) \<Longrightarrow>
     cashiers s' = cashiers s \<Longrightarrow> within_counts n s'"
  by (auto simp: within_counts_def)

lemma within_counts_0: "within_counts n s \<Longrightarrow> within_counts 0 s"
  by (simp add: within_counts_def)

text \<open>The loop over the assignments of a cashier returns and empties it by the rows it takes.\<close>

lemma unload_returns:
  assumes "wf e s" "distinct xs" "set xs \<subseteq> set (assignments s)"
    "\<forall>a \<in> set xs. is_open a \<and> a_cashier a = k" "random_ok e" "within_counts (length xs) s"
  shows "\<exists>outs s'. mapT (\<lambda>a. beginReassignment e now (unavailable_input er admin code a)) xs s = Inr (outs, s') \<and>
    wf e s' \<and> same_people s s' \<and> active_load s' k + length xs = active_load s k \<and> length outs = length xs"
  using assms
proof (induction xs arbitrary: s)
  case Nil
  then show ?case by (simp add: tx_simps same_people_def)
next
  case (Cons a xs)
  let ?input = "unavailable_input er admin code a"
  have a: "a \<in> set (assignments s)" "is_open a" "a_cashier a = k" using Cons.prems by simp_all
  have input: "bi_assignment ?input = ref_of a" "block_unused (bi_block ?input) s"
    by (simp_all add: unavailable_input_def block_unused_def)
  from begin_returns [OF Cons.prems(1) a(1,2) input Cons.prems(5) within_counts_0 [OF Cons.prems(6)]]
  obtain out s1 where step: "beginReassignment e now ?input s = Inr (out, s1)" by blast
  from begin_unloads [OF Cons.prems(1) a(1,2) step] a(3)
  have s1: "wf e s1" "Suc (active_load s1 k) = active_load s k"
    "\<forall>b \<in> set (assignments s). b \<noteq> a \<longrightarrow> b \<in> set (assignments s1)" by simp_all
  from begin_grows [OF Cons.prems(1) a(1,2) input step]
  have g: "length (assignments s1) \<le> Suc (length (assignments s))" "same_people s s1" by simp_all
  have "set xs \<subseteq> set (assignments s1)" using s1(3) Cons.prems(2,3) by auto
  moreover have "within_counts (length xs) s1"
    using within_counts_step [of "length xs" s s1] Cons.prems(6) g by (simp add: same_people_def)
  ultimately obtain outs s' where
    rest: "mapT (\<lambda>a. beginReassignment e now (unavailable_input er admin code a)) xs s1 = Inr (outs, s')"
    and r: "wf e s'" "same_people s1 s'" "active_load s' k + length xs = active_load s1 k"
      "length outs = length xs"
    using Cons.IH [OF s1(1) _ _ _ Cons.prems(5)] Cons.prems(2,4) by auto
  from step rest have "mapT (\<lambda>a. beginReassignment e now (unavailable_input er admin code a)) (a # xs) s
      = Inr (out # outs, s')" by (simp add: bindT_def returnT_def)
  with r s1(2) g(2) show ?case by (auto simp: same_people_def)
qed

section \<open>What a completion gives\<close>

lemma find_candidates_iff:
  "c \<in> set (findEligibleCandidates s client excluded now) \<longleftrightarrow>
     (\<exists>cp \<in> set (cashiers s). eligible_candidate s client excluded now cp \<and>
        c = \<lparr>l_user = cp_user cp, l_active = int (active_load s (cp_user cp))\<rparr>)"
  by (auto simp: findEligibleCandidates_def)

lemma candidate_people:
  "same_people s s' \<Longrightarrow> eligible_candidate s' client excluded now cp = eligible_candidate s client excluded now cp"
  by (simp add: eligible_candidate_def same_people_def)

lemma open_link:
  assumes "links_wf A C R" "b \<in> set A" "is_open b"
  shows "links (a_client b) A R = 1" "\<forall>r \<in> set R. is_pending r \<longrightarrow> rr_client r \<noteq> a_client b"
    "\<forall>c \<in> set A. is_open c \<and> a_client c = a_client b \<longrightarrow> c = b"
proof -
  from assms(1) have one: "links (a_client b) A R \<le> 1" by (simp add: links_wf_def)
  have pos: "0 < count_where (\<lambda>a. a_client a = a_client b \<and> is_open a) A"
    using assms(2,3) by (intro count_where_pos) auto
  from one pos show "links (a_client b) A R = 1" by (simp add: links_def)
  from one pos have "count_where (\<lambda>r. rr_client r = a_client b \<and> is_pending r) R = 0"
    by (simp add: links_def)
  then show "\<forall>r \<in> set R. is_pending r \<longrightarrow> rr_client r \<noteq> a_client b" by (auto simp: count_where_0_iff)
  have "count_where (\<lambda>a. a_client a = a_client b \<and> is_open a) A \<le> 1"
    using one by (simp add: links_def)
  then show "\<forall>c \<in> set A. is_open c \<and> a_client c = a_client b \<longrightarrow> c = b"
    using assms(2,3) by (metis (mono_tags, lifting) count_where_unique)
qed

lemma pending_link:
  assumes "links_wf A C R" "r \<in> set R" "is_pending r"
  shows "links (rr_client r) A R = 1"
proof -
  from assms(1) have one: "links (rr_client r) A R \<le> 1" by (simp add: links_wf_def)
  have "0 < count_where (\<lambda>q. rr_client q = rr_client r \<and> is_pending q) R"
    using assms(2,3) by (intro count_where_pos) auto
  with one show ?thesis by (simp add: links_def)
qed


lemma closed_stays:
  assumes "wf e s" "a \<in> set (assignments s)" "\<not> is_open a"
  shows "\<forall>c \<in> set (conversations s). c_assignment c = a_id a \<longrightarrow> c_status c = ConvClosed"
proof (intro ballI impI)
  fix c assume c: "c \<in> set (conversations s)" "c_assignment c = a_id a"
  from wf_links [OF assms(1)] have keys: "map c_assignment (conversations s) = map a_id (assignments s)"
    "distinct (map a_id (assignments s))" by (simp_all add: links_wf_def keys_wf_def)
  then have d: "distinct (map c_assignment (conversations s))" by metis
  from conversation_of [OF wf_links [OF assms(1)] assms(2)] obtain c' where
    c': "c' \<in> set (conversations s)" "c_assignment c' = a_id a" "c_status c' = ConvActive \<longleftrightarrow> is_open a"
    by blast
  have "c = c'" using distinct_key_eq [OF d c(1) c'(1)] c(2) c'(2) by simp
  with c'(3) assms(3) show "c_status c = ConvClosed" by (cases "c_status c") simp_all
qed

text \<open>The outcome of a completion and the rows it names.\<close>

lemma completion_cases:
  assumes "completion e r admin now s out s'" "r \<in> set (requests s)" "is_pending r"
  obtains (deferred) q where "ro_status out = PENDING_REASSIGNMENT" "assignments s' = assignments s"
      "q \<in> set (requests s')" "is_pending q" "rr_client q = rr_client r" "rr_previous q = rr_previous r"
      "rr_excluded q = rr_excluded r" "rr_id q = rr_id r"
  | (assigned) b where "ro_status out = REASSIGNED" "assignments s' = assignments s @ [b]"
      "is_open b" "a_client b = rr_client r" "a_previous b = Some (rr_previous r)"
      "ro_assignment out = Some (a_id b)" "ro_cashier out = Some (a_cashier b)"
      "\<exists>cp \<in> set (cashiers s). cp_user cp = a_cashier b \<and>
         eligible_candidate s (rr_client r) (rr_excluded r) now cp"
      "\<forall>cp \<in> set (cashiers s). eligible_candidate s (rr_client r) (rr_excluded r) now cp \<longrightarrow>
         active_load s (a_cashier b) \<le> active_load s (cp_user cp)"
      "active_user s CLIENT (rr_client r)"
      "\<exists>c. conversations s' = conversations s @ [c] \<and> c_assignment c = a_id b \<and> c_status c = ConvActive"
proof -
  let ?cands = "findEligibleCandidates s (rr_client r) (rr_excluded r) now"
  consider "out = pending_outcome r" "s' = s" | "out = pending_outcome r" "deferred_step r now s s'"
    | cand k where "active_user s CLIENT (rr_client r)" "cand \<in> set ?cands" "\<forall>c \<in> set ?cands. l_active cand \<le> l_active c"
        "out = assigned_outcome r (l_user cand) (uuid_at e k)"
        "assigned_step e r admin now (l_user cand) k s s'"
    using assms(1) unfolding completion_def Let_def by (auto split: if_splits)
  then show ?thesis
  proof cases
    case 1
    with assms show ?thesis by (intro deferred [of r]) (simp_all add: pending_outcome_def)
  next
    case 2
    have "attempted now r \<in> set (requests s')"
      using 2(2) upd_where_in [OF assms(2)] by (simp add: deferred_step_def)
    with 2 assms(3) show ?thesis
      by (intro deferred [of "attempted now r"]) (simp_all add: pending_outcome_def deferred_step_def)
  next
    case 3
    from 3(2) obtain cp where cp: "cp \<in> set (cashiers s)" "cp_user cp = l_user cand"
      "eligible_candidate s (rr_client r) (rr_excluded r) now cp"
      "l_active cand = int (active_load s (l_user cand))" by (auto simp: find_candidates_iff)
    have "active_load s (l_user cand) \<le> active_load s (cp_user cp')"
      if "cp' \<in> set (cashiers s)" "eligible_candidate s (rr_client r) (rr_excluded r) now cp'" for cp'
    proof -
      from that have "\<lparr>l_user = cp_user cp', l_active = int (active_load s (cp_user cp'))\<rparr> \<in> set ?cands"
        by (auto simp: find_candidates_iff)
      with 3(3) cp(4) show ?thesis by fastforce
    qed
    with 3(1,4,5) cp show ?thesis
      by (intro assigned) (auto simp: assigned_step_def assigned_outcome_def is_open_def)
  qed
qed

lemma completion_link:
  assumes "wf e s'" "r \<in> set (requests s)" "is_pending r" "completion e r admin now s out s'"
  shows "links (rr_client r) (assignments s') (requests s') = 1"
  using assms(4,2,3)
proof (cases rule: completion_cases)
  case (deferred q)
  with pending_link [OF wf_links [OF assms(1)]] show ?thesis by metis
next
  case (assigned b)
  then have "b \<in> set (assignments s')" by simp
  from open_link(1) [OF wf_links [OF assms(1)] this assigned(3)] assigned(4) show ?thesis by simp
qed

lemma load_elsewhere:
  assumes "wf e s" "a \<in> set (assignments s)" "k \<noteq> a_cashier a"
    "assignments s' = upd_where (\<lambda>b. a_id b = a_id a) (ended_row er now) (assignments s)"
  shows "active_load s' k = active_load s k"
proof -
  from assms(1) have "distinct (map a_id (assignments s))"
    by (simp add: wf_def links_wf_def keys_wf_def)
  then have "b = a" if "b \<in> set (assignments s)" "a_id b = a_id a" for b
    using distinct_key_eq that assms(2) by metis
  with assms(3) show ?thesis
    unfolding active_load_def assms(4) by (intro count_upd_same) auto
qed

section \<open>Access after a reassignment\<close>

text \<open>The users behind cashier profiles have the role of a cashier.\<close>

definition cashier_roles :: "'x db_scheme \<Rightarrow> bool" where
  "cashier_roles s \<longleftrightarrow>
     (\<forall>cp \<in> set (cashiers s). \<forall>u \<in> set (users s). u_id u = cp_user cp \<longrightarrow> u_role u = CASHIER)"

lemma wf_schema:
  assumes "wf e s'" "same_people s s'" "schema_keys s"
  shows "schema_keys s'"
proof -
  from wf_links [OF assms(1)] have k: "keys_wf (assignments s') (conversations s') (requests s')"
    and l: "\<And>i. links i (assignments s') (requests s') \<le> 1" by (simp_all add: links_wf_def)
  have "count_where (\<lambda>a. a_client a = i \<and> a_ended a = None) (assignments s') \<le> 1" for i
    using l [of i] unfolding links_def is_open_def by linarith
  with k assms(2,3) show ?thesis by (simp add: schema_keys_def same_people_def keys_wf_def)
qed

lemma candidate_joins:
  assumes "cp \<in> set (cashiers s)" "cp_user cp = a_cashier b" "eligible_candidate s k x now cp"
    "active_user s CLIENT (a_client b)" "cashier_roles s"
  obtains cs where "cs \<in> set (eligible_joins now s b)"
proof -
  from assms(3) obtain u cs where u: "u \<in> set (users s)" "u_id u = cp_user cp" "u_status u = AccActive"
      "\<not> u_reset_required u"
    and cs: "cs \<in> set (subscriptions s)" "cs_cashier cs = cp_user cp" "cs_status cs = SubActive" "in_period now cs"
    and v: "verified_profile cp" by (auto simp: eligible_candidate_def verified_profile_def)
  have "usable_cashier u" using u assms(1,5) by (auto simp: usable_cashier_def cashier_roles_def)
  moreover have "\<exists>w \<in> set (users s). u_id w = a_client b \<and> usable_client w"
    using assms(4) by (auto simp: active_user_def usable_client_def)
  ultimately have "cs \<in> set (eligible_joins now s b)"
    using u(1,2) cs v assms(1,2) unfolding eligible_joins_iff by auto
  then show ?thesis by (rule that)
qed

lemma joins_people: "same_people s s' \<Longrightarrow> eligible_joins now s' b = eligible_joins now s b"
  by (simp add: eligible_joins_def same_people_def cong: if_cong)

lemma completion_access:
  assumes "completion e r admin now s out s'" "r \<in> set (requests s)" "is_pending r"
    "ro_status out = REASSIGNED" "schema_keys s'" "cashier_roles s"
  shows "\<exists>c k. c \<in> set (conversations s') \<and> c_status c = ConvActive \<and> ro_cashier out = Some (ca_cashier k) \<and>
    ro_assignment out = Some (ca_assignment k) \<and> ca_client k = rr_client r \<and>
    (\<forall>i. i = ca_client k \<or> i = ca_cashier k \<longrightarrow> lockCurrent now i (c_id c) None s' = Inr (k, s'))"
  using assms(1-3)
proof (cases rule: completion_cases)
  case (deferred q)
  with assms(4) show ?thesis by simp
next
  case (assigned b)
  from assigned(8) obtain cp where cp: "cp \<in> set (cashiers s)" "cp_user cp = a_cashier b"
    "eligible_candidate s (rr_client r) (rr_excluded r) now cp" by blast
  from assigned(10,4) have "active_user s CLIENT (a_client b)" by simp
  from candidate_joins [OF cp this assms(6)] obtain cs where "cs \<in> set (eligible_joins now s b)" .
  then have cs: "cs \<in> set (eligible_joins now s' b)"
    using joins_people [OF completion_grows(2) [OF assms(1)]] by simp
  from assigned(11) obtain c where "conversations s' = conversations s @ [c]" "c_assignment c = a_id b"
    "c_status c = ConvActive" by blast
  then have c: "c \<in> set (conversations s')" "c_assignment c = a_id b" "c_status c = ConvActive" by simp_all
  have b: "b \<in> set (assignments s')" "a_ended b = None" using assigned(2,3) by (simp_all add: is_open_def)
  let ?k = "access_of (c, b, cs)"
  have k: "ca_client ?k = a_client b" "ca_cashier ?k = a_cashier b" "ca_assignment ?k = a_id b"
    by (simp_all add: access_of_def)
  have "lockCurrent now i (c_id c) None s' = Inr (?k, s')" if "i = a_client b \<or> i = a_cashier b" for i
  proof (rule lockCurrent_complete [OF assms(5)])
    show "(c, b, cs) \<in> set (eligible_rows now s' (\<lambda>c' a. c_id c' = c_id c \<and> participant i a))"
      using that b c cs by (simp add: eligible_rows_iff participant_def)
  qed
  then show ?thesis using c assigned(4,6,7) k by (intro exI [of _ c] exI [of _ ?k]) simp
qed

lemma old_conversation_closed:
  assumes "begun input now s r s1" "wf e s'" "completion e r admin now s1 out s'"
    "a \<in> set (assignments s)" "bi_assignment input = ref_of a" "c \<in> set (conversations s)"
    "c_assignment c = a_id a"
  shows "\<forall>d \<in> set (conversations s'). c_id d = c_id c \<longrightarrow> c_status d = ConvClosed"
proof (intro ballI impI)
  fix d assume d: "d \<in> set (conversations s')" "c_id d = c_id c"
  have "closed_row now c \<in> set (conversations s1)"
    using assms(1,5) upd_where_in [OF assms(6), of "\<lambda>c. c_assignment c = a_id a"] assms(7)
    by (simp add: begun_def Let_def ref_of_def)
  then have "closed_row now c \<in> set (conversations s')"
    using assms(3) by (auto simp: completion_def Let_def deferred_step_def assigned_step_def split: if_splits)
  moreover have "distinct (map c_id (conversations s'))"
    using wf_links [OF assms(2)] by (simp add: links_wf_def keys_wf_def)
  ultimately have "d = closed_row now c" using d distinct_key_eq by (metis closed_row_simps(1))
  then show "c_status d = ConvClosed" by simp
qed

section \<open>The background work\<close>

lemma outcome_counts:
  "count_where (\<lambda>out. ro_status out = REASSIGNED) outs +
     count_where (\<lambda>out. ro_status out = PENDING_REASSIGNMENT) outs = length outs"
proof (induction outs)
  case (Cons out outs)
  then show ?case by (cases "ro_status out") simp_all
qed simp

lemma finish_turn_run:
  assumes "distinct (map cs_id (subscriptions s))" "sub \<in> set (subscriptions s)" "expiring t sub"
  shows "\<exists>s'. finish_turn sub t tu n s = Inr (n = 0, s') \<and> assignments s' = assignments s \<and>
    conversations s' = conversations s \<and> requests s' = requests s \<and> draws s' = draws s \<and>
    subscriptions s' = upd_where (\<lambda>cs. cs_id cs = cs_id sub)
      (\<lambda>cs. if n = 0 then cs\<lparr>cs_status := SubExpired, cs_updated := tu\<rparr> else cs\<lparr>cs_updated := t\<rparr>) (subscriptions s)"
proof -
  let ?hit = "\<lambda>cs. cs_id cs = cs_id sub \<and> expiring t cs"
  have "count_where ?hit (subscriptions s) \<le> 1" by (rule key_count [OF assms(1)])
  moreover have "0 < count_where ?hit (subscriptions s)" using assms(2,3) by (intro count_where_pos) auto
  ultimately have one: "count_where ?hit (subscriptions s) = 1" by linarith
  have "expiring t cs" if "cs \<in> set (subscriptions s)" "cs_id cs = cs_id sub" for cs
    using distinct_key_eq [OF assms(1) that(1) assms(2) that(2)] assms(3) by simp
  then have "upd_where ?hit f (subscriptions s) = upd_where (\<lambda>cs. cs_id cs = cs_id sub) f (subscriptions s)" for f
    by (auto simp: upd_where_def)
  with one show ?thesis by (simp add: finish_turn_def)
qed

lemma queue_head:
  assumes "expired_queue t s = sub # subs"
  shows "sub \<in> set (subscriptions s)" "expiring t sub"
proof -
  have "sub \<in> set (expired_queue t s)" using assms by simp
  then show "sub \<in> set (subscriptions s)" "expiring t sub" by (simp_all add: expired_queue_def)
qed

lemma expiring_mono: "expiring t cs \<Longrightarrow> t \<le> t' \<Longrightarrow> expiring t' cs"
  by (auto simp: expiring_def ends_by_def split: option.splits)

section \<open>Properties\<close>

text \<open>C4: ending an open assignment under the invariant returns a result, keeps the invariant, closes
  the conversation of the ended assignment and leaves the client with exactly one link: a new open
  assignment to an eligible cashier other than the previous one with the smallest load of the
  eligible ones, or one pending request for the ended assignment.\<close>

theorem reassignment_moves_client:
  assumes "wf e s" "a \<in> set (assignments s)" "is_open a" "bi_assignment input = ref_of a"
    "block_unused (bi_block input) s" "random_ok e" "within_counts 0 s"
  shows "\<exists>out s'. beginReassignment e now input s = Inr (out, s') \<and> wf e s' \<and>
    links (a_client a) (assignments s') (requests s') = 1 \<and>
    ended_row (bi_end_reason input) now a \<in> set (assignments s') \<and>
    (\<forall>c \<in> set (conversations s'). c_assignment c = a_id a \<longrightarrow> c_status c = ConvClosed) \<and>
    (case ro_status out of
       REASSIGNED \<Rightarrow> (\<exists>b \<in> set (assignments s'). is_open b \<and> a_client b = a_client a \<and>
         a_previous b = Some (a_id a) \<and> a_cashier b \<noteq> a_cashier a \<and>
         ro_assignment out = Some (a_id b) \<and> ro_cashier out = Some (a_cashier b) \<and>
         (\<exists>cp \<in> set (cashiers s). cp_user cp = a_cashier b \<and>
            eligible_candidate s (a_client a) (a_cashier a) now cp) \<and>
         (\<forall>cp \<in> set (cashiers s). eligible_candidate s (a_client a) (a_cashier a) now cp \<longrightarrow>
            active_load s (a_cashier b) \<le> active_load s (cp_user cp)))
     | PENDING_REASSIGNMENT \<Rightarrow> (\<exists>r \<in> set (requests s'). is_pending r \<and>
         rr_client r = a_client a \<and> rr_previous r = a_id a \<and> rr_excluded r = a_cashier a))"
proof -
  from begin_returns [OF assms] obtain out s' where run: "beginReassignment e now input s = Inr (out, s')"
    by blast
  from begin_result [OF assms(1-5) run] obtain r s1 where b: "begun input now s r s1" and w1: "wf e s1"
    and c: "completion e r (bi_admin input) now s1 out s'" and w: "wf e s'" by blast
  let ?P = "case ro_status out of
       REASSIGNED \<Rightarrow> (\<exists>b \<in> set (assignments s'). is_open b \<and> a_client b = a_client a \<and>
         a_previous b = Some (a_id a) \<and> a_cashier b \<noteq> a_cashier a \<and>
         ro_assignment out = Some (a_id b) \<and> ro_cashier out = Some (a_cashier b) \<and>
         (\<exists>cp \<in> set (cashiers s). cp_user cp = a_cashier b \<and>
            eligible_candidate s (a_client a) (a_cashier a) now cp) \<and>
         (\<forall>cp \<in> set (cashiers s). eligible_candidate s (a_client a) (a_cashier a) now cp \<longrightarrow>
            active_load s (a_cashier b) \<le> active_load s (cp_user cp)))
     | PENDING_REASSIGNMENT \<Rightarrow> (\<exists>r \<in> set (requests s'). is_pending r \<and>
         rr_client r = a_client a \<and> rr_previous r = a_id a \<and> rr_excluded r = a_cashier a)"
  have r: "r \<in> set (requests s1)" "is_pending r" "rr_client r = a_client a" "rr_previous r = a_id a"
      "rr_excluded r = a_cashier a" "same_people s s1"
    and A1: "assignments s1 = upd_where (\<lambda>b. a_id b = a_id a) (ended_row (bi_end_reason input) now) (assignments s)"
    and C1: "conversations s1 = upd_where (\<lambda>c. c_assignment c = a_id a) (closed_row now) (conversations s)"
    using b assms(4) by (simp_all add: begun_def Let_def ref_of_def)
  have "ended_row (bi_end_reason input) now a \<in> set (assignments s1)"
    unfolding A1 by (rule upd_where_in) (simp_all add: assms(2))
  then have ended: "ended_row (bi_end_reason input) now a \<in> set (assignments s')"
    by (rule completion_keeps_row [OF c])
  have closed: "\<forall>c \<in> set (conversations s'). c_assignment c = a_id a \<longrightarrow> c_status c = ConvClosed"
    using closed_stays [OF w ended] by simp
  have elig: "eligible_candidate s1 k x now cp = eligible_candidate s k x now cp" for k x cp
    using candidate_people [OF r(6)] .
  have load: "active_load s1 (cp_user cp) = active_load s (cp_user cp)"
    if "eligible_candidate s (a_client a) (a_cashier a) now cp" for cp
    using that load_elsewhere [OF assms(1,2) _ A1] by (simp add: eligible_candidate_def)
  have cp: "cashiers s1 = cashiers s" using r(6) by (simp add: same_people_def)
  have "?P" using c r(1,2)
  proof (cases rule: completion_cases)
    case (deferred q)
    with r show ?thesis by auto
  next
    case (assigned b)
    from assigned(8) obtain p where p: "p \<in> set (cashiers s)" "cp_user p = a_cashier b"
      "eligible_candidate s (a_client a) (a_cashier a) now p" unfolding r(3,5) elig cp by blast
    have "active_load s (a_cashier b) \<le> active_load s (cp_user q)"
      if "q \<in> set (cashiers s)" "eligible_candidate s (a_client a) (a_cashier a) now q" for q
      using assigned(9) [unfolded r(3,5) elig cp] that load [OF that(2)] load [OF p(3)] p(2) by metis
    moreover have "a_cashier b \<noteq> a_cashier a" using p(2,3) by (auto simp: eligible_candidate_def)
    ultimately show ?thesis using assigned(1-7) p r(3,4) by auto
  qed
  then have out: "?P \<and> links (a_client a) (assignments s') (requests s') = 1"
    using completion_link [OF w r(1,2) c] r(3) by simp
  show ?thesis using run w ended closed out by blast
qed

text \<open>C5: after a reassignment nobody is let into the conversation of the ended assignment, at any instant and
  on any device; a client who got a new cashier and that cashier are both let into the new
  conversation at the instant of the reassignment.\<close>

theorem access_follows_reassignment:
  assumes "wf e s" "a \<in> set (assignments s)" "is_open a" "bi_assignment input = ref_of a"
    "block_unused (bi_block input) s" "schema_keys s" "cashier_roles s"
    "c \<in> set (conversations s)" "c_assignment c = a_id a"
    "beginReassignment e now input s = Inr (out, s')"
  shows "(\<forall>t i dev. \<exists>m. lockCurrent t i (c_id c) dev s' = Inl (Forbidden m)) \<and>
    (ro_status out = REASSIGNED \<longrightarrow> (\<exists>c' \<in> set (conversations s'). \<exists>k. c_id c' \<noteq> c_id c \<and> ro_cashier out = Some (ca_cashier k) \<and>
       ro_assignment out = Some (ca_assignment k) \<and> ca_client k = a_client a \<and>
       lockCurrent now (ca_client k) (c_id c') None s' = Inr (k, s') \<and>
       lockCurrent now (ca_cashier k) (c_id c') None s' = Inr (k, s')))"
proof -
  from begin_result [OF assms(1-5,10)] obtain r s1 where b: "begun input now s r s1" and w1: "wf e s1"
    and cm: "completion e r (bi_admin input) now s1 out s'" and w: "wf e s'" by blast
  have old: "\<forall>d \<in> set (conversations s'). c_id d = c_id c \<longrightarrow> c_status d = ConvClosed"
    by (rule old_conversation_closed [OF b w cm assms(2,4,8,9)])
  then have denied: "\<forall>t i dev. \<exists>m. lockCurrent t i (c_id c) dev s' = Inl (Forbidden m)"
    using lockCurrent_closed by blast
  have "\<exists>c' \<in> set (conversations s'). \<exists>k. c_id c' \<noteq> c_id c \<and> ro_cashier out = Some (ca_cashier k) \<and>
       ro_assignment out = Some (ca_assignment k) \<and> ca_client k = a_client a \<and>
       lockCurrent now (ca_client k) (c_id c') None s' = Inr (k, s') \<and>
       lockCurrent now (ca_cashier k) (c_id c') None s' = Inr (k, s')" if re: "ro_status out = REASSIGNED"
  proof -
    from b assms(4) have r: "r \<in> set (requests s1)" "is_pending r" "rr_client r = a_client a"
      and p1: "same_people s s1" by (simp_all add: begun_def Let_def ref_of_def)
    have p: "same_people s s'" using p1 completion_grows(2) [OF cm] by (simp add: same_people_def)
    have roles: "cashier_roles s1" using assms(7) p1 by (simp add: cashier_roles_def same_people_def)
    from completion_access [OF cm r(1,2) re wf_schema [OF w p assms(6)] roles] obtain c' k where
      n: "c' \<in> set (conversations s')" "c_status c' = ConvActive" "ro_cashier out = Some (ca_cashier k)"
      "ro_assignment out = Some (ca_assignment k)" "ca_client k = rr_client r"
      "\<forall>i. i = ca_client k \<or> i = ca_cashier k \<longrightarrow> lockCurrent now i (c_id c') None s' = Inr (k, s')"
      by blast
    have "c_id c' \<noteq> c_id c" using old n(1,2) by auto
    then show ?thesis using n(1,3-6) r(3) by (intro bexI [of _ c'] exI [of _ k]) auto
  qed
  with denied show ?thesis by blast
qed

text \<open>Taking all clients from a cashier returns, leaves the cashier without open assignment and reports
  one outcome per assignment the cashier had, whatever administrative end reason is given.\<close>

theorem cashier_is_emptied:
  assumes "wf e s" "random_ok e" "within_counts (active_load s k) s"
  shows "\<exists>outs s'. reassignCashierClientsInTransaction e now k admin code er s = Inr (outs, s') \<and>
    wf e s' \<and> active_load s' k = 0 \<and> length outs = active_load s k"
  using unload_returns [OF assms(1) open_of_cashier_props(1-3) [OF assms(1)] assms(2)] assms(3)
    open_of_cashier_props(4) [OF assms(1)]
  unfolding reassignCashierClientsInTransaction_def by fastforce

text \<open>C7: a turn of the expiry worker does nothing when no active subscription has ended; otherwise it
  takes min(batch, load) clients from the cashier of the oldest turn, marks the subscription expired
  exactly when no client is left, moves it to the end of the queue when one is, and reports the
  outcomes; other subscriptions keep their rows.\<close>

theorem expiry_turn_progress:
  assumes "wf e s" "random_ok e" "within_counts (nat batch) s" "distinct (map cs_id (subscriptions s))"
    "1 \<le> batch" "batch \<le> 100" "t1 \<le> t3"
  shows "case expired_queue t1 s of
      [] \<Rightarrow> reconcileNextExpiredSubscription e batch t1 t2 t3 tu s = Inr (None, s)
    | sub # _ \<Rightarrow> \<exists>r s'. reconcileNextExpiredSubscription e batch t1 t2 t3 tu s = Inr (Some r, s') \<and> wf e s' \<and>
        er_processed r = min (nat batch) (active_load s (cs_cashier sub)) \<and>
        active_load s' (cs_cashier sub) = active_load s (cs_cashier sub) - nat batch \<and>
        er_reassigned r + er_pending r = er_processed r \<and>
        er_expired r = (active_load s (cs_cashier sub) \<le> nat batch) \<and> er_has_more r = (\<not> er_expired r) \<and>
        subscriptions s' = upd_where (\<lambda>cs. cs_id cs = cs_id sub)
          (\<lambda>cs. if er_expired r then cs\<lparr>cs_status := SubExpired, cs_updated := tu\<rparr> else cs\<lparr>cs_updated := t3\<rparr>)
          (subscriptions s)"
proof -
  have batch: "safe_integer batch" using assms(5,6) by (simp add: safe_integer_def)
  show ?thesis
  proof (cases "expired_queue t1 s")
    case Nil
    with batch assms(5,6) show ?thesis by (simp add: reconcileNextExpiredSubscription_def)
  next
    case (Cons sub subs)
    let ?k = "cs_cashier sub" and ?n = "nat batch"
    let ?xs = "take ?n (open_of_cashier s ?k)"
    note props = open_of_cashier_props [OF assms(1), of ?k]
    have len: "length ?xs = min ?n (active_load s ?k)" using props(4) by simp
    have "length ?xs \<le> ?n" by simp
    then have wc: "within_counts (length ?xs) s" using assms(3) unfolding within_counts_def by linarith
    have sub: "set ?xs \<subseteq> set (assignments s)" "\<forall>a \<in> set ?xs. is_open a \<and> a_cashier a = ?k"
      using props(2,3) by (auto dest!: in_set_takeD)
    from unload_returns [OF assms(1) distinct_take [OF props(1)] sub assms(2) wc] obtain outs s1 where
      loop: "mapT (\<lambda>a. beginReassignment e t2
        (unavailable_input EnCashierUnavailable None ''SUBSCRIPTION_EXPIRED'' a)) ?xs s = Inr (outs, s1)"
      and l: "wf e s1" "same_people s s1" "active_load s1 ?k + length ?xs = active_load s ?k"
        "length outs = length ?xs" by blast
    have subs1: "subscriptions s1 = subscriptions s" using l(2) by (simp add: same_people_def)
    have "distinct (map cs_id (subscriptions s1))" "sub \<in> set (subscriptions s1)"
      using assms(4) queue_head(1) [OF Cons] subs1 by simp_all
    from finish_turn_run [OF this expiring_mono [OF queue_head(2) [OF Cons] assms(7)], of tu "active_load s1 ?k"]
    obtain s' where fin: "finish_turn sub t3 tu (active_load s1 ?k) s1 = Inr (active_load s1 ?k = 0, s')"
      and t: "assignments s' = assignments s1" "conversations s' = conversations s1" "requests s' = requests s1"
        "draws s' = draws s1"
        "subscriptions s' = upd_where (\<lambda>cs. cs_id cs = cs_id sub)
          (\<lambda>cs. if active_load s1 ?k = 0 then cs\<lparr>cs_status := SubExpired, cs_updated := tu\<rparr> else cs\<lparr>cs_updated := t3\<rparr>)
          (subscriptions s)"
      unfolding subs1 by blast
    let ?r = "\<lparr>er_subscription = cs_id sub, er_cashier = ?k, er_processed = length outs,
      er_reassigned = count_where (\<lambda>out. ro_status out = REASSIGNED) outs,
      er_pending = count_where (\<lambda>out. ro_status out = PENDING_REASSIGNMENT) outs,
      er_expired = (active_load s1 ?k = 0), er_has_more = (0 < active_load s1 ?k)\<rparr>"
    have run: "reconcileNextExpiredSubscription e batch t1 t2 t3 tu s = Inr (Some ?r, s')"
    proof -
      have "expire_one e ?n t2 t3 tu sub s = Inr (?r, s')"
        unfolding expire_one_def using loop fin
        by (simp only: bindT_def getT_def returnT_def sum.case prod.case)
      then show ?thesis using batch Cons assms(5,6)
        by (simp add: reconcileNextExpiredSubscription_def bindT_def returnT_def)
    qed
    have load: "active_load s1 ?k = active_load s ?k - ?n" using l(3) len by linarith
    have "active_load s' ?k = active_load s1 ?k" using t(1) by (simp add: active_load_def)
    moreover have "wf e s'" using wf_same_tables [OF l(1) t(1-3)] t(4) by simp
    ultimately show ?thesis
      using run load l(4) len t(5) outcome_counts [of outs] unfolding Cons list.case
      by (intro exI [of _ ?r] exI [of _ s']) (auto simp del: upd_where_simps)
  qed
qed

text \<open>A pending request is retried no earlier than 5 s and no later than 300 s after its last attempt,
  and waits longer the more attempts it has had.\<close>

theorem backoff_bounds:
  "5 \<le> backoff_seconds n \<and> backoff_seconds n \<le> 300 \<and> (m \<le> n \<longrightarrow> backoff_seconds m \<le> backoff_seconds n) \<and>
   (is_pending r \<and> active_user s CLIENT (rr_client r) \<and> rr_last_attempt r = Some l \<longrightarrow>
      (l + 300000 \<le> t \<longrightarrow> due t s r) \<and> (due t s r \<longrightarrow> l + 5000 \<le> t))"
proof -
  have pow: "(2::int) ^ min m 6 \<le> 2 ^ min n 6" if "m \<le> n" for m n :: nat
    using that by (intro power_increasing) auto
  have b: "5 \<le> backoff_seconds n" "backoff_seconds n \<le> 300" for n
    using pow [of 0 n] by (simp_all add: backoff_seconds_def)
  have mono: "m \<le> n \<longrightarrow> backoff_seconds m \<le> backoff_seconds n"
    unfolding backoff_seconds_def by (intro impI min.mono order_refl mult_left_mono pow) simp_all
  have "(l + 300000 \<le> t \<longrightarrow> due t s r) \<and> (due t s r \<longrightarrow> l + 5000 \<le> t)"
    if "is_pending r \<and> active_user s CLIENT (rr_client r) \<and> rr_last_attempt r = Some l"
  proof -
    have "due t s r \<longleftrightarrow> l \<le> t - 1000 * backoff_seconds (rr_attempts r)" using that by (simp add: due_def)
    with b [of "rr_attempts r"] show ?thesis by linarith
  qed
  with b [of n] mono show ?thesis by blast
qed

text \<open>RunSerializable gives the result of the operation unless its first three attempts all meet a
  serialization failure, then that failure; an error of any kind leaves the state as it was, and the
  fall-through error of the loop is unreachable.\<close>

theorem serializable_attempts:
  "runSerializable conflict op s =
     (if conflict 1 \<and> conflict 2 \<and> conflict 3 then (Inl WriteConflict, s)
      else case op s of Inl err \<Rightarrow> (Inl err, s) | Inr (x, s') \<Rightarrow> (Inr x, s'))"
  by (simp add: runSerializable_def numeral_3_eq_3 numeral_2_eq_2)

text \<open>deleting a client's account ends all its links: the operation returns, counts the open assignments
  and the pending requests it ended, leaves the client with neither, and changes no link of another client.\<close>

theorem deletion_ends_links:
  assumes "wf e s"
  shows "\<exists>out s'. endClientRelationshipsForDeletionInTransaction e now client s = Inr (out, s') \<and> wf e s' \<and>
    links client (assignments s') (requests s') = 0 \<and>
    ds_assignments out + ds_requests out = links client (assignments s) (requests s) \<and>
    (\<forall>k. k \<noteq> client \<longrightarrow> links k (assignments s') (requests s') = links k (assignments s) (requests s))"
  using deletion_run [OF assms, of now client] by blast

section \<open>Witnesses\<close>

definition demo_input :: begin_input where
  "demo_input = \<lparr>bi_assignment = \<lparr>ar_id = 40, ar_client = 1, ar_cashier = 2\<rparr>, bi_reason = RrAdministrative,
     bi_end_reason = EnAdministrative, bi_admin = Some 9, bi_reason_code = Some ''R'', bi_block = None\<rparr>"

definition demo_assignment :: assignment_row where
  "demo_assignment = \<lparr>a_id = 40, a_client = 1, a_cashier = 2, a_previous = None, a_admin = None,
     a_start_reason = StInvitation, a_end_reason = None, a_started = 0, a_ended = None\<rparr>"

definition demo_conversation :: conversation_row where
  "demo_conversation = \<lparr>c_id = 50, c_assignment = 40, c_status = ConvActive, c_created = 0, c_closed = None\<rparr>"

lemma demo_wf: "wf demo_env demo_world"
  by (simp add: wf_def links_wf_def keys_wf_def lifecycle_wf_def history_wf_def links_def used_ids_def
      supply_ok_def demo_env_def demo_defs is_open_def)

lemma demo_random: "random_ok demo_env"
  by (simp add: random_ok_def demo_env_def)

lemma demo_counts: "within_counts 25 demo_world"
  by (simp add: within_counts_def demo_defs)

lemma demo_open:
  "demo_assignment \<in> set (assignments demo_world)" "is_open demo_assignment"
  "bi_assignment demo_input = ref_of demo_assignment" "block_unused (bi_block demo_input) demo_world"
  by (simp_all add: demo_assignment_def demo_input_def demo_defs is_open_def ref_of_def block_unused_def)

lemma demo_roles: "cashier_roles demo_world"
  by (simp add: cashier_roles_def demo_defs)

theorem reassignment_moves_client_witness:
  "\<exists>out s'. beginReassignment demo_env 10 demo_input demo_world = Inr (out, s') \<and>
     links 1 (assignments s') (requests s') = 1"
  using reassignment_moves_client [OF demo_wf demo_open demo_random within_counts_0 [OF demo_counts], of 10]
  by (auto simp: demo_assignment_def)

theorem access_follows_reassignment_witness:
  "\<exists>out s'. beginReassignment demo_env 10 demo_input demo_world = Inr (out, s') \<and>
     (\<exists>m. lockCurrent 11 1 50 None s' = Inl (Forbidden m))"
proof -
  obtain out s' where run: "beginReassignment demo_env 10 demo_input demo_world = Inr (out, s')"
    using begin_returns [OF demo_wf demo_open demo_random within_counts_0 [OF demo_counts]] by blast
  have c: "demo_conversation \<in> set (conversations demo_world)" "c_assignment demo_conversation = a_id demo_assignment"
    by (simp_all add: demo_conversation_def demo_assignment_def demo_defs)
  from access_follows_reassignment [OF demo_wf demo_open demo_world_keys demo_roles c run]
  have "\<exists>m. lockCurrent 11 1 (c_id demo_conversation) None s' = Inl (Forbidden m)" by blast
  with run show ?thesis by (auto simp: demo_conversation_def)
qed

theorem cashier_is_emptied_witness:
  "\<exists>outs s'. reassignCashierClientsInTransaction demo_env 10 2 9 ''R'' EnCashierSuspended demo_world
     = Inr (outs, s') \<and> active_load s' 2 = 0 \<and> length outs = 1"
proof -
  have load: "active_load demo_world 2 = 1" by (simp add: active_load_def demo_defs is_open_def)
  have "within_counts (active_load demo_world 2) demo_world" unfolding load
    by (simp add: within_counts_def demo_defs)
  from cashier_is_emptied [OF demo_wf demo_random this, of 10 9 "''R''" EnCashierSuspended] load
  show ?thesis by auto
qed

theorem expiry_turn_progress_witness:
  "\<exists>r s'. reconcileNextExpiredSubscription demo_env 25 100 100 100 100 demo_world = Inr (Some r, s') \<and>
     er_expired r \<and> er_processed r = 1 \<and> active_load s' 2 = 0"
proof -
  have d: "distinct (map cs_id (subscriptions demo_world))" by (simp add: demo_defs)
  have wc: "within_counts (nat 25) demo_world" using demo_counts by simp
  have load: "active_load demo_world 2 = 1" by (simp add: active_load_def demo_defs is_open_def)
  have q: "\<exists>sub. expired_queue 100 demo_world = [sub] \<and> cs_cashier sub = 2"
    by (simp add: expired_queue_def demo_defs expiring_def ends_by_def)
  from expiry_turn_progress [OF demo_wf demo_random wc d, of 100 100 100 100] q load show ?thesis by auto
qed

theorem deletion_ends_links_witness:
  "\<exists>out s'. endClientRelationshipsForDeletionInTransaction demo_env 10 1 demo_world = Inr (out, s') \<and>
     ds_assignments out + ds_requests out = 1"
  using deletion_ends_links [OF demo_wf, of 10 1] by (auto simp: links_def demo_defs is_open_def)

theorem backoff_bounds_witness: "5 \<le> backoff_seconds 3 \<and> backoff_seconds 1 \<le> backoff_seconds 3"
  by (rule conjI [OF conjunct1 [OF backoff_bounds]
    mp [OF conjunct1 [OF conjunct2 [OF conjunct2 [OF backoff_bounds]]]]]) simp

end
