(* ===== verification/Constraints.thy ===== *)
theory Constraints
  imports AssignmentClaims
begin

text \<open>
  The deferred constraint trigger reassignment_requests_consistency_trigger
  (apps/api/prisma/migrations/20260727000000_initial_schema/migration.sql), which PostgreSQL
  runs at commit for every request row a transaction inserted or updated.  A comparison with
  NULL is not true, so it never raises: the option types below follow that.
\<close>

section \<open>The trigger\<close>

fun reason_matches :: "reassignment_reason \<Rightarrow> end_reason option \<Rightarrow> bool" where
  "reason_matches RrClientBlockedCashier er = False"
| "reason_matches RrClientReportedCashier er = (er \<in> {None, Some EnClientReportedCashier})"
| "reason_matches RrCashierBlockedClient er = (er \<in> {None, Some EnCashierBlockedClient})"
| "reason_matches RrCashierUnavailable er =
     (er \<in> {None, Some EnCashierUnavailable, Some EnCashierSuspended})"
| "reason_matches RrAdministrative er = (er \<in> {None, Some EnAdministrative})"

definition needs_block :: "reassignment_reason \<Rightarrow> bool" where
  "needs_block reason \<longleftrightarrow>
     reason \<in> {RrClientBlockedCashier, RrClientReportedCashier, RrCashierBlockedClient}"

definition block_matches :: "request_row \<Rightarrow> block_row \<Rightarrow> bool" where
  "block_matches r b \<longleftrightarrow> b_client b = rr_client r \<and> b_cashier b = rr_excluded r \<and>
     (rr_reason r = RrCashierBlockedClient \<longrightarrow> b_initiator b = ByCashier) \<and>
     (rr_reason r \<in> {RrClientBlockedCashier, RrClientReportedCashier} \<longrightarrow> b_initiator b = ByClient)"

definition result_matches :: "request_row \<Rightarrow> assignment_row \<Rightarrow> bool" where
  "result_matches r a \<longleftrightarrow> a_client a = rr_client r \<and> a_cashier a \<noteq> rr_excluded r \<and>
     (case a_previous a of None \<Rightarrow> True | Some p \<Rightarrow> p = rr_previous r) \<and>
     (rr_reason r \<noteq> RrClientBlockedCashier \<longrightarrow> a_start_reason a = startReason (rr_reason r))"

definition validate_reassignment_request :: "'x db_scheme \<Rightarrow> request_row \<Rightarrow> error + unit" where
  "validate_reassignment_request s r =
     (case find (\<lambda>a. a_id a = rr_previous r) (assignments s) of
        None \<Rightarrow> Inl (CheckViolation ''reassignment source'')
      | Some a \<Rightarrow>
          if a_client a \<noteq> rr_client r \<or> a_cashier a \<noteq> rr_excluded r \<or> a_ended a = None
          then Inl (CheckViolation ''reassignment source'')
          else if \<not> reason_matches (rr_reason r) (a_end_reason a)
          then Inl (CheckViolation ''reassignment reason must match the previous assignment end reason'')
          else if (case rr_block r of
              None \<Rightarrow> needs_block (rr_reason r)
            | Some i \<Rightarrow> (case find (\<lambda>b. b_id b = i) (blocks s) of
                None \<Rightarrow> False | Some b \<Rightarrow> \<not> block_matches r b))
          then Inl (CheckViolation ''reassignment block'')
          else if is_pending r \<and> (\<exists>b \<in> set (assignments s). a_client b = rr_client r \<and> is_open b)
          then Inl (CheckViolation ''a pending reassignment cannot coexist with an active assignment'')
          else if rr_status r = RrCompleted \<and>
            (case rr_result r of None \<Rightarrow> False
             | Some i \<Rightarrow> (case find (\<lambda>b. a_id b = i) (assignments s) of
                 None \<Rightarrow> False | Some b \<Rightarrow> \<not> result_matches r b))
          then Inl (CheckViolation ''completed reassignment result is inconsistent'')
          else Inr ())"

text \<open>A commit runs the trigger for the rows that are not the ones before the transaction.\<close>

definition commit_requests :: "'x db_scheme \<Rightarrow> 'x db_scheme \<Rightarrow> error + 'x db_scheme" where
  "commit_requests s s' =
     (case filter (\<lambda>r. r \<notin> set (requests s) \<and> validate_reassignment_request s' r \<noteq> Inr ()) (requests s') of
        [] \<Rightarrow> Inr s'
      | r # _ \<Rightarrow> (case validate_reassignment_request s' r of Inl e \<Rightarrow> Inl e | Inr _ \<Rightarrow> Inr s'))"

lemma commit_requests_ok:
  "(\<And>r. r \<in> set (requests s') \<Longrightarrow> r \<notin> set (requests s) \<Longrightarrow> validate_reassignment_request s' r = Inr ()) \<Longrightarrow>
     commit_requests s s' = Inr s'"
proof -
  assume "\<And>r. r \<in> set (requests s') \<Longrightarrow> r \<notin> set (requests s) \<Longrightarrow> validate_reassignment_request s' r = Inr ()"
  then have "filter (\<lambda>r. r \<notin> set (requests s) \<and> validate_reassignment_request s' r \<noteq> Inr ()) (requests s') = []"
    by (auto simp: filter_empty_conv)
  then show ?thesis unfolding commit_requests_def by (simp only: list.case)
qed

lemma commit_requests_fails:
  assumes "r \<in> set (requests s')" "r \<notin> set (requests s)" "validate_reassignment_request s' r \<noteq> Inr ()"
  shows "\<exists>e. commit_requests s s' = Inl e"
proof -
  let ?bad = "filter (\<lambda>r. r \<notin> set (requests s) \<and> validate_reassignment_request s' r \<noteq> Inr ()) (requests s')"
  from assms have "r \<in> set ?bad" by simp
  then obtain q qs where q: "?bad = q # qs" by (cases ?bad) auto
  then have "q \<in> set ?bad" by simp
  then have "validate_reassignment_request s' q \<noteq> Inr ()" by simp
  then obtain e where "validate_reassignment_request s' q = Inl e"
    by (cases "validate_reassignment_request s' q") auto
  with q show ?thesis unfolding commit_requests_def by (simp only: list.case) simp
qed

section \<open>The row a reassignment writes\<close>

definition same_request :: "request_row \<Rightarrow> request_row \<Rightarrow> bool" where
  "same_request q r \<longleftrightarrow> rr_id q = rr_id r \<and> rr_client q = rr_client r \<and> rr_previous q = rr_previous r \<and>
     rr_excluded q = rr_excluded r \<and> rr_reason q = rr_reason r \<and> rr_block q = rr_block r"

lemma completion_row:
  assumes "completion e r admin now s out s'" "is_pending r"
  shows "\<exists>f. requests s' = upd_where (\<lambda>q. rr_id q = rr_id r) f (requests s) \<and> same_request (f r) r \<and>
    (is_pending (f r) \<or> (rr_status (f r) = RrCompleted \<and>
       (\<exists>b \<in> set (assignments s'). rr_result (f r) = Some (a_id b) \<and> a_client b = rr_client r \<and>
          a_cashier b \<noteq> rr_excluded r \<and> a_previous b = Some (rr_previous r) \<and>
          a_start_reason b = startReason (rr_reason r))))"
proof -
  let ?cands = "findEligibleCandidates s (rr_client r) (rr_excluded r) now"
  consider "s' = s" | "deferred_step r now s s'"
    | cand k where "cand \<in> set ?cands" "assigned_step e r admin now (l_user cand) k s s'"
    using assms(1) unfolding completion_def Let_def by (auto split: if_splits)
  then show ?thesis
  proof cases
    case 1
    with assms(2) show ?thesis
      by (intro exI [of _ "\<lambda>q. q"]) (simp add: upd_where_def same_request_def)
  next
    case 2
    with assms(2) show ?thesis
      by (intro exI [of _ "attempted now"]) (simp add: deferred_step_def same_request_def attempted_def is_pending_def)
  next
    case 3
    from 3(1) have "l_user cand \<noteq> rr_excluded r" by (auto simp: find_candidates_iff eligible_candidate_def)
    with 3(2) show ?thesis
      by (intro exI [of _ "completed_with (uuid_at e k) now"])
        (simp add: assigned_step_def same_request_def completed_with_def)
  qed
qed

lemma begin_row:
  assumes "wf e s" "a \<in> set (assignments s)" "is_open a" "bi_assignment input = ref_of a"
    "block_unused (bi_block input) s" "beginReassignment e now input s = Inr (out, s')"
  obtains q where "q \<in> set (requests s')" "q \<notin> set (requests s)" "wf e s'"
    "set (requests s') = insert q (set (requests s))" "blocks s' = blocks s"
    "ended_row (bi_end_reason input) now a \<in> set (assignments s')"
    "rr_client q = a_client a" "rr_previous q = a_id a" "rr_excluded q = a_cashier a"
    "rr_reason q = bi_reason input" "rr_block q = bi_block input"
    "is_pending q \<or> (rr_status q = RrCompleted \<and>
       (\<exists>b \<in> set (assignments s'). rr_result q = Some (a_id b) \<and> result_matches q b))"
proof -
  from begin_result [OF assms] obtain r s1 where b: "begun input now s r s1" and w1: "wf e s1"
    and c: "completion e r (bi_admin input) now s1 out s'" and w: "wf e s'" by blast
  have r: "requests s1 = requests s @ [r]" "is_pending r" "rr_client r = a_client a"
      "rr_previous r = a_id a" "rr_excluded r = a_cashier a" "rr_reason r = bi_reason input"
      "rr_block r = bi_block input" "blocks s1 = blocks s"
    and A1: "assignments s1 = upd_where (\<lambda>b. a_id b = a_id a) (ended_row (bi_end_reason input) now) (assignments s)"
    using b assms(4) by (simp_all add: begun_def Let_def ref_of_def same_people_def)
  have ended: "ended_row (bi_end_reason input) now a \<in> set (assignments s')"
    by (rule completion_keeps_row [OF c]) (simp add: A1 upd_where_in assms(2))
  from completion_row [OF c r(2)] obtain f where f: "requests s' = upd_where (\<lambda>q. rr_id q = rr_id r) f (requests s1)"
    "same_request (f r) r" and st: "is_pending (f r) \<or> (rr_status (f r) = RrCompleted \<and>
       (\<exists>b \<in> set (assignments s'). rr_result (f r) = Some (a_id b) \<and> a_client b = rr_client r \<and>
          a_cashier b \<noteq> rr_excluded r \<and> a_previous b = Some (rr_previous r) \<and>
          a_start_reason b = startReason (rr_reason r)))" by blast
  have fresh: "\<forall>q \<in> set (requests s). rr_id q \<noteq> rr_id r"
    using wf_links [OF w1] r(1) by (auto simp: links_wf_def keys_wf_def image_iff)
  then have "upd_where (\<lambda>q. rr_id q = rr_id r) f (requests s) = requests s"
    by (auto simp: upd_where_def intro: map_idI)
  then have R: "requests s' = requests s @ [f r]" using f(1) r(1) by simp
  have new: "f r \<notin> set (requests s)" using fresh f(2) by (auto simp: same_request_def)
  have "blocks s' = blocks s" using completion_grows(2) [OF c] r(8) by (simp add: same_people_def)
  moreover have "is_pending (f r) \<or> (rr_status (f r) = RrCompleted \<and>
       (\<exists>b \<in> set (assignments s'). rr_result (f r) = Some (a_id b) \<and> result_matches (f r) b))"
    using st f(2) unfolding result_matches_def same_request_def by fastforce
  ultimately show ?thesis
    using R new w ended r f(2) by (intro that [of "f r"]) (auto simp: same_request_def)
qed

section \<open>Properties\<close>

text \<open>C9: the trigger accepts the commit of every reassignment whose end reason is one the trigger pairs with
  its reason, and whose block, when the reason needs one, is a block between the two parties by the
  right initiator.\<close>

theorem matching_reassignment_commits:
  assumes "wf e s" "a \<in> set (assignments s)" "is_open a" "bi_assignment input = ref_of a"
    "block_unused (bi_block input) s" "beginReassignment e now input s = Inr (out, s')"
    "reason_matches (bi_reason input) (Some (bi_end_reason input))" "distinct (map b_id (blocks s))"
    "case bi_block input of None \<Rightarrow> \<not> needs_block (bi_reason input)
     | Some i \<Rightarrow> \<exists>b \<in> set (blocks s). b_id b = i \<and> b_client b = a_client a \<and> b_cashier b = a_cashier a \<and>
         (bi_reason input = RrCashierBlockedClient \<longrightarrow> b_initiator b = ByCashier) \<and>
         (bi_reason input = RrClientReportedCashier \<longrightarrow> b_initiator b = ByClient)"
  shows "commit_requests s s' = Inr s'"
proof (rule commit_requests_ok)
  obtain q where q: "q \<in> set (requests s')" "q \<notin> set (requests s)" "wf e s'"
    "set (requests s') = insert q (set (requests s))" "blocks s' = blocks s"
    "ended_row (bi_end_reason input) now a \<in> set (assignments s')"
    "rr_client q = a_client a" "rr_previous q = a_id a" "rr_excluded q = a_cashier a"
    "rr_reason q = bi_reason input" "rr_block q = bi_block input"
    "is_pending q \<or> (rr_status q = RrCompleted \<and>
       (\<exists>b \<in> set (assignments s'). rr_result q = Some (a_id b) \<and> result_matches q b))"
    by (rule begin_row [OF assms(1-6)])
  have ids: "distinct (map a_id (assignments s'))"
    using wf_links [OF q(3)] by (simp add: links_wf_def keys_wf_def)
  have src: "find (\<lambda>b. a_id b = a_id a) (assignments s') = Some (ended_row (bi_end_reason input) now a)"
    using find_key_eq [OF ids q(6)] by simp
  have er: "a_end_reason (ended_row (bi_end_reason input) now a) = Some (bi_end_reason input)"
    by (simp add: ended_row_def)
  have res: "find (\<lambda>b. a_id b = i) (assignments s') = Some b" if "b \<in> set (assignments s')" "a_id b = i" for b i
    using find_key_eq [OF ids that(1)] that(2) by simp
  have nr: "bi_reason input \<noteq> RrClientBlockedCashier" using assms(7) by auto
  have block: "\<not> (case rr_block q of None \<Rightarrow> needs_block (rr_reason q)
      | Some i \<Rightarrow> (case find (\<lambda>b. b_id b = i) (blocks s') of None \<Rightarrow> False | Some b \<Rightarrow> \<not> block_matches q b))"
  proof (cases "bi_block input")
    case None
    with assms(9) q(10,11) show ?thesis by simp
  next
    case (Some i)
    with assms(9) obtain b where b: "b \<in> set (blocks s)" "b_id b = i" "b_client b = a_client a"
      "b_cashier b = a_cashier a" "bi_reason input = RrCashierBlockedClient \<longrightarrow> b_initiator b = ByCashier"
      "bi_reason input = RrClientReportedCashier \<longrightarrow> b_initiator b = ByClient" by auto
    from find_key_eq [OF assms(8) b(1)] b(2) have "find (\<lambda>b. b_id b = i) (blocks s) = Some b" by simp
    with Some b q(5,7-11) nr show ?thesis by (auto simp: block_matches_def)
  qed
  have pend: "\<not> (\<exists>b \<in> set (assignments s'). a_client b = rr_client q \<and> is_open b)" if "is_pending q"
    using no_link_clash(1) [OF wf_links [OF q(3)] q(1) that] .
  have fin: "\<not> (case rr_result q of None \<Rightarrow> False
      | Some i \<Rightarrow> (case find (\<lambda>b. a_id b = i) (assignments s') of None \<Rightarrow> False | Some b \<Rightarrow> \<not> result_matches q b))"
    if "rr_status q = RrCompleted"
  proof -
    from q(12) that obtain b where "b \<in> set (assignments s')" "rr_result q = Some (a_id b)" "result_matches q b"
      by (auto simp: is_pending_def)
    with res [OF this(1) refl] show ?thesis by simp
  qed
  have "validate_reassignment_request s' q = Inr ()"
    unfolding validate_reassignment_request_def
    using src er q(7-10) assms(7) block pend fin by simp
  then show "validate_reassignment_request s' r = Inr ()"
    if "r \<in> set (requests s')" "r \<notin> set (requests s)" for r
    using that q(4) by auto
qed

text \<open>A loop over the assignments of a cashier keeps every request and every other assignment row.\<close>

lemma unload_keeps:
  assumes "wf e s" "distinct xs" "set xs \<subseteq> set (assignments s)" "\<forall>a \<in> set xs. is_open a"
    "mapT (\<lambda>a. beginReassignment e now (unavailable_input er admin code a)) xs s = Inr (outs, s')"
  shows "wf e s' \<and> set (requests s) \<subseteq> set (requests s') \<and>
    (\<forall>b \<in> set (assignments s). b \<notin> set xs \<longrightarrow> b \<in> set (assignments s'))"
  using assms
proof (induction xs arbitrary: s outs)
  case Nil
  then show ?case by (simp add: tx_simps)
next
  case (Cons a xs)
  from Cons.prems(5) obtain out s1 outs' where
    step: "beginReassignment e now (unavailable_input er admin code a) s = Inr (out, s1)" and
    rest: "mapT (\<lambda>a. beginReassignment e now (unavailable_input er admin code a)) xs s1 = Inr (outs', s')"
    by (auto simp: tx_iffs)
  have a: "a \<in> set (assignments s)" "is_open a" using Cons.prems by simp_all
  have input: "bi_assignment (unavailable_input er admin code a) = ref_of a"
    "block_unused (bi_block (unavailable_input er admin code a)) s"
    by (simp_all add: unavailable_input_def block_unused_def)
  from begin_unloads [OF Cons.prems(1) a step] have s1: "wf e s1"
    "\<forall>b \<in> set (assignments s). b \<noteq> a \<longrightarrow> b \<in> set (assignments s1)" by simp_all
  from begin_row [OF Cons.prems(1) a input step] have req: "set (requests s) \<subseteq> set (requests s1)" by blast
  have "set xs \<subseteq> set (assignments s1)" using s1(2) Cons.prems(2,3) by auto
  with Cons.IH [OF s1(1) _ _ _ rest] Cons.prems(2,4) have "wf e s'" "set (requests s1) \<subseteq> set (requests s')"
    "\<forall>b \<in> set (assignments s1). b \<notin> set xs \<longrightarrow> b \<in> set (assignments s')" by simp_all
  with req s1(2) show ?case by auto
qed

text \<open>C10: deleting a cashier who still has a client reassigns the clients with the end reason ACCOUNT_DELETED
  and the reason CASHIER_UNAVAILABLE, a pair the trigger rejects: the operation returns, and its
  commit always fails.\<close>

theorem busy_cashier_deletion_rejected:
  assumes "wf e s" "random_ok e" "within_counts (active_load s k) s" "0 < active_load s k"
  shows "\<exists>outs s' err. reassignCashierClientsInTransaction e now k admin code EnAccountDeleted s = Inr (outs, s') \<and>
    commit_requests s s' = Inl err"
proof -
  note props = open_of_cashier_props [OF assms(1), of k]
  from props(4) assms(4) obtain a xs where xs: "open_of_cashier s k = a # xs"
    by (cases "open_of_cashier s k") auto
  let ?step = "\<lambda>a. beginReassignment e now (unavailable_input EnAccountDeleted (Some admin) code a)"
  from unload_returns [OF assms(1) props(1-3) assms(2)] assms(3) props(4) obtain outs s' where
    run: "mapT ?step (open_of_cashier s k) s = Inr (outs, s')" by metis
  with xs obtain out s1 outs' where step: "?step a s = Inr (out, s1)" and rest: "mapT ?step xs s1 = Inr (outs', s')"
    by (auto simp: tx_iffs)
  have a: "a \<in> set (assignments s)" "is_open a" using props(2,3) xs by auto
  have input: "bi_assignment (unavailable_input EnAccountDeleted (Some admin) code a) = ref_of a"
    "block_unused (bi_block (unavailable_input EnAccountDeleted (Some admin) code a)) s"
    by (simp_all add: unavailable_input_def block_unused_def)
  let ?a = "ended_row EnAccountDeleted now a"
  from begin_row [OF assms(1) a input step] obtain q where q: "q \<in> set (requests s1)" "q \<notin> set (requests s)"
    "wf e s1" "?a \<in> set (assignments s1)" "rr_previous q = a_id a" "rr_reason q = RrCashierUnavailable"
    by (auto simp: unavailable_input_def)
  from begin_unloads [OF assms(1) a step] have keep: "\<forall>b \<in> set (assignments s). b \<noteq> a \<longrightarrow> b \<in> set (assignments s1)"
    by blast
  have sub: "set xs \<subseteq> set (assignments s1)" "distinct xs" "\<forall>b \<in> set xs. is_open b"
    using props(1-3) xs keep by auto
  from unload_keeps [OF q(3) sub(2,1,3) rest] have fin: "wf e s'" "q \<in> set (requests s')"
    "?a \<notin> set xs \<longrightarrow> ?a \<in> set (assignments s')" using q(1,4) by auto
  have "?a \<in> set (assignments s')" using fin(3) sub(3) by (metis ended_row_simps(5))
  moreover have "distinct (map a_id (assignments s'))"
    using wf_links [OF fin(1)] by (simp add: links_wf_def keys_wf_def)
  ultimately have src: "find (\<lambda>b. a_id b = rr_previous q) (assignments s') = Some ?a"
    using find_key_eq [of a_id "assignments s'" ?a] q(5) by simp
  have "a_end_reason ?a = Some EnAccountDeleted" by (simp add: ended_row_def)
  with src q(6) have "validate_reassignment_request s' q \<noteq> Inr ()"
    by (simp add: validate_reassignment_request_def)
  from commit_requests_fails [OF fin(2) q(2) this] run show ?thesis
    unfolding reassignCashierClientsInTransaction_def by blast
qed

section \<open>Witnesses\<close>

theorem matching_reassignment_commits_witness:
  "\<exists>out s'. beginReassignment demo_env 10 demo_input demo_world = Inr (out, s') \<and>
     commit_requests demo_world s' = Inr s'"
proof -
  obtain out s' where run: "beginReassignment demo_env 10 demo_input demo_world = Inr (out, s')"
    using begin_returns [OF demo_wf demo_open demo_random within_counts_0 [OF demo_counts]] by blast
  have pre: "reason_matches (bi_reason demo_input) (Some (bi_end_reason demo_input))"
    "distinct (map b_id (blocks demo_world))" "bi_block demo_input = None" "\<not> needs_block (bi_reason demo_input)"
    by (simp_all add: demo_input_def demo_defs needs_block_def)
  from matching_reassignment_commits [OF demo_wf demo_open run pre(1,2)] pre(3,4) run show ?thesis by auto
qed

theorem busy_cashier_deletion_rejected_witness:
  "\<exists>outs s' err. reassignCashierClientsInTransaction demo_env 10 2 9 ''R'' EnAccountDeleted demo_world
     = Inr (outs, s') \<and> commit_requests demo_world s' = Inl err"
proof -
  have load: "active_load demo_world 2 = 1" by (simp add: active_load_def demo_defs is_open_def)
  have wc: "within_counts (active_load demo_world 2) demo_world" unfolding load
    by (simp add: within_counts_def demo_defs)
  have "0 < active_load demo_world 2" using load by simp
  from busy_cashier_deletion_rejected [OF demo_wf demo_random wc this] show ?thesis .
qed

end
