(* ===== verification/Text.thy ===== *)
theory Text
  imports Prelude
begin

text \<open>
  The texts the code builds and recognises: decimal numerals, identifiers of PostgreSQL in their
  canonical form, character classes of the regular expressions, joined lines.  A string is a
  list of characters below 256.
\<close>

section \<open>Character classes\<close>

definition lower_hex :: "char \<Rightarrow> bool" where
  "lower_hex c \<longleftrightarrow> c \<in> set ''0123456789abcdef''"

definition upper_hex :: "char \<Rightarrow> bool" where
  "upper_hex c \<longleftrightarrow> c \<in> set ''0123456789ABCDEF''"

definition alphanumeric :: "char \<Rightarrow> bool" where
  "alphanumeric c \<longleftrightarrow>
     c \<in> set ''ABCDEFGHIJKLMNOPQRSTUVWXYZabcdefghijklmnopqrstuvwxyz0123456789''"

definition base64_char :: "char \<Rightarrow> bool" where
  "base64_char c \<longleftrightarrow> alphanumeric c \<or> c = CHR ''+'' \<or> c = CHR ''/''"

definition base64url_char :: "char \<Rightarrow> bool" where
  "base64url_char c \<longleftrightarrow> alphanumeric c \<or> c = CHR ''-'' \<or> c = CHR ''_''"

section \<open>Numerals\<close>

definition digit :: "nat \<Rightarrow> char" where
  "digit n = ''0123456789'' ! n"

fun nat_text :: "nat \<Rightarrow> string" where
  "nat_text n = (if n < 10 then [digit n] else nat_text (n div 10) @ [digit (n mod 10)])"

declare nat_text.simps [simp del]

definition int_text :: "int \<Rightarrow> string" where
  "int_text n = (if n < 0 then CHR ''-'' # nat_text (nat (- n)) else nat_text (nat n))"

lemma digit_inj: "m < 10 \<Longrightarrow> n < 10 \<Longrightarrow> digit m = digit n \<Longrightarrow> m = n"
proof -
  assume m: "m < 10" and n: "n < 10" and eq: "digit m = digit n"
  have d: "distinct ''0123456789''" by simp
  have l: "length ''0123456789'' = 10" by simp
  from nth_eq_iff_index_eq [OF d] m n eq l show ?thesis unfolding digit_def by metis
qed

lemma digit_in: "n < 10 \<Longrightarrow> digit n \<in> set ''0123456789''"
proof -
  assume n: "n < 10"
  have "length ''0123456789'' = 10" by simp
  with n show ?thesis unfolding digit_def by (metis nth_mem)
qed

lemma nat_text_digits: "c \<in> set (nat_text n) \<Longrightarrow> c \<in> set ''0123456789''"
proof (induction n rule: nat_text.induct)
  case (1 n)
  show ?case
  proof (cases "n < 10")
    case True
    with "1.prems" digit_in [OF True] show ?thesis by (simp add: nat_text.simps [of n])
  next
    case False
    then have "nat_text n = nat_text (n div 10) @ [digit (n mod 10)]" by (simp add: nat_text.simps [of n])
    with "1.prems" have "c \<in> set (nat_text (n div 10)) \<or> c = digit (n mod 10)" by auto
    moreover have "digit (n mod 10) \<in> set ''0123456789''" by (rule digit_in) simp
    ultimately show ?thesis using "1.IH" [OF False] by blast
  qed
qed

lemma nat_text_nonempty: "nat_text n \<noteq> []"
  by (subst nat_text.simps) simp

lemma nat_text_inj: "nat_text m = nat_text n \<Longrightarrow> m = n"
proof (induction m arbitrary: n rule: nat_text.induct)
  case (1 m)
  have single: "length (nat_text k) = 1 \<longleftrightarrow> k < 10" for k
    using nat_text_nonempty [of "k div 10"] by (subst nat_text.simps) simp
  show ?case
  proof (cases "m < 10")
    case True
    with single "1.prems" have "n < 10" by metis
    with True "1.prems" digit_inj show ?thesis by (simp add: nat_text.simps [of m] nat_text.simps [of n])
  next
    case False
    with single "1.prems" have n: "\<not> n < 10" by metis
    from False n "1.prems" have "nat_text (m div 10) = nat_text (n div 10)" "digit (m mod 10) = digit (n mod 10)"
      by (simp_all add: nat_text.simps [of m] nat_text.simps [of n])
    with "1.IH" [OF False] digit_inj have "m div 10 = n div 10" "m mod 10 = n mod 10" by auto
    then show ?thesis by (metis div_mult_mod_eq)
  qed
qed

lemma int_text_inj: "0 \<le> m \<Longrightarrow> 0 \<le> n \<Longrightarrow> int_text m = int_text n \<Longrightarrow> m = n"
  by (auto simp: int_text_def dest: nat_text_inj)

section \<open>Identifiers\<close>

definition hex_digit :: "nat \<Rightarrow> char" where
  "hex_digit n = ''0123456789abcdef'' ! n"

fun hexs :: "nat \<Rightarrow> nat \<Rightarrow> string" where
  "hexs 0 n = []"
| "hexs (Suc k) n = hexs k (n div 16) @ [hex_digit (n mod 16)]"

definition uuid_text :: "uuid \<Rightarrow> string" where
  "uuid_text n = hexs 8 (n div 16 ^ 24) @ ''-'' @ hexs 4 (n div 16 ^ 20) @ ''-'' @
     hexs 4 (n div 16 ^ 16) @ ''-'' @ hexs 4 (n div 16 ^ 12) @ ''-'' @ hexs 12 n"

text \<open>The regular expression of a lower-case UUID, as a template.\<close>

definition uuid_template :: string where
  "uuid_template = replicate 8 (CHR ''x'') @ ''-'' @ replicate 4 (CHR ''x'') @ ''-'' @
     replicate 4 (CHR ''x'') @ ''-'' @ replicate 4 (CHR ''x'') @ ''-'' @ replicate 12 (CHR ''x'')"

definition fits :: "char \<Rightarrow> char \<Rightarrow> bool" where
  "fits t c \<longleftrightarrow> (if t = CHR ''-'' then c = CHR ''-'' else lower_hex c)"

definition uuid_shape :: "string \<Rightarrow> bool" where
  "uuid_shape s \<longleftrightarrow> list_all2 fits uuid_template s"

lemma length_hexs [simp]: "length (hexs k n) = k"
  by (induction k arbitrary: n) simp_all

lemma hex_digit_in: "n < 16 \<Longrightarrow> lower_hex (hex_digit n)"
proof -
  assume n: "n < 16"
  have "length ''0123456789abcdef'' = 16" by simp
  with n show ?thesis unfolding hex_digit_def lower_hex_def by (metis nth_mem)
qed

lemma hex_digit_inj: "m < 16 \<Longrightarrow> n < 16 \<Longrightarrow> hex_digit m = hex_digit n \<Longrightarrow> m = n"
proof -
  assume m: "m < 16" and n: "n < 16" and eq: "hex_digit m = hex_digit n"
  have d: "distinct ''0123456789abcdef''" by simp
  have l: "length ''0123456789abcdef'' = 16" by simp
  from nth_eq_iff_index_eq [OF d] m n eq l show ?thesis unfolding hex_digit_def by metis
qed

lemma hexs_lower: "c \<in> set (hexs k n) \<Longrightarrow> lower_hex c"
  by (induction k arbitrary: n) (auto intro: hex_digit_in)

lemma hexs_mod: "hexs k m = hexs k n \<Longrightarrow> m mod 16 ^ k = n mod 16 ^ k"
proof (induction k arbitrary: m n)
  case (Suc k)
  from Suc.prems have eq: "hexs k (m div 16) = hexs k (n div 16)" "hex_digit (m mod 16) = hex_digit (n mod 16)"
    by simp_all
  have "m div 16 mod 16 ^ k = n div 16 mod 16 ^ k" using Suc.IH [OF eq(1)] .
  moreover have "m mod 16 = n mod 16" using eq(2) by (intro hex_digit_inj) simp_all
  ultimately show ?case by (simp add: mod_mult2_eq)
qed simp

lemma hexs_fit: "list_all2 fits (replicate k (CHR ''x'')) (hexs k n)"
proof -
  have "lower_hex (hexs k n ! i)" if "i < k" for i using that by (intro hexs_lower) (auto intro: nth_mem)
  then show ?thesis by (simp add: list_all2_conv_all_nth fits_def)
qed

lemma uuid_text_shape: "uuid_shape (uuid_text n)"
  unfolding uuid_shape_def uuid_text_def uuid_template_def
  by (intro list_all2_appendI hexs_fit) (simp_all add: fits_def)

lemma uuid_shape_length: "uuid_shape s \<Longrightarrow> length s = 36"
  unfolding uuid_shape_def uuid_template_def by (drule list_all2_lengthD) simp

lemma uuid_shape_chars: "uuid_shape s \<Longrightarrow> c \<in> set s \<Longrightarrow> lower_hex c \<or> c = CHR ''-''"
  unfolding uuid_shape_def by (auto simp: list_all2_conv_all_nth in_set_conv_nth fits_def split: if_splits)

lemma uuid_text_inj:
  assumes "uuid_text m = uuid_text n" "m < 16 ^ 32" "n < 16 ^ 32"
  shows "m = n"
proof -
  from assms(1) have h: "hexs 8 (m div 16 ^ 24) = hexs 8 (n div 16 ^ 24)"
    "hexs 4 (m div 16 ^ 20) = hexs 4 (n div 16 ^ 20)" "hexs 4 (m div 16 ^ 16) = hexs 4 (n div 16 ^ 16)"
    "hexs 4 (m div 16 ^ 12) = hexs 4 (n div 16 ^ 12)" "hexs 12 m = hexs 12 n"
    unfolding uuid_text_def by simp_all
  have join: "x div 16 ^ i = y div 16 ^ i"
    if "x div 16 ^ (i + j) = y div 16 ^ (i + j)" "(x div 16 ^ i) mod 16 ^ j = (y div 16 ^ i) mod 16 ^ j"
    for x y i j :: nat
    using that by (metis div_mult2_eq div_mult_mod_eq power_add)
  have small: "x div 16 ^ 24 mod 16 ^ 8 = x div 16 ^ 24" if "x < 16 ^ 32" for x :: nat
    using that by (intro mod_less) (simp add: less_mult_imp_div_less)
  have "m div 16 ^ 24 = n div 16 ^ 24" using hexs_mod [OF h(1)] small assms(2,3) by metis
  then have "m div 16 ^ 20 = n div 16 ^ 20" using join [of m 20 4 n] hexs_mod [OF h(2)] by simp
  then have "m div 16 ^ 16 = n div 16 ^ 16" using join [of m 16 4 n] hexs_mod [OF h(3)] by simp
  then have "m div 16 ^ 12 = n div 16 ^ 12" using join [of m 12 4 n] hexs_mod [OF h(4)] by simp
  then show ?thesis using join [of m 0 12 n] hexs_mod [OF h(5)] by simp
qed

section \<open>Joined fields\<close>

fun join_with :: "char \<Rightarrow> string list \<Rightarrow> string" where
  "join_with c [] = []"
| "join_with c [x] = x"
| "join_with c (x # y # ys) = x @ c # join_with c (y # ys)"

lemma split_at_separator:
  "n @ c # k = n' @ c # k' \<Longrightarrow> c \<notin> set n \<Longrightarrow> c \<notin> set n' \<Longrightarrow> n = n' \<and> k = k'"
proof (induction n arbitrary: n')
  case Nil
  then show ?case by (cases n') auto
next
  case (Cons x n)
  then show ?case by (cases n') auto
qed

lemma join_with_inj:
  assumes "join_with c xs = join_with c ys" "length xs = length ys"
    "\<forall>x \<in> set xs. c \<notin> set x" "\<forall>y \<in> set ys. c \<notin> set y"
  shows "xs = ys"
  using assms
proof (induction c xs arbitrary: ys rule: join_with.induct)
  case (2 c x)
  then show ?case by (cases ys) auto
next
  case (3 c x y zs)
  from "3.prems"(2) obtain x' y' zs' where ys: "ys = x' # y' # zs'"
    by (auto simp: length_Suc_conv dest!: sym [of "Suc _"])
  from split_at_separator [of x c "join_with c (y # zs)" x' "join_with c (y' # zs')"] "3.prems" ys
  have "x = x'" "join_with c (y # zs) = join_with c (y' # zs')" by auto
  with "3.IH" [of "y' # zs'"] "3.prems" ys show ?case by simp
qed simp

lemma join_with_unique:
  assumes "join_with c xs = join_with c ys" "xs \<noteq> []" "ys \<noteq> []"
    "\<forall>x \<in> set xs. c \<notin> set x" "\<forall>y \<in> set ys. c \<notin> set y"
  shows "xs = ys"
  using assms
proof (induction c xs arbitrary: ys rule: join_with.induct)
  case (2 c x)
  then obtain y ys' where ys: "ys = y # ys'" by (cases ys) auto
  with 2 show ?case by (cases ys') auto
next
  case (3 c x y zs)
  then obtain x' ys' where ys: "ys = x' # ys'" by (cases ys) auto
  show ?case
  proof (cases ys')
    case Nil
    with "3.prems"(1) ys have "x @ c # join_with c (y # zs) = x'" by simp
    then have "c \<in> set x'" by auto
    with "3.prems"(5) ys show ?thesis by simp
  next
    case (Cons y' zs')
    with "3.prems"(1) ys have "x @ c # join_with c (y # zs) = x' @ c # join_with c (y' # zs')" by simp
    from split_at_separator [OF this] have same: "x = x'" "join_with c (y # zs) = join_with c (y' # zs')"
      using "3.prems"(4,5) ys by simp_all
    have "y # zs = y' # zs'" by (rule "3.IH" [OF same(2)]) (use "3.prems"(4,5) ys Cons in simp_all)
    with same(1) ys Cons show ?thesis by simp
  qed
qed simp

end
