(* ===== verification/Json.thy ===== *)
theory Json
  imports Text "HOL-Library.Char_ord" "HOL-Library.List_Lexorder"
begin

text \<open>
  JSON values as the code receives them, JSON.stringify, and the canonical encoding of
  apps/api/src/e2ee/matrix-key-upload.ts (encodeCanonical, encodeMatrixCanonicalJson,
  hashMatrixCanonicalJson).  An object is the list of its entries in the order of Object.entries.
\<close>

section \<open>Values\<close>

datatype json_number =
    IntNum int         \<comment> \<open>an integer, other than minus zero\<close>
  | MinusZero
  | OtherNum string    \<comment> \<open>any other number, by the text String gives it\<close>

datatype json =
    JNull
  | JBool bool
  | JNum json_number
  | JStr string
  | JArr "json list"
  | JObj "(string \<times> json) list"

text \<open>A value with one field taken out of a record, and the checks the parsers share.\<close>

definition as_record :: "string \<Rightarrow> json \<Rightarrow> error + (string \<times> json) list" where
  "as_record code v = (case v of JObj kvs \<Rightarrow> Inr kvs | _ \<Rightarrow> Inl (ValidationError code))"

definition exactKeys :: "(string \<times> json) list \<Rightarrow> string list \<Rightarrow> string \<Rightarrow> error + unit" where
  "exactKeys kvs expected code =
     (if length kvs \<noteq> length expected \<or> (\<exists>k \<in> set expected. k \<notin> set (map fst kvs))
      then Inl (ValidationError code) else Inr ())"

definition field :: "(string \<times> json) list \<Rightarrow> string \<Rightarrow> json option" where
  "field kvs k = map_of kvs k"

definition string_field :: "(string \<times> json) list \<Rightarrow> string \<Rightarrow> string option" where
  "string_field kvs k = (case field kvs k of Some (JStr s) \<Rightarrow> Some s | _ \<Rightarrow> None)"

section \<open>JSON.stringify\<close>

definition escape_char :: "char \<Rightarrow> string" where
  "escape_char c =
     (let n = of_char c :: nat in
      if c = CHR 0x22 then [CHR 0x5C, CHR 0x22]
      else if c = CHR 0x5C then [CHR 0x5C, CHR 0x5C]
      else if n = 8 then CHR 0x5C # ''b'' else if n = 9 then CHR 0x5C # ''t''
      else if n = 10 then CHR 0x5C # ''n'' else if n = 12 then CHR 0x5C # ''f''
      else if n = 13 then CHR 0x5C # ''r''
      else if n < 32 then CHR 0x5C # ''u00'' @ hexs 2 n
      else [c])"

definition json_quote :: "string \<Rightarrow> string" where
  "json_quote s = CHR 0x22 # concat (map escape_char s) @ [CHR 0x22]"

fun number_text :: "json_number \<Rightarrow> string" where
  "number_text (IntNum n) = int_text n"
| "number_text MinusZero = ''0''"
| "number_text (OtherNum t) = t"

fun json_text :: "json \<Rightarrow> string" where
  "json_text JNull = ''null''"
| "json_text (JBool b) = (if b then ''true'' else ''false'')"
| "json_text (JNum n) = number_text n"
| "json_text (JStr s) = json_quote s"
| "json_text (JArr vs) = ''['' @ join_with (CHR '','') (map json_text vs) @ '']''"
| "json_text (JObj kvs) = ''{'' @ join_with (CHR '','')
     (map (\<lambda>kv. json_quote (fst kv) @ '':'' @ json_text (snd kv)) kvs) @ ''}''"

text \<open>Buffer.byteLength of a text in UTF-8: two bytes for a character from 128 on.\<close>

definition utf8_length :: "string \<Rightarrow> nat" where
  "utf8_length s = sum_list (map (\<lambda>c. if (of_char c :: nat) < 128 then 1 else 2) s)"

definition json_bytes :: "json \<Rightarrow> nat" where
  "json_bytes v = utf8_length (json_text v)"

section \<open>Canonical JSON\<close>

fun all_right :: "(error + 'a) list \<Rightarrow> error + 'a list" where
  "all_right [] = Inr []"
| "all_right (Inl e # xs) = Inl e"
| "all_right (Inr x # xs) = (case all_right xs of Inl e \<Rightarrow> Inl e | Inr ys \<Rightarrow> Inr (x # ys))"

text \<open>
  Keys are compared by code points, character by character and then by length: the
  lexicographic order on lists of characters.
\<close>

fun encodeCanonical :: "json \<Rightarrow> error + string" where
  "encodeCanonical JNull = Inr ''null''"
| "encodeCanonical (JBool b) = Inr (if b then ''true'' else ''false'')"
| "encodeCanonical (JStr s) = Inr (json_quote s)"
| "encodeCanonical (JNum (IntNum n)) =
     (if safe_integer n then Inr (int_text n) else Inl (ValidationError ''MATRIX_CANONICAL_JSON_NUMBER_INVALID''))"
| "encodeCanonical (JNum _) = Inl (ValidationError ''MATRIX_CANONICAL_JSON_NUMBER_INVALID'')"
| "encodeCanonical (JArr vs) =
     map_sum id (\<lambda>ts. ''['' @ join_with (CHR '','') ts @ '']'') (all_right (map encodeCanonical vs))"
| "encodeCanonical (JObj kvs) =
     map_sum id (\<lambda>ts. ''{'' @ join_with (CHR '','') ts @ ''}'')
       (all_right (map (\<lambda>kt. map_sum id (\<lambda>t. json_quote (fst kt) @ '':'' @ t) (snd kt))
         (sort_key fst (map (\<lambda>kv. (fst kv, encodeCanonical (snd kv))) kvs))))"

definition hashMatrixCanonicalJson :: "(string \<Rightarrow> string) \<Rightarrow> json \<Rightarrow> error + string" where
  "hashMatrixCanonicalJson sha v = map_sum id sha (encodeCanonical v)"

section \<open>The order of keys does not matter\<close>

lemma sort_key_unique:
  fixes xs ys :: "(string \<times> 'a) list"
  assumes "set xs = set ys" "distinct (map fst xs)" "distinct (map fst ys)"
  shows "sort_key fst xs = sort_key fst ys"
proof (rule map_sorted_distinct_set_unique [of fst])
  show "inj_on fst (set (sort_key fst xs) \<union> set (sort_key fst ys))"
    using assms by (simp add: distinct_map)
  show "distinct (map fst (sort_key fst xs))" "distinct (map fst (sort_key fst ys))"
    using assms(2,3) by (simp_all add: distinct_map)
qed (simp_all add: assms(1))

text \<open>Objects with the same entries, in any order and at any depth.\<close>

inductive same_json :: "json \<Rightarrow> json \<Rightarrow> bool" where
  same_refl: "same_json v v"
| same_arr: "list_all2 same_json vs ws \<Longrightarrow> same_json (JArr vs) (JArr ws)"
| same_obj: "list_all2 (\<lambda>p q. fst p = fst q \<and> same_json (snd p) (snd q)) kvs kws \<Longrightarrow> distinct (map fst kws) \<Longrightarrow>
     distinct (map fst kxs) \<Longrightarrow> set kxs = set kws \<Longrightarrow> same_json (JObj kvs) (JObj kxs)"

monos
  list_all2_mono

lemma encodeCanonical_obj:
  assumes "list_all2 (\<lambda>p q. fst p = fst q \<and> encodeCanonical (snd p) = encodeCanonical (snd q)) kvs kws"
    "distinct (map fst kws)" "distinct (map fst kxs)" "set kxs = set kws"
  shows "encodeCanonical (JObj kvs) = encodeCanonical (JObj kxs)"
proof -
  let ?enc = "map (\<lambda>kv. (fst kv, encodeCanonical (snd kv)))"
  have "?enc kvs = ?enc kws" using assms(1) by (induction rule: list_all2_induct) auto
  moreover have "sort_key fst (?enc kws) = sort_key fst (?enc kxs)"
    using assms(2-4) by (intro sort_key_unique) (simp_all add: comp_def)
  ultimately have "sort_key fst (?enc kvs) = sort_key fst (?enc kxs)" by simp
  then show ?thesis by (simp only: encodeCanonical.simps)
qed

lemma same_json_encodes: "same_json v w \<Longrightarrow> encodeCanonical v = encodeCanonical w"
proof (induction rule: same_json.induct)
  case (same_arr vs ws)
  then have "list_all2 (\<lambda>v w. encodeCanonical v = encodeCanonical w) vs ws"
    by (rule list_all2_mono) simp
  then have "map encodeCanonical vs = map encodeCanonical ws" by (induction rule: list_all2_induct) auto
  then show ?case by (simp only: encodeCanonical.simps)
next
  case (same_obj kvs kws kxs)
  have "list_all2 (\<lambda>p q. fst p = fst q \<and> encodeCanonical (snd p) = encodeCanonical (snd q)) kvs kws"
    using same_obj(1) by (rule list_all2_mono) auto
  with same_obj(2-4) show ?case by (intro encodeCanonical_obj)
qed simp

section \<open>Properties\<close>

text \<open>The canonical hash of a JSON value does not depend on the order of the keys of its objects, at any
  depth, and either both orders have a hash or neither has.\<close>

theorem canonical_hash_ignores_order:
  assumes "same_json v w"
  shows "hashMatrixCanonicalJson sha v = hashMatrixCanonicalJson sha w"
  using same_json_encodes [OF assms] by (simp add: hashMatrixCanonicalJson_def)

theorem canonical_hash_ignores_order_witness:
  "hashMatrixCanonicalJson (\<lambda>t. t) (JObj [(''b'', JNum (IntNum 1)), (''a'', JNull)]) =
   hashMatrixCanonicalJson (\<lambda>t. t) (JObj [(''a'', JNull), (''b'', JNum (IntNum 1))])"
proof -
  have "same_json (JObj [(''b'', JNum (IntNum 1)), (''a'', JNull)]) (JObj [(''a'', JNull), (''b'', JNum (IntNum 1))])"
    by (rule same_json.same_obj [where kws = "[(''b'', JNum (IntNum 1)), (''a'', JNull)]"])
      (auto intro: same_json.same_refl)
  then show ?thesis by (rule canonical_hash_ignores_order)
qed

end
