(* ===== verification/ToDeviceRequest.thy ===== *)
theory ToDeviceRequest
  imports Json
begin

text \<open>
  apps/api/src/e2ee/matrix-to-device.ts: the validation of a sendToDevice request, and
  apps/api/src/e2ee/matrix-room-event.ts: the validation of a Megolm room event.  Both take the
  JSON value of the request and give a typed value or the code of the error.
\<close>

section \<open>Patterns\<close>

definition matrix_device_id :: "string \<Rightarrow> bool" where
  "matrix_device_id s \<longleftrightarrow> length s = 33 \<and> s ! 0 = CHR ''D'' \<and> list_all upper_hex (drop 1 s)"

text \<open>The white space of a regular expression, below 256.\<close>

definition js_space :: "char \<Rightarrow> bool" where
  "js_space c \<longleftrightarrow> (of_char c :: nat) \<in> {9, 10, 11, 12, 13, 32, 160}"

definition matrix_user_id :: "string \<Rightarrow> bool" where
  "matrix_user_id s \<longleftrightarrow> 36 \<le> length s \<and> length s \<le> 290 \<and> take 2 s = ''@u'' \<and>
     list_all lower_hex (take 32 (drop 2 s)) \<and> s ! 34 = CHR '':'' \<and>
     list_all (\<lambda>c. \<not> js_space c \<and> c \<noteq> CHR ''/'' \<and> c \<noteq> CHR ''@'') (drop 35 s)"

definition transaction_id :: "string \<Rightarrow> bool" where
  "transaction_id s \<longleftrightarrow> 1 \<le> length s \<and> length s \<le> 255 \<and>
     list_all (\<lambda>c. alphanumeric c \<or> c \<in> set ''._~-'') s"

definition curve_key :: "string \<Rightarrow> bool" where
  "curve_key s \<longleftrightarrow> length s = 43 \<and> list_all base64_char s"

definition olm_body :: "string \<Rightarrow> bool" where
  "olm_body s \<longleftrightarrow> (let b = takeWhile base64_char s; p = dropWhile base64_char s in
     b \<noteq> [] \<and> length p \<le> 2 \<and> list_all (\<lambda>c. c = CHR ''='') p)"

definition message_id :: "string \<Rightarrow> bool" where
  "message_id s \<longleftrightarrow> length s = 32 \<and> list_all lower_hex s"

section \<open>Olm content\<close>

record olm_ciphertext =
  ol_body :: string
  ol_type :: json_number

record olm_content =
  oc_ciphertext :: "(string \<times> olm_ciphertext) list"
  oc_msgid :: string
  oc_sender_key :: string

abbreviation MATRIX_OLM_EVENT_TYPE :: string where
  "MATRIX_OLM_EVENT_TYPE \<equiv> ''m.room.encrypted''"

abbreviation MATRIX_OLM_ALGORITHM :: string where
  "MATRIX_OLM_ALGORITHM \<equiv> ''m.olm.v1.curve25519-aes-sha2''"

abbreviation ciphertext_invalid :: error where
  "ciphertext_invalid \<equiv> ValidationError ''MATRIX_TO_DEVICE_CIPHERTEXT_INVALID''"

text \<open>A number equal to 0 or 1 under ===; minus zero is equal to 0.\<close>

definition zero_or_one :: "json_number \<Rightarrow> bool" where
  "zero_or_one t \<longleftrightarrow> t = IntNum 0 \<or> t = IntNum 1 \<or> t = MinusZero"

definition parse_ciphertext :: "json \<Rightarrow> error + olm_ciphertext" where
  "parse_ciphertext raw =
     (case as_record ''MATRIX_TO_DEVICE_CIPHERTEXT_INVALID'' raw of
        Inl e \<Rightarrow> Inl e
      | Inr enc \<Rightarrow>
          (case exactKeys enc [''body'', ''type''] ''MATRIX_TO_DEVICE_CIPHERTEXT_INVALID'' of
             Inl e \<Rightarrow> Inl e
           | Inr _ \<Rightarrow>
               (case (string_field enc ''body'', field enc ''type'') of
                  (Some b, Some (JNum t)) \<Rightarrow>
                    if length b < 1 \<or> \<not> olm_body b \<or> \<not> zero_or_one t then Inl ciphertext_invalid
                    else Inr \<lparr>ol_body = b, ol_type = t\<rparr>
                | _ \<Rightarrow> Inl ciphertext_invalid)))"

fun parse_ciphertexts :: "(string \<times> json) list \<Rightarrow> error + (string \<times> olm_ciphertext) list" where
  "parse_ciphertexts [] = Inr []"
| "parse_ciphertexts ((k, raw) # rest) =
     (if \<not> curve_key k then Inl ciphertext_invalid
      else case parse_ciphertext raw of
        Inl e \<Rightarrow> Inl e
      | Inr c \<Rightarrow> map_sum id (\<lambda>cs. (k, c) # cs) (parse_ciphertexts rest))"

definition parseMatrixOlmContent :: "json \<Rightarrow> error + olm_content" where
  "parseMatrixOlmContent v =
     (case as_record ''MATRIX_TO_DEVICE_CONTENT_INVALID'' v of
        Inl e \<Rightarrow> Inl e
      | Inr content \<Rightarrow>
     (case exactKeys content [''algorithm'', ''ciphertext'', ''org.matrix.msgid'', ''sender_key'']
         ''MATRIX_TO_DEVICE_CONTENT_FIELDS_INVALID'' of
        Inl e \<Rightarrow> Inl e
      | Inr _ \<Rightarrow>
     (case (string_field content ''org.matrix.msgid'', string_field content ''sender_key'') of
        (Some m, Some k) \<Rightarrow>
          if string_field content ''algorithm'' \<noteq> Some MATRIX_OLM_ALGORITHM \<or> \<not> message_id m \<or> \<not> curve_key k
          then Inl (ValidationError ''MATRIX_TO_DEVICE_OLM_ENVELOPE_INVALID'')
          else
            (case as_record ''MATRIX_TO_DEVICE_CIPHERTEXT_INVALID'' (the (field content ''ciphertext'')) of
               Inl e \<Rightarrow> Inl e
             | Inr entries \<Rightarrow>
                 if length entries \<noteq> 1 then Inl ciphertext_invalid
                 else (case parse_ciphertexts entries of
                     Inl e \<Rightarrow> Inl e
                   | Inr cs \<Rightarrow>
                       if 60 * 1024 < json_bytes v then Inl (ValidationError ''MATRIX_TO_DEVICE_CONTENT_TOO_LARGE'')
                       else Inr \<lparr>oc_ciphertext = cs, oc_msgid = m, oc_sender_key = k\<rparr>))
      | _ \<Rightarrow> Inl (ValidationError ''MATRIX_TO_DEVICE_OLM_ENVELOPE_INVALID''))))"

section \<open>The request\<close>

type_synonym device_messages = "(string \<times> olm_content) list"

record to_device_request =
  tr_type :: string
  tr_transaction :: string
  tr_messages :: "(string \<times> device_messages) list"
  tr_targets :: nat

text \<open>The two loops, with \<open>n\<close> the targets counted so far.\<close>

fun parse_devices :: "nat \<Rightarrow> (string \<times> json) list \<Rightarrow> error + (device_messages \<times> nat)" where
  "parse_devices n [] = Inr ([], n)"
| "parse_devices n ((d, raw) # rest) =
     (if \<not> matrix_device_id d then Inl (ValidationError ''MATRIX_TO_DEVICE_DEVICE_ID_INVALID'')
      else if 20 < Suc n then Inl (ValidationError ''MATRIX_TO_DEVICE_TARGET_LIMIT_INVALID'')
      else case parseMatrixOlmContent raw of
        Inl e \<Rightarrow> Inl e
      | Inr c \<Rightarrow> map_sum id (\<lambda>(ds, m). ((d, c) # ds, m)) (parse_devices (Suc n) rest))"

fun parse_users ::
    "nat \<Rightarrow> (string \<times> json) list \<Rightarrow> error + ((string \<times> device_messages) list \<times> nat)" where
  "parse_users n [] = Inr ([], n)"
| "parse_users n ((u, raw) # rest) =
     (if \<not> matrix_user_id u then Inl (ValidationError ''MATRIX_TO_DEVICE_USER_ID_INVALID'')
      else case as_record ''MATRIX_TO_DEVICE_DEVICES_INVALID'' raw of
        Inl e \<Rightarrow> Inl e
      | Inr devices \<Rightarrow>
          if length devices < 1 then Inl (ValidationError ''MATRIX_TO_DEVICE_DEVICES_INVALID'')
          else (case parse_devices n devices of
              Inl e \<Rightarrow> Inl e
            | Inr (ds, m) \<Rightarrow> map_sum id (\<lambda>(us, m'). ((u, ds) # us, m')) (parse_users m rest)))"

definition parseMatrixToDeviceRequest ::
    "string \<Rightarrow> string \<Rightarrow> json \<Rightarrow> error + to_device_request" where
  "parseMatrixToDeviceRequest type txn v =
     (if type \<noteq> MATRIX_OLM_EVENT_TYPE then Inl (ValidationError ''MATRIX_TO_DEVICE_EVENT_TYPE_INVALID'')
      else if \<not> transaction_id txn then Inl (ValidationError ''MATRIX_TO_DEVICE_TRANSACTION_ID_INVALID'')
      else
     (case as_record ''MATRIX_TO_DEVICE_BODY_INVALID'' v of
        Inl e \<Rightarrow> Inl e
      | Inr body \<Rightarrow>
     (case exactKeys body [''messages''] ''MATRIX_TO_DEVICE_BODY_FIELDS_INVALID'' of
        Inl e \<Rightarrow> Inl e
      | Inr _ \<Rightarrow>
     if 256 * 1024 < json_bytes v then Inl (ValidationError ''MATRIX_TO_DEVICE_REQUEST_TOO_LARGE'')
     else
     (case as_record ''MATRIX_TO_DEVICE_MESSAGES_INVALID'' (the (field body ''messages'')) of
        Inl e \<Rightarrow> Inl e
      | Inr users \<Rightarrow>
          if length users < 1 \<or> 10 < length users
          then Inl (ValidationError ''MATRIX_TO_DEVICE_USER_LIMIT_INVALID'')
          else map_sum id (\<lambda>(ms, n). \<lparr>tr_type = MATRIX_OLM_EVENT_TYPE, tr_transaction = txn,
            tr_messages = ms, tr_targets = n\<rparr>) (parse_users 0 users)))))"

section \<open>Back to JSON\<close>

definition content_json :: "olm_content \<Rightarrow> json" where
  "content_json c = JObj [(''algorithm'', JStr MATRIX_OLM_ALGORITHM),
     (''ciphertext'', JObj (map (\<lambda>(k, o'). (k, JObj [(''body'', JStr (ol_body o')),
        (''type'', JNum (ol_type o'))])) (oc_ciphertext c))),
     (''org.matrix.msgid'', JStr (oc_msgid c)), (''sender_key'', JStr (oc_sender_key c))]"

definition messages_json :: "(string \<times> device_messages) list \<Rightarrow> json" where
  "messages_json ms = JObj (map (\<lambda>(u, ds). (u, JObj (map (\<lambda>(d, c). (d, content_json c)) ds))) ms)"

definition matrixToDeviceHashInput :: "to_device_request \<Rightarrow> json" where
  "matrixToDeviceHashInput r =
     JObj [(''event_type'', JStr (tr_type r)), (''messages'', messages_json (tr_messages r))]"

section \<open>Room events\<close>

record megolm_content =
  mg_ciphertext :: string
  mg_device :: string
  mg_sender_key :: string
  mg_session :: string

text \<open>
  isCanonicalUnpaddedBase64: n characters decode to 3 n div 4 bytes, and encoding them again gives
  the same text exactly when the bits of the last character beyond them are zero.
\<close>

definition sextet :: "char \<Rightarrow> nat" where
  "sextet c = (let n = of_char c in
     if 65 \<le> n \<and> n \<le> 90 then n - 65 else if 97 \<le> n \<and> n \<le> 122 then n - 71
     else if 48 \<le> n \<and> n \<le> 57 then n + 4 else if n = 43 then 62 else 63)"

definition isCanonicalUnpaddedBase64 :: "string \<Rightarrow> nat option \<Rightarrow> nat \<Rightarrow> bool" where
  "isCanonicalUnpaddedBase64 s expected minimum \<longleftrightarrow>
     s \<noteq> [] \<and> list_all base64_char s \<and> length s mod 4 \<noteq> 1 \<and>
     minimum \<le> 3 * length s div 4 \<and> (case expected of None \<Rightarrow> True | Some n \<Rightarrow> 3 * length s div 4 = n) \<and>
     (length s mod 4 = 2 \<longrightarrow> sextet (last s) mod 16 = 0) \<and> (length s mod 4 = 3 \<longrightarrow> sextet (last s) mod 4 = 0)"

abbreviation MATRIX_MEGOLM_ALGORITHM :: string where
  "MATRIX_MEGOLM_ALGORITHM \<equiv> ''m.megolm.v1.aes-sha2''"

definition parseMatrixMegolmRoomContent :: "json \<Rightarrow> error + megolm_content" where
  "parseMatrixMegolmRoomContent v =
     (case as_record ''MATRIX_MEGOLM_CONTENT_INVALID'' v of
        Inl e \<Rightarrow> Inl e
      | Inr content \<Rightarrow>
     (case exactKeys content [''algorithm'', ''ciphertext'', ''device_id'', ''sender_key'', ''session_id'']
         ''MATRIX_MEGOLM_CONTENT_FIELDS_INVALID'' of
        Inl e \<Rightarrow> Inl e
      | Inr _ \<Rightarrow>
     (case (string_field content ''device_id'', string_field content ''sender_key'',
            string_field content ''session_id'', string_field content ''ciphertext'') of
        (Some d, Some k, Some i, Some c) \<Rightarrow>
          if string_field content ''algorithm'' \<noteq> Some MATRIX_MEGOLM_ALGORITHM \<or> \<not> matrix_device_id d \<or>
             \<not> isCanonicalUnpaddedBase64 k (Some 32) 1 \<or> \<not> isCanonicalUnpaddedBase64 i (Some 32) 1 \<or>
             \<not> isCanonicalUnpaddedBase64 c None 16
          then Inl (ValidationError ''MATRIX_MEGOLM_ENVELOPE_INVALID'')
          else if 128 * 1024 < json_bytes v then Inl (ValidationError ''MATRIX_MEGOLM_CONTENT_TOO_LARGE'')
          else Inr \<lparr>mg_ciphertext = c, mg_device = d, mg_sender_key = k, mg_session = i\<rparr>
      | _ \<Rightarrow> Inl (ValidationError ''MATRIX_MEGOLM_ENVELOPE_INVALID''))))"

definition megolm_json :: "megolm_content \<Rightarrow> json" where
  "megolm_json m = JObj [(''algorithm'', JStr MATRIX_MEGOLM_ALGORITHM), (''ciphertext'', JStr (mg_ciphertext m)),
     (''device_id'', JStr (mg_device m)), (''sender_key'', JStr (mg_sender_key m)),
     (''session_id'', JStr (mg_session m))]"

section \<open>What is accepted\<close>

definition ciphertext_ok :: "string \<times> olm_ciphertext \<Rightarrow> bool" where
  "ciphertext_ok e \<longleftrightarrow> curve_key (fst e) \<and> ol_body (snd e) \<noteq> [] \<and> olm_body (ol_body (snd e)) \<and>
     zero_or_one (ol_type (snd e))"

definition content_ok :: "olm_content \<Rightarrow> bool" where
  "content_ok c \<longleftrightarrow> length (oc_ciphertext c) = 1 \<and> (\<forall>e \<in> set (oc_ciphertext c). ciphertext_ok e) \<and>
     message_id (oc_msgid c) \<and> curve_key (oc_sender_key c)"

definition devices_ok :: "device_messages \<Rightarrow> bool" where
  "devices_ok ds \<longleftrightarrow> (\<forall>(d, c) \<in> set ds. matrix_device_id d \<and> content_ok c)"

definition target_count :: "(string \<times> device_messages) list \<Rightarrow> nat" where
  "target_count ms = sum_list (map (\<lambda>(u, ds). length ds) ms)"

definition request_ok :: "to_device_request \<Rightarrow> bool" where
  "request_ok r \<longleftrightarrow> tr_type r = MATRIX_OLM_EVENT_TYPE \<and> transaction_id (tr_transaction r) \<and>
     1 \<le> length (tr_messages r) \<and> length (tr_messages r) \<le> 10 \<and>
     (\<forall>(u, ds) \<in> set (tr_messages r). matrix_user_id u \<and> ds \<noteq> [] \<and> devices_ok ds) \<and>
     tr_targets r = target_count (tr_messages r) \<and> tr_targets r \<le> 20"

lemma map_sum_Inr_iff: "map_sum id f x = Inr y \<longleftrightarrow> (\<exists>z. x = Inr z \<and> y = f z)"
  by (cases x) auto

lemma parse_ciphertext_ok:
  "curve_key k \<Longrightarrow> parse_ciphertext raw = Inr c \<Longrightarrow> ciphertext_ok (k, c)"
  by (auto simp: parse_ciphertext_def ciphertext_ok_def split: sum.splits option.splits json.splits if_splits)

lemma parse_ciphertexts_ok:
  "parse_ciphertexts es = Inr cs \<Longrightarrow> length cs = length es \<and> (\<forall>e \<in> set cs. ciphertext_ok e)"
  by (induction es arbitrary: cs rule: parse_ciphertexts.induct)
    (auto simp: map_sum_Inr_iff parse_ciphertext_ok split: sum.splits if_splits)

lemma parse_content_ok: "parseMatrixOlmContent v = Inr c \<Longrightarrow> content_ok c"
  by (auto simp: parseMatrixOlmContent_def content_ok_def split: sum.splits option.splits if_splits
      dest: parse_ciphertexts_ok)

lemma parse_devices_ok:
  "parse_devices n rows = Inr (ds, m) \<Longrightarrow> n \<le> 20 \<Longrightarrow>
     devices_ok ds \<and> length ds = length rows \<and> m = n + length ds \<and> m \<le> 20"
  by (induction n rows arbitrary: ds m rule: parse_devices.induct)
    (fastforce simp: map_sum_Inr_iff devices_ok_def parse_content_ok split: sum.splits if_splits)+

lemma parse_users_ok:
  "parse_users n rows = Inr (ms, m) \<Longrightarrow> n \<le> 20 \<Longrightarrow>
     (\<forall>(u, ds) \<in> set ms. matrix_user_id u \<and> ds \<noteq> [] \<and> devices_ok ds) \<and>
     length ms = length rows \<and> m = n + target_count ms \<and> m \<le> 20"
proof (induction n rows arbitrary: ms m rule: parse_users.induct)
  case (2 n u raw rest)
  from "2.prems"(1) obtain devices ds k us where
    u: "matrix_user_id u" and raw: "as_record ''MATRIX_TO_DEVICE_DEVICES_INVALID'' raw = Inr devices"
    and ne: "\<not> length devices < 1" and ds: "parse_devices n devices = Inr (ds, k)"
    and us: "parse_users k rest = Inr (us, m)" and ms: "ms = (u, ds) # us"
    by (auto simp: map_sum_Inr_iff split: sum.splits if_splits prod.splits)
  from parse_devices_ok [OF ds "2.prems"(2)] have d: "devices_ok ds" "length ds = length devices"
    "k = n + length ds" "k \<le> 20" by simp_all
  from "2.IH" [OF _ raw ne ds refl us d(4)] u have "(\<forall>(u, ds) \<in> set us. matrix_user_id u \<and> ds \<noteq> [] \<and> devices_ok ds) \<and>
     length us = length rest \<and> m = k + target_count us \<and> m \<le> 20" by simp
  with u ne d ms show ?case by (auto simp: target_count_def)
qed (simp add: target_count_def)

section \<open>A well-formed request is accepted\<close>

lemma parse_ciphertexts_back:
  "\<forall>e \<in> set cs. ciphertext_ok e \<Longrightarrow>
     parse_ciphertexts (map (\<lambda>(k, o'). (k, JObj [(''body'', JStr (ol_body o')), (''type'', JNum (ol_type o'))])) cs) = Inr cs"
proof (induction cs)
  case (Cons e cs)
  obtain k c where e: "e = (k, c)" by (cases e)
  from Cons.prems e have "curve_key k" "ol_body c \<noteq> []" "olm_body (ol_body c)" "zero_or_one (ol_type c)"
    by (simp_all add: ciphertext_ok_def)
  then have "parse_ciphertext (JObj [(''body'', JStr (ol_body c)), (''type'', JNum (ol_type c))]) = Inr c"
    by (simp add: parse_ciphertext_def as_record_def exactKeys_def string_field_def field_def Suc_le_eq)
  with Cons e \<open>curve_key k\<close> show ?case by simp
qed simp

lemma parse_content_back:
  assumes "content_ok c" "json_bytes (content_json c) \<le> 60 * 1024"
  shows "parseMatrixOlmContent (content_json c) = Inr c"
proof -
  have "\<forall>e \<in> set (oc_ciphertext c). ciphertext_ok e" using assms(1) by (simp add: content_ok_def)
  from parse_ciphertexts_back [OF this] assms show ?thesis
    by (simp add: parseMatrixOlmContent_def content_json_def as_record_def exactKeys_def string_field_def
        field_def content_ok_def)
qed

lemma parse_devices_back:
  "devices_ok ds \<Longrightarrow> \<forall>(d, c) \<in> set ds. json_bytes (content_json c) \<le> 60 * 1024 \<Longrightarrow> n + length ds \<le> 20 \<Longrightarrow>
     parse_devices n (map (\<lambda>(d, c). (d, content_json c)) ds) = Inr (ds, n + length ds)"
  by (induction ds arbitrary: n) (auto simp: devices_ok_def parse_content_back)

lemma parse_users_back:
  "\<forall>(u, ds) \<in> set ms. matrix_user_id u \<and> ds \<noteq> [] \<and> devices_ok ds \<Longrightarrow>
     \<forall>(u, ds) \<in> set ms. \<forall>(d, c) \<in> set ds. json_bytes (content_json c) \<le> 60 * 1024 \<Longrightarrow>
     n + target_count ms \<le> 20 \<Longrightarrow>
     parse_users n (map (\<lambda>(u, ds). (u, JObj (map (\<lambda>(d, c). (d, content_json c)) ds))) ms) =
       Inr (ms, n + target_count ms)"
  by (induction ms arbitrary: n)
    (auto simp: target_count_def as_record_def parse_devices_back Suc_le_eq add.assoc)

lemma parse_request_back:
  assumes "request_ok r" "json_bytes (JObj [(''messages'', messages_json (tr_messages r))]) \<le> 256 * 1024"
    "\<forall>(u, ds) \<in> set (tr_messages r). \<forall>(d, c) \<in> set ds. json_bytes (content_json c) \<le> 60 * 1024"
  shows "parseMatrixToDeviceRequest (tr_type r) (tr_transaction r)
    (JObj [(''messages'', messages_json (tr_messages r))]) = Inr r"
proof -
  let ?ms = "tr_messages r"
  have "parse_users 0 (map (\<lambda>(u, ds). (u, JObj (map (\<lambda>(d, c). (d, content_json c)) ds))) ?ms) =
      Inr (?ms, 0 + target_count ?ms)"
    using assms(1,3) by (intro parse_users_back) (simp_all add: request_ok_def)
  moreover have "?ms \<noteq> []" using assms(1) by (auto simp: request_ok_def)
  ultimately show ?thesis using assms(1,2)
    by (simp add: parseMatrixToDeviceRequest_def as_record_def exactKeys_def field_def messages_json_def
        request_ok_def)
qed

section \<open>The canonical hash of a request\<close>

definition typed_zero_or_one :: "to_device_request \<Rightarrow> bool" where
  "typed_zero_or_one r \<longleftrightarrow> (\<forall>(u, ds) \<in> set (tr_messages r). \<forall>(d, c) \<in> set ds.
     \<forall>(k, o') \<in> set (oc_ciphertext c). ol_type o' \<noteq> MinusZero)"

lemma all_right_Inr: "(\<exists>ys. all_right xs = Inr ys) \<longleftrightarrow> (\<forall>x \<in> set xs. \<exists>y. x = Inr y)"
  by (induction xs rule: all_right.induct) (auto split: sum.splits)

lemma map_sum_Inr_ex: "(\<exists>y. map_sum id f x = Inr y) \<longleftrightarrow> (\<exists>z. x = Inr z)"
  by (cases x) auto

lemma encodes_obj:
  "(\<exists>t. encodeCanonical (JObj kvs) = Inr t) \<longleftrightarrow> (\<forall>kv \<in> set kvs. \<exists>t. encodeCanonical (snd kv) = Inr t)"
  by (simp add: map_sum_Inr_ex all_right_Inr)

lemma encodes_content:
  assumes "content_ok c"
  shows "(\<exists>t. encodeCanonical (content_json c) = Inr t) \<longleftrightarrow>
    (\<forall>(k, o') \<in> set (oc_ciphertext c). ol_type o' \<noteq> MinusZero)"
proof -
  let ?f = "\<lambda>(k, o'). (k, JObj [(''body'', JStr (ol_body o')), (''type'', JNum (ol_type o'))])"
  have "(\<exists>t. encodeCanonical (snd (?f e)) = Inr t) \<longleftrightarrow> (case e of (k, o') \<Rightarrow> ol_type o' \<noteq> MinusZero)"
    if "e \<in> set (oc_ciphertext c)" for e
  proof (cases e)
    case (Pair k o')
    with assms that have "zero_or_one (ol_type o')" by (auto simp: content_ok_def ciphertext_ok_def)
    then have "(\<exists>t. encodeCanonical (JNum (ol_type o')) = Inr t) \<longleftrightarrow> ol_type o' \<noteq> MinusZero"
      by (auto simp: zero_or_one_def safe_integer_def)
    with Pair show ?thesis by (simp add: encodes_obj del: encodeCanonical.simps(4-6,8))
  qed
  then have "(\<exists>t. encodeCanonical (JObj (map ?f (oc_ciphertext c))) = Inr t) \<longleftrightarrow>
      (\<forall>(k, o') \<in> set (oc_ciphertext c). ol_type o' \<noteq> MinusZero)"
    unfolding encodes_obj by (simp only: set_map ball_simps(9)) (rule ball_cong, rule refl, blast)
  then show ?thesis unfolding content_json_def encodes_obj [of "_ # _"]
    by (simp del: encodeCanonical.simps(4-6,8))
qed

lemma encodes_messages:
  assumes "\<forall>(u, ds) \<in> set ms. devices_ok ds"
  shows "(\<exists>t. encodeCanonical (messages_json ms) = Inr t) \<longleftrightarrow>
    (\<forall>(u, ds) \<in> set ms. \<forall>(d, c) \<in> set ds. \<forall>(k, o') \<in> set (oc_ciphertext c). ol_type o' \<noteq> MinusZero)"
proof -
  have dev: "(\<exists>t. encodeCanonical (JObj (map (\<lambda>(d, c). (d, content_json c)) ds)) = Inr t) \<longleftrightarrow>
      (\<forall>(d, c) \<in> set ds. \<forall>(k, o') \<in> set (oc_ciphertext c). ol_type o' \<noteq> MinusZero)" if "devices_ok ds" for ds
  proof -
    have "(\<exists>t. encodeCanonical (snd ((\<lambda>(d, c). (d, content_json c)) e)) = Inr t) \<longleftrightarrow>
        (case e of (d, c) \<Rightarrow> \<forall>(k, o') \<in> set (oc_ciphertext c). ol_type o' \<noteq> MinusZero)" if "e \<in> set ds" for e
    proof (cases e)
      case (Pair d c)
      with that \<open>devices_ok ds\<close> have "content_ok c" by (auto simp: devices_ok_def)
      from encodes_content [OF this] Pair show ?thesis by simp
    qed
    then show ?thesis unfolding encodes_obj
      by (simp only: set_map ball_simps(9)) (rule ball_cong, rule refl, blast)
  qed
  have "(\<exists>t. encodeCanonical (snd ((\<lambda>(u, ds). (u, JObj (map (\<lambda>(d, c). (d, content_json c)) ds))) e)) = Inr t) \<longleftrightarrow>
      (case e of (u, ds) \<Rightarrow> \<forall>(d, c) \<in> set ds. \<forall>(k, o') \<in> set (oc_ciphertext c). ol_type o' \<noteq> MinusZero)"
    if "e \<in> set ms" for e
  proof (cases e)
    case (Pair u ds)
    with assms that have "devices_ok ds" by auto
    from dev [OF this] Pair show ?thesis by simp
  qed
  then show ?thesis unfolding messages_json_def encodes_obj
    by (simp only: set_map ball_simps(9)) (rule ball_cong, rule refl, blast)
qed

lemma parse_request_ok:
  assumes "parseMatrixToDeviceRequest type txn v = Inr r"
  shows "request_ok r \<and> tr_type r = type \<and> tr_transaction r = txn \<and> 1 \<le> tr_targets r"
proof -
  from assms obtain rows ms n where p: "parse_users 0 rows = Inr (ms, n)" "1 \<le> length rows" "length rows \<le> 10"
    and r: "r = \<lparr>tr_type = MATRIX_OLM_EVENT_TYPE, tr_transaction = txn, tr_messages = ms, tr_targets = n\<rparr>"
    and t: "type = MATRIX_OLM_EVENT_TYPE" "transaction_id txn"
    by (auto simp: parseMatrixToDeviceRequest_def map_sum_Inr_iff not_less Suc_le_eq split: if_splits sum.splits)
  from parse_users_ok [OF p(1)] have u: "\<forall>(u, ds) \<in> set ms. matrix_user_id u \<and> ds \<noteq> [] \<and> devices_ok ds"
    "length ms = length rows" "n = target_count ms" "n \<le> 20" by simp_all
  from u(2) p(2) obtain u0 ds0 ms' where ms: "ms = (u0, ds0) # ms'" by (cases ms) auto
  with u(1) have "1 \<le> length ds0" by (auto simp: Suc_le_eq)
  with u(3) ms have "1 \<le> n" by (simp add: target_count_def)
  with u p r t show ?thesis by (simp add: request_ok_def)
qed

section \<open>Properties\<close>

text \<open>An accepted sendToDevice request is well formed: the Olm event type, between 1 and 10 users with valid
  identifiers and at least one device each, between 1 and 20 targets counted exactly, and for every
  target one Olm ciphertext for one Curve25519 key with the fields in their formats.\<close>

theorem accepted_request_ok:
  assumes "parseMatrixToDeviceRequest type txn v = Inr r"
  shows "request_ok r \<and> tr_type r = type \<and> tr_transaction r = txn \<and> 1 \<le> tr_targets r"
  using assms by (rule parse_request_ok)

text \<open>Every well-formed request within the size limits is accepted, and parsing its JSON gives it back.\<close>

theorem request_roundtrip:
  assumes "request_ok r" "json_bytes (JObj [(''messages'', messages_json (tr_messages r))]) \<le> 256 * 1024"
    "\<forall>(u, ds) \<in> set (tr_messages r). \<forall>(d, c) \<in> set ds. json_bytes (content_json c) \<le> 60 * 1024"
  shows "parseMatrixToDeviceRequest (tr_type r) (tr_transaction r)
    (JObj [(''messages'', messages_json (tr_messages r))]) = Inr r"
  using assms by (rule parse_request_back)

text \<open>The content hash of an accepted request exists exactly when no ciphertext has the type -0, which the
  validation accepts because -0 equals 0 and the canonical encoding refuses.\<close>

theorem accepted_request_hash:
  assumes "parseMatrixToDeviceRequest type txn v = Inr r"
  shows "(\<exists>h. hashMatrixCanonicalJson sha (matrixToDeviceHashInput r) = Inr h) \<longleftrightarrow> typed_zero_or_one r"
proof -
  from parse_request_ok [OF assms] have "request_ok r" by blast
  then have "\<forall>(u, ds) \<in> set (tr_messages r). devices_ok ds" by (auto simp: request_ok_def)
  from encodes_messages [OF this] show ?thesis
    unfolding hashMatrixCanonicalJson_def map_sum_Inr_ex matrixToDeviceHashInput_def typed_zero_or_one_def
      encodes_obj [of "_ # _"]
    by (simp del: encodeCanonical.simps(4-6,8))
qed

lemma parse_megolm_back:
  assumes "matrix_device_id (mg_device m)" "isCanonicalUnpaddedBase64 (mg_sender_key m) (Some 32) 1"
    "isCanonicalUnpaddedBase64 (mg_session m) (Some 32) 1" "isCanonicalUnpaddedBase64 (mg_ciphertext m) None 16"
    "json_bytes (megolm_json m) \<le> 128 * 1024"
  shows "parseMatrixMegolmRoomContent (megolm_json m) = Inr m"
  using assms by (simp add: parseMatrixMegolmRoomContent_def megolm_json_def as_record_def exactKeys_def
      string_field_def field_def)

text \<open>A Megolm room event is accepted exactly when its object has the five fields in their formats and its
  JSON fits 128 KiB: an accepted value has them, and the value with these fields parses to itself.\<close>

theorem megolm_accepted_iff:
  "(parseMatrixMegolmRoomContent v = Inr m \<longrightarrow> matrix_device_id (mg_device m) \<and>
      length (mg_sender_key m) = 43 \<and> length (mg_session m) = 43 \<and> 22 \<le> length (mg_ciphertext m) \<and>
      json_bytes v \<le> 128 * 1024) \<and>
   (parseMatrixMegolmRoomContent (megolm_json m) = Inr m \<longleftrightarrow> matrix_device_id (mg_device m) \<and>
      isCanonicalUnpaddedBase64 (mg_sender_key m) (Some 32) 1 \<and>
      isCanonicalUnpaddedBase64 (mg_session m) (Some 32) 1 \<and>
      isCanonicalUnpaddedBase64 (mg_ciphertext m) None 16 \<and> json_bytes (megolm_json m) \<le> 128 * 1024)"
proof -
  have fields: "matrix_device_id (mg_device m) \<and> isCanonicalUnpaddedBase64 (mg_sender_key m) (Some 32) 1 \<and>
      isCanonicalUnpaddedBase64 (mg_session m) (Some 32) 1 \<and>
      isCanonicalUnpaddedBase64 (mg_ciphertext m) None 16 \<and> json_bytes v \<le> 128 * 1024"
    if "parseMatrixMegolmRoomContent v = Inr m" for v
    using that by (auto simp: parseMatrixMegolmRoomContent_def split: sum.splits option.splits if_splits)
  have key: "length k = 43" if "isCanonicalUnpaddedBase64 k (Some 32) 1" for k
  proof -
    from that have "3 * length k div 4 = 32" "length k mod 4 \<noteq> 1" by (simp_all add: isCanonicalUnpaddedBase64_def)
    then show ?thesis by presburger
  qed
  have body: "22 \<le> length c" if "isCanonicalUnpaddedBase64 c None 16" for c
  proof -
    from that have "16 \<le> 3 * length c div 4" by (simp add: isCanonicalUnpaddedBase64_def)
    then show ?thesis by presburger
  qed
  show ?thesis using fields key body parse_megolm_back by blast
qed

section \<open>Witnesses\<close>

definition demo_content :: "json_number \<Rightarrow> olm_content" where
  "demo_content t = \<lparr>oc_ciphertext = [(replicate 43 (CHR ''A''), \<lparr>ol_body = ''QUJD'', ol_type = t\<rparr>)],
     oc_msgid = replicate 32 (CHR ''0''), oc_sender_key = replicate 43 (CHR ''B'')\<rparr>"

definition demo_request :: "json_number \<Rightarrow> to_device_request" where
  "demo_request t = \<lparr>tr_type = MATRIX_OLM_EVENT_TYPE, tr_transaction = ''t1'',
     tr_messages = [(''@u'' @ replicate 32 (CHR ''1'') @ '':s'', [(CHR ''D'' # replicate 32 (CHR ''2''), demo_content t)])],
     tr_targets = 1\<rparr>"

lemma demo_request_ok: "request_ok (demo_request (IntNum 1)) \<and> request_ok (demo_request MinusZero)"
  by code_simp

lemma demo_request_size:
  "json_bytes (JObj [(''messages'', messages_json (tr_messages (demo_request (IntNum 1))))]) \<le> 1000"
  "json_bytes (JObj [(''messages'', messages_json (tr_messages (demo_request MinusZero)))]) \<le> 1000"
  "json_bytes (content_json (demo_content (IntNum 1))) \<le> 1000"
  "json_bytes (content_json (demo_content MinusZero)) \<le> 1000"
  by code_simp+

lemma demo_limits:
  "t = IntNum 1 \<or> t = MinusZero \<Longrightarrow>
     json_bytes (JObj [(''messages'', messages_json (tr_messages (demo_request t)))]) \<le> 256 * 1024"
  "t = IntNum 1 \<or> t = MinusZero \<Longrightarrow>
     \<forall>(u, ds) \<in> set (tr_messages (demo_request t)). \<forall>(d, c) \<in> set ds. json_bytes (content_json c) \<le> 60 * 1024"
  using demo_request_size unfolding demo_request_def by auto

lemma demo_minus_zero_parses:
  "parseMatrixToDeviceRequest (tr_type (demo_request MinusZero)) (tr_transaction (demo_request MinusZero))
     (JObj [(''messages'', messages_json (tr_messages (demo_request MinusZero)))]) = Inr (demo_request MinusZero)"
  by (rule parse_request_back [OF conjunct2 [OF demo_request_ok] demo_limits [OF disjI2 [OF refl]]])

theorem accepted_request_ok_witness: "request_ok (demo_request MinusZero)"
  using accepted_request_ok [OF demo_minus_zero_parses] by blast

theorem request_roundtrip_witness:
  "parseMatrixToDeviceRequest (tr_type (demo_request (IntNum 1))) (tr_transaction (demo_request (IntNum 1)))
     (JObj [(''messages'', messages_json (tr_messages (demo_request (IntNum 1))))]) = Inr (demo_request (IntNum 1))"
  by (rule request_roundtrip [OF conjunct1 [OF demo_request_ok] demo_limits [OF disjI1 [OF refl]]])

theorem accepted_request_hash_witness:
  "\<not> (\<exists>h. hashMatrixCanonicalJson (\<lambda>t. t) (matrixToDeviceHashInput (demo_request MinusZero)) = Inr h)"
  using accepted_request_hash [OF demo_minus_zero_parses]
  by (simp add: typed_zero_or_one_def demo_request_def demo_content_def)

definition demo_megolm :: megolm_content where
  "demo_megolm = \<lparr>mg_ciphertext = replicate 24 (CHR ''A''), mg_device = CHR ''D'' # replicate 32 (CHR ''2''),
     mg_sender_key = replicate 43 (CHR ''A''), mg_session = replicate 43 (CHR ''A'')\<rparr>"

lemma demo_megolm_fields:
  "matrix_device_id (mg_device demo_megolm)" "isCanonicalUnpaddedBase64 (mg_sender_key demo_megolm) (Some 32) 1"
  "isCanonicalUnpaddedBase64 (mg_session demo_megolm) (Some 32) 1"
  "isCanonicalUnpaddedBase64 (mg_ciphertext demo_megolm) None 16" "json_bytes (megolm_json demo_megolm) \<le> 1000"
  by code_simp+

theorem megolm_accepted_iff_witness: "length (mg_sender_key demo_megolm) = 43"
proof -
  have "json_bytes (megolm_json demo_megolm) \<le> 128 * 1024" using demo_megolm_fields(5) by simp
  with megolm_accepted_iff [of "megolm_json demo_megolm" demo_megolm] demo_megolm_fields(1-4)
  show ?thesis by blast
qed

end
