(* ===== verification/Bytes.thy ===== *)
theory Bytes
  imports Text
begin

text \<open>
  Node's Buffer as the code uses it: base64 and base64url in both directions, and UTF-8.  A byte
  string is a list of characters read as numbers below 256.
\<close>

section \<open>Base64\<close>

definition code :: "char \<Rightarrow> nat" where
  "code c = of_char c"

definition byte :: "nat \<Rightarrow> char" where
  "byte n = char_of n"

lemma code_less: "code c < 256"
  by (simp add: code_def)

lemma byte_code [simp]: "byte (code c) = c"
  by (simp add: byte_def code_def)

lemma code_byte [simp]: "n < 256 \<Longrightarrow> code (byte n) = n"
  by (simp add: byte_def code_def)

fun to_sextets :: "nat list \<Rightarrow> nat list" where
  "to_sextets [] = []"
| "to_sextets [a] = [a div 4, a mod 4 * 16]"
| "to_sextets [a, b] = [a div 4, a mod 4 * 16 + b div 16, b mod 16 * 4]"
| "to_sextets (a # b # c # r) =
     a div 4 # (a mod 4 * 16 + b div 16) # (b mod 16 * 4 + c div 64) # (c mod 64) # to_sextets r"

fun of_sextets :: "nat list \<Rightarrow> nat list" where
  "of_sextets [] = []"
| "of_sextets [p] = []"
| "of_sextets [p, q] = [p * 4 + q div 16]"
| "of_sextets [p, q, r] = [p * 4 + q div 16, q mod 16 * 16 + r div 4]"
| "of_sextets (p # q # r # t # rest) =
     (p * 4 + q div 16) # (q mod 16 * 16 + r div 4) # (r mod 4 * 64 + t) # of_sextets rest"

text \<open>Shifting in and out of a group of bits.\<close>

lemma shift_mod: "y < k \<Longrightarrow> (x * k + y) mod k = (y::nat)"
  by simp

lemma shift_div: "y < k \<Longrightarrow> (x * k + y) div k = (x::nat)"
  by simp

lemma shift_less: "x < m \<Longrightarrow> y < k \<Longrightarrow> x * k + y < m * (k::nat)"
proof -
  assume x: "x < m" and y: "y < k"
  have "x * k + y < Suc x * k" using y by simp
  also have "\<dots> \<le> m * k" using x by (intro mult_right_mono) simp_all
  finally show ?thesis .
qed

lemma sextet_bounds:
  fixes a b c :: nat
  assumes "a < 256" "b < 256" "c < 256"
  shows "a div 4 < 64" "a mod 4 * 16 + b div 16 < 64" "b mod 16 * 4 + c div 64 < 64"
    "a mod 4 * 16 < 64" "b mod 16 * 4 < 64"
proof -
  show "a div 4 < 64" using assms by simp
  have "b div 16 < 16" "c div 64 < 4" using assms by simp_all
  then show "a mod 4 * 16 + b div 16 < 64" "b mod 16 * 4 + c div 64 < 64"
    using shift_less [of "a mod 4" 4 "b div 16" 16] shift_less [of "b mod 16" 16 "c div 64" 4] by simp_all
  show "a mod 4 * 16 < 64" using shift_less [of "a mod 4" 4 0 16] by simp
  show "b mod 16 * 4 < 64" using shift_less [of "b mod 16" 16 0 4] by simp
qed

lemma to_sextets_less: "\<forall>b \<in> set bs. b < 256 \<Longrightarrow> \<forall>x \<in> set (to_sextets bs). x < 64"
proof (induction bs rule: to_sextets.induct)
  case (2 a)
  then show ?case using sextet_bounds [of a 0 0] by simp
next
  case (3 a b)
  then show ?case using sextet_bounds [of a b 0] by simp
next
  case (4 a b c r)
  then show ?case using sextet_bounds [of a b c] by simp
qed simp

lemma regroup:
  fixes a b c :: nat
  shows "b < 256 \<Longrightarrow> a div 4 * 4 + (a mod 4 * 16 + b div 16) div 16 = a"
    "b < 256 \<Longrightarrow> c < 256 \<Longrightarrow> (a mod 4 * 16 + b div 16) mod 16 * 16 + (b mod 16 * 4 + c div 64) div 4 = b"
    "c < 256 \<Longrightarrow> (b mod 16 * 4 + c div 64) mod 4 * 64 + c mod 64 = c"
    "b < 256 \<Longrightarrow> (a mod 4 * 16 + b div 16) mod 16 * 16 + b mod 16 * 4 div 4 = b"
proof -
  have b: "b div 16 < 16" if "b < 256" using that by simp
  have c: "c div 64 < 4" if "c < 256" using that by simp
  show "b < 256 \<Longrightarrow> a div 4 * 4 + (a mod 4 * 16 + b div 16) div 16 = a"
    "b < 256 \<Longrightarrow> (a mod 4 * 16 + b div 16) mod 16 * 16 + b mod 16 * 4 div 4 = b"
    unfolding shift_div [OF b] shift_mod [OF b] by simp_all
  show "c < 256 \<Longrightarrow> (b mod 16 * 4 + c div 64) mod 4 * 64 + c mod 64 = c"
    unfolding shift_mod [OF c] by simp
  show "b < 256 \<Longrightarrow> c < 256 \<Longrightarrow> (a mod 4 * 16 + b div 16) mod 16 * 16 + (b mod 16 * 4 + c div 64) div 4 = b"
    unfolding shift_mod [OF b] shift_div [OF c] by simp
qed

lemma of_to_sextets: "\<forall>b \<in> set bs. b < 256 \<Longrightarrow> of_sextets (to_sextets bs) = bs"
proof (induction bs rule: to_sextets.induct)
  case (2 a)
  then show ?case by simp
next
  case (3 a b)
  then have b: "b < 256" by simp
  show ?case using regroup(1) [OF b, of a] regroup(4) [OF b, of a] by (simp only: to_sextets.simps of_sextets.simps)
next
  case (4 a b c r)
  then have b: "b < 256" and c: "c < 256" and r: "of_sextets (to_sextets r) = r" by simp_all
  show ?case using regroup(1) [OF b, of a] regroup(2) [OF b c, of a] regroup(3) [OF c, of b] r
    by (simp only: to_sextets.simps of_sextets.simps)
qed simp

definition std_alphabet :: string where
  "std_alphabet = ''ABCDEFGHIJKLMNOPQRSTUVWXYZabcdefghijklmnopqrstuvwxyz0123456789+/''"

definition url_alphabet :: string where
  "url_alphabet = ''ABCDEFGHIJKLMNOPQRSTUVWXYZabcdefghijklmnopqrstuvwxyz0123456789-_''"

text \<open>
  Decoding reads both alphabets, skips any other character and ends at a padding character.
\<close>

definition base64_value :: "char \<Rightarrow> nat option" where
  "base64_value c =
     (if c = CHR ''-'' then Some 62 else if c = CHR ''_'' then Some 63
      else map_of (zip std_alphabet [0..<64]) c)"

definition base64_decode :: "string \<Rightarrow> nat list" where
  "base64_decode s = of_sextets (List.map_filter base64_value (takeWhile (\<lambda>c. c \<noteq> CHR ''='') s))"

definition base64_padding :: "nat \<Rightarrow> string" where
  "base64_padding n = (if n mod 3 = 1 then ''=='' else if n mod 3 = 2 then ''='' else [])"

definition base64_encode :: "nat list \<Rightarrow> string" where
  "base64_encode bs = map (\<lambda>n. std_alphabet ! n) (to_sextets bs) @ base64_padding (length bs)"

definition base64url_encode :: "nat list \<Rightarrow> string" where
  "base64url_encode bs = map (\<lambda>n. url_alphabet ! n) (to_sextets bs)"

lemma alphabet_values:
  "\<forall>n \<in> set [0..<64]. base64_value (std_alphabet ! n) = Some n \<and> std_alphabet ! n \<noteq> CHR ''=''"
  "\<forall>n \<in> set [0..<64]. base64_value (url_alphabet ! n) = Some n \<and> url_alphabet ! n \<noteq> CHR ''='' \<and>
     base64url_char (url_alphabet ! n)"
  by code_simp+

lemma std_values: "n < 64 \<Longrightarrow> base64_value (std_alphabet ! n) = Some n \<and> std_alphabet ! n \<noteq> CHR ''=''"
  using alphabet_values(1) by simp

lemma url_values:
  "n < 64 \<Longrightarrow> base64_value (url_alphabet ! n) = Some n \<and> url_alphabet ! n \<noteq> CHR ''='' \<and>
     base64url_char (url_alphabet ! n)"
  using alphabet_values(2) by simp

lemma read_alphabet:
  assumes "\<And>n. n < 64 \<Longrightarrow> base64_value (A ! n) = Some n \<and> A ! n \<noteq> CHR ''=''" "\<forall>x \<in> set xs. x < 64"
  shows "List.map_filter base64_value (map (\<lambda>n. A ! n) xs) = xs"
    and "takeWhile (\<lambda>c. c \<noteq> CHR ''='') (map (\<lambda>n. A ! n) xs @ replicate k (CHR ''='')) = map (\<lambda>n. A ! n) xs"
  using assms(2)
  by (induction xs) (auto simp: assms(1) List.map_filter_simps takeWhile_eq_Nil_iff)

lemma padding_replicate: "\<exists>k. base64_padding n = replicate k (CHR ''='')"
proof -
  have "base64_padding n = replicate (if n mod 3 = 1 then 2 else if n mod 3 = 2 then 1 else 0) (CHR ''='')"
    by (simp add: base64_padding_def numeral_2_eq_2)
  then show ?thesis by blast
qed

lemma read_encoding:
  assumes "\<And>n. n < 64 \<Longrightarrow> base64_value (A ! n) = Some n \<and> A ! n \<noteq> CHR ''=''" "\<forall>b \<in> set bs. b < 256"
  shows "base64_decode (map (\<lambda>n. A ! n) (to_sextets bs) @ replicate k (CHR ''='')) = bs"
proof -
  note less = to_sextets_less [OF assms(2)]
  show ?thesis
    unfolding base64_decode_def
    by (simp only: read_alphabet(2) [where A = A, OF assms(1) less] read_alphabet(1) [where A = A, OF assms(1) less]
      of_to_sextets [OF assms(2)])
qed

lemma base64_roundtrip: "\<forall>b \<in> set bs. b < 256 \<Longrightarrow> base64_decode (base64_encode bs) = bs"
proof -
  assume bs: "\<forall>b \<in> set bs. b < 256"
  obtain k where k: "base64_padding (length bs) = replicate k (CHR ''='')" using padding_replicate by blast
  show ?thesis unfolding base64_encode_def k by (rule read_encoding [OF std_values bs])
qed

lemma base64url_roundtrip: "\<forall>b \<in> set bs. b < 256 \<Longrightarrow> base64_decode (base64url_encode bs) = bs"
  using read_encoding [where A = url_alphabet and k = 0 and bs = bs] url_values by (simp add: base64url_encode_def)

lemma base64url_chars: "\<forall>b \<in> set bs. b < 256 \<Longrightarrow> c \<in> set (base64url_encode bs) \<Longrightarrow> base64url_char c"
  using to_sextets_less [of bs] url_values by (auto simp: base64url_encode_def)

lemma length_to_sextets: "length (to_sextets bs) = (4 * length bs + 2) div 3"
  by (induction bs rule: to_sextets.induct) auto

section \<open>UTF-8\<close>

definition utf8_encode :: "string \<Rightarrow> nat list" where
  "utf8_encode s = concat (map (\<lambda>c. if code c < 128 then [code c]
     else [192 + code c div 64, 128 + code c mod 64]) s)"

text \<open>
  The UTF-8 decoder of the Encoding standard: the number of bytes still needed, the bounds of the
  next byte and the code point read so far.  A fault is None; the byte that shows a fault
  in the middle of a character is read again.
\<close>

function utf8_points :: "nat \<Rightarrow> nat \<Rightarrow> nat \<Rightarrow> nat \<Rightarrow> nat list \<Rightarrow> nat option list" where
  "utf8_points needed lower upper point [] = (if needed = 0 then [] else [None])"
| "utf8_points needed lower upper point (b # r) =
     (if needed = 0 then
        (if b < 128 then Some b # utf8_points 0 128 191 0 r
         else if 194 \<le> b \<and> b \<le> 223 then utf8_points 1 128 191 (b - 192) r
         else if 224 \<le> b \<and> b \<le> 239
           then utf8_points 2 (if b = 224 then 160 else 128) (if b = 237 then 159 else 191) (b - 224) r
         else if 240 \<le> b \<and> b \<le> 244
           then utf8_points 3 (if b = 240 then 144 else 128) (if b = 244 then 143 else 191) (b - 240) r
         else None # utf8_points 0 128 191 0 r)
      else if lower \<le> b \<and> b \<le> upper then
        (if needed = 1 then Some (point * 64 + (b - 128)) # utf8_points 0 128 191 0 r
         else utf8_points (needed - 1) 128 191 (point * 64 + (b - 128)) r)
      else None # utf8_points 0 128 191 0 (b # r))"
  by pat_completeness auto

termination
  by (relation "measure (\<lambda>(needed, _, _, _, bs). 2 * length bs + (if needed = 0 then 0 else 1))") auto

definition utf8_decode :: "nat list \<Rightarrow> nat option list" where
  "utf8_decode bs = utf8_points 0 128 191 0 bs"

text \<open>
  A text of the model has characters below 256; a code point beyond is read as character 255,
  and so is a faulty byte sequence where the decoder replaces it.
\<close>

definition point_char :: "nat \<Rightarrow> char" where
  "point_char n = (if n < 256 then byte n else CHR 0xFF)"

text \<open>Buffer.toString replaces faults; a fatal TextDecoder throws, and drops a leading byte order mark.\<close>

definition utf8_text :: "nat list \<Rightarrow> string" where
  "utf8_text bs = map (\<lambda>p. case p of None \<Rightarrow> CHR 0xFF | Some n \<Rightarrow> point_char n) (utf8_decode bs)"

definition utf8_fatal :: "nat list \<Rightarrow> string option" where
  "utf8_fatal bs =
     (let ps = utf8_decode (if take 3 bs = [239, 187, 191] then drop 3 bs else bs) in
      if None \<in> set ps then None else Some (map (\<lambda>p. point_char (the p)) ps))"

lemma utf8_encode_less: "b \<in> set (utf8_encode s) \<Longrightarrow> b < 256"
proof -
  have "192 + code c div 64 < 256" for c using code_less [of c] by simp
  moreover have "128 + code c mod 64 < (256::nat)" for c
    using pos_mod_bound [of 64] by (simp add: less_trans [of "code c mod 64" 64])
  ultimately show "b \<in> set (utf8_encode s) \<Longrightarrow> b < 256" by (auto simp: utf8_encode_def split: if_splits)
qed

lemma utf8_roundtrip: "utf8_decode (utf8_encode s) = map (Some \<circ> code) s"
proof (induction s)
  case (Cons c s)
  have "code c < 256" by (rule code_less)
  then have "code c div 64 < 4" by simp
  moreover have "\<not> code c < 128 \<Longrightarrow> 2 \<le> code c div 64" by simp
  moreover have "code c mod 64 < 64" by simp
  moreover have "code c div 64 * 64 + code c mod 64 = code c" by simp
  moreover have "code c mod 64 \<le> 63" using calculation(3) by simp
  ultimately show ?case using Cons by (cases "code c < 128") (simp_all add: utf8_decode_def utf8_encode_def)
qed (simp add: utf8_decode_def utf8_encode_def)

lemma utf8_text_roundtrip: "utf8_text (utf8_encode s) = s"
  by (simp add: utf8_text_def utf8_roundtrip point_char_def code_less comp_def)

lemma utf8_first: "take 3 (utf8_encode s) \<noteq> [239, 187, 191]"
proof (cases s)
  case (Cons c r)
  have "192 + code c div 64 < 196" using code_less [of c] by simp
  with Cons show ?thesis by (auto simp: utf8_encode_def numeral_3_eq_3)
qed (simp add: utf8_encode_def)

lemma utf8_fatal_roundtrip: "utf8_fatal (utf8_encode s) = Some s"
  by (simp add: utf8_fatal_def utf8_first utf8_roundtrip point_char_def code_less comp_def image_iff)

end
