(* ===== verification/KeyUpload.thy ===== *)
theory KeyUpload
  imports ToDeviceRequest Bytes
begin

text \<open>
  apps/api/src/e2ee/matrix-key-upload.ts: the validation of the public keys a device publishes.
  The identity keys of the device, its one-time keys and its fallback key arrive as one JSON value,
  each signed by the Ed25519 key of the device.  Ed25519 itself is a parameter: the point check of
  @noble/curves and the verification of node:crypto, on byte lists.
\<close>

abbreviation signed_curve :: string where
  "signed_curve \<equiv> ''signed_curve25519''"

record ed25519 =
  ed_small_order :: "nat list \<Rightarrow> bool option"  \<comment> \<open>None: the bytes are no point of the curve\<close>
  ed_verify :: "nat list \<Rightarrow> nat list \<Rightarrow> nat list \<Rightarrow> bool"  \<comment> \<open>key, message, signature\<close>

section \<open>Encodings\<close>

definition key_id :: "string \<Rightarrow> bool" where
  "key_id s \<longleftrightarrow> 1 \<le> length s \<and> length s \<le> 64 \<and>
     list_all (\<lambda>c. alphanumeric c \<or> c \<in> set ''._=-'') s"

fun split_on :: "char \<Rightarrow> string \<Rightarrow> string list" where
  "split_on c [] = [[]]"
| "split_on c (x # xs) =
     (if x = c then [] # split_on c xs
      else case split_on c xs of p # ps \<Rightarrow> (x # p) # ps | [] \<Rightarrow> [[x]])"

text \<open>A field that is absent is undefined, which is no object and no string.\<close>

definition record_of :: "json option \<Rightarrow> string \<Rightarrow> error + (string \<times> json) list" where
  "record_of v err = (case v of None \<Rightarrow> Inl (ValidationError err) | Some w \<Rightarrow> as_record err w)"

definition unpadded :: "string \<Rightarrow> string" where
  "unpadded s = rev (dropWhile (\<lambda>c. c = CHR ''='') (rev s))"

definition canonicalBase64 :: "json option \<Rightarrow> nat \<Rightarrow> string \<Rightarrow> error + nat list" where
  "canonicalBase64 v expected err =
     (case v of
        Some (JStr s) \<Rightarrow>
          if \<not> list_all base64_char s \<or> length s mod 4 = 1 then Inl (ValidationError err)
          else
            let decoded = base64_decode s in
            if length decoded \<noteq> expected \<or> unpadded (base64_encode decoded) \<noteq> s
            then Inl (ValidationError err) else Inr decoded
      | _ \<Rightarrow> Inl (ValidationError err))"

definition optionalKeys :: "(string \<times> json) list \<Rightarrow> string list \<Rightarrow> string \<Rightarrow> error + unit" where
  "optionalKeys kvs allowed err =
     guardE (\<forall>k \<in> set (map fst kvs). k \<in> set allowed) (ValidationError err)"

section \<open>Signed objects\<close>

type_synonym signature_map = "(string \<times> (string \<times> string) list) list"

record signed_curve_key =
  sk_key :: string
  sk_fallback :: bool
  sk_signatures :: signature_map

record device_keys =
  dk_algorithms :: "string list"
  dk_device :: string
  dk_keys :: "(string \<times> string) list"
  dk_signatures :: signature_map
  dk_user :: string

record key_upload =
  ku_device_keys :: "device_keys option"
  ku_one_time_keys :: "(string \<times> signed_curve_key) list"
  ku_fallback_keys :: "(string \<times> signed_curve_key) list"

definition strings_json :: "(string \<times> string) list \<Rightarrow> json" where
  "strings_json kvs = JObj (map (\<lambda>(k, s). (k, JStr s)) kvs)"

definition signatures_json :: "signature_map \<Rightarrow> json" where
  "signatures_json m = JObj (map (\<lambda>(u, ks). (u, strings_json ks)) m)"

definition curve_key_entries :: "signed_curve_key \<Rightarrow> (string \<times> json) list" where
  "curve_key_entries k = [(''key'', JStr (sk_key k)), (''signatures'', signatures_json (sk_signatures k))] @
     (if sk_fallback k then [(''fallback'', JBool True)] else [])"

definition device_keys_entries :: "device_keys \<Rightarrow> (string \<times> json) list" where
  "device_keys_entries d =
     [(''algorithms'', JArr (map JStr (dk_algorithms d))), (''device_id'', JStr (dk_device d)),
      (''keys'', strings_json (dk_keys d)), (''signatures'', signatures_json (dk_signatures d)),
      (''user_id'', JStr (dk_user d))]"

definition assertStrongEd25519Point :: "ed25519 \<Rightarrow> nat list \<Rightarrow> string \<Rightarrow> error + unit" where
  "assertStrongEd25519Point ed bytes err =
     (case ed_small_order ed bytes of
        None \<Rightarrow> Inl (ValidationError err)
      | Some small \<Rightarrow> guardE (\<not> small) (ValidationError err))"

definition assertMatrixEd25519PublicKey :: "ed25519 \<Rightarrow> string \<Rightarrow> string \<Rightarrow> error + unit" where
  "assertMatrixEd25519PublicKey ed s err =
     bindE (canonicalBase64 (Some (JStr s)) 32 err) (\<lambda>b. assertStrongEd25519Point ed b err)"

text \<open>The object without its signatures: what the signature is over.\<close>

definition signed_value :: "(string \<times> json) list \<Rightarrow> json" where
  "signed_value v = JObj (filter (\<lambda>kv. fst kv \<noteq> ''signatures'' \<and> fst kv \<noteq> ''unsigned'') v)"

definition verifyMatrixSignedObject ::
    "ed25519 \<Rightarrow> (string \<times> json) list \<Rightarrow> string \<Rightarrow> string \<Rightarrow> string \<Rightarrow> string \<Rightarrow> error + unit" where
  "verifyMatrixSignedObject ed v signer keyId publicKey err =
     bindE (record_of (field v ''signatures'') ''MATRIX_SIGNATURES_INVALID'') (\<lambda>signatures.
     bindE (record_of (field signatures signer) ''MATRIX_SIGNATURES_INVALID'') (\<lambda>signerSignatures.
     bindE (canonicalBase64 (field signerSignatures keyId) 64 ''MATRIX_SIGNATURE_ENCODING_INVALID'') (\<lambda>signature.
     bindE (canonicalBase64 (Some (JStr publicKey)) 32 ''MATRIX_ED25519_KEY_INVALID'') (\<lambda>key.
     bindE (assertStrongEd25519Point ed key err) (\<lambda>_.
     bindE (assertStrongEd25519Point ed (take 32 signature) err) (\<lambda>_.
     bindE (encodeCanonical (signed_value v)) (\<lambda>text.
     guardE (ed_verify ed key (utf8_encode text) signature) (ValidationError err))))))))"

section \<open>Parsing\<close>

definition parseExactSignatureMap :: "json option \<Rightarrow> string \<Rightarrow> string \<Rightarrow> error + signature_map" where
  "parseExactSignatureMap v expectedSigner expectedKeyId =
     bindE (record_of v ''MATRIX_SIGNATURES_INVALID'') (\<lambda>signatures.
     bindE (exactKeys signatures [expectedSigner] ''MATRIX_SIGNATURES_INVALID'') (\<lambda>_.
     bindE (record_of (field signatures expectedSigner) ''MATRIX_SIGNATURES_INVALID'') (\<lambda>signer.
     bindE (exactKeys signer [expectedKeyId] ''MATRIX_SIGNATURES_INVALID'') (\<lambda>_.
     bindE (canonicalBase64 (field signer expectedKeyId) 64 ''MATRIX_SIGNATURE_ENCODING_INVALID'') (\<lambda>_.
     Inr [(expectedSigner, [(expectedKeyId, the (string_field signer expectedKeyId))])])))))"

definition signing_key_id :: "string \<Rightarrow> string" where
  "signing_key_id device = ''ed25519:'' @ device"

definition curve_key_name :: "string \<Rightarrow> string" where
  "curve_key_name device = ''curve25519:'' @ device"

definition parseDeviceKeys :: "json \<Rightarrow> string \<Rightarrow> string \<Rightarrow> error + device_keys" where
  "parseDeviceKeys v user device =
     bindE (as_record ''MATRIX_DEVICE_KEYS_NOT_OBJECT'' v) (\<lambda>input.
     bindE (exactKeys input [''algorithms'', ''device_id'', ''keys'', ''signatures'', ''user_id'']
       ''MATRIX_DEVICE_KEYS_FIELDS_INVALID'') (\<lambda>_.
     bindE (guardE (field input ''user_id'' = Some (JStr user) \<and> field input ''device_id'' = Some (JStr device))
       (ValidationError ''MATRIX_DEVICE_IDENTITY_MISMATCH'')) (\<lambda>_.
     bindE (guardE (field input ''algorithms'' = Some (JArr [JStr MATRIX_OLM_ALGORITHM, JStr MATRIX_MEGOLM_ALGORITHM]))
       (ValidationError ''MATRIX_DEVICE_ALGORITHMS_INVALID'')) (\<lambda>_.
     bindE (record_of (field input ''keys'') ''MATRIX_DEVICE_PUBLIC_KEYS_INVALID'') (\<lambda>keys.
     bindE (exactKeys keys [curve_key_name device, signing_key_id device] ''MATRIX_DEVICE_PUBLIC_KEYS_INVALID'') (\<lambda>_.
     bindE (canonicalBase64 (field keys (curve_key_name device)) 32 ''MATRIX_CURVE25519_KEY_INVALID'') (\<lambda>_.
     bindE (canonicalBase64 (field keys (signing_key_id device)) 32 ''MATRIX_ED25519_KEY_INVALID'') (\<lambda>_.
     bindE (parseExactSignatureMap (field input ''signatures'') user (signing_key_id device)) (\<lambda>signatures.
     Inr \<lparr>dk_algorithms = [MATRIX_OLM_ALGORITHM, MATRIX_MEGOLM_ALGORITHM], dk_device = device,
       dk_keys = [(curve_key_name device, the (string_field keys (curve_key_name device))),
         (signing_key_id device, the (string_field keys (signing_key_id device)))],
       dk_signatures = signatures, dk_user = user\<rparr>)))))))))"

definition curve_key_id :: "string \<Rightarrow> string option" where
  "curve_key_id full =
     (case split_on (CHR '':'') full of
        [algorithm, k] \<Rightarrow> if algorithm = signed_curve \<and> key_id k then Some k else None
      | _ \<Rightarrow> None)"

text \<open>One entry of a map of curve keys.\<close>

definition parse_curve_key ::
    "ed25519 \<Rightarrow> bool \<Rightarrow> string \<Rightarrow> string \<Rightarrow> string \<Rightarrow> string \<Rightarrow> json \<Rightarrow> error + signed_curve_key" where
  "parse_curve_key ed fallback user device ed25519Key full raw =
     bindE (guardE (curve_key_id full \<noteq> None) (ValidationError ''MATRIX_CURVE_KEY_ID_INVALID'')) (\<lambda>_.
     bindE (as_record ''MATRIX_CURVE_KEY_INVALID'' raw) (\<lambda>key.
     bindE (exactKeys key (if fallback then [''fallback'', ''key'', ''signatures''] else [''key'', ''signatures''])
       ''MATRIX_CURVE_KEY_FIELDS_INVALID'') (\<lambda>_.
     bindE (guardE (\<not> fallback \<or> field key ''fallback'' = Some (JBool True))
       (ValidationError ''MATRIX_FALLBACK_FLAG_INVALID'')) (\<lambda>_.
     bindE (canonicalBase64 (field key ''key'') 32 ''MATRIX_CURVE25519_KEY_INVALID'') (\<lambda>_.
     bindE (parseExactSignatureMap (field key ''signatures'') user (signing_key_id device)) (\<lambda>signatures.
     let parsed = \<lparr>sk_key = the (string_field key ''key''), sk_fallback = fallback, sk_signatures = signatures\<rparr> in
     bindE (verifyMatrixSignedObject ed (curve_key_entries parsed) user (signing_key_id device) ed25519Key
       ''MATRIX_CURVE_KEY_SIGNATURE_INVALID'') (\<lambda>_. Inr parsed)))))))"

fun parse_curve_keys ::
    "ed25519 \<Rightarrow> bool \<Rightarrow> string \<Rightarrow> string \<Rightarrow> string \<Rightarrow> (string \<times> json) list \<Rightarrow>
       error + (string \<times> signed_curve_key) list" where
  "parse_curve_keys ed fallback user device ed25519Key [] = Inr []"
| "parse_curve_keys ed fallback user device ed25519Key ((full, raw) # rest) =
     bindE (parse_curve_key ed fallback user device ed25519Key full raw) (\<lambda>k.
     bindE (parse_curve_keys ed fallback user device ed25519Key rest) (\<lambda>ks. Inr ((full, k) # ks)))"

text \<open>The argument is the field of the body; undefined and null stand for the empty map.\<close>

definition parseCurveKeyMap ::
    "ed25519 \<Rightarrow> json option \<Rightarrow> bool \<Rightarrow> string \<Rightarrow> string \<Rightarrow> string \<Rightarrow> nat \<Rightarrow>
       error + (string \<times> signed_curve_key) list" where
  "parseCurveKeyMap ed v fallback user device ed25519Key maximum =
     bindE (case v of None \<Rightarrow> Inr [] | Some JNull \<Rightarrow> Inr [] | Some w \<Rightarrow> as_record ''MATRIX_CURVE_KEY_MAP_INVALID'' w)
       (\<lambda>entries.
     bindE (guardE (length entries \<le> maximum) (ValidationError ''MATRIX_CURVE_KEY_LIMIT_EXCEEDED'')) (\<lambda>_.
     parse_curve_keys ed fallback user device ed25519Key entries))"

text \<open>The Ed25519 key that signs the upload: the published one or, first, the one of the upload itself.\<close>

definition upload_signer ::
    "ed25519 \<Rightarrow> string \<Rightarrow> string \<Rightarrow> string option \<Rightarrow> device_keys option \<Rightarrow> error + string" where
  "upload_signer ed user device existing deviceKeys =
     bindE (case existing of None \<Rightarrow> Inr ()
       | Some k \<Rightarrow> assertMatrixEd25519PublicKey ed k ''MATRIX_EXISTING_ED25519_KEY_INVALID'') (\<lambda>_.
     (case deviceKeys of
        None \<Rightarrow> (case existing of None \<Rightarrow> Inl (ValidationError ''MATRIX_DEVICE_KEYS_REQUIRED'')
          | Some k \<Rightarrow> if k = [] then Inl (ValidationError ''MATRIX_DEVICE_KEYS_REQUIRED'') else Inr k)
      | Some d \<Rightarrow>
          (case map_of (dk_keys d) (signing_key_id device) of
             None \<Rightarrow> Inl (ValidationError ''MATRIX_ED25519_KEY_MISSING'')
           | Some uploaded \<Rightarrow>
               bindE (guardE (uploaded \<noteq> []) (ValidationError ''MATRIX_ED25519_KEY_MISSING'')) (\<lambda>_.
               bindE (guardE (existing = None \<or> existing = Some uploaded)
                 (ValidationError ''MATRIX_DEVICE_IDENTITY_CHANGE_FORBIDDEN'')) (\<lambda>_.
               bindE (verifyMatrixSignedObject ed (device_keys_entries d) user (signing_key_id device) uploaded
                 ''MATRIX_DEVICE_SIGNATURE_INVALID'') (\<lambda>_. Inr uploaded))))))"

definition upload_curve_keys :: "key_upload \<Rightarrow> string list" where
  "upload_curve_keys u = map (sk_key \<circ> snd) (ku_one_time_keys u @ ku_fallback_keys u)"

definition parseMatrixKeyUpload ::
    "ed25519 \<Rightarrow> json \<Rightarrow> string \<Rightarrow> string \<Rightarrow> string option \<Rightarrow> error + key_upload" where
  "parseMatrixKeyUpload ed v user device existing =
     bindE (guardE (matrix_user_id user \<and> matrix_device_id device)
       (ValidationError ''MATRIX_EXPECTED_ID_INVALID'')) (\<lambda>_.
     bindE (as_record ''MATRIX_UPLOAD_NOT_OBJECT'' v) (\<lambda>body.
     bindE (optionalKeys body [''device_keys'', ''fallback_keys'', ''one_time_keys'']
       ''MATRIX_UPLOAD_FIELDS_INVALID'') (\<lambda>_.
     bindE (case field body ''device_keys'' of None \<Rightarrow> Inr None
       | Some d \<Rightarrow> map_sum id Some (parseDeviceKeys d user device)) (\<lambda>deviceKeys.
     bindE (upload_signer ed user device existing deviceKeys) (\<lambda>signer.
     bindE (parseCurveKeyMap ed (field body ''one_time_keys'') False user device signer 100) (\<lambda>oneTimeKeys.
     bindE (parseCurveKeyMap ed (field body ''fallback_keys'') True user device signer 1) (\<lambda>fallbackKeys.
     let upload = \<lparr>ku_device_keys = deviceKeys, ku_one_time_keys = oneTimeKeys, ku_fallback_keys = fallbackKeys\<rparr> in
     bindE (guardE (distinct (upload_curve_keys upload)) (ValidationError ''MATRIX_CURVE_KEY_REUSED'')) (\<lambda>_.
     bindE (guardE (case deviceKeys of None \<Rightarrow> True | Some d \<Rightarrow>
         (case map_of (dk_keys d) (curve_key_name device) of None \<Rightarrow> True
          | Some k \<Rightarrow> k = [] \<or> k \<notin> set (upload_curve_keys upload)))
       (ValidationError ''MATRIX_CURVE_KEY_REUSED'')) (\<lambda>_. Inr upload)))))))))"

definition parseInitialMatrixKeyUpload ::
    "ed25519 \<Rightarrow> json \<Rightarrow> string \<Rightarrow> string \<Rightarrow> error + (device_keys \<times> key_upload)" where
  "parseInitialMatrixKeyUpload ed v user device =
     bindE (parseMatrixKeyUpload ed v user device None) (\<lambda>u.
       case ku_device_keys u of
         None \<Rightarrow> Inl (ValidationError ''MATRIX_DEVICE_KEYS_REQUIRED'')
       | Some d \<Rightarrow> Inr (d, u))"

section \<open>What is accepted\<close>

definition canonical_text :: "string \<Rightarrow> nat \<Rightarrow> bool" where
  "canonical_text s n \<longleftrightarrow> list_all base64_char s \<and> length s mod 4 \<noteq> 1 \<and> length (base64_decode s) = n \<and>
     unpadded (base64_encode (base64_decode s)) = s"

definition strong_point :: "ed25519 \<Rightarrow> nat list \<Rightarrow> bool" where
  "strong_point ed bytes \<longleftrightarrow> ed_small_order ed bytes = Some False"

text \<open>An object with a signature of \<open>signer\<close>, under the named key, over its canonical text.\<close>

definition signature_valid ::
    "ed25519 \<Rightarrow> (string \<times> json) list \<Rightarrow> string \<Rightarrow> string \<Rightarrow> string \<Rightarrow> bool" where
  "signature_valid ed v signer keyId publicKey \<longleftrightarrow>
     (\<exists>signatures signerSignatures sig t.
        field v ''signatures'' = Some (JObj signatures) \<and> field signatures signer = Some (JObj signerSignatures) \<and>
        field signerSignatures keyId = Some (JStr sig) \<and> canonical_text sig 64 \<and> canonical_text publicKey 32 \<and>
        strong_point ed (base64_decode publicKey) \<and> strong_point ed (take 32 (base64_decode sig)) \<and>
        encodeCanonical (signed_value v) = Inr t \<and>
        ed_verify ed (base64_decode publicKey) (utf8_encode t) (base64_decode sig))"

definition curve_entry_ok :: "ed25519 \<Rightarrow> bool \<Rightarrow> string \<Rightarrow> string \<Rightarrow> string \<Rightarrow> string \<times> signed_curve_key \<Rightarrow> bool" where
  "curve_entry_ok ed fallback user device publicKey = (\<lambda>(full, k).
     curve_key_id full \<noteq> None \<and> sk_fallback k = fallback \<and> canonical_text (sk_key k) 32 \<and>
     signature_valid ed (curve_key_entries k) user (signing_key_id device) publicKey)"

definition identity_ok :: "ed25519 \<Rightarrow> string \<Rightarrow> string \<Rightarrow> string \<Rightarrow> device_keys \<Rightarrow> bool" where
  "identity_ok ed user device publicKey d \<longleftrightarrow>
     dk_user d = user \<and> dk_device d = device \<and> map_of (dk_keys d) (signing_key_id device) = Some publicKey \<and>
     signature_valid ed (device_keys_entries d) user (signing_key_id device) publicKey"

text \<open>\<open>publicKey\<close> is the Ed25519 key everything in the upload is signed with.\<close>

definition upload_ok ::
    "ed25519 \<Rightarrow> string \<Rightarrow> string \<Rightarrow> string option \<Rightarrow> string \<Rightarrow> key_upload \<Rightarrow> bool" where
  "upload_ok ed user device existing publicKey u \<longleftrightarrow>
     (existing = None \<or> existing = Some publicKey) \<and>
     (case ku_device_keys u of
        None \<Rightarrow> existing = Some publicKey
      | Some d \<Rightarrow> identity_ok ed user device publicKey d \<and>
          map_of (dk_keys d) (curve_key_name device) \<notin> Some ` set (upload_curve_keys u)) \<and>
     list_all (curve_entry_ok ed False user device publicKey) (ku_one_time_keys u) \<and>
     list_all (curve_entry_ok ed True user device publicKey) (ku_fallback_keys u) \<and>
     length (ku_one_time_keys u) \<le> 100 \<and> length (ku_fallback_keys u) \<le> 1 \<and> distinct (upload_curve_keys u)"

lemma as_record_Inr_iff: "as_record err v = Inr kvs \<longleftrightarrow> v = JObj kvs"
  by (cases v) (auto simp: as_record_def)

lemma record_of_Inr_iff: "record_of v err = Inr kvs \<longleftrightarrow> v = Some (JObj kvs)"
  by (cases v) (auto simp: record_of_def as_record_Inr_iff)

lemma canonicalBase64_Inr:
  "canonicalBase64 v n err = Inr b \<longleftrightarrow> (\<exists>s. v = Some (JStr s) \<and> canonical_text s n \<and> b = base64_decode s)"
  by (auto simp: canonicalBase64_def canonical_text_def Let_def split: option.splits json.splits if_splits)

lemma assertStrong_Inr: "assertStrongEd25519Point ed b err = Inr () \<longleftrightarrow> strong_point ed b"
  by (auto simp: assertStrongEd25519Point_def strong_point_def guardE_def split: option.splits)

lemmas reader_iffs = check_iffs as_record_Inr_iff record_of_Inr_iff canonicalBase64_Inr assertStrong_Inr

lemma verify_iff:
  "verifyMatrixSignedObject ed v signer keyId pk err = Inr () \<longleftrightarrow> signature_valid ed v signer keyId pk"
  unfolding verifyMatrixSignedObject_def signature_valid_def by (auto simp: reader_iffs)

lemma string_field_of: "field kvs k = Some (JStr s) \<Longrightarrow> string_field kvs k = Some s"
  by (simp add: string_field_def)

lemma parse_curve_key_ok:
  "parse_curve_key ed fb user device pk full raw = Inr k \<Longrightarrow> curve_entry_ok ed fb user device pk (full, k)"
  by (auto simp: parse_curve_key_def reader_iffs verify_iff curve_entry_ok_def Let_def string_field_of)

lemma parse_curve_keys_ok:
  "parse_curve_keys ed fb user device pk es = Inr ks \<Longrightarrow>
     list_all (curve_entry_ok ed fb user device pk) ks \<and> map fst ks = map fst es"
  by (induction ed fb user device pk es arbitrary: ks rule: parse_curve_keys.induct)
    (auto simp: check_iffs dest: parse_curve_key_ok)

lemma parseCurveKeyMap_ok:
  assumes "parseCurveKeyMap ed v fb user device pk n = Inr ks"
  shows "list_all (curve_entry_ok ed fb user device pk) ks" "length ks \<le> n"
proof -
  from assms obtain es where "length es \<le> n" "parse_curve_keys ed fb user device pk es = Inr ks"
    by (auto simp: parseCurveKeyMap_def check_iffs)
  then show "list_all (curve_entry_ok ed fb user device pk) ks" "length ks \<le> n"
    using parse_curve_keys_ok length_map by metis+
qed

lemma parseDeviceKeys_ok:
  "parseDeviceKeys v user device = Inr d \<Longrightarrow>
     dk_user d = user \<and> dk_device d = device \<and> (\<exists>c. c \<noteq> [] \<and> map_of (dk_keys d) (curve_key_name device) = Some c)"
  by (auto simp: parseDeviceKeys_def reader_iffs string_field_of canonical_text_def)
   (auto simp: base64_decode_def)

lemma upload_signer_ok:
  assumes "upload_signer ed user device existing dk = Inr pk"
  shows "existing = None \<or> existing = Some pk"
    "case dk of None \<Rightarrow> existing = Some pk
     | Some d \<Rightarrow> map_of (dk_keys d) (signing_key_id device) = Some pk \<and>
         signature_valid ed (device_keys_entries d) user (signing_key_id device) pk"
  using assms
  by (auto simp: upload_signer_def check_iffs verify_iff split: option.splits if_splits)

lemma parseMatrixKeyUpload_ok:
  assumes "parseMatrixKeyUpload ed v user device existing = Inr u"
  shows "\<exists>publicKey. upload_ok ed user device existing publicKey u"
proof -
  from assms obtain body dk pk where
    dk: "(case field body ''device_keys'' of None \<Rightarrow> Inr None
       | Some d \<Rightarrow> map_sum id Some (parseDeviceKeys d user device)) = Inr dk" and
    signer: "upload_signer ed user device existing dk = Inr pk" and
    otk: "parseCurveKeyMap ed (field body ''one_time_keys'') False user device pk 100 = Inr (ku_one_time_keys u)" and
    fb: "parseCurveKeyMap ed (field body ''fallback_keys'') True user device pk 1 = Inr (ku_fallback_keys u)" and
    distinct: "distinct (upload_curve_keys u)" and
    fresh: "case dk of None \<Rightarrow> True | Some d \<Rightarrow>
         (case map_of (dk_keys d) (curve_key_name device) of None \<Rightarrow> True
          | Some k \<Rightarrow> k = [] \<or> k \<notin> set (upload_curve_keys u))" and
    u: "ku_device_keys u = dk"
    by (auto simp: parseMatrixKeyUpload_def check_iffs Let_def)
  have "identity_ok ed user device pk d \<and> map_of (dk_keys d) (curve_key_name device) \<notin> Some ` set (upload_curve_keys u)"
    if d: "dk = Some d" for d
  proof -
    from dk d obtain j where "parseDeviceKeys j user device = Inr d"
      by (auto simp: map_sum_Inr_iff split: option.splits)
    from parseDeviceKeys_ok [OF this] upload_signer_ok(2) [OF signer] fresh d show ?thesis
      by (auto simp: identity_ok_def)
  qed
  then show ?thesis
    using upload_signer_ok [OF signer] parseCurveKeyMap_ok [OF otk] parseCurveKeyMap_ok [OF fb] distinct
    by (auto simp: upload_ok_def u split: option.splits intro!: exI [of _ pk])
qed

lemma parseInitialMatrixKeyUpload_ok:
  assumes "parseInitialMatrixKeyUpload ed v user device = Inr (d, u)"
  shows "ku_device_keys u = Some d" "\<exists>publicKey. upload_ok ed user device None publicKey u"
  using assms parseMatrixKeyUpload_ok
  by (auto simp: parseInitialMatrixKeyUpload_def check_iffs split: option.splits)

end
