(* ===== verification/SyncToken.thy ===== *)
theory SyncToken
  imports Text
begin

text \<open>
  apps/api/src/e2ee/matrix-sync-token.ts: the tokens that name a sync batch.  The HMAC-SHA256 in
  base64url (with the configured secret) and the SHA-256 in hexadecimal are parameters;
  \<open>crypto_ok\<close> states the shape of their results.
\<close>

section \<open>The functions\<close>

record sync_data =
  sd_id :: string
  sd_device :: string
  sd_previous :: "string option"
  sd_from :: int
  sd_up_to :: int
  sd_from_list :: int
  sd_list :: int
  sd_keys :: int
  sd_fallback :: bool

record issued_token =
  it_token :: string
  it_hash :: string

definition tokenPayload :: "sync_data \<Rightarrow> string" where
  "tokenPayload d = join_with (CHR 0x0A)
     [''sinochat:matrix:sync-token:v1'', sd_id d, sd_device d,
      case sd_previous d of None \<Rightarrow> ''-'' | Some p \<Rightarrow> p,
      int_text (sd_from d), int_text (sd_up_to d), int_text (sd_from_list d), int_text (sd_list d),
      int_text (sd_keys d), if sd_fallback d then ''1'' else ''0'']"

definition token_data_ok :: "sync_data \<Rightarrow> bool" where
  "token_data_ok d \<longleftrightarrow> uuid_shape (sd_id d) \<and> uuid_shape (sd_device d) \<and>
     (case sd_previous d of None \<Rightarrow> True | Some p \<Rightarrow> uuid_shape p) \<and>
     0 \<le> sd_from d \<and> sd_from d \<le> sd_up_to d \<and> 0 \<le> sd_from_list d \<and> sd_from_list d \<le> sd_list d \<and>
     safe_integer (sd_keys d) \<and> 0 \<le> sd_keys d \<and> sd_keys d \<le> 100"

definition assertTokenData :: "sync_data \<Rightarrow> error + unit" where
  "assertTokenData d =
     (if token_data_ok d then Inr () else Inl (ValidationError ''MATRIX_SYNC_TOKEN_DATA_INVALID''))"

definition issueMatrixSyncToken ::
    "(string \<Rightarrow> string) \<Rightarrow> (string \<Rightarrow> string) \<Rightarrow> sync_data \<Rightarrow> error + issued_token" where
  "issueMatrixSyncToken mac sha d =
     (case assertTokenData d of
        Inl e \<Rightarrow> Inl e
      | Inr _ \<Rightarrow>
          let token = ''sct1.'' @ sd_id d @ ''.'' @ mac (tokenPayload d)
          in Inr \<lparr>it_token = token, it_hash = sha token\<rparr>)"

text \<open>TOKEN_PATTERN, whose parts have fixed lengths.\<close>

definition token_shape :: "string \<Rightarrow> bool" where
  "token_shape t \<longleftrightarrow> length t = 85 \<and> take 5 t = ''sct1.'' \<and> uuid_shape (take 36 (drop 5 t)) \<and>
     t ! 41 = CHR ''.'' \<and> list_all base64url_char (drop 42 t)"

definition parseMatrixSyncTokenBatchId :: "string \<Rightarrow> error + string" where
  "parseMatrixSyncTokenBatchId t =
     (if token_shape t then Inr (take 36 (drop 5 t))
      else Inl (ValidationError ''MATRIX_SYNC_TOKEN_FORMAT_INVALID''))"

definition hash_shape :: "string \<Rightarrow> bool" where
  "hash_shape h \<longleftrightarrow> length h = 64 \<and> list_all lower_hex h"

definition verifyMatrixSyncToken ::
    "(string \<Rightarrow> string) \<Rightarrow> (string \<Rightarrow> string) \<Rightarrow> string \<Rightarrow> string \<Rightarrow> sync_data \<Rightarrow> bool" where
  "verifyMatrixSyncToken mac sha t stored d =
     (case parseMatrixSyncTokenBatchId t of
        Inl _ \<Rightarrow> False
      | Inr i \<Rightarrow>
          if i \<noteq> sd_id d then False
          else if \<not> hash_shape stored then False
          else (case issueMatrixSyncToken mac sha d of
            Inl _ \<Rightarrow> False
          | Inr expected \<Rightarrow> t = it_token expected \<and> stored = it_hash expected))"

definition crypto_ok :: "(string \<Rightarrow> string) \<Rightarrow> (string \<Rightarrow> string) \<Rightarrow> bool" where
  "crypto_ok mac sha \<longleftrightarrow>
     (\<forall>t. length (mac t) = 43 \<and> list_all base64url_char (mac t)) \<and> (\<forall>t. hash_shape (sha t))"

section \<open>The token contract\<close>

text \<open>
  What the sync service relies on: issuing succeeds on good data, a token leads back to its
  batch and passes verification, and nothing else passes.
\<close>

locale sync_tokens =
  fixes ok :: bool
    and good :: "sync_data \<Rightarrow> bool"
    and issue :: "sync_data \<Rightarrow> error + issued_token"
    and batch_of :: "string \<Rightarrow> error + string"
    and verify :: "string \<Rightarrow> string \<Rightarrow> sync_data \<Rightarrow> bool"
  assumes issue_good: "good d \<longleftrightarrow> (\<exists>i. issue d = Inr i)"
    and batch_issued: "ok \<Longrightarrow> issue d = Inr i \<Longrightarrow> batch_of (it_token i) = Inr (sd_id d)"
    and verify_issued: "ok \<Longrightarrow> issue d = Inr i \<Longrightarrow> verify (it_token i) (it_hash i) d"
    and verify_only: "verify t h d \<Longrightarrow> issue d = Inr \<lparr>it_token = t, it_hash = h\<rparr>"
begin

lemma verified_batch: "ok \<Longrightarrow> verify t h d \<Longrightarrow> batch_of t = Inr (sd_id d)"
  using batch_issued [OF _ verify_only] by fastforce

lemma verified_unique: "verify t h d \<Longrightarrow> verify t' h' d \<Longrightarrow> t = t' \<and> h = h'"
  using verify_only [of t h d] verify_only [of t' h' d] by simp

lemma good_verifies: "ok \<Longrightarrow> good d \<Longrightarrow> \<exists>t h. issue d = Inr \<lparr>it_token = t, it_hash = h\<rparr> \<and> verify t h d"
  using issue_good verify_issued verify_only by blast

end

lemma issued_shape:
  assumes "crypto_ok mac sha" "issueMatrixSyncToken mac sha d = Inr i"
  shows "token_shape (it_token i) \<and> take 36 (drop 5 (it_token i)) = sd_id d \<and> hash_shape (it_hash i)"
proof -
  from assms(2) have ok: "token_data_ok d" and t: "it_token i = ''sct1.'' @ sd_id d @ ''.'' @ mac (tokenPayload d)"
    and h: "it_hash i = sha (it_token i)"
    by (auto simp: issueMatrixSyncToken_def assertTokenData_def Let_def split: if_splits)
  from ok have u: "uuid_shape (sd_id d)" "length (sd_id d) = 36"
    by (simp_all add: token_data_ok_def uuid_shape_length)
  have m: "length (mac (tokenPayload d)) = 43" "list_all base64url_char (mac (tokenPayload d))"
    using assms(1) by (simp_all add: crypto_ok_def)
  show ?thesis using u m assms(1) unfolding token_shape_def t h
    by (simp add: crypto_ok_def nth_append)
qed

interpretation tokens: sync_tokens "crypto_ok mac sha" token_data_ok "issueMatrixSyncToken mac sha"
    parseMatrixSyncTokenBatchId "verifyMatrixSyncToken mac sha"
  for mac sha
proof unfold_locales
  fix d
  show "token_data_ok d \<longleftrightarrow> (\<exists>i. issueMatrixSyncToken mac sha d = Inr i)"
    by (simp add: issueMatrixSyncToken_def assertTokenData_def Let_def)
next
  fix d i assume "crypto_ok mac sha" "issueMatrixSyncToken mac sha d = Inr i"
  with issued_shape [OF this] show "parseMatrixSyncTokenBatchId (it_token i) = Inr (sd_id d)"
    and "verifyMatrixSyncToken mac sha (it_token i) (it_hash i) d"
    by (simp_all add: parseMatrixSyncTokenBatchId_def verifyMatrixSyncToken_def)
next
  fix t h d assume "verifyMatrixSyncToken mac sha t h d"
  then show "issueMatrixSyncToken mac sha d = Inr \<lparr>it_token = t, it_hash = h\<rparr>"
    by (auto simp: verifyMatrixSyncToken_def split: sum.splits if_splits)
qed

section \<open>The payload determines the data\<close>

lemma no_newline_digits: "CHR 0x0A \<notin> set (int_text n)"
  using nat_text_digits [of "CHR 0x0A"] by (auto simp: int_text_def)

lemma no_newline_uuid: "uuid_shape u \<Longrightarrow> CHR 0x0A \<notin> set u"
  using uuid_shape_chars [of u "CHR 0x0A"] by (auto simp: lower_hex_def)

lemma no_dash: "\<not> uuid_shape ''-''"
  using uuid_shape_length [of "''-''"] by auto

lemma tokenPayload_inj:
  assumes "token_data_ok d" "token_data_ok d'" "tokenPayload d = tokenPayload d'"
  shows "d = d'"
proof -
  let ?fields = "\<lambda>d. [''sinochat:matrix:sync-token:v1'', sd_id d, sd_device d,
      case sd_previous d of None \<Rightarrow> ''-'' | Some p \<Rightarrow> p,
      int_text (sd_from d), int_text (sd_up_to d), int_text (sd_from_list d), int_text (sd_list d),
      int_text (sd_keys d), if sd_fallback d then ''1'' else ''0'']"
  have clean: "\<forall>x \<in> set (?fields d). CHR 0x0A \<notin> set x" if "token_data_ok d" for d
    using that no_newline_uuid [of "sd_id d"] no_newline_uuid [of "sd_device d"] no_newline_uuid
    by (auto simp: token_data_ok_def no_newline_digits split: option.splits)
  have "?fields d = ?fields d'"
    using join_with_inj [OF assms(3) [unfolded tokenPayload_def] _ clean [OF assms(1)] clean [OF assms(2)]] by simp
  then have eq: "sd_id d = sd_id d'" "sd_device d = sd_device d'"
    "(case sd_previous d of None \<Rightarrow> ''-'' | Some p \<Rightarrow> p) = (case sd_previous d' of None \<Rightarrow> ''-'' | Some p \<Rightarrow> p)"
    "int_text (sd_from d) = int_text (sd_from d')" "int_text (sd_up_to d) = int_text (sd_up_to d')"
    "int_text (sd_from_list d) = int_text (sd_from_list d')" "int_text (sd_list d) = int_text (sd_list d')"
    "int_text (sd_keys d) = int_text (sd_keys d')" "sd_fallback d = sd_fallback d'"
    by (auto split: if_splits)
  note a = assms(1) [unfolded token_data_ok_def] and b = assms(2) [unfolded token_data_ok_def]
  have "sd_previous d = sd_previous d'"
    using eq(3) a b no_dash by (auto split: option.splits)
  moreover have "sd_from d = sd_from d'" using a b eq(4) int_text_inj by auto
  moreover have "sd_up_to d = sd_up_to d'" using a b eq(5) int_text_inj by auto
  moreover have "sd_from_list d = sd_from_list d'" using a b eq(6) int_text_inj by auto
  moreover have "sd_list d = sd_list d'" using a b eq(7) int_text_inj by auto
  moreover have "sd_keys d = sd_keys d'" using a b eq(8) int_text_inj by auto
  ultimately show ?thesis using eq(1,2,9) by (cases d; cases d') simp
qed

section \<open>Properties\<close>

text \<open>A token issued for valid batch data names the batch when parsed, is verified against the hash stored
  with it, and is the only token that is.\<close>

theorem token_roundtrip:
  assumes "crypto_ok mac sha" "token_data_ok d"
  shows "\<exists>t h. issueMatrixSyncToken mac sha d = Inr \<lparr>it_token = t, it_hash = h\<rparr> \<and>
    parseMatrixSyncTokenBatchId t = Inr (sd_id d) \<and> verifyMatrixSyncToken mac sha t h d \<and>
    (\<forall>t' h'. verifyMatrixSyncToken mac sha t' h' d \<longrightarrow> t' = t \<and> h' = h)"
  using tokens.good_verifies [OF assms] tokens.verified_batch [OF assms(1)] tokens.verified_unique by metis

text \<open>A token verifies against one batch only: if it verifies against two sets of batch data they are
  equal, provided the HMAC does not collide on their two payloads.\<close>

theorem token_binds_data:
  assumes "mac (tokenPayload d) = mac (tokenPayload d') \<Longrightarrow> tokenPayload d = tokenPayload d'"
    "verifyMatrixSyncToken mac sha t h d" "verifyMatrixSyncToken mac sha t h' d'"
  shows "d = d'"
proof -
  from assms(2,3) have i: "issueMatrixSyncToken mac sha d = Inr \<lparr>it_token = t, it_hash = h\<rparr>"
    "issueMatrixSyncToken mac sha d' = Inr \<lparr>it_token = t, it_hash = h'\<rparr>"
    by (auto intro: tokens.verify_only)
  then have ok: "token_data_ok d" "token_data_ok d'" using tokens.issue_good by blast+
  from i have "''sct1.'' @ sd_id d @ ''.'' @ mac (tokenPayload d) = ''sct1.'' @ sd_id d' @ ''.'' @ mac (tokenPayload d')"
    using ok by (auto simp: issueMatrixSyncToken_def assertTokenData_def Let_def)
  moreover have "length (sd_id d) = length (sd_id d')" using ok by (simp add: token_data_ok_def uuid_shape_length)
  ultimately have "mac (tokenPayload d) = mac (tokenPayload d')" by simp
  then have "tokenPayload d = tokenPayload d'" by (rule assms(1))
  with ok show ?thesis by (intro tokenPayload_inj)
qed

section \<open>Witnesses\<close>

definition demo_token_data :: "nat \<Rightarrow> sync_data" where
  "demo_token_data n = \<lparr>sd_id = uuid_text n, sd_device = uuid_text 7, sd_previous = None, sd_from = 0,
     sd_up_to = 12, sd_from_list = 0, sd_list = 3, sd_keys = 50, sd_fallback = True\<rparr>"

definition demo_mac :: "string \<Rightarrow> string" where
  "demo_mac t = replicate 43 (if t = tokenPayload (demo_token_data 1) then CHR ''A'' else CHR ''B'')"

definition demo_sha :: "string \<Rightarrow> string" where
  "demo_sha t = replicate 64 (CHR ''0'')"

lemma demo_crypto: "crypto_ok demo_mac demo_sha"
  by (simp add: crypto_ok_def demo_mac_def demo_sha_def hash_shape_def base64url_char_def alphanumeric_def
      lower_hex_def list_all_iff)

lemma demo_token_ok: "token_data_ok (demo_token_data n)"
  by (simp add: token_data_ok_def demo_token_data_def uuid_text_shape safe_integer_def)

theorem token_roundtrip_witness:
  "\<exists>t h. issueMatrixSyncToken demo_mac demo_sha (demo_token_data 1) = Inr \<lparr>it_token = t, it_hash = h\<rparr> \<and>
     parseMatrixSyncTokenBatchId t = Inr (uuid_text 1)"
  using token_roundtrip [OF demo_crypto demo_token_ok, of 1] by (auto simp: demo_token_data_def)

theorem token_binds_data_witness:
  "\<exists>t h. verifyMatrixSyncToken demo_mac demo_sha t h (demo_token_data 1) \<and>
     (\<forall>h'. \<not> verifyMatrixSyncToken demo_mac demo_sha t h' (demo_token_data 2))"
proof -
  have "demo_token_data 1 \<noteq> demo_token_data 2"
    using uuid_text_inj [of 1 2] by (auto simp: demo_token_data_def)
  moreover from this have p: "tokenPayload (demo_token_data 2) \<noteq> tokenPayload (demo_token_data 1)"
    using tokenPayload_inj [OF demo_token_ok demo_token_ok] by metis
  have m: "demo_mac (tokenPayload (demo_token_data 1)) = demo_mac (tokenPayload (demo_token_data 2)) \<Longrightarrow>
      tokenPayload (demo_token_data 1) = tokenPayload (demo_token_data 2)"
    using p by (simp add: demo_mac_def)
  obtain t h where v: "verifyMatrixSyncToken demo_mac demo_sha t h (demo_token_data 1)"
    using tokens.good_verifies [OF demo_crypto demo_token_ok] by blast
  ultimately show ?thesis using token_binds_data [OF m v] by blast
qed

end
