(* ===== verification/ToDevice.thy ===== *)
theory ToDevice
  imports KeyUpload SyncToken Eligibility
begin

text \<open>
  apps/api/src/e2ee/matrix-to-device.service.ts: the queue of end-to-end encrypted messages of
  every device.  A send appends one event per target under the next sequence number of its
  device; a sync names a window of the queue by a token and deletes the window of the token it
  is given.  The database record of the other components is extended by the tables of the
  transport, and their operations run on it unchanged.
\<close>

section \<open>Tables\<close>

record session_row =
  se_id :: uuid
  se_user :: uuid
  se_device :: "uuid option"
  se_expires :: time
  se_revoked :: "time option"
  se_version :: nat

record matrix_key_row =
  mk_device :: uuid
  mk_user :: uuid
  mk_matrix_user :: string
  mk_matrix_device :: string
  mk_curve :: string
  mk_ed25519 :: string
  mk_keys :: device_keys
  mk_hash :: string
  mk_uploaded :: time

record cursor_row =
  cu_device :: uuid
  cu_latest :: nat

record td_transaction =
  tt_id :: uuid
  tt_session :: uuid
  tt_device :: uuid
  tt_txn :: string
  tt_type :: string
  tt_hash :: string
  tt_created :: time

record td_event =
  ev_tx :: uuid
  ev_user :: uuid
  ev_device :: uuid
  ev_seq :: nat
  ev_conversation :: "uuid option"
  ev_content :: olm_content
  ev_hash :: string
  ev_created :: time
  ev_expires :: time

record sync_batch =
  sb_id :: uuid
  sb_device :: uuid
  sb_previous :: "uuid option"
  sb_from :: nat
  sb_up_to :: nat
  sb_from_list :: nat
  sb_list :: nat
  sb_keys :: nat
  sb_fallback :: bool
  sb_hash :: string
  sb_created :: time
  sb_expires :: time
  sb_acked :: "time option"

record one_time_key =
  ok_id :: uuid
  ok_device :: uuid
  ok_algorithm :: string
  ok_key_id :: string
  ok_curve :: string
  ok_signed :: signed_curve_key
  ok_hash :: string
  ok_uploaded :: time
  ok_claimed :: "time option"

record fallback_key =
  fk_id :: uuid
  fk_device :: uuid
  fk_algorithm :: string
  fk_key_id :: string
  fk_curve :: string
  fk_signed :: signed_curve_key
  fk_hash :: string
  fk_uploaded :: time
  fk_first_claimed :: "time option"

record fallback_slot =
  fb_device :: uuid
  fb_algorithm :: string
  fb_current :: uuid

record registration_row =
  rg_id :: uuid
  rg_user :: uuid
  rg_session :: uuid
  rg_created :: time
  rg_expires :: time
  rg_consumed :: "time option"
  rg_hash :: "string option"
  rg_count :: "nat option"

record e2e_db = db +
  sessions :: "session_row list"
  matrix_keys :: "matrix_key_row list"
  cursors :: "cursor_row list"
  td_transactions :: "td_transaction list"
  td_events :: "td_event list"
  sync_batches :: "sync_batch list"
  one_time_keys :: "one_time_key list"
  fallback_keys :: "fallback_key list"
  fallback_slots :: "fallback_slot list"
  registrations :: "registration_row list"

record principal =
  pn_id :: uuid
  pn_role :: user_role
  pn_session :: uuid
  pn_device :: "uuid option"

record crypto =
  cr_mac :: "string \<Rightarrow> string"
  cr_sha :: "string \<Rightarrow> string"

text \<open>48 hours, in milliseconds.\<close>

abbreviation TO_DEVICE_TTL_MS :: time where
  "TO_DEVICE_TTL_MS \<equiv> 172800000"

section \<open>Sending\<close>

record resolved_target =
  rt_device :: uuid
  rt_user :: uuid
  rt_content :: olm_content
  rt_conversation :: "uuid option"

definition requireBoundDevice :: "principal \<Rightarrow> error + uuid" where
  "requireBoundDevice p =
     (case pn_device p of
        None \<Rightarrow> Inl (Forbidden ''La sesion no esta vinculada a un dispositivo Matrix.'')
      | Some d \<Rightarrow> Inr d)"

definition parseRequest :: "string \<Rightarrow> string \<Rightarrow> json \<Rightarrow> error + to_device_request" where
  "parseRequest type txn v =
     (case parseMatrixToDeviceRequest type txn v of
        Inl (ValidationError err) \<Rightarrow> Inl (BadRequest err)
      | Inl e \<Rightarrow> Inl e
      | Inr r \<Rightarrow> Inr r)"

definition requireCurrentSender ::
    "principal \<Rightarrow> uuid \<Rightarrow> time \<Rightarrow> ('x e2e_db_scheme, string) tx" where
  "requireCurrentSender p device now s =
     (let bad = Inl (Unauthorized ''La sesion Matrix ya no esta vigente.'') in
      case find (\<lambda>se. se_id se = pn_session p) (sessions s) of
        None \<Rightarrow> bad
      | Some se \<Rightarrow>
          (case (find (\<lambda>u. u_id u = se_user se) (users s), find (\<lambda>d. d_id d = device) (devices s),
                 find (\<lambda>k. mk_device k = device) (matrix_keys s)) of
             (Some u, Some d, Some k) \<Rightarrow>
               if se_user se \<noteq> pn_id p \<or> se_device se \<noteq> Some device \<or> se_revoked se \<noteq> None \<or>
                  se_expires se \<le> now \<or> se_version se \<noteq> u_session_version u \<or>
                  u_status u \<noteq> AccActive \<or> u_reset_required u \<or> d_status d \<noteq> DevActive
               then bad else Inr (mk_curve k, s)
           | _ \<Rightarrow> bad))"

definition matrixAddress :: "string \<Rightarrow> string \<Rightarrow> string" where
  "matrixAddress u d = u @ [CHR 0x00] @ d"

text \<open>The targets of the request in order: Matrix user, Matrix device, content.\<close>

definition requested_targets :: "to_device_request \<Rightarrow> (string \<times> string \<times> olm_content) list" where
  "requested_targets r = concat (map (\<lambda>(u, ds). map (\<lambda>(d, c). (u, d, c)) ds) (tr_messages r))"

definition requested_identities ::
    "'x e2e_db_scheme \<Rightarrow> (string \<times> string \<times> olm_content) list \<Rightarrow> matrix_key_row list" where
  "requested_identities s targets =
     filter (\<lambda>k. (\<exists>(u, d, c) \<in> set targets. mk_matrix_user k = u \<and> mk_matrix_device k = d) \<and>
        (\<exists>dv \<in> set (devices s). d_id dv = mk_device k \<and> d_status dv = DevActive)) (matrix_keys s)"

definition address_map :: "matrix_key_row list \<Rightarrow> string \<Rightarrow> matrix_key_row option" where
  "address_map ks = map_of (rev (map (\<lambda>k. (matrixAddress (mk_matrix_user k) (mk_matrix_device k), k)) ks))"

text \<open>The conversation of each recipient, with \<open>at\<close> the clock reading of each check.\<close>

fun recipient_conversations ::
    "principal \<Rightarrow> (uuid \<Rightarrow> time) \<Rightarrow> uuid list \<Rightarrow> ('x e2e_db_scheme, (uuid \<times> uuid option) list) tx" where
  "recipient_conversations p at [] s = Inr ([(pn_id p, None)], s)"
| "recipient_conversations p at (i # rest) s =
     (if i = pn_id p then recipient_conversations p at rest s
      else case (if pn_role p = CLIENT then lockCurrentByParticipants (at i) (pn_id p) i s
                 else lockCurrentByParticipants (at i) i (pn_id p) s) of
          Inl e \<Rightarrow> Inl e
        | Inr (k, s') \<Rightarrow> (case recipient_conversations p at rest s' of
            Inl e \<Rightarrow> Inl e
          | Inr (m, s'') \<Rightarrow> Inr ((i, Some (ca_id k)) # m, s'')))"

definition resolve_one ::
    "string \<Rightarrow> (string \<Rightarrow> matrix_key_row option) \<Rightarrow> (uuid \<times> uuid option) list \<Rightarrow>
       string \<times> string \<times> olm_content \<Rightarrow> error + resolved_target" where
  "resolve_one sender identityOf convs = (\<lambda>(u, d, c).
     case identityOf (matrixAddress u d) of
       None \<Rightarrow> Inl (Forbidden ''La solicitud contiene un dispositivo Matrix no autorizado.'')
     | Some k \<Rightarrow>
         if oc_sender_key c \<noteq> sender
         then Inl (Forbidden ''El sender_key no pertenece al dispositivo remitente.'')
         else if map fst (oc_ciphertext c) \<noteq> [mk_curve k]
         then Inl (BadRequest ''El ciphertext Olm no esta dirigido al dispositivo indicado.'')
         else (case map_of convs (mk_user k) of
             None \<Rightarrow> Inl (Forbidden ''La contraparte Matrix no tiene una conversacion vigente.'')
           | Some conv \<Rightarrow> Inr \<lparr>rt_device = mk_device k, rt_user = mk_user k, rt_content = c,
               rt_conversation = conv\<rparr>))"

definition resolveTargets ::
    "principal \<Rightarrow> (uuid \<Rightarrow> time) \<Rightarrow> to_device_request \<Rightarrow> string \<Rightarrow>
       ('x e2e_db_scheme, resolved_target list) tx" where
  "resolveTargets p at r sender s =
     (let requested = requested_targets r;
          identities = requested_identities s requested;
          identityOf = address_map identities
      in if length (remdups (map (\<lambda>k. matrixAddress (mk_matrix_user k) (mk_matrix_device k)) identities)) \<noteq>
           length requested
         then Inl (Forbidden ''La solicitud contiene un dispositivo Matrix no autorizado.'')
         else (case recipient_conversations p at (sort (remdups (map mk_user identities))) s of
             Inl e \<Rightarrow> Inl e
           | Inr (convs, s') \<Rightarrow>
               (case all_right (map (resolve_one sender identityOf convs) requested) of
                  Inl e \<Rightarrow> Inl e
                | Inr targets \<Rightarrow> Inr (sort_key rt_device targets, s'))))"

definition pending_events :: "'x e2e_db_scheme \<Rightarrow> uuid \<Rightarrow> time \<Rightarrow> nat" where
  "pending_events s device now = count_where (\<lambda>e. ev_device e = device \<and> now < ev_expires e) (td_events s)"

definition lock_cursor :: "time \<Rightarrow> resolved_target \<Rightarrow> ('x e2e_db_scheme, unit) tx" where
  "lock_cursor now t s =
     (if \<not> (\<exists>d \<in> set (devices s). d_id d = rt_device t \<and> d_user d = rt_user t \<and> d_status d = DevActive) \<or>
         \<not> (\<exists>k \<in> set (matrix_keys s). mk_device k = rt_device t) \<or>
         \<not> (\<exists>c \<in> set (cursors s). cu_device c = rt_device t)
      then Inl (Conflict ''Un dispositivo destinatario dejo de estar disponible.'')
      else if 2000 \<le> pending_events s (rt_device t) now
      then Inl (TooManyRequests ''La cola Matrix del dispositivo destinatario esta completa.'')
      else Inr ((), s))"

definition create_tombstone ::
    "env \<Rightarrow> principal \<Rightarrow> uuid \<Rightarrow> to_device_request \<Rightarrow> string \<Rightarrow> time \<Rightarrow> ('x e2e_db_scheme, uuid) tx" where
  "create_tombstone e p device r hash now s =
     (if \<exists>t \<in> set (td_transactions s). tt_device t = device \<and> tt_type t = tr_type r \<and> tt_txn t = tr_transaction r
      then Inl (UniqueViolation ''matrix_to_device_transactions_device_endpoint_txn_key'')
      else
        let i = uuid_at e (draws s) in
        Inr (i, s\<lparr>draws := Suc (draws s), td_transactions := td_transactions s @
          [\<lparr>tt_id = i, tt_session = pn_session p, tt_device = device, tt_txn = tr_transaction r,
            tt_type = tr_type r, tt_hash = hash, tt_created = now\<rparr>]\<rparr>))"

definition advance_cursor :: "uuid \<Rightarrow> ('x e2e_db_scheme, nat) tx" where
  "advance_cursor device s =
     (case find (\<lambda>c. cu_device c = device) (cursors s) of
        None \<Rightarrow> Inl (RecordMissing ''matrixToDeviceCursor'')
      | Some c \<Rightarrow> Inr (Suc (cu_latest c), s\<lparr>cursors := upd_where (\<lambda>c. cu_device c = device)
          (\<lambda>c. c\<lparr>cu_latest := Suc (cu_latest c)\<rparr>) (cursors s)\<rparr>))"

definition deliver ::
    "crypto \<Rightarrow> uuid \<Rightarrow> time \<Rightarrow> resolved_target \<Rightarrow> ('x e2e_db_scheme, unit) tx" where
  "deliver cr i now t =
     bindT (advance_cursor (rt_device t)) (\<lambda>n s.
       case hashMatrixCanonicalJson (cr_sha cr) (content_json (rt_content t)) of
         Inl e \<Rightarrow> Inl e
       | Inr h \<Rightarrow>
           if \<exists>v \<in> set (td_events s). ev_tx v = i \<and> ev_device v = rt_device t
           then Inl (UniqueViolation ''matrix_to_device_events_transaction_device_key'')
           else if \<exists>v \<in> set (td_events s). ev_device v = rt_device t \<and> ev_seq v = n
           then Inl (UniqueViolation ''matrix_to_device_events_recipient_sequence_key'')
           else Inr ((), s\<lparr>td_events := td_events s @ [\<lparr>ev_tx = i, ev_user = rt_user t,
             ev_device = rt_device t, ev_seq = n, ev_conversation = rt_conversation t,
             ev_content = rt_content t, ev_hash = h, ev_created = now,
             ev_expires = now + TO_DEVICE_TTL_MS\<rparr>]\<rparr>))"

definition previous_send :: "'x e2e_db_scheme \<Rightarrow> uuid \<Rightarrow> to_device_request \<Rightarrow> td_transaction option" where
  "previous_send s device r =
     find (\<lambda>t. tt_device t = device \<and> tt_type t = tr_type r \<and> tt_txn t = tr_transaction r) (td_transactions s)"

definition send_transaction ::
    "crypto \<Rightarrow> env \<Rightarrow> time \<Rightarrow> (uuid \<Rightarrow> time) \<Rightarrow> principal \<Rightarrow> uuid \<Rightarrow> to_device_request \<Rightarrow> string \<Rightarrow>
       ('x e2e_db_scheme, unit) tx" where
  "send_transaction cr e now at p device r hash s =
     (case previous_send s device r of
        Some t \<Rightarrow>
          if tt_hash t \<noteq> hash
          then Inl (Conflict ''El identificador sendToDevice ya pertenece a otro contenido.'')
          else Inr ((), s)
      | None \<Rightarrow>
          bindT (lockOperationalUser (pn_id p)) (\<lambda>_.
          bindT (requireCurrentSender p device now) (\<lambda>curve.
          bindT (resolveTargets p at r curve) (\<lambda>targets.
          bindT (mapT (lock_cursor now) targets) (\<lambda>_.
          bindT (create_tombstone e p device r hash now) (\<lambda>i.
          bindT (mapT (deliver cr i now) targets) (\<lambda>_. returnT ())))))) s)"

definition send ::
    "crypto \<Rightarrow> env \<Rightarrow> time \<Rightarrow> (uuid \<Rightarrow> time) \<Rightarrow> principal \<Rightarrow> string \<Rightarrow> string \<Rightarrow> json \<Rightarrow>
       ('x e2e_db_scheme, unit) tx" where
  "send cr e now at p type txn v s =
     (case requireBoundDevice p of
        Inl err \<Rightarrow> Inl err
      | Inr device \<Rightarrow>
     (case parseRequest type txn v of
        Inl err \<Rightarrow> Inl err
      | Inr r \<Rightarrow>
     (case hashMatrixCanonicalJson (cr_sha cr) (matrixToDeviceHashInput r) of
        Inl err \<Rightarrow> Inl err
      | Inr hash \<Rightarrow>
     (case send_transaction cr e now at p device r hash s of
        Inl (UniqueViolation _) \<Rightarrow> Inl (Conflict ''El identificador sendToDevice ya fue utilizado.'')
      | res \<Rightarrow> res))))"

section \<open>Synchronising\<close>

datatype query = QAbsent | QString string | QOther

abbreviation unknownSyncPosition :: error where
  "unknownSyncPosition \<equiv> BadRequest ''M_UNKNOWN_POS''"

definition parseSyncTimeout :: "query \<Rightarrow> error + unit" where
  "parseSyncTimeout q =
     (case q of
        QAbsent \<Rightarrow> Inr ()
      | QString t \<Rightarrow>
          if t = ''0'' then Inr ()
          else if 1 \<le> length t \<and> length t \<le> 5 \<and> list_all (\<lambda>c. c \<in> set ''0123456789'') t \<and> t ! 0 \<noteq> CHR ''0'' \<and>
            foldl (\<lambda>n c. 10 * n + (of_char c - 48)) (0::nat) t \<le> 30000
          then Inr () else Inl (BadRequest ''M_INVALID_PARAM'')
      | QOther \<Rightarrow> Inl (BadRequest ''M_INVALID_PARAM''))"

text \<open>The empty string is no token: the code tests the value for truth.\<close>

definition parseSince :: "query \<Rightarrow> error + string option" where
  "parseSince q =
     (case q of
        QAbsent \<Rightarrow> Inr None
      | QString t \<Rightarrow> if 160 < length t then Inl unknownSyncPosition
          else if t = [] then Inr None else Inr (Some t)
      | QOther \<Rightarrow> Inl unknownSyncPosition)"

record sync_context =
  sx_now :: time
  sx_latest :: nat
  sx_list :: nat

definition lockSyncContext ::
    "principal \<Rightarrow> uuid \<Rightarrow> time \<Rightarrow> ('x e2e_db_scheme, sync_context) tx" where
  "lockSyncContext p device now s =
     (let rows = [\<lparr>sx_now = now, sx_latest = cu_latest c, sx_list = list_position s\<rparr>.
        se \<leftarrow> sessions s, se_id se = pn_session p \<and> se_user se = pn_id p \<and> se_device se = Some device \<and>
          se_revoked se = None \<and> now < se_expires se,
        u \<leftarrow> users s, u_id u = se_user se \<and> se_version se = u_session_version u \<and> u_status u = AccActive \<and>
          \<not> u_reset_required u,
        d \<leftarrow> devices s, d_id d = device \<and> d_status d = DevActive,
        k \<leftarrow> matrix_keys s, mk_device k = d_id d,
        c \<leftarrow> cursors s, cu_device c = d_id d]
      in case rows of
           [x] \<Rightarrow> Inr (x, s)
         | _ \<Rightarrow> Inl (Unauthorized ''La sesion Matrix ya no esta vigente.''))"

definition token_data :: "sync_batch \<Rightarrow> sync_data" where
  "token_data b = \<lparr>sd_id = uuid_text (sb_id b), sd_device = uuid_text (sb_device b),
     sd_previous = map_option uuid_text (sb_previous b), sd_from = int (sb_from b), sd_up_to = int (sb_up_to b),
     sd_from_list = int (sb_from_list b), sd_list = int (sb_list b), sd_keys = int (sb_keys b),
     sd_fallback = sb_fallback b\<rparr>"

definition requireSyncBatch ::
    "crypto \<Rightarrow> uuid \<Rightarrow> string \<Rightarrow> time \<Rightarrow> 'x e2e_db_scheme \<Rightarrow> error + sync_batch" where
  "requireSyncBatch cr device token now s =
     (case parseMatrixSyncTokenBatchId token of
        Inl _ \<Rightarrow> Inl unknownSyncPosition
      | Inr i \<Rightarrow>
          (case find (\<lambda>b. uuid_text (sb_id b) = i) (sync_batches s) of
             None \<Rightarrow> Inl unknownSyncPosition
           | Some b \<Rightarrow>
               if sb_device b \<noteq> device \<or> sb_expires b \<le> now \<or>
                  \<not> verifyMatrixSyncToken (cr_mac cr) (cr_sha cr) token (sb_hash b) (token_data b)
               then Inl unknownSyncPosition else Inr b))"

definition event_window :: "'x e2e_db_scheme \<Rightarrow> uuid \<Rightarrow> nat \<Rightarrow> nat \<Rightarrow> time \<Rightarrow> td_event list" where
  "event_window s device from latest now =
     take 100 (sort_key ev_seq (filter (\<lambda>v. ev_device v = device \<and> from < ev_seq v \<and> ev_seq v \<le> latest \<and>
       now < ev_expires v) (td_events s)))"

definition change_window :: "'x e2e_db_scheme \<Rightarrow> uuid \<Rightarrow> nat \<Rightarrow> nat \<Rightarrow> list_change_row list" where
  "change_window s user from latest =
     take 100 (sort_key lc_position (filter (\<lambda>c. lc_recipient c = user \<and> from < lc_position c \<and>
       lc_position c \<le> latest) (list_changes s)))"

definition unclaimed_keys :: "'x e2e_db_scheme \<Rightarrow> uuid \<Rightarrow> nat" where
  "unclaimed_keys s device =
     count_where (\<lambda>k. ok_device k = device \<and> ok_algorithm k = signed_curve \<and> ok_claimed k = None) (one_time_keys s)"

definition unused_fallback :: "'x e2e_db_scheme \<Rightarrow> uuid \<Rightarrow> bool" where
  "unused_fallback s device =
     (case find (\<lambda>f. fb_device f = device \<and> fb_algorithm f = signed_curve) (fallback_slots s) of
        None \<Rightarrow> False
      | Some f \<Rightarrow>
          (case find (\<lambda>k. fk_id k = fb_current f) (fallback_keys s) of
             None \<Rightarrow> False | Some k \<Rightarrow> fk_first_claimed k = None))"

definition createSyncBatch ::
    "crypto \<Rightarrow> env \<Rightarrow> uuid \<Rightarrow> uuid \<Rightarrow> uuid option \<Rightarrow> nat \<Rightarrow> nat \<Rightarrow> sync_context \<Rightarrow>
       ('x e2e_db_scheme, sync_batch) tx" where
  "createSyncBatch cr e user device previous from fromList x s =
     (let window = event_window s device from (sx_latest x) (sx_now x);
          upTo = (if length window < 100 then sx_latest x else ev_seq (last window));
          changes = change_window s user fromList (sx_list x);
          listTo = (if length changes < 100 then sx_list x else lc_position (last changes));
          expiresAt = foldl (\<lambda>t v. min t (ev_expires v)) (sx_now x + TO_DEVICE_TTL_MS) window;
          b = \<lparr>sb_id = uuid_at e (draws s), sb_device = device, sb_previous = previous, sb_from = from,
            sb_up_to = upTo, sb_from_list = fromList, sb_list = listTo, sb_keys = unclaimed_keys s device,
            sb_fallback = unused_fallback s device, sb_hash = [], sb_created = sx_now x,
            sb_expires = expiresAt, sb_acked = None\<rparr>
      in if expiresAt \<le> sx_now x
         then Inl (Unauthorized ''La sesion no conserva una ventana valida de sincronizacion.'')
         else (case issueMatrixSyncToken (cr_mac cr) (cr_sha cr) (token_data b) of
             Inl err \<Rightarrow> Inl err
           | Inr i \<Rightarrow>
               if \<exists>b' \<in> set (sync_batches s). previous \<noteq> None \<and> sb_previous b' = previous
               then Inl (UniqueViolation ''matrix_to_device_sync_batches_previous_key'')
               else if \<exists>b' \<in> set (sync_batches s). sb_hash b' = it_hash i
               then Inl (UniqueViolation ''matrix_to_device_sync_batches_token_hash_key'')
               else Inr (b\<lparr>sb_hash := it_hash i\<rparr>, s\<lparr>draws := Suc (draws s),
                 sync_batches := sync_batches s @ [b\<lparr>sb_hash := it_hash i\<rparr>]\<rparr>)))"

text \<open>The acknowledgement of the parent batch and the deletion of the events it delivered.\<close>

definition acknowledge :: "uuid \<Rightarrow> sync_batch \<Rightarrow> time \<Rightarrow> ('x e2e_db_scheme, unit) tx" where
  "acknowledge device parent now s =
     (let open = (\<lambda>b. sb_id b = sb_id parent \<and> sb_acked b = None) in
      if count_where open (sync_batches s) \<noteq> 1
      then Inl (Conflict ''El token de sincronizacion cambio durante el ACK.'')
      else Inr ((), s\<lparr>sync_batches := upd_where open (\<lambda>b. b\<lparr>sb_acked := Some now\<rparr>) (sync_batches s),
        td_events := filter (\<lambda>v. \<not> (ev_device v = device \<and> ev_seq v \<le> sb_up_to parent)) (td_events s)\<rparr>))"

definition incremental_batch ::
    "crypto \<Rightarrow> env \<Rightarrow> principal \<Rightarrow> uuid \<Rightarrow> string \<Rightarrow> sync_context \<Rightarrow> ('x e2e_db_scheme, sync_batch) tx" where
  "incremental_batch cr e p device since x s =
     (case requireSyncBatch cr device since (sx_now x) s of
        Inl err \<Rightarrow> Inl err
      | Inr parent \<Rightarrow>
          (case find (\<lambda>b. sb_previous b = Some (sb_id parent)) (sync_batches s) of
             Some child \<Rightarrow>
               if sb_expires child \<le> sx_now x then Inl unknownSyncPosition else Inr (child, s)
           | None \<Rightarrow>
               if sb_acked parent \<noteq> None then Inl unknownSyncPosition
               else
                 bindT (createSyncBatch cr e (pn_id p) device (Some (sb_id parent)) (sb_up_to parent)
                   (sb_list parent) x) (\<lambda>b.
                 bindT (acknowledge device parent (sx_now x)) (\<lambda>_. returnT b)) s))"

definition open_initial :: "'x e2e_db_scheme \<Rightarrow> uuid \<Rightarrow> time \<Rightarrow> sync_batch option" where
  "open_initial s device now =
     (case rev (sort_key sb_created (sort_key sb_id (filter (\<lambda>b. sb_device b = device \<and>
         sb_previous b = None \<and> sb_acked b = None \<and> now < sb_expires b) (sync_batches s)))) of
        [] \<Rightarrow> None | b # _ \<Rightarrow> Some b)"

definition initial_batch ::
    "crypto \<Rightarrow> env \<Rightarrow> principal \<Rightarrow> uuid \<Rightarrow> sync_context \<Rightarrow> ('x e2e_db_scheme, sync_batch) tx" where
  "initial_batch cr e p device x s =
     (case open_initial s device (sx_now x) of
        Some b \<Rightarrow> Inr (b, s)
      | None \<Rightarrow> createSyncBatch cr e (pn_id p) device None 0 0 x s)"

definition chosen_batch ::
    "crypto \<Rightarrow> env \<Rightarrow> principal \<Rightarrow> uuid \<Rightarrow> string option \<Rightarrow> sync_context \<Rightarrow>
       ('x e2e_db_scheme, sync_batch) tx" where
  "chosen_batch cr e p device since x =
     (case since of
        Some token \<Rightarrow> incremental_batch cr e p device token x
      | None \<Rightarrow> initial_batch cr e p device x)"

section \<open>The response\<close>

record out_event =
  oe_sender :: string
  oe_type :: string
  oe_content :: olm_content

record list_changes_out =
  lo_changed :: "string list"
  lo_left :: "string list"

record sync_response =
  sr_next :: string
  sr_events :: "out_event list"
  sr_keys :: nat
  sr_fallback_types :: "string list"
  sr_lists :: "list_changes_out option"

definition reconstructSyncToken :: "crypto \<Rightarrow> sync_batch \<Rightarrow> error + string" where
  "reconstructSyncToken cr b =
     (case issueMatrixSyncToken (cr_mac cr) (cr_sha cr) (token_data b) of
        Inl err \<Rightarrow> Inl err
      | Inr i \<Rightarrow>
          if verifyMatrixSyncToken (cr_mac cr) (cr_sha cr) (it_token i) (sb_hash b) (token_data b)
          then Inr (it_token i) else Inl (InternalError ''MATRIX_SYNC_BATCH_TOKEN_HASH_MISMATCH''))"

text \<open>The EXISTS clause: the conversation of the event still joins its sender and recipient.\<close>

definition delivery_relation ::
    "'x e2e_db_scheme \<Rightarrow> time \<Rightarrow> uuid option \<Rightarrow> user_row \<Rightarrow> user_row \<Rightarrow> bool" where
  "delivery_relation s now conv sender recipient \<longleftrightarrow>
     (\<exists>c \<in> set (conversations s). \<exists>a \<in> set (assignments s). \<exists>cu \<in> set (users s). \<exists>ku \<in> set (users s).
      \<exists>cp \<in> set (cashiers s).
        a_id a = c_assignment c \<and> u_id cu = a_client a \<and> u_id ku = a_cashier a \<and> cp_user cp = a_cashier a \<and>
        Some (c_id c) = conv \<and> c_status c = ConvActive \<and> a_ended a = None \<and>
        participant (u_id sender) a \<and> participant (u_id recipient) a \<and> u_id sender \<noteq> u_id recipient \<and>
        usable_client cu \<and> \<not> u_reset_required cu \<and> usable_cashier ku \<and> verified_profile cp \<and>
        (\<exists>cs \<in> set (subscriptions s).
           cs_cashier cs = a_cashier a \<and> cs_status cs = SubActive \<and> in_period now cs))"

definition deliverable_events :: "'x e2e_db_scheme \<Rightarrow> sync_batch \<Rightarrow> time \<Rightarrow> out_event list" where
  "deliverable_events s b now =
     [\<lparr>oe_sender = mk_matrix_user k, oe_type = tt_type t, oe_content = ev_content v\<rparr>.
        v \<leftarrow> sort_key ev_seq (filter (\<lambda>v. ev_device v = sb_device b \<and> sb_from b < ev_seq v \<and>
          ev_seq v \<le> sb_up_to b \<and> now < ev_expires v) (td_events s)),
        t \<leftarrow> td_transactions s, tt_id t = ev_tx v,
        sd \<leftarrow> devices s, d_id sd = tt_device t \<and> d_status sd = DevActive,
        k \<leftarrow> matrix_keys s, mk_device k = d_id sd,
        su \<leftarrow> users s, u_id su = d_user sd \<and> u_status su = AccActive \<and> \<not> u_reset_required su,
        rd \<leftarrow> devices s, d_id rd = ev_device v \<and> d_user rd = ev_user v \<and> d_status rd = DevActive,
        ru \<leftarrow> users s, u_id ru = d_user rd \<and> u_status ru = AccActive \<and> \<not> u_reset_required ru \<and>
          ((u_id su = u_id ru \<and> ev_conversation v = None) \<or>
           delivery_relation s now (ev_conversation v) su ru)]"

definition buildDeviceListChanges :: "uuid \<Rightarrow> sync_batch \<Rightarrow> 'x e2e_db_scheme \<Rightarrow> list_changes_out" where
  "buildDeviceListChanges user b s =
     (let rows = sort_key lc_position (filter (\<lambda>c. lc_recipient c = user \<and> sb_from_list b < lc_position c \<and>
            lc_position c \<le> sb_list b) (list_changes s));
          named = [(ls_matrix_user l, lc_type c). c \<leftarrow> rows, l \<leftarrow> list_states s,
            ls_user l = lc_subject c \<and> ls_matrix_user l \<noteq> []];
          latest = map_of (rev named);
          names = remdups (map fst named)
      in \<lparr>lo_changed = sort (filter (\<lambda>n. latest n = Some CHANGED) names),
          lo_left = sort (filter (\<lambda>n. latest n = Some LEFT) names)\<rparr>)"

definition buildSyncResponse ::
    "crypto \<Rightarrow> principal \<Rightarrow> sync_batch \<Rightarrow> bool \<Rightarrow> time \<Rightarrow> ('x e2e_db_scheme, sync_response) tx" where
  "buildSyncResponse cr p b incremental now s =
     (case reconstructSyncToken cr b of
        Inl err \<Rightarrow> Inl err
      | Inr token \<Rightarrow> Inr (\<lparr>sr_next = token, sr_events = deliverable_events s b now, sr_keys = sb_keys b,
          sr_fallback_types = (if sb_fallback b then [signed_curve] else []),
          sr_lists = (if incremental then Some (buildDeviceListChanges (pn_id p) b s) else None)\<rparr>, s))"

definition sync ::
    "crypto \<Rightarrow> env \<Rightarrow> time \<Rightarrow> principal \<Rightarrow> query \<Rightarrow> query \<Rightarrow> ('x e2e_db_scheme, sync_response) tx" where
  "sync cr e now p rawSince rawTimeout s =
     (case requireBoundDevice p of
        Inl err \<Rightarrow> Inl err
      | Inr device \<Rightarrow>
     (case parseSyncTimeout rawTimeout of
        Inl err \<Rightarrow> Inl err
      | Inr _ \<Rightarrow>
     (case parseSince rawSince of
        Inl err \<Rightarrow> Inl err
      | Inr since \<Rightarrow>
          bindT (lockSyncContext p device now) (\<lambda>x.
          bindT (chosen_batch cr e p device since x) (\<lambda>b.
          buildSyncResponse cr p b (since \<noteq> None) (sx_now x))) s)))"

end
