(* ===== verification/Moderation.thy ===== *)
theory Moderation
  imports Constraints ToDevice
begin

text \<open>
  apps/api/src/moderation: a cashier blocks a client (moderation.service.ts, blockClient, and
  moderation-policy.ts).  The block ends the assignment; from the fifth cashier on it suspends
  the client for review, otherwise the client moves to another cashier.  With it the writers of
  the assignment tables are complete, and the second half of the theory states the steps of the
  system over these tables and what holds in every reachable state.  The columns no modelled
  code reads are left out: the reason of a block, the instant and code of a suspension, the
  reason of a revocation.
\<close>

section \<open>Tables\<close>

datatype review_status = ReviewOpen | ReviewInReview | ReviewClosed
datatype review_reason = FiveDistinctCashierBlocks | AdministrativeReview

record review_row =
  rv_id :: uuid
  rv_client :: uuid
  rv_reason :: review_reason
  rv_status :: review_status

record mod_db = e2e_db +
  account_reviews :: "review_row list"

datatype block_result =
    ClientSuspended uuid nat uuid  \<comment> \<open>the block, the distinct cashiers, the review\<close>
  | ClientBlocked uuid nat reassignment_outcome

section \<open>The policy\<close>

definition distinctCashierBlockCount :: "uuid list \<Rightarrow> nat" where
  "distinctCashierBlockCount cashierIds = length (remdups cashierIds)"

definition requiresAccountReview :: "uuid list \<Rightarrow> bool" where
  "requiresAccountReview cashierIds \<longleftrightarrow> 5 \<le> distinctCashierBlockCount cashierIds"

section \<open>Blocking a client\<close>

text \<open>
  tx.block.create, behind blocks_assignment_trigger and the two unique indexes of the table.
\<close>

definition create_block ::
    "env \<Rightarrow> uuid \<Rightarrow> uuid \<Rightarrow> uuid \<Rightarrow> block_initiator \<Rightarrow> ('x db_scheme, uuid) tx" where
  "create_block e client cashier assignment initiator s =
     (if case find (\<lambda>a. a_id a = assignment) (assignments s) of
           None \<Rightarrow> False | Some a \<Rightarrow> client \<noteq> a_client a \<or> cashier \<noteq> a_cashier a
      then Inl (CheckViolation ''block participants must match its assignment'')
      else if \<exists>b \<in> set (blocks s). b_assignment b = assignment
      then Inl (UniqueViolation ''blocks_assignment_key'')
      else if \<exists>b \<in> set (blocks s). b_client b = client \<and> b_cashier b = cashier \<and> b_initiator b = initiator
      then Inl (UniqueViolation ''blocks_pair_initiator_key'')
      else Inr (uuid_at e (draws s), s\<lparr>draws := Suc (draws s), blocks := blocks s @
        [\<lparr>b_id = uuid_at e (draws s), b_client = client, b_cashier = cashier,
          b_assignment = assignment, b_initiator = initiator\<rparr>]\<rparr>))"

definition cashier_blocks :: "'x db_scheme \<Rightarrow> uuid \<Rightarrow> uuid list" where
  "cashier_blocks s client =
     map b_cashier (filter (\<lambda>b. b_client b = client \<and> b_initiator b = ByCashier) (blocks s))"

definition suspend_user :: "uuid \<Rightarrow> ('x db_scheme, unit) tx" where
  "suspend_user i s =
     (if \<exists>u \<in> set (users s). u_id u = i
      then Inr ((), s\<lparr>users := upd_where (\<lambda>u. u_id u = i)
        (\<lambda>u. u\<lparr>u_status := AccSuspended, u_session_version := Suc (u_session_version u)\<rparr>) (users s)\<rparr>)
      else Inl (RecordMissing ''user''))"

definition revoke_sessions :: "uuid \<Rightarrow> time \<Rightarrow> ('x e2e_db_scheme, unit) tx" where
  "revoke_sessions i now = modifyT (\<lambda>s. s\<lparr>sessions := upd_where
     (\<lambda>se. se_user se = i \<and> se_revoked se = None) (\<lambda>se. se\<lparr>se_revoked := Some now\<rparr>) (sessions s)\<rparr>)"

definition open_review :: "uuid \<Rightarrow> review_row \<Rightarrow> bool" where
  "open_review client r \<longleftrightarrow> rv_client r = client \<and> rv_status r \<in> {ReviewOpen, ReviewInReview}"

text \<open>The open review of the client, created when there is none.\<close>

definition account_review :: "env \<Rightarrow> uuid \<Rightarrow> ('x mod_db_scheme, uuid) tx" where
  "account_review e client s =
     (case find (open_review client) (account_reviews s) of
        Some r \<Rightarrow> Inr (rv_id r, s)
      | None \<Rightarrow> Inr (uuid_at e (draws s), s\<lparr>draws := Suc (draws s), account_reviews := account_reviews s @
          [\<lparr>rv_id = uuid_at e (draws s), rv_client = client, rv_reason = FiveDistinctCashierBlocks,
            rv_status = ReviewOpen\<rparr>]\<rparr>))"

text \<open>The branch of five distinct cashiers, at the instant the check of the period returned.\<close>

definition suspend_for_review ::
    "env \<Rightarrow> time \<Rightarrow> conversation_access \<Rightarrow> ('x mod_db_scheme, uuid) tx" where
  "suspend_for_review e now k =
     bindT (end_assignment (ca_assignment k) EnCashierBlockedClient now) (\<lambda>_.
     bindT (close_conversation (ca_assignment k) now) (\<lambda>_.
     bindT (publish_relationship e (ca_client k) (ca_cashier k) LEFT now) (\<lambda>_.
     bindT (suspend_user (ca_client k)) (\<lambda>_.
     bindT (revoke_sessions (ca_client k) now) (\<lambda>_.
     bindT (account_review e (ca_client k)) (\<lambda>review.
     bindT (modifyT (\<lambda>s. s\<lparr>notifications := notifications s @ [\<lparr>n_user = ca_client k,
       n_type = NotifAccountStatusChanged, n_related = review, n_message = None, n_expires = None\<rparr>]\<rparr>)) (\<lambda>_.
     returnT review)))))))"

text \<open>
  The transaction.  The clock is read by the check of access, by the two checks of the period
  (\<open>t1\<close>, \<open>t3\<close>) and by the reassignment (\<open>t2\<close>).
\<close>

definition block_transaction ::
    "env \<Rightarrow> time \<Rightarrow> time \<Rightarrow> time \<Rightarrow> time \<Rightarrow> uuid \<Rightarrow> uuid \<Rightarrow> ('x mod_db_scheme, block_result) tx" where
  "block_transaction e t t1 t2 t3 cashier client =
     bindT (lockCurrentByParticipants t client cashier) (\<lambda>k.
     bindT (create_block e client cashier (ca_assignment k) ByCashier) (\<lambda>block.
     bindT (getT (\<lambda>s. cashier_blocks s client)) (\<lambda>cashierIds.
     bindT (liftT (assertPeriodStillActive t1 (ca_ends k))) (\<lambda>now.
       if requiresAccountReview cashierIds
       then bindT (suspend_for_review e now k) (\<lambda>review.
            bindT (liftT (assertPeriodStillActive t3 (ca_ends k))) (\<lambda>_.
            returnT (ClientSuspended block (distinctCashierBlockCount cashierIds) review)))
       else bindT (reassignAfterModerationInTransaction e t2
              \<lparr>ar_id = ca_assignment k, ar_client = ca_client k, ar_cashier = ca_cashier k\<rparr>
              RrCashierBlockedClient EnCashierBlockedClient block) (\<lambda>out.
            bindT (liftT (assertPeriodStillActive t3 (ca_ends k))) (\<lambda>_.
            returnT (ClientBlocked block (distinctCashierBlockCount cashierIds) out)))))))"

definition blockClient ::
    "(nat \<Rightarrow> bool) \<Rightarrow> env \<Rightarrow> time \<Rightarrow> time \<Rightarrow> time \<Rightarrow> time \<Rightarrow> uuid \<Rightarrow> uuid \<Rightarrow> 'x mod_db_scheme \<Rightarrow>
       (error + block_result) \<times> 'x mod_db_scheme" where
  "blockClient conflict e t t1 t2 t3 cashier client s =
     (case runSerializable conflict (block_transaction e t t1 t2 t3 cashier client) s of
        (Inl (UniqueViolation _), s') \<Rightarrow>
          (Inl (Conflict ''Este cajero ya bloqueo anteriormente al cliente.''), s')
      | res \<Rightarrow> res)"

section \<open>What it does to the tables\<close>

lemma serializable_from_result:
  "serializable_from n k conflict op s = (r, s') \<Longrightarrow>
     (\<exists>e. r = Inl e \<and> s' = s) \<or> (\<exists>x. r = Inr x \<and> op s = Inr (x, s'))"
  by (induction n k conflict op s rule: serializable_from.induct)
    (auto split: if_splits sum.splits prod.splits)

lemma blockClient_result:
  assumes "blockClient conflict e t t1 t2 t3 cashier client s = (r, s')"
  shows "(\<exists>err. r = Inl err \<and> s' = s) \<or>
    (\<exists>x. r = Inr x \<and> block_transaction e t t1 t2 t3 cashier client s = Inr (x, s'))"
proof -
  obtain q s1 where q: "runSerializable conflict (block_transaction e t t1 t2 t3 cashier client) s = (q, s1)"
    by (cases "runSerializable conflict (block_transaction e t t1 t2 t3 cashier client) s")
  from serializable_from_result [OF q [unfolded runSerializable_def]] q assms show ?thesis
    by (auto simp: blockClient_def split: error.splits sum.splits)
qed

lemma create_block_run:
  assumes "create_block e client cashier i init s = Inr (b, s')"
  shows "s' = s\<lparr>draws := Suc (draws s), blocks := blocks s'\<rparr> \<and> b = uuid_at e (draws s) \<and>
    blocks s' = blocks s @ [\<lparr>b_id = b, b_client = client, b_cashier = cashier, b_assignment = i,
      b_initiator = init\<rparr>]"
  using assms by (auto simp: create_block_def split: if_splits)

lemma begin_needs_new_block:
  assumes "beginReassignment e now input s = Inr (out, s')"
  shows "block_unused (bi_block input) s"
proof -
  from assms obtain s1 s2 s3 r s4 where
    "end_assignment (ar_id (bi_assignment input)) (bi_end_reason input) now s = Inr ((), s1)"
    "close_conversation (ar_id (bi_assignment input)) now s1 = Inr ((), s2)"
    "publish_relationship e (ar_client (bi_assignment input)) (ar_cashier (bi_assignment input)) LEFT now s2
       = Inr ((), s3)"
    and c: "create_request e input now s3 = Inr (r, s4)"
    by (auto simp: beginReassignment_def Let_def tx_iffs)
  moreover obtain s3' where "publish_relationship e (ar_client (bi_assignment input))
      (ar_cashier (bi_assignment input)) LEFT now s2 = Inr ((), s3')" "same_core s2 s3'"
    using publish_relationship_total by blast
  ultimately have "requests s1 = requests s" "requests s2 = requests s1" "requests s3 = requests s2"
    using same_core_fields(7) [of s2 s3]
    by (auto simp: end_assignment_def close_conversation_def split: option.splits if_splits)
  with c show ?thesis by (auto simp: create_request_def Let_def block_unused_def split: if_splits)
qed

lemma account_review_run:
  "\<exists>rid s'. account_review e client s = Inr (rid, s') \<and>
     s' = s\<lparr>draws := draws s', account_reviews := account_reviews s'\<rparr> \<and> draws s \<le> draws s' \<and>
     (\<exists>r \<in> set (account_reviews s'). rv_id r = rid \<and> open_review client r) \<and>
     (find (open_review client) (account_reviews s) \<noteq> None \<longrightarrow> account_reviews s' = account_reviews s)"
proof (cases "find (open_review client) (account_reviews s)")
  case None
  then show ?thesis by (auto simp: account_review_def open_review_def)
next
  case (Some r)
  then have "r \<in> set (account_reviews s)" "open_review client r" by (auto simp: find_Some_iff)
  with Some show ?thesis by (auto simp: account_review_def)
qed

text \<open>The branch of the review always succeeds on an open assignment; its tables in closed form.\<close>

lemma suspend_for_review_run:
  assumes "wf e s" "a \<in> set (assignments s)" "is_open a" "ca_assignment k = a_id a"
    "\<exists>u \<in> set (users s). u_id u = ca_client k"
  shows "\<exists>rid s'. suspend_for_review e now k s = Inr (rid, s') \<and> draws s \<le> draws s' \<and>
    assignments s' = upd_where (\<lambda>b. a_id b = a_id a) (ended_row EnCashierBlockedClient now) (assignments s) \<and>
    conversations s' = upd_where (\<lambda>c. c_assignment c = a_id a) (closed_row now) (conversations s) \<and>
    requests s' = requests s \<and> blocks s' = blocks s \<and>
    users s' = upd_where (\<lambda>u. u_id u = ca_client k)
      (\<lambda>u. u\<lparr>u_status := AccSuspended, u_session_version := Suc (u_session_version u)\<rparr>) (users s) \<and>
    sessions s' = upd_where (\<lambda>se. se_user se = ca_client k \<and> se_revoked se = None)
      (\<lambda>se. se\<lparr>se_revoked := Some now\<rparr>) (sessions s) \<and>
    (\<exists>r \<in> set (account_reviews s'). rv_id r = rid \<and> open_review (ca_client k) r)"
proof -
  let ?A = "upd_where (\<lambda>b. a_id b = a_id a) (ended_row EnCashierBlockedClient now) (assignments s)"
  let ?C = "upd_where (\<lambda>c. c_assignment c = a_id a) (closed_row now) (conversations s)"
  let ?s1 = "s\<lparr>assignments := ?A\<rparr>" and ?s2 = "s\<lparr>assignments := ?A, conversations := ?C\<rparr>"
  obtain s3 where pub: "publish_relationship e (ca_client k) (ca_cashier k) LEFT now ?s2 = Inr ((), s3)"
    and core: "same_core ?s2 s3" using publish_relationship_total by blast
  note f = same_core_fields [OF core]
  have x: "sessions s3 = sessions s" using core unfolding same_core_def by (cases s; cases s3) simp
  let ?U = "upd_where (\<lambda>u. u_id u = ca_client k)
      (\<lambda>u. u\<lparr>u_status := AccSuspended, u_session_version := Suc (u_session_version u)\<rparr>) (users s)"
  let ?S = "upd_where (\<lambda>se. se_user se = ca_client k \<and> se_revoked se = None)
      (\<lambda>se. se\<lparr>se_revoked := Some now\<rparr>) (sessions s)"
  let ?s4 = "s3\<lparr>users := ?U\<rparr>" and ?s5 = "s3\<lparr>users := ?U, sessions := ?S\<rparr>"
  have susp: "suspend_user (ca_client k) s3 = Inr ((), ?s4)" using f(1) assms(5) by (simp add: suspend_user_def)
  have rev: "revoke_sessions (ca_client k) now ?s4 = Inr ((), ?s5)" using x by (simp add: revoke_sessions_def modifyT_def)
  from account_review_run [of e "ca_client k" ?s5] obtain rid s6 where
    r: "account_review e (ca_client k) ?s5 = Inr (rid, s6)" "draws ?s5 \<le> draws s6"
      "s6 = ?s5\<lparr>draws := draws s6, account_reviews := account_reviews s6\<rparr>"
      "\<exists>r \<in> set (account_reviews s6). rv_id r = rid \<and> open_review (ca_client k) r" by blast
  let ?s' = "s6\<lparr>notifications := notifications s6 @ [\<lparr>n_user = ca_client k,
    n_type = NotifAccountStatusChanged, n_related = rid, n_message = None, n_expires = None\<rparr>]\<rparr>"
  have "suspend_for_review e now k s = Inr (rid, ?s')"
    unfolding suspend_for_review_def assms(4)
    using end_assignment_run [OF assms(1-3), of EnCashierBlockedClient now]
      close_conversation_run [OF assms(1-3), of ?s1 now] pub susp rev r(1)
    by (simp add: bindT_def modifyT_def returnT_def)
  moreover have "assignments s6 = ?A" "conversations s6 = ?C" "requests s6 = requests s" "blocks s6 = blocks s"
    "users s6 = ?U" "sessions s6 = ?S"
    by (subst r(3), simp add: f)+
  moreover have "draws s \<le> draws s6" using r(2) f(11) by simp
  ultimately show ?thesis using r(4) by simp
qed

text \<open>An access granted to the pair names an open assignment of the pair, and both are users.\<close>

lemma lock_participants:
  assumes "lockCurrentByParticipants now client cashier s = Inr (k, s')"
  obtains a where "s' = s" "a \<in> set (assignments s)" "is_open a" "ca_assignment k = a_id a"
    "ca_client k = client" "ca_cashier k = cashier" "a_client a = client" "a_cashier a = cashier"
    "\<exists>u \<in> set (users s). u_id u = client \<and> u_role u = CLIENT"
proof -
  from lockCurrentByParticipants_granted [OF assms] have g: "access_granted now s k" "s' = s"
    "ca_client k = client" "ca_cashier k = cashier" by simp_all
  from g(1) obtain c a cs where row: "a \<in> set (assignments s)" "cs \<in> set (eligible_joins now s a)"
      "a_ended a = None" "k = access_of (c, a, cs)"
    unfolding access_granted_def by blast
  from row(4) have k: "ca_assignment k = a_id a" "ca_client k = a_client a" "ca_cashier k = a_cashier a"
    by (simp_all add: access_of_def)
  from row(2) have "\<exists>u \<in> set (users s). u_id u = a_client a \<and> u_role u = CLIENT"
    by (auto simp: eligible_joins_iff usable_client_def)
  with that [OF g(2) row(1) _ k(1) g(3,4)] g(3,4) k row(3) show ?thesis by (simp add: is_open_def)
qed

lemma block_transaction_split:
  assumes "block_transaction e t t1 t2 t3 cashier client s = Inr (x, s')"
  obtains k a block s1 where "lockCurrentByParticipants t client cashier s = Inr (k, s)"
    "a \<in> set (assignments s)" "is_open a" "ca_assignment k = a_id a" "a_client a = client"
    "a_cashier a = cashier" "ca_client k = client" "ca_cashier k = cashier"
    "\<exists>u \<in> set (users s). u_id u = client \<and> u_role u = CLIENT"
    "create_block e client cashier (a_id a) ByCashier s = Inr (block, s1)"
    "requiresAccountReview (cashier_blocks s1 client) \<longrightarrow> (\<exists>review. suspend_for_review e t1 k s1 = Inr (review, s') \<and>
       x = ClientSuspended block (distinctCashierBlockCount (cashier_blocks s1 client)) review)"
    "\<not> requiresAccountReview (cashier_blocks s1 client) \<longrightarrow>
       (\<exists>out. reassignAfterModerationInTransaction e t2 (ref_of a) RrCashierBlockedClient
         EnCashierBlockedClient block s1 = Inr (out, s') \<and>
       x = ClientBlocked block (distinctCashierBlockCount (cashier_blocks s1 client)) out)"
proof -
  from assms obtain k s0 where l: "lockCurrentByParticipants t client cashier s = Inr (k, s0)"
    unfolding block_transaction_def by (auto simp: tx_iffs)
  obtain a where a: "s0 = s" "a \<in> set (assignments s)" "is_open a" "ca_assignment k = a_id a"
    "ca_client k = client" "ca_cashier k = cashier" "a_client a = client" "a_cashier a = cashier"
    "\<exists>u \<in> set (users s). u_id u = client \<and> u_role u = CLIENT"
    by (rule lock_participants [OF l])
  from assms l a(1,4) obtain block s1 where b: "create_block e client cashier (a_id a) ByCashier s = Inr (block, s1)"
    unfolding block_transaction_def by (auto simp: tx_iffs)
  have now: "assertPeriodStillActive u (ca_ends k) = Inr v \<Longrightarrow> v = u" for u v
    by (auto simp: assertPeriodStillActive_def split: option.splits if_splits)
  have ref: "\<lparr>ar_id = ca_assignment k, ar_client = ca_client k, ar_cashier = ca_cashier k\<rparr> = ref_of a"
    using a by (simp add: ref_of_def)
  have rest: "(if requiresAccountReview (cashier_blocks s1 client)
       then bindT (suspend_for_review e t1 k) (\<lambda>review.
            bindT (liftT (assertPeriodStillActive t3 (ca_ends k))) (\<lambda>_.
            returnT (ClientSuspended block (distinctCashierBlockCount (cashier_blocks s1 client)) review)))
       else bindT (reassignAfterModerationInTransaction e t2 (ref_of a)
              RrCashierBlockedClient EnCashierBlockedClient block) (\<lambda>out.
            bindT (liftT (assertPeriodStillActive t3 (ca_ends k))) (\<lambda>_.
            returnT (ClientBlocked block (distinctCashierBlockCount (cashier_blocks s1 client)) out)))) s1 = Inr (x, s')"
  proof (cases "assertPeriodStillActive t1 (ca_ends k)")
    case (Inl err)
    with assms l a(1,4) b show ?thesis
      by (simp add: block_transaction_def bindT_def getT_def liftT_def)
  next
    case (Inr v)
    then have lift: "liftT (assertPeriodStillActive t1 (ca_ends k)) s1 = Inr (t1, s1)"
      using now [OF Inr] by (simp add: liftT_def)
    have l': "lockCurrentByParticipants t client cashier s = Inr (k, s)"
      and b': "create_block e client cashier (ca_assignment k) ByCashier s = Inr (block, s1)"
      using l b a(1,4) by simp_all
    from assms show ?thesis unfolding block_transaction_def ref
      by (simp only: bindT_Inr [where m = "lockCurrentByParticipants t client cashier", OF l']
          bindT_Inr [where m = "create_block e client cashier (ca_assignment k) ByCashier", OF b']
          bindT_Inr [where m = "liftT (assertPeriodStillActive t1 (ca_ends k))", OF lift]
          bindT_Inr [where m = "getT (\<lambda>s. cashier_blocks s client)", OF getT_eq] ref)
  qed
  have suspended: "\<exists>review. suspend_for_review e t1 k s1 = Inr (review, s') \<and>
       x = ClientSuspended block (distinctCashierBlockCount (cashier_blocks s1 client)) review"
    if "requiresAccountReview (cashier_blocks s1 client)"
    using rest that by (auto simp: tx_iffs liftT_Inr_iff)
  have moved: "\<exists>out. reassignAfterModerationInTransaction e t2 (ref_of a) RrCashierBlockedClient
         EnCashierBlockedClient block s1 = Inr (out, s') \<and>
       x = ClientBlocked block (distinctCashierBlockCount (cashier_blocks s1 client)) out"
    if "\<not> requiresAccountReview (cashier_blocks s1 client)"
    using rest that by (auto simp: tx_iffs liftT_Inr_iff)
  show ?thesis
    using suspended moved by (intro that [OF l [unfolded a(1)] a(2-4,7,8,5,6,9) b]) simp_all
qed

lemma block_transaction_wf:
  assumes "wf e s" "block_transaction e t t1 t2 t3 cashier client s = Inr (x, s')"
  shows "wf e s'"
proof -
  obtain k a block s1 where p: "a \<in> set (assignments s)" "is_open a" "ca_assignment k = a_id a"
    "ca_client k = client" "\<exists>u \<in> set (users s). u_id u = client \<and> u_role u = CLIENT"
    "create_block e client cashier (a_id a) ByCashier s = Inr (block, s1)"
    "requiresAccountReview (cashier_blocks s1 client) \<longrightarrow> (\<exists>review. suspend_for_review e t1 k s1 = Inr (review, s') \<and>
       x = ClientSuspended block (distinctCashierBlockCount (cashier_blocks s1 client)) review)"
    "\<not> requiresAccountReview (cashier_blocks s1 client) \<longrightarrow>
       (\<exists>out. reassignAfterModerationInTransaction e t2 (ref_of a) RrCashierBlockedClient
         EnCashierBlockedClient block s1 = Inr (out, s') \<and>
       x = ClientBlocked block (distinctCashierBlockCount (cashier_blocks s1 client)) out)"
    by (rule block_transaction_split [OF assms(2)])
  from create_block_run [OF p(6)] have s1: "s1 = s\<lparr>draws := Suc (draws s), blocks := blocks s1\<rparr>" by blast
  have same: "assignments s1 = assignments s" "conversations s1 = conversations s" "requests s1 = requests s"
    "draws s \<le> draws s1" "users s1 = users s" by (subst s1, simp)+
  from wf_same_tables [OF assms(1) same(1-4)] have w1: "wf e s1" .
  have a1: "a \<in> set (assignments s1)" using p(1) same(1) by simp
  have u1: "\<exists>u \<in> set (users s1). u_id u = ca_client k" using p(4,5) same(5) by auto
  show ?thesis
  proof (cases "requiresAccountReview (cashier_blocks s1 client)")
    case True
    from p(7) True obtain review where run: "suspend_for_review e t1 k s1 = Inr (review, s')" by blast
    from suspend_for_review_run [OF w1 a1 p(2,3) u1, of t1] run have t: "draws s1 \<le> draws s'"
      "assignments s' = upd_where (\<lambda>b. a_id b = a_id a) (ended_row EnCashierBlockedClient t1) (assignments s1)"
      "conversations s' = upd_where (\<lambda>c. c_assignment c = a_id a) (closed_row t1) (conversations s1)"
      "requests s' = requests s1" by auto
    from w1 have lw: "links_wf (assignments s1) (conversations s1) (requests s1)"
      and sup: "supply_ok e (draws s1) (used_ids s1)" by (simp_all add: wf_def)
    have "used_ids s' = used_ids s1" using t by (simp add: used_ids_def image_upd_where)
    then show ?thesis using t links_wf_end_one [OF lw] supply_ok_mono [OF sup t(1)] by (simp add: wf_def)
  next
    case False
    from p(8) False obtain out where run: "reassignAfterModerationInTransaction e t2 (ref_of a)
      RrCashierBlockedClient EnCashierBlockedClient block s1 = Inr (out, s')" by blast
    from run show ?thesis unfolding reassignAfterModerationInTransaction_def
      by (intro begin_wf [OF w1 a1 p(2) _ begin_needs_new_block]) simp_all
  qed
qed

lemma blockClient_wf:
  "wf e s \<Longrightarrow> wf e (snd (blockClient conflict e t t1 t2 t3 cashier client s))"
proof -
  assume w: "wf e s"
  obtain r s' where r: "blockClient conflict e t t1 t2 t3 cashier client s = (r, s')"
    by (cases "blockClient conflict e t t1 t2 t3 cashier client s")
  from blockClient_result [OF r] show ?thesis
    using w block_transaction_wf [OF w] r by auto
qed

section \<open>Reachable states\<close>

text \<open>
  Assignments, conversations and requests are written by the assignment service, by the block of
  a client, by the report of a cashier and by the registration of a client, and by nothing else.
  \<open>operation\<close> is a committed operation of the service, the reassignment a report runs included;
  \<open>blocking\<close> the whole of blockClient, whatever it returns; \<open>registration\<close> the first assignment
  of a new client (auth.service.ts, registerClient); \<open>elsewhere\<close> anything the other services do
  to the other tables, and draws of identifiers for them.
\<close>

inductive service_step :: "env \<Rightarrow> 'x mod_db_scheme \<Rightarrow> 'x mod_db_scheme \<Rightarrow> bool" for e where
  operation: "op_pre op s \<Longrightarrow> run_op e op s = Inr s' \<Longrightarrow> service_step e s s'"
| blocking: "service_step e s (snd (blockClient conflict e t t1 t2 t3 cashier client s))"
| registration: "links client (assignments s) (requests s) = 0 \<Longrightarrow>
    a = \<lparr>a_id = uuid_at e (draws s), a_client = client, a_cashier = cashier, a_previous = None,
      a_admin = None, a_start_reason = StInvitation, a_end_reason = None, a_started = now,
      a_ended = None\<rparr> \<Longrightarrow>
    c = \<lparr>c_id = uuid_at e (Suc (draws s)), c_assignment = a_id a, c_status = ConvActive,
      c_created = now, c_closed = None\<rparr> \<Longrightarrow>
    service_step e s (s\<lparr>draws := Suc (Suc (draws s)), assignments := assignments s @ [a],
      conversations := conversations s @ [c]\<rparr>)"
| elsewhere: "assignments s' = assignments s \<Longrightarrow> conversations s' = conversations s \<Longrightarrow>
    requests s' = requests s \<Longrightarrow> draws s \<le> draws s' \<Longrightarrow> service_step e s s'"

inductive reachable_from :: "env \<Rightarrow> 'x mod_db_scheme \<Rightarrow> 'x mod_db_scheme \<Rightarrow> bool" for e s0 where
  start: "reachable_from e s0 s0"
| step: "reachable_from e s0 s \<Longrightarrow> service_step e s s' \<Longrightarrow> reachable_from e s0 s'"

inductive_cases service_stepE: "service_step e s s'"

lemma registration_wf:
  assumes "wf e s" "links client (assignments s) (requests s) = 0"
    and a: "a = \<lparr>a_id = uuid_at e (draws s), a_client = client, a_cashier = cashier, a_previous = None,
      a_admin = None, a_start_reason = StInvitation, a_end_reason = None, a_started = now,
      a_ended = None\<rparr>"
    and c: "c = \<lparr>c_id = uuid_at e (Suc (draws s)), c_assignment = a_id a, c_status = ConvActive,
      c_created = now, c_closed = None\<rparr>"
  shows "wf e (s\<lparr>draws := Suc (Suc (draws s)), assignments := assignments s @ [a],
      conversations := conversations s @ [c]\<rparr>)"
proof -
  from assms(1) have lw: "links_wf (assignments s) (conversations s) (requests s)"
    and sup: "supply_ok e (draws s) (used_ids s)" by (simp_all add: wf_def)
  have fresh: "uuid_at e (draws s) \<notin> used_ids s" "uuid_at e (Suc (draws s)) \<notin> used_ids s"
    using supply_ok_fresh [OF sup] by simp_all
  have "keys_wf (assignments s @ [a]) (conversations s @ [c]) (requests s)"
    using lw fresh a c by (auto simp: links_wf_def keys_wf_def used_ids_def)
  moreover have "lifecycle_wf (assignments s @ [a]) (conversations s @ [c])"
    using lw a c by (auto simp: links_wf_def lifecycle_wf_def list_all2_append list_all2_lengthD is_open_def)
  moreover have "history_wf (assignments s @ [a]) (requests s)"
    using lw a by (auto simp: links_wf_def history_wf_def)
  moreover have "links k (assignments s @ [a]) (requests s) \<le> 1" for k
    using lw assms(2) a by (cases "k = client") (auto simp: links_wf_def links_def is_open_def)
  moreover have "supply_ok e (Suc (Suc (draws s)))
      (insert (uuid_at e (Suc (draws s))) (insert (uuid_at e (draws s)) (used_ids s)))"
    by (rule supply_ok_draw [OF supply_ok_draw [OF sup order_refl]]) simp
  ultimately show ?thesis
    using a c by (simp add: wf_def links_wf_def used_ids_def insert_commute)
qed

lemma step_wf: "service_step e s s' \<Longrightarrow> wf e s \<Longrightarrow> wf e s'"
proof (induction rule: service_step.induct)
  case (operation op s s')
  then show ?case by (blast intro: run_op_wf)
next
  case (blocking s conflict t t1 t2 t3 cashier client)
  then show ?case by (rule blockClient_wf)
next
  case (registration client s a cashier now c)
  from registration_wf [OF registration(4,1-3)] show ?case .
next
  case (elsewhere s' s)
  then show ?case by (blast intro: wf_same_tables)
qed

lemma reachable_wf: "reachable_from e s0 s \<Longrightarrow> wf e s0 \<Longrightarrow> wf e s"
  by (induction rule: reachable_from.induct) (auto intro: step_wf)

section \<open>Properties\<close>

text \<open>C6: in every state reached from a database without assignments, by operations of the assignment service,
  blocks and reports, registrations and whatever else the other services write, a client has at most
  one open assignment, none while a reassignment request of the client is pending, at most one such
  request, and a conversation is active exactly while its assignment is open.\<close>

theorem reachable_links:
  assumes "supply_ok e (draws s0) {}" "assignments s0 = []" "conversations s0 = []" "requests s0 = []"
    "reachable_from e s0 s"
  shows "(\<forall>a \<in> set (assignments s). \<forall>b \<in> set (assignments s).
      is_open a \<and> is_open b \<and> a_client a = a_client b \<longrightarrow> a = b) \<and>
    (\<forall>a \<in> set (assignments s). \<forall>r \<in> set (requests s).
      is_open a \<and> is_pending r \<longrightarrow> a_client a \<noteq> rr_client r) \<and>
    (\<forall>k. count_where (\<lambda>r. rr_client r = k \<and> is_pending r) (requests s) \<le> 1) \<and>
    (\<forall>a \<in> set (assignments s). \<exists>c \<in> set (conversations s). c_assignment c = a_id a \<and>
      (c_status c = ConvActive \<longleftrightarrow> is_open a))"
proof -
  have "wf e s0"
    using assms(1-4) by (simp add: wf_def links_wf_def keys_wf_def lifecycle_wf_def history_wf_def
        links_def used_ids_def)
  with assms(5) have lw: "links_wf (assignments s) (conversations s) (requests s)"
    by (rule wf_links [OF reachable_wf])
  have "count_where (\<lambda>r. rr_client r = k \<and> is_pending r) (requests s) \<le> 1" for k
    using lw unfolding links_wf_def links_def by (meson add_leE)
  moreover have "\<exists>c \<in> set (conversations s). c_assignment c = a_id a \<and> (c_status c = ConvActive \<longleftrightarrow> is_open a)"
    if "a \<in> set (assignments s)" for a
    using conversation_of [OF lw that] by metis
  moreover have "a = b" if "a \<in> set (assignments s)" "b \<in> set (assignments s)" "is_open a" "is_open b"
      "a_client a = a_client b" for a b
    using open_link(3) [OF lw that(2,4)] that by blast
  moreover have "a_client a \<noteq> rr_client r" if "a \<in> set (assignments s)" "r \<in> set (requests s)"
      "is_open a" "is_pending r" for a r
    using open_link(2) [OF lw that(1,3)] that by metis
  ultimately show ?thesis by blast
qed

lemma closed_with_assignment:
  assumes "wf e s" "a \<in> set (assignments s)" "\<not> is_open a" "c \<in> set (conversations s)" "c_assignment c = a_id a"
  shows "c_status c = ConvClosed"
proof -
  from wf_links [OF assms(1)] have lw: "links_wf (assignments s) (conversations s) (requests s)" .
  from conversation_of [OF lw assms(2)] obtain d where d: "d \<in> set (conversations s)"
    "c_assignment d = a_id a" "c_status d = ConvActive \<longleftrightarrow> is_open a" by blast
  from lw have "map c_assignment (conversations s) = map a_id (assignments s)"
      "distinct (map a_id (assignments s))" by (simp_all add: links_wf_def keys_wf_def)
  then have "distinct (map c_assignment (conversations s))" by metis
  from distinct_key_eq [OF this assms(4) d(1)] assms(3,5) d(2,3) show ?thesis
    by (cases "c_status c") simp_all
qed

lemma begin_outcome:
  assumes "wf e s" "a \<in> set (assignments s)" "is_open a" "bi_assignment input = ref_of a"
    "beginReassignment e now input s = Inr (out, s')"
  shows "wf e s' \<and> same_people s s' \<and> ro_client out = a_client a \<and> ro_previous_cashier out = a_cashier a \<and>
    ended_row (bi_end_reason input) now a \<in> set (assignments s')"
proof -
  note pre = assms(1-4) begin_needs_new_block [OF assms(5)] assms(5)
  from begin_result [OF pre] obtain r s1 where b: "begun input now s r s1" and w: "wf e s'"
    and c: "completion e r (bi_admin input) now s1 out s'" by blast
  from b assms(4) have r: "rr_client r = a_client a" "rr_excluded r = a_cashier a" "same_people s s1"
    by (simp_all add: begun_def Let_def ref_of_def)
  have "ro_client out = rr_client r \<and> ro_previous_cashier out = rr_excluded r"
    using c by (auto simp: completion_def Let_def pending_outcome_def assigned_outcome_def split: if_splits)
  moreover have "same_people s s'" using r(3) completion_grows(2) [OF c] by (simp add: same_people_def)
  moreover have "ended_row (bi_end_reason input) now a \<in> set (assignments s')"
    by (rule begin_row [OF pre])
  ultimately show ?thesis using w r by simp
qed

lemma count_of_cashiers:
  "distinctCashierBlockCount (cashier_blocks s client) =
     card (b_cashier ` {b \<in> set (blocks s). b_client b = client \<and> b_initiator b = ByCashier})"
  by (simp add: distinctCashierBlockCount_def cashier_blocks_def length_remdups_card_conv)

text \<open>A block that returns has recorded the cashier and ended the assignment and the conversation of the
  pair for that reason.  When it is the fifth distinct cashier, the client is suspended without any
  relation left, every session of the client is revoked and a review of the account is open;
  before that no account changes and the client goes through a reassignment.\<close>

theorem fifth_block_suspends:
  assumes "wf e s" "blockClient conflict e t t1 t2 t3 cashier client s = (Inr x, s')"
  shows "\<exists>a \<in> set (assignments s). \<exists>b \<in> set (blocks s'). is_open a \<and> a_client a = client \<and> a_cashier a = cashier \<and>
    (\<exists>a' \<in> set (assignments s'). a_id a' = a_id a \<and> \<not> is_open a' \<and> a_end_reason a' = Some EnCashierBlockedClient) \<and>
    (\<forall>c \<in> set (conversations s'). c_assignment c = a_id a \<longrightarrow> c_status c = ConvClosed) \<and>
    b_client b = client \<and> b_cashier b = cashier \<and> b_initiator b = ByCashier \<and> b_assignment b = a_id a \<and>
    (let n = card (b_cashier ` {b \<in> set (blocks s'). b_client b = client \<and> b_initiator b = ByCashier}) in
      if 5 \<le> n
      then links client (assignments s') (requests s') = 0 \<and>
        (\<exists>u \<in> set (users s'). u_id u = client) \<and>
        (\<forall>u \<in> set (users s'). u_id u = client \<longrightarrow> u_status u = AccSuspended) \<and>
        (\<forall>se \<in> set (sessions s'). se_user se = client \<longrightarrow> se_revoked se \<noteq> None) \<and>
        (\<exists>r \<in> set (account_reviews s'). open_review client r \<and> x = ClientSuspended (b_id b) n (rv_id r))
      else users s' = users s \<and> (\<exists>out. x = ClientBlocked (b_id b) n out \<and> ro_client out = client \<and>
        ro_previous_cashier out = cashier))"
proof -
  let ?n = "\<lambda>s. distinctCashierBlockCount (cashier_blocks s client)"
  from blockClient_result [OF assms(2)] have "block_transaction e t t1 t2 t3 cashier client s = Inr (x, s')" by auto
  from block_transaction_wf [OF assms(1) this] have w': "wf e s'" .
  obtain k a block s1 where p: "a \<in> set (assignments s)" "is_open a" "ca_assignment k = a_id a"
    "a_client a = client" "a_cashier a = cashier" "ca_client k = client"
    "\<exists>u \<in> set (users s). u_id u = client \<and> u_role u = CLIENT"
    "create_block e client cashier (a_id a) ByCashier s = Inr (block, s1)"
    "requiresAccountReview (cashier_blocks s1 client) \<longrightarrow> (\<exists>review. suspend_for_review e t1 k s1 = Inr (review, s') \<and>
       x = ClientSuspended block (?n s1) review)"
    "\<not> requiresAccountReview (cashier_blocks s1 client) \<longrightarrow>
       (\<exists>out. reassignAfterModerationInTransaction e t2 (ref_of a) RrCashierBlockedClient
         EnCashierBlockedClient block s1 = Inr (out, s') \<and> x = ClientBlocked block (?n s1) out)"
    by (rule block_transaction_split [OF \<open>block_transaction e t t1 t2 t3 cashier client s = Inr (x, s')\<close>])
  let ?b = "\<lparr>b_id = block, b_client = client, b_cashier = cashier, b_assignment = a_id a, b_initiator = ByCashier\<rparr>"
  from create_block_run [OF p(8)] have s1: "s1 = s\<lparr>draws := Suc (draws s), blocks := blocks s1\<rparr>"
    and new: "?b \<in> set (blocks s1)" by auto
  have same: "assignments s1 = assignments s" "conversations s1 = conversations s" "requests s1 = requests s"
    "draws s \<le> draws s1" "users s1 = users s" by (subst s1, simp)+
  from wf_same_tables [OF assms(1) same(1-4)] have w1: "wf e s1" .
  have a1: "a \<in> set (assignments s1)" using p(1) same(1) by simp
  let ?out = "if 5 \<le> ?n s1
      then links client (assignments s') (requests s') = 0 \<and>
        (\<exists>u \<in> set (users s'). u_id u = client) \<and>
        (\<forall>u \<in> set (users s'). u_id u = client \<longrightarrow> u_status u = AccSuspended) \<and>
        (\<forall>se \<in> set (sessions s'). se_user se = client \<longrightarrow> se_revoked se \<noteq> None) \<and>
        (\<exists>r \<in> set (account_reviews s'). open_review client r \<and> x = ClientSuspended block (?n s1) (rv_id r))
      else users s' = users s \<and> (\<exists>out. x = ClientBlocked block (?n s1) out \<and> ro_client out = client \<and>
        ro_previous_cashier out = cashier)"
  have "\<exists>now. ended_row EnCashierBlockedClient now a \<in> set (assignments s') \<and> blocks s' = blocks s1 \<and> ?out"
  proof (cases "requiresAccountReview (cashier_blocks s1 client)")
    case True
    with p(9) obtain review where run: "suspend_for_review e t1 k s1 = Inr (review, s')"
      and x: "x = ClientSuspended block (?n s1) review" by blast
    have u1: "\<exists>u \<in> set (users s1). u_id u = ca_client k" using p(6,7) same(5) by auto
    from suspend_for_review_run [OF w1 a1 p(2,3) u1, of t1] run have t:
      "assignments s' = upd_where (\<lambda>b. a_id b = a_id a) (ended_row EnCashierBlockedClient t1) (assignments s1)"
      "requests s' = requests s1" "blocks s' = blocks s1"
      "users s' = upd_where (\<lambda>u. u_id u = ca_client k)
        (\<lambda>u. u\<lparr>u_status := AccSuspended, u_session_version := Suc (u_session_version u)\<rparr>) (users s1)"
      "sessions s' = upd_where (\<lambda>se. se_user se = ca_client k \<and> se_revoked se = None)
        (\<lambda>se. se\<lparr>se_revoked := Some t1\<rparr>) (sessions s1)"
      "\<exists>r \<in> set (account_reviews s'). rv_id r = review \<and> open_review (ca_client k) r" by auto
    have "links client (assignments s') (requests s') = 0"
      using links_zero_after_end [OF wf_links [OF w1] a1 p(2)] t(1,2) p(4) by simp
    moreover have "u_id ` set (users s') = u_id ` set (users s1)" by (simp add: t(4) image_upd_where)
    then have "\<exists>u \<in> set (users s'). u_id u = client" using u1 p(6) by (metis image_iff)
    moreover have "\<forall>u \<in> set (users s'). u_id u = client \<longrightarrow> u_status u = AccSuspended"
      "\<forall>se \<in> set (sessions s'). se_user se = client \<longrightarrow> se_revoked se \<noteq> None"
      using p(6) by (auto simp: t(4,5) set_upd_where)
    moreover have "ended_row EnCashierBlockedClient t1 a \<in> set (assignments s')"
      unfolding t(1) by (rule upd_where_in [OF a1]) simp
    moreover have "5 \<le> ?n s1" using True by (simp add: requiresAccountReview_def)
    ultimately show ?thesis using t(3,6) x p(6) by auto
  next
    case False
    with p(10) obtain out where run: "reassignAfterModerationInTransaction e t2 (ref_of a) RrCashierBlockedClient
        EnCashierBlockedClient block s1 = Inr (out, s')" and x: "x = ClientBlocked block (?n s1) out" by blast
    from begin_outcome [OF w1 a1 p(2) _ run [unfolded reassignAfterModerationInTransaction_def]]
    have "same_people s1 s'" "ro_client out = client" "ro_previous_cashier out = cashier"
      "ended_row EnCashierBlockedClient t2 a \<in> set (assignments s')" using p(4,5) by simp_all
    then show ?thesis using False x same(5) by (auto simp: same_people_def requiresAccountReview_def)
  qed
  then obtain now where f: "ended_row EnCashierBlockedClient now a \<in> set (assignments s')" "blocks s' = blocks s1" "?out"
    by blast
  have n: "card (b_cashier ` {b \<in> set (blocks s'). b_client b = client \<and> b_initiator b = ByCashier}) = ?n s1"
    using f(2) by (simp add: count_of_cashiers)
  have "\<forall>c \<in> set (conversations s'). c_assignment c = a_id a \<longrightarrow> c_status c = ConvClosed"
    using closed_with_assignment [OF w' f(1)] by simp
  moreover have "\<exists>a' \<in> set (assignments s'). a_id a' = a_id a \<and> \<not> is_open a' \<and> a_end_reason a' = Some EnCashierBlockedClient"
    using f(1) by (intro bexI [of _ "ended_row EnCashierBlockedClient now a"]) (simp_all add: ended_row_def is_open_def)
  ultimately show ?thesis
    using p(1,2,4,5) f(3) new f(2) unfolding n Let_def
    by (intro bexI [of _ a] bexI [of _ ?b]) simp_all
qed

section \<open>Witnesses\<close>

definition no_rows :: mod_db where
  "no_rows = \<lparr>draws = 0, users = [], cashiers = [], subscriptions = [], blocks = [],
     assignments = [], conversations = [], requests = [], notifications = [], audits = [],
     devices = [], list_states = [], list_position = 0, list_changes = [],
     sessions = [], matrix_keys = [], cursors = [], td_transactions = [], td_events = [],
     sync_batches = [], one_time_keys = [], fallback_keys = [], fallback_slots = [],
     registrations = [], account_reviews = []\<rparr>"

text \<open>Client 1 of cashier 2, who have no assignment yet, and the assignment of their registration.\<close>

definition demo_people :: mod_db where
  "demo_people = no_rows\<lparr>
     users := [\<lparr>u_id = 1, u_role = CLIENT, u_status = AccActive, u_reset_required = False, u_session_version = 0\<rparr>,
       \<lparr>u_id = 2, u_role = CASHIER, u_status = AccActive, u_reset_required = False, u_session_version = 0\<rparr>],
     cashiers := [\<lparr>cp_user = 2, cp_approval = Approved, cp_email_verified = Some 0, cp_phone_verified = Some 0\<rparr>],
     subscriptions := [\<lparr>cs_id = 20, cs_cashier = 2, cs_status = SubActive, cs_starts = 0, cs_ends = Some 100, cs_updated = 0\<rparr>],
     sessions := [\<lparr>se_id = 70, se_user = 1, se_device = None, se_expires = 1000, se_revoked = None, se_version = 0\<rparr>]\<rparr>"

definition demo_registered :: mod_db where
  "demo_registered = demo_people\<lparr>draws := Suc (Suc 0), assignments := [\<lparr>a_id = 1000, a_client = 1, a_cashier = 2,
       a_previous = None, a_admin = None, a_start_reason = StInvitation, a_end_reason = None,
       a_started = 0, a_ended = None\<rparr>],
     conversations := [\<lparr>c_id = 1001, c_assignment = 1000, c_status = ConvActive, c_created = 0,
       c_closed = None\<rparr>]\<rparr>"

text \<open>The same pair after four other cashiers have blocked the client.\<close>

definition past_block :: "nat \<Rightarrow> block_row" where
  "past_block i = \<lparr>b_id = 200 + i, b_client = 1, b_cashier = i, b_assignment = 100 + i, b_initiator = ByCashier\<rparr>"

definition demo_four_blocks :: mod_db where
  "demo_four_blocks = demo_registered\<lparr>blocks := map past_block [3, 4, 5, 6]\<rparr>"

lemmas demo_block_defs = demo_four_blocks_def demo_registered_def demo_people_def no_rows_def past_block_def

lemma demo_block_lock:
  assumes "s \<in> {demo_registered, demo_four_blocks}"
  shows "lockCurrentByParticipants 10 1 2 s =
    Inr (\<lparr>ca_id = 1001, ca_assignment = 1000, ca_client = 1, ca_cashier = 2, ca_ends = Some 100\<rparr>, s)"
  using assms by (auto simp: lockCurrentByParticipants_def eligible_rows_def eligible_joins_def demo_block_defs
      verified_profile_def usable_cashier_def usable_client_def in_period_def access_of_def singleOrNull_def)

lemma demo_fifth:
  "\<exists>b n r s'. blockClient (\<lambda>_. False) demo_env 10 11 12 13 2 1 demo_four_blocks =
     (Inr (ClientSuspended b n r), s')"
proof -
  let ?k = "\<lparr>ca_id = 1001, ca_assignment = 1000, ca_client = 1, ca_cashier = 2, ca_ends = Some 100\<rparr>"
  let ?s1 = "demo_four_blocks\<lparr>draws := Suc (Suc (Suc 0)), blocks := map past_block [3, 4, 5, 6] @
    [\<lparr>b_id = 1002, b_client = 1, b_cashier = 2, b_assignment = 1000, b_initiator = ByCashier\<rparr>]\<rparr>"
  have b: "create_block demo_env 1 2 1000 ByCashier demo_four_blocks = Inr (1002, ?s1)"
    by (simp add: create_block_def demo_block_defs demo_env_def)
  have n: "requiresAccountReview (cashier_blocks ?s1 1)"
    by (simp add: requiresAccountReview_def distinctCashierBlockCount_def cashier_blocks_def past_block_def)
  have w: "wf demo_env ?s1"
    by (simp add: wf_def links_wf_def keys_wf_def lifecycle_wf_def history_wf_def links_def used_ids_def
        supply_ok_def demo_env_def demo_block_defs is_open_def)
  let ?a = "\<lparr>a_id = 1000, a_client = 1, a_cashier = 2, a_previous = None, a_admin = None,
    a_start_reason = StInvitation, a_end_reason = None, a_started = 0, a_ended = None\<rparr>"
  have "?a \<in> set (assignments ?s1)" "is_open ?a" "ca_assignment ?k = a_id ?a"
    "\<exists>u \<in> set (users ?s1). u_id u = ca_client ?k"
    by (simp_all add: demo_block_defs is_open_def)
  from suspend_for_review_run [OF w this, of 11] obtain rid s' where
    r: "suspend_for_review demo_env 11 ?k ?s1 = Inr (rid, s')" by blast
  have "block_transaction demo_env 10 11 12 13 2 1 demo_four_blocks =
      Inr (ClientSuspended 1002 (distinctCashierBlockCount (cashier_blocks ?s1 1)) rid, s')"
    using demo_block_lock [of demo_four_blocks] b n r
    by (simp add: block_transaction_def bindT_def getT_def liftT_def returnT_def assertPeriodStillActive_def)
  then show ?thesis by (simp add: blockClient_def runSerializable_def numeral_3_eq_3)
qed

theorem fifth_block_suspends_witness:
  "\<exists>x s'. blockClient (\<lambda>_. False) demo_env 10 11 12 13 2 1 demo_four_blocks = (Inr x, s') \<and>
     links 1 (assignments s') (requests s') = 0"
proof -
  obtain b n r s' where run: "blockClient (\<lambda>_. False) demo_env 10 11 12 13 2 1 demo_four_blocks =
    (Inr (ClientSuspended b n r), s')" using demo_fifth by blast
  have w: "wf demo_env demo_four_blocks"
    by (simp add: wf_def links_wf_def keys_wf_def lifecycle_wf_def history_wf_def links_def used_ids_def
        supply_ok_def demo_env_def demo_block_defs is_open_def)
  from fifth_block_suspends [OF w run] have "links 1 (assignments s') (requests s') = 0"
    by (auto simp: Let_def split: if_splits)
  with run show ?thesis by blast
qed

theorem reachable_links_witness:
  "\<exists>s. reachable_from demo_env demo_people s \<and>
     s = snd (blockClient (\<lambda>_. False) demo_env 10 11 12 13 2 1 demo_registered) \<and>
     (\<forall>a \<in> set (assignments s). \<exists>c \<in> set (conversations s). c_assignment c = a_id a \<and>
        (c_status c = ConvActive \<longleftrightarrow> is_open a))"
proof -
  have ok: "supply_ok demo_env (draws demo_people) {}" by (simp add: supply_ok_def demo_env_def demo_people_def no_rows_def)
  have empty: "assignments demo_people = []" "conversations demo_people = []" "requests demo_people = []"
    by (simp_all add: demo_people_def no_rows_def)
  have "service_step demo_env demo_people demo_registered"
    using service_step.registration [of 1 demo_people _ demo_env 2 0, OF _ refl refl]
    by (simp add: demo_registered_def demo_people_def no_rows_def links_def demo_env_def)
  from reachable_from.step [OF reachable_from.step [OF reachable_from.start this] service_step.blocking]
  have r: "reachable_from demo_env demo_people (snd (blockClient (\<lambda>_. False) demo_env 10 11 12 13 2 1 demo_registered))" .
  from reachable_links [OF ok empty r] r show ?thesis by blast
qed


end
