(* ===== verification/RateLimit.thy ===== *)
theory RateLimit
  imports Text
begin

text \<open>
  apps/api/src/rate-limit/rate-limit.storage.ts: the fixed-window limiter.  The Lua script is a
  function on the bucket of a key, with the Redis clock in milliseconds as an argument; the
  storage around it is a state machine that fails closed.  HMAC, the in-memory storage of
  @nestjs/throttler and the coercion of a string to a number are parameters.
\<close>

section \<open>The script\<close>

record bucket =
  bk_hits :: int
  bk_window_end :: int
  bk_block_end :: int

record policy =
  po_ttl :: int
  po_limit :: int
  po_block :: int

definition ceil_seconds :: "int \<Rightarrow> int" where
  "ceil_seconds ms = - ((- ms) div 1000)"

definition remaining_seconds :: "int \<Rightarrow> int \<Rightarrow> int" where
  "remaining_seconds limit now = max 1 (ceil_seconds (limit - now))"

definition no_bucket :: bucket where
  "no_bucket = \<lparr>bk_hits = 0, bk_window_end = 0, bk_block_end = 0\<rparr>"

text \<open>The reply is the four integers of the script's table.\<close>

definition rate_script :: "policy \<Rightarrow> int \<Rightarrow> bucket option \<Rightarrow> int list \<times> bucket" where
  "rate_script p now stored =
     (let b = (case stored of None \<Rightarrow> no_bucket | Some b \<Rightarrow> b) in
      if now < bk_block_end b
      then ([bk_hits b, remaining_seconds (bk_window_end b) now, 1, remaining_seconds (bk_block_end b) now], b)
      else
        let fresh = (0 < bk_block_end b \<or> bk_window_end b \<le> now);
            hits = (if fresh then 0 else bk_hits b) + 1;
            windowEnd = (if fresh then now + po_ttl p else bk_window_end b);
            blockEnd = (if po_limit p < hits then now + po_block p else if fresh then 0 else bk_block_end b)
        in ([hits, remaining_seconds windowEnd now, if now < blockEnd then 1 else 0,
             if now < blockEnd then remaining_seconds blockEnd now else 0],
            \<lparr>bk_hits = hits, bk_window_end = windowEnd, bk_block_end = blockEnd\<rparr>))"

text \<open>PEXPIREAT: the instant after which Redis drops the key.\<close>

definition expire_at :: "bucket \<Rightarrow> int" where
  "expire_at b = max (bk_window_end b) (bk_block_end b)"

definition blocked :: "int list \<Rightarrow> bool" where
  "blocked reply \<longleftrightarrow> reply ! 2 = 1"

fun run_script :: "policy \<Rightarrow> int list \<Rightarrow> bucket option \<Rightarrow> int list list" where
  "run_script p [] b = []"
| "run_script p (t # ts) b = (let (reply, b') = rate_script p t b in reply # run_script p ts (Some b'))"

section \<open>Reading the reply\<close>

datatype js_value =
    JsNumber int       \<comment> \<open>an integral number\<close>
  | JsFraction         \<comment> \<open>any other number, NaN and the infinities included\<close>
  | JsString string
  | JsBool bool
  | JsNull
  | JsUndefined
  | JsArray "js_value list"
  | JsOther

record rate_record =
  rl_total_hits :: int
  rl_time_to_expire :: int
  rl_is_blocked :: bool
  rl_time_to_block_expire :: int

text \<open>
  Number(entry): the coercion of a string, and of an array or an object through its string, is
  the parameter \<open>str\<close>; None is a result that is no integer.
\<close>

fun to_number :: "(js_value \<Rightarrow> int option) \<Rightarrow> js_value \<Rightarrow> int option" where
  "to_number str (JsNumber n) = Some n"
| "to_number str JsFraction = None"
| "to_number str (JsBool b) = Some (if b then 1 else 0)"
| "to_number str JsNull = Some 0"
| "to_number str JsUndefined = None"
| "to_number str v = str v"

definition parseRedisRateLimitRecord :: "(js_value \<Rightarrow> int option) \<Rightarrow> js_value \<Rightarrow> error + rate_record" where
  "parseRedisRateLimitRecord str v =
     (case v of
        JsArray entries \<Rightarrow>
          if length entries \<noteq> 4 then Inl (InternalError ''Respuesta Redis invalida.'')
          else
            let values = map (to_number str) entries in
            if \<not> (\<forall>x \<in> set values. case x of None \<Rightarrow> False | Some n \<Rightarrow> safe_integer n \<and> 0 \<le> n) \<or>
               (values ! 2 \<noteq> Some 0 \<and> values ! 2 \<noteq> Some 1)
            then Inl (InternalError ''Respuesta Redis invalida.'')
            else Inr \<lparr>rl_total_hits = the (values ! 0), rl_time_to_expire = the (values ! 1),
              rl_is_blocked = (values ! 2 = Some 1), rl_time_to_block_expire = the (values ! 3)\<rparr>
      | _ \<Rightarrow> Inl (InternalError ''Respuesta Redis invalida.''))"

section \<open>The storage\<close>

datatype storage_state = StNew | StConnecting | StReady | StUnavailable | StClosing | StClosed

record 'm storage =
  st_redis_url :: "string option"
  st_prefix :: string
  st_state :: storage_state
  st_client :: bool             \<comment> \<open>the client reference is set\<close>
  st_initialization :: bool     \<comment> \<open>the initialization promise is set\<close>
  st_buckets :: "string \<Rightarrow> bucket option"
  st_memory :: 'm

definition assertPolicy :: "policy \<Rightarrow> string \<Rightarrow> error + unit" where
  "assertPolicy p name =
     (if \<not> safe_integer (po_ttl p) \<or> po_ttl p < 1 \<or> \<not> safe_integer (po_limit p) \<or> po_limit p < 1 \<or>
         \<not> safe_integer (po_block p) \<or> po_block p < 1 \<or> name = []
      then Inl (InternalError ''Politica de rate limit invalida.'') else Inr ())"

definition key_text :: "string \<times> string \<Rightarrow> string" where
  "key_text = (\<lambda>(name, key). ''sinochat-rate-limit-v1'' @ [CHR 0x00] @ name @ [CHR 0x00] @ key)"

definition opaqueKey :: "(string \<Rightarrow> string) \<Rightarrow> string \<Rightarrow> string \<Rightarrow> string" where
  "opaqueKey mac key name = mac (key_text (name, key))"

text \<open>
  What the awaited eval does: its reply arrives, or it is rejected or times out before or after
  Redis has run the script.
\<close>

datatype call_fate = Replied | LostBefore | LostAfter

abbreviation Unavailable :: error where
  "Unavailable \<equiv> InternalError ''El servicio de control de trafico no esta disponible.''"

definition increment ::
    "(string \<Rightarrow> string) \<Rightarrow> (js_value \<Rightarrow> int option) \<Rightarrow>
       (string \<Rightarrow> policy \<Rightarrow> string \<Rightarrow> 'm \<Rightarrow> rate_record \<times> 'm) \<Rightarrow>
       bool \<Rightarrow> call_fate \<Rightarrow> int \<Rightarrow> string \<Rightarrow> policy \<Rightarrow> string \<Rightarrow> 'm storage \<Rightarrow>
       (error + rate_record) \<times> 'm storage" where
  "increment mac str memory isReady fate now key p name st =
     (case assertPolicy p name of
        Inl e \<Rightarrow> (Inl e, st)
      | Inr _ \<Rightarrow>
          let opaque = opaqueKey mac key name in
          if st_redis_url st = None \<or> st_redis_url st = Some []
          then (let (r, m) = memory opaque p name (st_memory st) in (Inr r, st\<lparr>st_memory := m\<rparr>))
          else if st_state st \<noteq> StReady \<or> \<not> st_client st \<or> \<not> isReady
          then (Inl Unavailable, st)
          else
            let k = st_prefix st @ '':'' @ opaque;
                (reply, b) = rate_script p now (st_buckets st k);
                ran = st\<lparr>st_buckets := (st_buckets st)(k \<mapsto> b)\<rparr>
            in case fate of
                 LostBefore \<Rightarrow> (Inl Unavailable, st)
               | LostAfter \<Rightarrow> (Inl Unavailable, ran)
               | Replied \<Rightarrow> (case parseRedisRateLimitRecord str (JsArray (map JsNumber reply)) of
                   Inl _ \<Rightarrow> (Inl Unavailable, ran)
                 | Inr r \<Rightarrow> (Inr r, ran)))"

definition consume ::
    "(string \<Rightarrow> string) \<Rightarrow> (js_value \<Rightarrow> int option) \<Rightarrow>
       (string \<Rightarrow> policy \<Rightarrow> string \<Rightarrow> 'm \<Rightarrow> rate_record \<times> 'm) \<Rightarrow>
       bool \<Rightarrow> call_fate \<Rightarrow> int \<Rightarrow> string \<Rightarrow> string \<Rightarrow> policy \<Rightarrow> 'm storage \<Rightarrow>
       (error + rate_record) \<times> 'm storage" where
  "consume mac str memory isReady fate now scope identity p st =
     increment mac str memory isReady fate now (scope @ [CHR 0x00] @ identity) p scope st"

text \<open>
  The life cycle.  Each awaited call splits its method: \<open>init_start\<close> and \<open>init_end\<close> are
  onModuleInit with initializeRedis, \<open>shutdown_start\<close> and \<open>shutdown_end\<close> are
  onApplicationShutdown.
\<close>

definition init_start :: "'m storage \<Rightarrow> error + 'm storage" where
  "init_start st =
     (if st_redis_url st = None \<or> st_redis_url st = Some [] \<or> st_state st = StReady then Inr st
      else if st_initialization st then Inr st
      else if st_state st \<noteq> StNew then Inl Unavailable
      else Inr (st\<lparr>st_state := StConnecting, st_initialization := True, st_client := True\<rparr>))"

definition init_end :: "bool \<Rightarrow> 'm storage \<Rightarrow> (error + unit) \<times> 'm storage" where
  "init_end ok st =
     (if ok then (Inr (), st\<lparr>st_state := StReady\<rparr>) else (Inl Unavailable, st\<lparr>st_state := StUnavailable\<rparr>))"

definition connection_lost :: "'m storage \<Rightarrow> 'm storage" where
  "connection_lost st = (if st_state st = StReady then st\<lparr>st_state := StUnavailable\<rparr> else st)"

definition shutdown_start :: "'m storage \<Rightarrow> 'm storage" where
  "shutdown_start st =
     (if st_state st = StClosing \<or> st_state st = StClosed then st
      else st\<lparr>st_state := StClosing, st_client := False\<rparr>)"

definition shutdown_end :: "'m storage \<Rightarrow> 'm storage" where
  "shutdown_end st = st\<lparr>st_state := StClosed\<rparr>"

text \<open>
  The life cycle as a transition system: the storage, whether initializeRedis is awaiting and
  how many calls of onApplicationShutdown await the close of the client.
\<close>

inductive storage_step :: "'m storage \<times> bool \<times> nat \<Rightarrow> 'm storage \<times> bool \<times> nat \<Rightarrow> bool" where
  init_begins: "init_start st = Inr st' \<Longrightarrow> storage_step (st, ip, sp)
     (st', ip \<or> (st_initialization st' \<and> \<not> st_initialization st), sp)"
| init_settles: "snd (init_end ok st) = st' \<Longrightarrow> storage_step (st, True, sp) (st', False, sp)"
| client_event: "storage_step (st, ip, sp) (connection_lost st, ip, sp)"
| shutdown_begins: "storage_step (st, ip, sp)
     (shutdown_start st, ip, if shutdown_start st = st then sp else Suc sp)"
| shutdown_settles: "storage_step (st, ip, Suc sp) (shutdown_end st, ip, sp)"
| request: "increment mac str memory isReady fate now key p name st = (r, st') \<Longrightarrow>
     storage_step (st, ip, sp) (st', ip, sp)"

inductive_simps init_start_simps: "storage_step (st, False, 0) c"

section \<open>Lemmas\<close>

lemma ceil_seconds_bounds: "ms \<le> 1000 * ceil_seconds ms" "1000 * ceil_seconds ms < ms + 1000"
  unfolding ceil_seconds_def by linarith+

lemma remaining_seconds_bounds:
  "1 \<le> remaining_seconds e now" "0 \<le> now \<Longrightarrow> e \<le> 9007199254740991 \<Longrightarrow> remaining_seconds e now \<le> 9007199254740991"
proof -
  show "1 \<le> remaining_seconds e now" by (simp add: remaining_seconds_def)
  show "remaining_seconds e now \<le> 9007199254740991" if "0 \<le> now" "e \<le> 9007199254740991"
    using ceil_seconds_bounds(2) [of "e - now"] that unfolding remaining_seconds_def by linarith
qed

text \<open>Dropping a key at its deadline is unobservable, so the model needs no expiry of its own.\<close>

lemma expiry_unobservable:
  assumes "expire_at b \<le> now" "0 \<le> now"
  shows "rate_script p now (Some b) = rate_script p now None"
  using assms by (auto simp: rate_script_def expire_at_def no_bucket_def Let_def)

lemma rate_script_window:
  assumes "bk_hits b = h" "0 \<le> h" "h \<le> po_limit p" "bk_block_end b = 0" "t < bk_window_end b" "0 \<le> t"
  shows "rate_script p t (Some b) =
    ([h + 1, remaining_seconds (bk_window_end b) t, if po_limit p < h + 1 \<and> 0 < po_block p then 1 else 0,
      if po_limit p < h + 1 \<and> 0 < po_block p then remaining_seconds (t + po_block p) t else 0],
     \<lparr>bk_hits = h + 1, bk_window_end = bk_window_end b,
      bk_block_end = if po_limit p < h + 1 then t + po_block p else 0\<rparr>)"
  using assms by (simp add: rate_script_def Let_def)

lemma run_in_window:
  assumes "1 \<le> po_limit p" "1 \<le> po_ttl p" "po_ttl p \<le> po_block p" "0 \<le> w"
    "\<forall>t \<in> set ts. w \<le> t \<and> t < w + po_ttl p" "bk_window_end b = w + po_ttl p"
    "0 \<le> bk_hits b" "bk_hits b \<le> po_limit p + 1"
    "bk_hits b \<le> po_limit p \<Longrightarrow> bk_block_end b = 0"
    "bk_hits b = po_limit p + 1 \<Longrightarrow> w + po_ttl p \<le> bk_block_end b" "i < length ts"
  shows "run_script p ts (Some b) ! i ! 0 = min (bk_hits b + int i + 1) (po_limit p + 1) \<and>
    (blocked (run_script p ts (Some b) ! i) \<longleftrightarrow> po_limit p < bk_hits b + int i + 1)"
  using assms(5-11)
proof (induction ts arbitrary: b i)
  case (Cons t ts)
  have t: "w \<le> t" "t < w + po_ttl p" using Cons.prems(1) by simp_all
  show ?case
  proof (cases "bk_hits b \<le> po_limit p")
    case True
    let ?b = "\<lparr>bk_hits = bk_hits b + 1, bk_window_end = bk_window_end b,
      bk_block_end = if po_limit p < bk_hits b + 1 then t + po_block p else 0\<rparr>"
    have step: "rate_script p t (Some b) =
      ([bk_hits b + 1, remaining_seconds (bk_window_end b) t, if po_limit p < bk_hits b + 1 then 1 else 0,
        if po_limit p < bk_hits b + 1 then remaining_seconds (t + po_block p) t else 0], ?b)"
      using rate_script_window [of b "bk_hits b" p t] True Cons.prems(2,3,5) t assms(2-4) by simp
    show ?thesis
    proof (cases i)
      case 0
      with step True show ?thesis by (auto simp: blocked_def)
    next
      case (Suc j)
      have "run_script p ts (Some ?b) ! j ! 0 = min (bk_hits ?b + int j + 1) (po_limit p + 1) \<and>
        (blocked (run_script p ts (Some ?b) ! j) \<longleftrightarrow> po_limit p < bk_hits ?b + int j + 1)"
        by (rule Cons.IH) (use Cons.prems True t assms(1-3) Suc in auto)
      with Suc step show ?thesis by (simp add: algebra_simps)
    qed
  next
    case False
    with Cons.prems(4) have h: "bk_hits b = po_limit p + 1" by simp
    then have "t < bk_block_end b" using Cons.prems(6) t by simp
    then have step: "rate_script p t (Some b) =
      ([bk_hits b, remaining_seconds (bk_window_end b) t, 1, remaining_seconds (bk_block_end b) t], b)"
      by (simp add: rate_script_def)
    show ?thesis
    proof (cases i)
      case 0
      with step h show ?thesis by (simp add: blocked_def)
    next
      case (Suc j)
      have "run_script p ts (Some b) ! j ! 0 = min (bk_hits b + int j + 1) (po_limit p + 1) \<and>
        (blocked (run_script p ts (Some b) ! j) \<longleftrightarrow> po_limit p < bk_hits b + int j + 1)"
        by (rule Cons.IH) (use Cons.prems Suc in auto)
      with Suc step h show ?thesis by simp
    qed
  qed
qed simp

section \<open>Properties\<close>

text \<open>C11: from a key that is new or whose window or block has ended, the first limit requests within one window
  are let through and every later one in it is blocked, with the hits counted up to limit + 1, when
  the block lasts at least as long as the window.\<close>

theorem limit_enforced:
  assumes "1 \<le> po_limit p" "1 \<le> po_ttl p" "po_ttl p \<le> po_block p" "0 \<le> t0"
    "case b of None \<Rightarrow> True | Some k \<Rightarrow> expire_at k \<le> t0"
    "\<forall>t \<in> set ts. t0 \<le> t \<and> t < t0 + po_ttl p" "i < length (t0 # ts)"
  shows "run_script p (t0 # ts) b ! i ! 0 = min (int i + 1) (po_limit p + 1) \<and>
    (blocked (run_script p (t0 # ts) b ! i) \<longleftrightarrow> po_limit p < int i + 1)"
proof -
  let ?b = "\<lparr>bk_hits = 1, bk_window_end = t0 + po_ttl p, bk_block_end = 0\<rparr>"
  have "rate_script p t0 b = rate_script p t0 None"
    using assms(4,5) expiry_unobservable by (cases b) simp_all
  also have "\<dots> = ([1, remaining_seconds (t0 + po_ttl p) t0, 0, 0], ?b)"
    using assms(1,2,4) by (simp add: rate_script_def no_bucket_def Let_def)
  finally have step: "rate_script p t0 b = ([1, remaining_seconds (t0 + po_ttl p) t0, 0, 0], ?b)" .
  show ?thesis
  proof (cases i)
    case 0
    with step assms(1) show ?thesis by (simp add: blocked_def)
  next
    case (Suc j)
    have "run_script p ts (Some ?b) ! j ! 0 = min (bk_hits ?b + int j + 1) (po_limit p + 1) \<and>
      (blocked (run_script p ts (Some ?b) ! j) \<longleftrightarrow> po_limit p < bk_hits ?b + int j + 1)"
      by (rule run_in_window [OF assms(1-4,6)]) (use assms(1,7) Suc in auto)
    with Suc step show ?thesis by (simp add: algebra_simps)
  qed
qed

text \<open>A blocked answer comes with a block end in the future; until then every request is blocked and
  changes nothing, and the first one from then on is let through and starts a new window.\<close>

theorem block_lasts_then_resets:
  assumes "1 \<le> po_limit p" "0 \<le> now" "rate_script p now b = (reply, b')" "blocked reply"
  shows "now < bk_block_end b' \<and>
    (\<forall>t. t < bk_block_end b' \<longrightarrow> blocked (fst (rate_script p t (Some b'))) \<and> snd (rate_script p t (Some b')) = b') \<and>
    (\<forall>t. bk_block_end b' \<le> t \<longrightarrow> \<not> blocked (fst (rate_script p t (Some b'))) \<and>
       snd (rate_script p t (Some b')) = \<lparr>bk_hits = 1, bk_window_end = t + po_ttl p, bk_block_end = 0\<rparr>)"
proof -
  have later: "now < bk_block_end b'"
    using assms(3,4) by (auto simp: rate_script_def blocked_def Let_def split: if_splits)
  then have pos: "0 < bk_block_end b'" using assms(2) by simp
  have "blocked (fst (rate_script p t (Some b'))) \<and> snd (rate_script p t (Some b')) = b'"
    if "t < bk_block_end b'" for t
    using that by (simp add: rate_script_def blocked_def)
  moreover have "\<not> blocked (fst (rate_script p t (Some b'))) \<and>
      snd (rate_script p t (Some b')) = \<lparr>bk_hits = 1, bk_window_end = t + po_ttl p, bk_block_end = 0\<rparr>"
    if "bk_block_end b' \<le> t" for t
    using that pos assms(1) by (simp add: rate_script_def blocked_def Let_def)
  ultimately show ?thesis using later by blast
qed

section \<open>The storage answers the script's record, or fails closed\<close>

lemma parse_reply:
  assumes "\<forall>n \<in> {h, w, d}. 0 \<le> n \<and> n \<le> 9007199254740991" "c = 0 \<or> c = 1"
  shows "parseRedisRateLimitRecord str (JsArray (map JsNumber [h, w, c, d])) =
    Inr \<lparr>rl_total_hits = h, rl_time_to_expire = w, rl_is_blocked = (c = 1), rl_time_to_block_expire = d\<rparr>"
  using assms by (auto simp: parseRedisRateLimitRecord_def safe_integer_def)

definition bucket_safe :: "bucket \<Rightarrow> bool" where
  "bucket_safe b \<longleftrightarrow> 0 \<le> bk_hits b \<and> bk_hits b < 9007199254740991 \<and>
     bk_window_end b \<le> 9007199254740991 \<and> bk_block_end b \<le> 9007199254740991"

lemma script_reply_safe:
  assumes "\<forall>k. b = Some k \<longrightarrow> bucket_safe k" "0 \<le> now" "now + po_ttl p \<le> 9007199254740991"
    "now + po_block p \<le> 9007199254740991"
  shows "\<exists>h w c d b'. rate_script p now b = ([h, w, c, d], b') \<and>
    (\<forall>n \<in> {h, w, d}. 0 \<le> n \<and> n \<le> 9007199254740991) \<and> (c = 0 \<or> c = 1) \<and> 1 \<le> w \<and> (c = 1 \<longrightarrow> 1 \<le> d)"
proof -
  obtain k where k: "rate_script p now b = rate_script p now (Some k)" "bucket_safe k"
  proof (cases b)
    case None
    have "rate_script p now None = rate_script p now (Some no_bucket)"
      by (simp only: rate_script_def option.case)
    with None show ?thesis by (intro that [of no_bucket]) (simp_all add: bucket_safe_def no_bucket_def)
  next
    case (Some k)
    with assms(1) show ?thesis by (intro that [of k]) simp_all
  qed
  have le: "1 \<le> remaining_seconds e now" for e by (rule remaining_seconds_bounds)
  have nn: "0 \<le> remaining_seconds e now" for e using le [of e] by linarith
  have ub: "e \<le> 9007199254740991 \<Longrightarrow> remaining_seconds e now \<le> 9007199254740991" for e
    using remaining_seconds_bounds(2) assms(2) by blast
  have "\<exists>h w c d b'. rate_script p now (Some k) = ([h, w, c, d], b') \<and>
    (\<forall>n \<in> {h, w, d}. 0 \<le> n \<and> n \<le> 9007199254740991) \<and> (c = 0 \<or> c = 1) \<and> 1 \<le> w \<and> (c = 1 \<longrightarrow> 1 \<le> d)"
    unfolding rate_script_def Let_def option.case
    using k(2) assms(3,4) le nn ub by (auto simp: bucket_safe_def)
  then show ?thesis unfolding k(1) .
qed

text \<open>C12: on a ready connection, with an accepted policy, a request whose reply arrives is answered with the
  record of the script: the hits and the block flag of the reply, a positive time to expire, and a
  positive time to the end of the block when blocked; no other key changes.\<close>

theorem ready_increment_answers:
  fixes st :: "'m storage"
  assumes "assertPolicy p name = Inr ()" "st_redis_url st = Some (u # us)" "st_state st = StReady" "st_client st"
    "0 \<le> now" "now + po_ttl p \<le> 9007199254740991" "now + po_block p \<le> 9007199254740991"
    "\<forall>k b. st_buckets st k = Some b \<longrightarrow> bucket_safe b"
  shows "\<exists>r st'. increment mac str memory True Replied now key p name st = (Inr r, st') \<and>
    (let k = st_prefix st @ '':'' @ opaqueKey mac key name; reply = fst (rate_script p now (st_buckets st k)) in
     rl_total_hits r = hd reply \<and> rl_is_blocked r = blocked reply \<and> 1 \<le> rl_time_to_expire r \<and>
     (rl_is_blocked r \<longrightarrow> 1 \<le> rl_time_to_block_expire r) \<and>
     st' = st\<lparr>st_buckets := (st_buckets st)(k \<mapsto> snd (rate_script p now (st_buckets st k)))\<rparr>)"
proof -
  let ?k = "st_prefix st @ '':'' @ opaqueKey mac key name"
  from assms(8) have "\<forall>b. st_buckets st ?k = Some b \<longrightarrow> bucket_safe b" by blast
  from script_reply_safe [OF this assms(5-7)] obtain h w c d b' where
    s: "rate_script p now (st_buckets st ?k) = ([h, w, c, d], b')"
    and ok: "\<forall>n \<in> {h, w, d}. 0 \<le> n \<and> n \<le> 9007199254740991" "c = 0 \<or> c = 1" "1 \<le> w" "c = 1 \<longrightarrow> 1 \<le> d"
    by blast
  have "increment mac str memory True Replied now key p name st =
      (Inr \<lparr>rl_total_hits = h, rl_time_to_expire = w, rl_is_blocked = (c = 1), rl_time_to_block_expire = d\<rparr>,
       st\<lparr>st_buckets := (st_buckets st)(?k \<mapsto> b')\<rparr>)"
    using assms(1-4) s parse_reply [OF ok(1,2)] by (simp add: increment_def Let_def)
  then show ?thesis using s ok by (simp add: blocked_def Let_def)
qed

text \<open>No step sets the client again once it is gone.\<close>

definition client_gone :: "'m storage \<Rightarrow> bool" where
  "client_gone st \<longleftrightarrow> \<not> st_client st \<and> (st_initialization st \<or> st_state st \<noteq> StNew)"

lemma increment_frame:
  assumes "increment mac str memory isReady fate now key p name st = (r, st')"
  shows "st_client st' = st_client st \<and> st_initialization st' = st_initialization st \<and>
    st_state st' = st_state st \<and> st_redis_url st' = st_redis_url st"
  using assms by (auto simp: increment_def Let_def split: sum.splits if_splits prod.splits call_fate.splits)

lemma step_client_gone:
  assumes "storage_step c c'" "client_gone (fst c)"
  shows "client_gone (fst c') \<and> st_redis_url (fst c') = st_redis_url (fst c)"
  using assms
proof (cases rule: storage_step.cases)
  case (request mac str memory isReady fate now key p name st r st' ip sp)
  with increment_frame [OF request(3)] assms(2) show ?thesis by (simp add: client_gone_def)
qed (auto simp: client_gone_def init_start_def init_end_def connection_lost_def shutdown_start_def
    shutdown_end_def split: if_splits)

lemma steps_client_gone:
  "storage_step\<^sup>*\<^sup>* c c' \<Longrightarrow> client_gone (fst c) \<Longrightarrow>
     client_gone (fst c') \<and> st_redis_url (fst c') = st_redis_url (fst c)"
  by (induction rule: rtranclp_induct) (auto dest: step_client_gone)

text \<open>Once a shutdown has begun no later event brings the limiter back, not even a connection that
  completes late: with Redis configured every request is refused and leaves every counter alone.\<close>

theorem shutdown_fails_closed:
  assumes "st_redis_url st = Some (u # us)" "st_state st \<noteq> StClosing" "st_state st \<noteq> StClosed"
    "storage_step\<^sup>*\<^sup>* (shutdown_start st, ip, sp) (st', ip', sp')"
  shows "\<exists>e. increment mac str memory isReady fate now key p name st' = (Inl e, st')"
proof -
  have "client_gone (shutdown_start st)" "st_redis_url (shutdown_start st) = Some (u # us)"
    using assms(1-3) by (simp_all add: client_gone_def shutdown_start_def)
  with steps_client_gone [OF assms(4)] have "\<not> st_client st'" "st_redis_url st' = Some (u # us)"
    by (simp_all add: client_gone_def)
  then show ?thesis by (simp add: increment_def Let_def split: sum.splits)
qed

text \<open>Two requests share a counter only if they have the same limiter name and the same key, given that
  limiter names contain no NUL character and that the HMAC does not collide on the two texts.\<close>

theorem opaque_keys_separate:
  assumes "opaqueKey mac k n = opaqueKey mac k' n'" "CHR 0x00 \<notin> set n" "CHR 0x00 \<notin> set n'"
    "mac (key_text (n, k)) = mac (key_text (n', k')) \<Longrightarrow> key_text (n, k) = key_text (n', k')"
  shows "n = n' \<and> k = k'"
proof -
  have "key_text (n, k) = key_text (n', k')"
    using assms(1) unfolding opaqueKey_def by (rule assms(4))
  then have eq: "n @ CHR 0x00 # k = n' @ CHR 0x00 # k'"
    unfolding key_text_def prod.case by (simp only: same_append_eq append_Cons append_Nil list.inject simp_thms)
  from split_at_separator [OF eq assms(2,3)] show ?thesis .
qed

section \<open>Witnesses\<close>

definition demo_policy :: policy where
  "demo_policy = \<lparr>po_ttl = 60000, po_limit = 2, po_block = 60000\<rparr>"

definition demo_storage :: "unit storage" where
  "demo_storage = \<lparr>st_redis_url = Some ''redis'', st_prefix = ''rl'', st_state = StReady, st_client = True,
     st_initialization = True, st_buckets = (\<lambda>_. None), st_memory = ()\<rparr>"

definition demo_memory :: "string \<Rightarrow> policy \<Rightarrow> string \<Rightarrow> unit \<Rightarrow> rate_record \<times> unit" where
  "demo_memory k p n m = (\<lparr>rl_total_hits = 1, rl_time_to_expire = 1, rl_is_blocked = False,
     rl_time_to_block_expire = 0\<rparr>, m)"

theorem limit_enforced_witness: "blocked (run_script demo_policy [1000, 2000, 3000] None ! 2)"
  using limit_enforced [of demo_policy 1000 None "[2000, 3000]" 2] by (simp add: demo_policy_def)

theorem block_lasts_then_resets_witness:
  "blocked (fst (rate_script demo_policy 62999 (Some \<lparr>bk_hits = 3, bk_window_end = 61000, bk_block_end = 63000\<rparr>)))"
proof -
  let ?b = "\<lparr>bk_hits = 2, bk_window_end = 61000, bk_block_end = 0\<rparr>"
  let ?b' = "\<lparr>bk_hits = 3, bk_window_end = 61000, bk_block_end = 63000\<rparr>"
  have "rate_script demo_policy 3000 (Some ?b) = ([3, 58, 1, 60], ?b')"
    by (simp add: rate_script_def demo_policy_def remaining_seconds_def ceil_seconds_def Let_def)
  from block_lasts_then_resets [OF _ _ this] show ?thesis by (simp add: demo_policy_def blocked_def)
qed

theorem ready_increment_answers_witness:
  "\<exists>r st'. increment (\<lambda>t. t) (\<lambda>_. None) demo_memory True Replied 1000 ''ip'' demo_policy ''login''
     demo_storage = (Inr r, st') \<and> \<not> rl_is_blocked r"
proof -
  have p: "assertPolicy demo_policy ''login'' = Inr ()"
    by (simp add: assertPolicy_def demo_policy_def safe_integer_def)
  have s: "st_redis_url demo_storage = Some (CHR ''r'' # ''edis'')" by (simp add: demo_storage_def)
  have s2: "st_state demo_storage = StReady" by (simp add: demo_storage_def)
  have s3: "st_client demo_storage" by (simp add: demo_storage_def)
  have b: "\<forall>k b. st_buckets demo_storage k = Some b \<longrightarrow> bucket_safe b" by (simp add: demo_storage_def)
  have n: "(0::int) \<le> 1000" "1000 + po_ttl demo_policy \<le> 9007199254740991"
    "1000 + po_block demo_policy \<le> 9007199254740991" by (simp_all add: demo_policy_def)
  have "\<not> blocked (fst (rate_script demo_policy 1000 (st_buckets demo_storage k)))" for k
    by (simp add: rate_script_def demo_policy_def demo_storage_def no_bucket_def blocked_def Let_def)
  moreover obtain r st' k where "increment (\<lambda>t. t) (\<lambda>_. None) demo_memory True Replied 1000 ''ip'' demo_policy ''login''
      demo_storage = (Inr r, st')"
    "rl_is_blocked r = blocked (fst (rate_script demo_policy 1000 (st_buckets demo_storage k)))"
    using ready_increment_answers [OF p s s2 s3 n b, of "\<lambda>t. t" "\<lambda>_. None" demo_memory "''ip''"]
    unfolding Let_def by blast
  ultimately show ?thesis by blast
qed

theorem shutdown_fails_closed_witness:
  "\<exists>e. increment (\<lambda>t. t) (\<lambda>_. None) demo_memory True Replied 1000 ''ip'' demo_policy ''login''
     (demo_storage\<lparr>st_client := False\<rparr>) = (Inl e, demo_storage\<lparr>st_client := False\<rparr>)"
proof -
  have "snd (init_end True (shutdown_start demo_storage)) = demo_storage\<lparr>st_client := False\<rparr>"
    by (simp add: init_end_def shutdown_start_def demo_storage_def)
  then have "storage_step (shutdown_start demo_storage, True, 1) (demo_storage\<lparr>st_client := False\<rparr>, False, 1)"
    by (rule storage_step.init_settles)
  then have "storage_step\<^sup>*\<^sup>* (shutdown_start demo_storage, True, 1) (demo_storage\<lparr>st_client := False\<rparr>, False, 1)"
    by blast
  from shutdown_fails_closed [OF _ _ _ this] show ?thesis by (simp add: demo_storage_def)
qed

theorem opaque_keys_separate_witness: "\<not> opaqueKey (\<lambda>t. t) ''k'' ''a'' = opaqueKey (\<lambda>t. t) ''k'' ''b''"
  using opaque_keys_separate [of "\<lambda>t. t" "''k''" "''a''" "''k''" "''b''"] by auto

end
