(* ===== verification/Transport.thy ===== *)
theory Transport
  imports ToDevice
begin

text \<open>
  Facts about the to-device transport.  A transport step is one successful send or sync at some
  clock readings; \<open>transport_ok\<close> is the invariant of the queues, the tombstones and the batches,
  kept by every step.  The properties are in TransportClaims.
\<close>

section \<open>What the parts of a send do\<close>

definition latest_of :: "'x e2e_db_scheme \<Rightarrow> uuid \<Rightarrow> nat" where
  "latest_of s d = (case find (\<lambda>c. cu_device c = d) (cursors s) of None \<Rightarrow> 0 | Some c \<Rightarrow> cu_latest c)"

definition event_for :: "crypto \<Rightarrow> uuid \<Rightarrow> time \<Rightarrow> resolved_target \<Rightarrow> nat \<Rightarrow> string \<Rightarrow> td_event" where
  "event_for cr i now t n h = \<lparr>ev_tx = i, ev_user = rt_user t, ev_device = rt_device t, ev_seq = n,
     ev_conversation = rt_conversation t, ev_content = rt_content t, ev_hash = h, ev_created = now,
     ev_expires = now + TO_DEVICE_TTL_MS\<rparr>"

definition bump :: "uuid \<Rightarrow> cursor_row list \<Rightarrow> cursor_row list" where
  "bump d = upd_where (\<lambda>c. cu_device c = d) (\<lambda>c. c\<lparr>cu_latest := Suc (cu_latest c)\<rparr>)"

lemma find_bump:
  "find (\<lambda>c. cu_device c = d) (bump d' cs) =
     map_option (\<lambda>c. if d = d' then c\<lparr>cu_latest := Suc (cu_latest c)\<rparr> else c) (find (\<lambda>c. cu_device c = d) cs)"
  by (induction cs) (auto simp: bump_def)

lemma lock_same: "lockCurrentByParticipants now i j s = Inr (k, s') \<Longrightarrow> s' = s"
  by (auto simp: lockCurrentByParticipants_def split: sum.splits option.splits)

lemma recipient_conversations_same: "recipient_conversations p at is s = Inr (m, s') \<Longrightarrow> s' = s"
  by (induction "is" arbitrary: m s') (auto split: if_splits sum.splits prod.splits dest!: lock_same)

lemma resolveTargets_same: "resolveTargets p at r k s = Inr (ts, s') \<Longrightarrow> s' = s"
  by (auto simp: resolveTargets_def Let_def split: if_splits sum.splits prod.splits
      dest!: recipient_conversations_same)

lemma lock_cursor_same: "lock_cursor now t s = Inr (u, s') \<Longrightarrow> s' = s"
  by (auto simp: lock_cursor_def split: if_splits)

lemma lock_cursors_same: "mapT (lock_cursor now) ts s = Inr (us, s') \<Longrightarrow> s' = s"
  by (induction ts arbitrary: us) (auto simp: tx_iffs dest!: lock_cursor_same)

lemma sender_same: "requireCurrentSender p d now s = Inr (k, s') \<Longrightarrow> s' = s"
  by (auto simp: requireCurrentSender_def Let_def split: option.splits if_splits)

lemma operational_same: "lockOperationalUser i s = Inr (u, s') \<Longrightarrow> s' = s"
  by (auto simp: lockOperationalUser_def split: if_splits)

lemma deliver_effect:
  assumes "deliver cr i now t s = Inr (u, s')"
  obtains c h where "find (\<lambda>c. cu_device c = rt_device t) (cursors s) = Some c"
    "hashMatrixCanonicalJson (cr_sha cr) (content_json (rt_content t)) = Inr h"
    "s' = s\<lparr>cursors := bump (rt_device t) (cursors s),
       td_events := td_events s @ [event_for cr i now t (Suc (latest_of s (rt_device t))) h]\<rparr>"
  using assms
  by (auto simp: deliver_def tx_iffs advance_cursor_def event_for_def bump_def latest_of_def
      split: option.splits sum.splits if_splits)

lemma tombstone_effect:
  assumes "create_tombstone e p d r hash now s = Inr (i, s')"
  shows "i = uuid_at e (draws s)" "s' = s\<lparr>draws := Suc (draws s), td_transactions := td_transactions s @
    [\<lparr>tt_id = i, tt_session = pn_session p, tt_device = d, tt_txn = tr_transaction r,
      tt_type = tr_type r, tt_hash = hash, tt_created = now\<rparr>]\<rparr>"
    "previous_send s d r = None"
  using assms by (auto simp: create_tombstone_def Let_def previous_send_def find_None_iff split: if_splits)

text \<open>A send that goes through its checks runs its deliveries on the state with the tombstone.\<close>

lemma send_transaction_fresh:
  assumes "send_transaction cr e now at p d r hash s = Inr (u, s')" "previous_send s d r = None"
  obtains curve ts s1 where "lockOperationalUser (pn_id p) s = Inr ((), s)"
    "requireCurrentSender p d now s = Inr (curve, s)" "resolveTargets p at r curve s = Inr (ts, s)"
    "mapT (lock_cursor now) ts s = Inr (map (\<lambda>_. ()) ts, s)"
    "create_tombstone e p d r hash now s = Inr (uuid_at e (draws s), s1)"
    "mapT (deliver cr (uuid_at e (draws s)) now) ts s1 = Inr (map (\<lambda>_. ()) ts, s')"
proof -
  have units: "us = map (\<lambda>_. ()) ts" if "length us = length ts" for us :: "unit list" and ts :: "resolved_target list"
    using that by (intro nth_equalityI) auto
  from assms obtain s0 curve sa ts sb us sc i sd vs se where
    a: "lockOperationalUser (pn_id p) s = Inr ((), s0)" and b: "requireCurrentSender p d now s0 = Inr (curve, sa)"
    and c: "resolveTargets p at r curve sa = Inr (ts, sb)" and l: "mapT (lock_cursor now) ts sb = Inr (us, sc)"
    and t: "create_tombstone e p d r hash now sc = Inr (i, sd)"
    and m: "mapT (deliver cr i now) ts sd = Inr (vs, s')"
    by (auto simp: send_transaction_def tx_iffs)
  have same: "s0 = s" "sa = s" "sb = s" "sc = s"
    using operational_same [OF a] sender_same [OF b] resolveTargets_same [OF c] lock_cursors_same [OF l] by simp_all
  have i: "i = uuid_at e (draws s)" using tombstone_effect(1) [OF t] same by simp
  show ?thesis
    using that [of curve ts sd] a b c l t m same i units [OF mapT_length [OF l]] units [OF mapT_length [OF m]] by simp
qed

lemma send_cases:
  assumes "send cr e now at p type txn v s = Inr (u, s')"
  obtains device r hash where "pn_device p = Some device" "parseMatrixToDeviceRequest type txn v = Inr r"
    "hashMatrixCanonicalJson (cr_sha cr) (matrixToDeviceHashInput r) = Inr hash"
    "send_transaction cr e now at p device r hash s = Inr (u, s')"
  using assms
  by (auto simp: send_def requireBoundDevice_def parseRequest_def split: option.splits sum.splits error.splits)

section \<open>The invariant\<close>

definition device_seqs :: "'x e2e_db_scheme \<Rightarrow> uuid \<Rightarrow> nat list" where
  "device_seqs s d = map ev_seq (filter (\<lambda>v. ev_device v = d) (td_events s))"

text \<open>The events of a device stand in the order of their sequence numbers, none above the cursor.\<close>

definition queue_ok :: "'x e2e_db_scheme \<Rightarrow> bool" where
  "queue_ok s \<longleftrightarrow> (\<forall>d. sorted_wrt (<) (device_seqs s d)) \<and>
     (\<forall>v \<in> set (td_events s). 0 < ev_seq v \<and> ev_seq v \<le> latest_of s (ev_device v))"

text \<open>Each batch is a window below the cursor; a successor starts where its predecessor ended, has an
  acknowledged predecessor and is its only successor; acknowledged events are gone.\<close>

definition batch_ok :: "'x e2e_db_scheme \<Rightarrow> sync_batch \<Rightarrow> bool" where
  "batch_ok s b \<longleftrightarrow> sb_from b \<le> sb_up_to b \<and> sb_up_to b \<le> latest_of s (sb_device b) \<and>
     sb_from_list b \<le> sb_list b \<and> sb_list b \<le> list_position s \<and>
     (sb_previous b = None \<longrightarrow> sb_from b = 0 \<and> sb_from_list b = 0) \<and>
     (sb_acked b \<noteq> None \<longrightarrow> (\<forall>v \<in> set (td_events s). ev_device v = sb_device b \<longrightarrow> sb_up_to b < ev_seq v))"

definition succession_ok :: "sync_batch list \<Rightarrow> bool" where
  "succession_ok bs \<longleftrightarrow> distinct (map sb_id bs) \<and>
     (\<forall>b \<in> set bs. \<forall>c \<in> set bs. sb_previous c = Some (sb_id b) \<longrightarrow>
        sb_device c = sb_device b \<and> sb_from c = sb_up_to b \<and> sb_from_list c = sb_list b \<and> sb_acked b \<noteq> None) \<and>
     (\<forall>b \<in> set bs. \<forall>c \<in> set bs. sb_previous b \<noteq> None \<longrightarrow> sb_previous b = sb_previous c \<longrightarrow> b = c)"

definition batch_ids :: "sync_batch list \<Rightarrow> uuid set" where
  "batch_ids bs = sb_id ` set bs \<union> {i. \<exists>b \<in> set bs. sb_previous b = Some i}"

definition tombstones_ok :: "td_transaction list \<Rightarrow> bool" where
  "tombstones_ok ts \<longleftrightarrow> distinct (map (\<lambda>t. (tt_device t, tt_type t, tt_txn t)) ts)"

definition transport_ok :: "env \<Rightarrow> 'x e2e_db_scheme \<Rightarrow> bool" where
  "transport_ok e s \<longleftrightarrow> queue_ok s \<and> (\<forall>b \<in> set (sync_batches s). batch_ok s b) \<and>
     succession_ok (sync_batches s) \<and> tombstones_ok (td_transactions s) \<and>
     supply_ok e (draws s) (batch_ids (sync_batches s))"

lemma device_seqs_append:
  "td_events s' = td_events s @ [v] \<Longrightarrow>
     device_seqs s' d = device_seqs s d @ (if ev_device v = d then [ev_seq v] else [])"
  by (simp add: device_seqs_def)

lemma latest_bump:
  "cursors s' = bump d (cursors s) \<Longrightarrow> find (\<lambda>c. cu_device c = d) (cursors s) \<noteq> None \<Longrightarrow>
     latest_of s' d' = latest_of s d' + (if d' = d then 1 else 0)"
  by (auto simp: latest_of_def find_bump split: option.splits)

lemma seqs_below: "queue_ok s \<Longrightarrow> n \<in> set (device_seqs s d) \<Longrightarrow> n \<le> latest_of s d"
  by (auto simp: queue_ok_def device_seqs_def)

lemma append_event_keeps:
  assumes ok: "transport_ok e s" and c: "cursors s' = bump d (cursors s)"
    and f: "find (\<lambda>c. cu_device c = d) (cursors s) \<noteq> None"
    and v: "td_events s' = td_events s @ [v]" "ev_device v = d" "ev_seq v = Suc (latest_of s d)"
    and same: "sync_batches s' = sync_batches s" "td_transactions s' = td_transactions s" "draws s' = draws s"
      "list_position s' = list_position s"
  shows "transport_ok e s'"
proof -
  note latest = latest_bump [where s' = s', OF c f]
  from ok have q: "queue_ok s" and b: "\<And>b. b \<in> set (sync_batches s) \<Longrightarrow> batch_ok s b"
    by (simp_all add: transport_ok_def)
  have "sorted_wrt (<) (device_seqs s' d')" for d'
    using q seqs_below [OF q, of _ d'] v
    by (auto simp: device_seqs_append [OF v(1)] sorted_wrt_append queue_ok_def le_imp_less_Suc)
  moreover have "0 < ev_seq w \<and> ev_seq w \<le> latest_of s' (ev_device w)" if "w \<in> set (td_events s')" for w
    using that q v latest by (auto simp: queue_ok_def le_SucI)
  ultimately have "queue_ok s'" by (simp add: queue_ok_def)
  moreover have "batch_ok s' k" if "k \<in> set (sync_batches s')" for k
    using b [of k] that v latest same by (auto simp: batch_ok_def le_imp_less_Suc)
  ultimately show ?thesis using ok same by (simp add: transport_ok_def)
qed

lemma deliver_keeps:
  assumes "transport_ok e s" "deliver cr i now t s = Inr (u, s')"
  shows "transport_ok e s'"
  using assms(2)
proof (rule deliver_effect)
  fix c h assume f: "find (\<lambda>c. cu_device c = rt_device t) (cursors s) = Some c"
    and s': "s' = s\<lparr>cursors := bump (rt_device t) (cursors s),
      td_events := td_events s @ [event_for cr i now t (Suc (latest_of s (rt_device t))) h]\<rparr>"
  show ?thesis
    by (rule append_event_keeps [where d = "rt_device t"
        and v = "event_for cr i now t (Suc (latest_of s (rt_device t))) h", OF assms(1)])
      (simp_all add: s' f event_for_def)
qed

interpretation delivering: keeps_invariant "transport_ok e" "deliver cr i now" for e cr i now
  by unfold_locales (rule deliver_keeps)

lemma tombstone_keeps:
  assumes "transport_ok e s" "create_tombstone e p d r hash now s = Inr (i, s')"
  shows "transport_ok e s'"
proof -
  note t = tombstone_effect [OF assms(2)]
  have "(d, tr_type r, tr_transaction r) \<notin> (\<lambda>t. (tt_device t, tt_type t, tt_txn t)) ` set (td_transactions s)"
    using t(3) by (auto simp: previous_send_def find_None_iff)
  with assms(1) show ?thesis
    by (auto simp: t(2) transport_ok_def tombstones_ok_def queue_ok_def batch_ok_def latest_of_def device_seqs_def
        supply_ok_mono [of e "draws s"])
qed

lemma send_keeps:
  assumes "transport_ok e s" "send cr e now at p type txn v s = Inr (u, s')"
  shows "transport_ok e s'"
  using assms(2)
proof (rule send_cases)
  fix device r hash assume run: "send_transaction cr e now at p device r hash s = Inr (u, s')"
  show ?thesis
  proof (cases "previous_send s device r")
    case None
    from send_transaction_fresh [OF run None] show ?thesis
      by (metis tombstone_keeps delivering.loop_keeps assms(1))
  next
    case (Some t)
    with run assms(1) show ?thesis by (auto simp: send_transaction_def split: if_splits)
  qed
qed

section \<open>What the parts of a sync do\<close>

lemma lockSyncContext_effect:
  assumes "lockSyncContext p device now s = Inr (x, s')"
  shows "s' = s" "sx_now x = now" "sx_latest x = latest_of s device" "sx_list x = list_position s"
    "\<exists>c. find (\<lambda>c. cu_device c = device) (cursors s) = Some c \<and> sx_latest x = cu_latest c"
proof -
  let ?rows = "[\<lparr>sx_now = now, sx_latest = cu_latest c, sx_list = list_position s\<rparr>.
        se \<leftarrow> sessions s, se_id se = pn_session p \<and> se_user se = pn_id p \<and> se_device se = Some device \<and>
          se_revoked se = None \<and> now < se_expires se,
        u \<leftarrow> users s, u_id u = se_user se \<and> se_version se = u_session_version u \<and> u_status u = AccActive \<and>
          \<not> u_reset_required u,
        d \<leftarrow> devices s, d_id d = device \<and> d_status d = DevActive,
        k \<leftarrow> matrix_keys s, mk_device k = d_id d,
        c \<leftarrow> cursors s, cu_device c = d_id d]"
  from assms have r: "?rows = [x]" "s' = s"
    by (auto simp: lockSyncContext_def Let_def split: list.splits)
  from r(1) have set: "set ?rows = {x}" by (metis list.set(1,2))
  from set have x: "x \<in> set ?rows" by blast
  then have "\<exists>c \<in> set (cursors s). cu_device c = device \<and> sx_now x = now \<and> sx_list x = list_position s"
    by (auto split: if_splits)
  then obtain c where c: "c \<in> set (cursors s)" "cu_device c = device" "sx_now x = now" "sx_list x = list_position s"
    by blast
  then obtain c0 where f: "find (\<lambda>c. cu_device c = device) (cursors s) = Some c0"
    by (cases "find (\<lambda>c. cu_device c = device) (cursors s)") (auto simp: find_None_iff)
  then have "c0 \<in> set (cursors s)" "cu_device c0 = device" by (auto simp: find_Some_iff)
  with x have "\<lparr>sx_now = now, sx_latest = cu_latest c0, sx_list = list_position s\<rparr> \<in> set ?rows"
    by (auto split: if_splits)
  then have "\<lparr>sx_now = now, sx_latest = cu_latest c0, sx_list = list_position s\<rparr> \<in> {x}" unfolding set .
  then have "x = \<lparr>sx_now = now, sx_latest = cu_latest c0, sx_list = list_position s\<rparr>" by simp
  with f show "sx_latest x = latest_of s device"
    "\<exists>c. find (\<lambda>c. cu_device c = device) (cursors s) = Some c \<and> sx_latest x = cu_latest c"
    by (simp_all add: latest_of_def)
  show "s' = s" "sx_now x = now" "sx_list x = list_position s" using r c by simp_all
qed

definition window_end :: "'r list \<Rightarrow> ('r \<Rightarrow> nat) \<Rightarrow> nat \<Rightarrow> nat" where
  "window_end rows key latest = (if length rows < 100 then latest else key (last rows))"

lemma createSyncBatch_effect:
  assumes "createSyncBatch cr e user device previous from fromList x s = Inr (b, s')"
  shows "s' = s\<lparr>draws := Suc (draws s), sync_batches := sync_batches s @ [b]\<rparr>"
    "sb_id b = uuid_at e (draws s)" "sb_device b = device" "sb_previous b = previous" "sb_from b = from"
    "sb_up_to b = window_end (event_window s device from (sx_latest x) (sx_now x)) ev_seq (sx_latest x)"
    "sb_from_list b = fromList"
    "sb_list b = window_end (change_window s user fromList (sx_list x)) lc_position (sx_list x)"
    "sb_created b = sx_now x" "sb_acked b = None" "sx_now x < sb_expires b"
    "sb_expires b = foldl (\<lambda>t v. min t (ev_expires v)) (sx_now x + TO_DEVICE_TTL_MS)
       (event_window s device from (sx_latest x) (sx_now x))"
    "\<exists>i. issueMatrixSyncToken (cr_mac cr) (cr_sha cr) (token_data b) = Inr i \<and> sb_hash b = it_hash i"
    "previous \<noteq> None \<Longrightarrow> \<forall>b' \<in> set (sync_batches s). sb_previous b' \<noteq> previous"
  using assms
  by (auto simp: createSyncBatch_def Let_def window_end_def token_data_def split: if_splits sum.splits)

lemma take_sorted_last:
  assumes "rows = take 100 (sort_key key (filter P all))" "rows \<noteq> []"
  shows "last rows \<in> set all" "P (last rows)"
proof -
  have "last rows \<in> set (sort_key key (filter P all))"
    using assms last_in_set [OF assms(2)] by (metis in_set_takeD)
  then show "last rows \<in> set all" "P (last rows)" by auto
qed

lemma window_end_le: "rows = take 100 (sort_key key (filter P all)) \<Longrightarrow> (\<And>r. P r \<Longrightarrow> key r \<le> latest) \<Longrightarrow>
    window_end rows key latest \<le> latest"
  using take_sorted_last [of rows key P all] by (fastforce simp: window_end_def)

lemma createSyncBatch_range:
  assumes "createSyncBatch cr e user device previous from fromList x s = Inr (b, s')"
  shows "sb_from b \<le> sb_up_to b" "sb_up_to b \<le> sx_latest x" "sb_from_list b \<le> sb_list b" "sb_list b \<le> sx_list x"
proof -
  note c = createSyncBatch_effect [OF assms]
  from c(13) have "token_data_ok (token_data b)" using tokens.issue_good by blast
  then show "sb_from b \<le> sb_up_to b" "sb_from_list b \<le> sb_list b"
    by (simp_all add: token_data_ok_def token_data_def)
  show "sb_up_to b \<le> sx_latest x" unfolding c(6)
    by (rule window_end_le [OF event_window_def]) simp
  show "sb_list b \<le> sx_list x" unfolding c(8)
    by (rule window_end_le [OF change_window_def]) simp
qed

lemma requireSyncBatch_found:
  assumes "requireSyncBatch cr device token now s = Inr b"
  shows "b \<in> set (sync_batches s)" "sb_device b = device" "now < sb_expires b"
    "verifyMatrixSyncToken (cr_mac cr) (cr_sha cr) token (sb_hash b) (token_data b)"
  using assms
  by (auto simp: requireSyncBatch_def find_Some_iff split: sum.splits option.splits if_splits)

definition ack_row :: "uuid \<Rightarrow> time \<Rightarrow> sync_batch \<Rightarrow> sync_batch" where
  "ack_row i now b = (if sb_id b = i \<and> sb_acked b = None then b\<lparr>sb_acked := Some now\<rparr> else b)"

lemma ack_row_fields [simp]:
  "sb_id (ack_row i now b) = sb_id b" "sb_device (ack_row i now b) = sb_device b"
  "sb_previous (ack_row i now b) = sb_previous b" "sb_from (ack_row i now b) = sb_from b"
  "sb_up_to (ack_row i now b) = sb_up_to b" "sb_from_list (ack_row i now b) = sb_from_list b"
  "sb_list (ack_row i now b) = sb_list b" "sb_expires (ack_row i now b) = sb_expires b"
  "token_data (ack_row i now b) = token_data b" "sb_hash (ack_row i now b) = sb_hash b"
  "sb_acked (ack_row i now b) = None \<longleftrightarrow> sb_acked b = None \<and> sb_id b \<noteq> i"
  by (auto simp: ack_row_def token_data_def)

lemma ack_other: "sb_id b \<noteq> i \<Longrightarrow> ack_row i now b = b"
  by (simp add: ack_row_def)

lemma acknowledge_effect:
  assumes "acknowledge device parent now s = Inr (u, s')"
  shows "s' = s\<lparr>sync_batches := map (ack_row (sb_id parent) now) (sync_batches s),
    td_events := filter (\<lambda>v. \<not> (ev_device v = device \<and> ev_seq v \<le> sb_up_to parent)) (td_events s)\<rparr>"
  using assms by (auto simp: acknowledge_def Let_def upd_where_def ack_row_def [abs_def] split: if_splits)

lemma batch_ids_simps:
  "batch_ids (bs @ [b]) = insert (sb_id b) (batch_ids bs \<union> set_option (sb_previous b))"
  "batch_ids (map (ack_row i now) bs) = batch_ids bs"
  by (auto simp: batch_ids_def image_image)

lemma succession_append:
  assumes "succession_ok bs" "sb_id b \<notin> batch_ids bs" "sb_previous b = None"
  shows "succession_ok (bs @ [b])"
  using assms by (auto simp: succession_ok_def batch_ids_def)

lemma succession_next:
  assumes bs: "succession_ok bs" and p: "parent \<in> set bs" and new: "sb_id b \<notin> batch_ids bs"
    and prev: "sb_previous b = Some (sb_id parent)" "\<forall>b' \<in> set bs. sb_previous b' \<noteq> Some (sb_id parent)"
    and fields: "sb_device b = sb_device parent" "sb_from b = sb_up_to parent" "sb_from_list b = sb_list parent"
  shows "succession_ok (map (ack_row (sb_id parent) now) (bs @ [b]))"
proof -
  let ?f = "ack_row (sb_id parent) now"
  have d: "distinct (map sb_id bs)" using bs by (simp add: succession_ok_def)
  have ids: "sb_id b \<notin> sb_id ` set bs" "\<forall>c \<in> set bs. sb_previous c \<noteq> Some (sb_id b)" "sb_id b \<noteq> sb_id parent"
    using new p by (auto simp: batch_ids_def)
  have same: "k = parent" if "k \<in> set bs" "sb_id k = sb_id parent" for k
    using distinct_key_eq [OF d that(1) p that(2)] .
  have distinct: "distinct (map sb_id (map ?f (bs @ [b])))" using d ids by (simp add: comp_def)
  have links: "sb_device (?f c) = sb_device (?f k) \<and> sb_from (?f c) = sb_up_to (?f k) \<and>
      sb_from_list (?f c) = sb_list (?f k) \<and> sb_acked (?f k) \<noteq> None"
    if "k \<in> set (bs @ [b])" "c \<in> set (bs @ [b])" "sb_previous (?f c) = Some (sb_id (?f k))" for k c
  proof (cases "c = b")
    case True
    with that(3) prev ids have "sb_id k = sb_id parent" by simp
    with that(1) ids same have "k = parent" by auto
    with True fields show ?thesis by simp
  next
    case False
    with that ids have "k \<in> set bs" "c \<in> set bs" by auto
    with that(3) bs show ?thesis by (auto simp: succession_ok_def)
  qed
  have single: "?f k = ?f c"
    if "k \<in> set (bs @ [b])" "c \<in> set (bs @ [b])" "sb_previous (?f k) \<noteq> None" "sb_previous (?f k) = sb_previous (?f c)" for k c
  proof -
    have "k = c" using that prev bs by (auto simp: succession_ok_def)
    then show ?thesis by simp
  qed
  show ?thesis unfolding succession_ok_def set_map ball_simps(9) using distinct links single by blast
qed

lemma create_initial_keeps:
  assumes ok: "transport_ok e s" and x: "sx_latest x = latest_of s device" "sx_list x = list_position s"
    and c: "createSyncBatch cr e user device None 0 0 x s = Inr (b, s')"
  shows "transport_ok e s'"
proof -
  note eff = createSyncBatch_effect [OF c] and range = createSyncBatch_range [OF c]
  have fresh: "sb_id b \<notin> batch_ids (sync_batches s)"
    using ok supply_ok_fresh eff(2) unfolding transport_ok_def by (metis order_refl)
  have "batch_ok s' k" if "k \<in> set (sync_batches s')" for k
    using that ok range x eff by (auto simp: eff(1) transport_ok_def batch_ok_def latest_of_def)
  moreover have "succession_ok (sync_batches s')"
    using ok fresh eff(1,4) by (auto simp: transport_ok_def intro: succession_append)
  moreover have "supply_ok e (draws s') (batch_ids (sync_batches s'))"
    using ok supply_ok_draw [of e "draws s" "batch_ids (sync_batches s)" "draws s"] eff(1,2,4)
    by (simp add: transport_ok_def batch_ids_simps)
  moreover have "queue_ok s'" "tombstones_ok (td_transactions s')" using ok
    by (simp_all add: eff(1) transport_ok_def queue_ok_def latest_of_def device_seqs_def)
  ultimately show ?thesis by (simp add: transport_ok_def)
qed

lemma device_seqs_filter:
  assumes "td_events s' = filter P (td_events s)" "sorted_wrt (<) (device_seqs s d)"
  shows "sorted_wrt (<) (device_seqs s' d)"
proof -
  have "device_seqs s' d = map ev_seq (filter P (filter (\<lambda>v. ev_device v = d) (td_events s)))"
    by (simp add: device_seqs_def assms(1) conj_commute)
  then show ?thesis
    using assms(2) sorted_wrt_filter [of _ "filter (\<lambda>v. ev_device v = d) (td_events s)" P]
    by (simp add: device_seqs_def sorted_wrt_map del: filter_filter)
qed

lemma create_next_keeps:
  assumes ok: "transport_ok e s" and x: "sx_latest x = latest_of s device" "sx_list x = list_position s"
    and p: "parent \<in> set (sync_batches s)" "sb_device parent = device"
    and c: "createSyncBatch cr e user device (Some (sb_id parent)) (sb_up_to parent) (sb_list parent) x s = Inr (b, s1)"
    and a: "acknowledge device parent now s1 = Inr (u, s')"
  shows "transport_ok e s'"
proof -
  note eff = createSyncBatch_effect [OF c] and range = createSyncBatch_range [OF c]
  have fresh: "sb_id b \<notin> batch_ids (sync_batches s)"
    using ok supply_ok_fresh eff(2) unfolding transport_ok_def by (metis order_refl)
  have s': "s' = s\<lparr>draws := Suc (draws s),
      sync_batches := map (ack_row (sb_id parent) now) (sync_batches s @ [b]),
      td_events := filter (\<lambda>v. \<not> (ev_device v = device \<and> ev_seq v \<le> sb_up_to parent)) (td_events s)\<rparr>"
    using acknowledge_effect [OF a] eff(1) by simp
  have parent_id: "sb_id parent \<in> batch_ids (sync_batches s)" using p by (simp add: batch_ids_def)
  have other: "sb_id b \<noteq> sb_id parent" using fresh p by (auto simp: batch_ids_def)
  have latest: "latest_of s' d = latest_of s d" for d by (simp add: s' latest_of_def)
  have new: "batch_ok s' b" using range x eff latest by (simp add: batch_ok_def s')
  have old: "batch_ok s' (ack_row (sb_id parent) now k)" if "k \<in> set (sync_batches s)" for k
  proof -
    have k: "batch_ok s k" using ok that by (simp add: transport_ok_def)
    have "k = parent" if "sb_id k = sb_id parent"
      using ok \<open>k \<in> set (sync_batches s)\<close> p that distinct_key_eq [of sb_id "sync_batches s"]
      by (auto simp: transport_ok_def succession_ok_def)
    then show ?thesis using k p latest by (cases "sb_id k = sb_id parent") (auto simp: batch_ok_def s')
  qed
  have "batch_ok s' k" if "k \<in> set (sync_batches s')" for k
    using that old new ack_other [OF other, of now] by (auto simp: s')
  moreover have "succession_ok (sync_batches s')"
    using succession_next [of "sync_batches s" parent b now] ok fresh p eff
    by (simp add: s' transport_ok_def)
  moreover have "supply_ok e (draws s') (batch_ids (sync_batches s'))"
    using ok supply_ok_draw [of e "draws s" "batch_ids (sync_batches s)" "draws s"] eff(2,4) p
    by (auto simp: transport_ok_def batch_ids_simps s' insert_absorb parent_id simp del: map_append)
  moreover have "queue_ok s'" using ok latest device_seqs_filter [where s' = s'] by (fastforce simp: transport_ok_def queue_ok_def s')
  moreover have "tombstones_ok (td_transactions s')" using ok by (simp add: s' transport_ok_def)
  ultimately show ?thesis by (simp add: transport_ok_def)
qed

lemma sync_cases:
  assumes "sync cr e now p rawSince rawTimeout s = Inr (y, s')"
  obtains device since x b where "pn_device p = Some device" "parseSince rawSince = Inr since"
    "parseSyncTimeout rawTimeout = Inr ()"
    "lockSyncContext p device now s = Inr (x, s)" "sx_now x = now" "sx_latest x = latest_of s device"
    "sx_list x = list_position s"
    "chosen_batch cr e p device since x s = Inr (b, s')"
    "buildSyncResponse cr p b (since \<noteq> None) now s' = Inr (y, s')"
proof -
  from assms obtain device since x b s0 s1 where d: "pn_device p = Some device" "parseSince rawSince = Inr since"
      "parseSyncTimeout rawTimeout = Inr ()"
    and x: "lockSyncContext p device now s = Inr (x, s0)"
    and b: "chosen_batch cr e p device since x s0 = Inr (b, s1)"
    and r: "buildSyncResponse cr p b (since \<noteq> None) (sx_now x) s1 = Inr (y, s')"
    by (auto simp: sync_def requireBoundDevice_def tx_iffs split: option.splits sum.splits)
  have "s1 = s'" using r by (auto simp: buildSyncResponse_def split: sum.splits)
  with that d x b r lockSyncContext_effect [OF x] show ?thesis by blast
qed

text \<open>A sync either finds its batch, leaving the state as it is, or adds one.\<close>

lemma initial_cases:
  assumes "initial_batch cr e p device x s = Inr (b, s')"
  obtains (replay) "open_initial s device (sx_now x) = Some b" "s' = s"
  | (created) "createSyncBatch cr e (pn_id p) device None 0 0 x s = Inr (b, s')"
  using assms by (auto simp: initial_batch_def split: option.splits)

lemma incremental_cases:
  assumes "incremental_batch cr e p device token x s = Inr (b, s')"
  obtains (replay) parent where "requireSyncBatch cr device token (sx_now x) s = Inr parent"
      "find (\<lambda>b. sb_previous b = Some (sb_id parent)) (sync_batches s) = Some b" "sx_now x < sb_expires b" "s' = s"
  | (created) parent s1 where "requireSyncBatch cr device token (sx_now x) s = Inr parent" "sb_acked parent = None"
      "createSyncBatch cr e (pn_id p) device (Some (sb_id parent)) (sb_up_to parent) (sb_list parent) x s = Inr (b, s1)"
      "acknowledge device parent (sx_now x) s1 = Inr ((), s')"
  using assms
  by (auto simp: incremental_batch_def tx_iffs split: sum.splits option.splits if_splits)

lemma sync_keeps:
  assumes ok: "transport_ok e s" and run: "sync cr e now p rawSince rawTimeout s = Inr (y, s')"
  shows "transport_ok e s'"
  using run
proof (rule sync_cases)
  fix device since x b
  assume x: "sx_now x = now" "sx_latest x = latest_of s device" "sx_list x = list_position s"
    and b: "chosen_batch cr e p device since x s = Inr (b, s')"
  show ?thesis
  proof (cases since)
    case None
    with b have "initial_batch cr e p device x s = Inr (b, s')" by (simp add: chosen_batch_def)
    then show ?thesis
      by (cases rule: initial_cases) (use ok x in \<open>auto intro: create_initial_keeps\<close>)
  next
    case (Some token)
    with b have "incremental_batch cr e p device token x s = Inr (b, s')" by (simp add: chosen_batch_def)
    then show ?thesis
    proof (cases rule: incremental_cases)
      case (created parent s1)
      then show ?thesis
        using create_next_keeps [OF ok x(2,3) requireSyncBatch_found(1,2) [OF created(1)] created(3,4)] by simp
    qed (use ok in simp)
  qed
qed

section \<open>Runs of the transport\<close>

datatype transport_op =
    OpSend time "uuid \<Rightarrow> time" principal string string json
  | OpSync time principal query query

fun transport_op_run :: "crypto \<Rightarrow> env \<Rightarrow> transport_op \<Rightarrow> 'x e2e_db_scheme \<Rightarrow> error + 'x e2e_db_scheme" where
  "transport_op_run cr e (OpSend now at p type txn v) s = map_sum id snd (send cr e now at p type txn v s)"
| "transport_op_run cr e (OpSync now p since timeout) s = map_sum id snd (sync cr e now p since timeout s)"

text \<open>A failed operation is rolled back, so a run is a sequence of the successful ones.\<close>

inductive transport_run :: "crypto \<Rightarrow> env \<Rightarrow> 'x e2e_db_scheme \<Rightarrow> 'x e2e_db_scheme \<Rightarrow> bool" for cr e where
  idle: "transport_run cr e s s"
| step: "transport_run cr e s s' \<Longrightarrow> transport_op_run cr e op s' = Inr s'' \<Longrightarrow> transport_run cr e s s''"

inductive_cases transport_runE: "transport_run cr e s s'"

lemma map_sum_snd: "map_sum id snd m = Inr s' \<longleftrightarrow> (\<exists>y. m = Inr (y, s'))"
  by (cases m) auto

lemma op_keeps: "transport_ok e s \<Longrightarrow> transport_op_run cr e op s = Inr s' \<Longrightarrow> transport_ok e s'"
  by (cases op) (auto simp: map_sum_snd intro: send_keeps sync_keeps)

lemma run_keeps: "transport_run cr e s s' \<Longrightarrow> transport_ok e s \<Longrightarrow> transport_ok e s'"
  by (induction rule: transport_run.induct) (auto intro: op_keeps)

section \<open>Tombstones stay\<close>

definition later :: "'x e2e_db_scheme \<Rightarrow> 'x e2e_db_scheme \<Rightarrow> bool" where
  "later s s' \<longleftrightarrow> (\<exists>more. td_transactions s' = td_transactions s @ more)"

lemma later_refl [simp]: "later s s"
  by (simp add: later_def)

lemma later_same [intro]: "td_transactions s' = td_transactions s \<Longrightarrow> later s s'"
  by (simp add: later_def)

lemma later_trans: "later s s' \<Longrightarrow> later s' s'' \<Longrightarrow> later s s''"
  by (auto simp: later_def)

lemma deliver_later: "deliver cr i now t s = Inr (u, s') \<Longrightarrow> td_transactions s' = td_transactions s"
  by (erule deliver_effect) simp

lemma deliveries_later: "mapT (deliver cr i now) ts s = Inr (us, s') \<Longrightarrow> td_transactions s' = td_transactions s"
  by (induction ts arbitrary: s us) (auto simp: tx_iffs dest!: deliver_later)

lemma send_tombstone:
  assumes "send_transaction cr e now at p device r hash s = Inr (u, s')"
  shows "later s s' \<and> (\<exists>t. previous_send s' device r = Some t \<and> tt_hash t = hash)"
proof (cases "previous_send s device r")
  case None
  from send_transaction_fresh [OF assms None] obtain ts s1 where
    t: "create_tombstone e p device r hash now s = Inr (uuid_at e (draws s), s1)" and
    m: "mapT (deliver cr (uuid_at e (draws s)) now) ts s1 = Inr (map (\<lambda>_. ()) ts, s')" by metis
  have "td_transactions s' = td_transactions s1" by (rule deliveries_later [OF m])
  with None show ?thesis
    by (auto simp: tombstone_effect(2) [OF t] later_def previous_send_def find_append)
next
  case (Some t)
  with assms show ?thesis by (auto simp: send_transaction_def split: if_splits)
qed

lemma sync_later: "sync cr e now p since timeout s = Inr (y, s') \<Longrightarrow> td_transactions s' = td_transactions s"
proof (erule sync_cases)
  fix device since x b assume "chosen_batch cr e p device since x s = Inr (b, s')"
  then show ?thesis
    by (cases since) (auto simp: chosen_batch_def elim!: initial_cases incremental_cases
        dest!: createSyncBatch_effect(1) acknowledge_effect)
qed

lemma op_later: "transport_op_run cr e op s = Inr s' \<Longrightarrow> later s s'"
proof (cases op)
  case (OpSend now at p type txn v)
  assume "transport_op_run cr e op s = Inr s'"
  with OpSend obtain u where "send cr e now at p type txn v s = Inr (u, s')" by (auto simp: map_sum_snd)
  then show ?thesis by (rule send_cases) (auto dest: send_tombstone)
next
  case (OpSync now p since timeout)
  assume "transport_op_run cr e op s = Inr s'"
  with OpSync show ?thesis by (auto simp: map_sum_snd dest: sync_later)
qed

lemma run_later: "transport_run cr e s s' \<Longrightarrow> later s s'"
  by (induction rule: transport_run.induct) (auto intro: later_trans op_later)

lemma previous_send_later: "later s s' \<Longrightarrow> previous_send s d r = Some t \<Longrightarrow> previous_send s' d r = Some t"
  by (auto simp: later_def previous_send_def find_append)

lemma previous_send_key: "tr_type r = tr_type r' \<Longrightarrow> tr_transaction r = tr_transaction r' \<Longrightarrow>
    previous_send s d r = previous_send s d r'"
  by (simp add: previous_send_def)

text \<open>The hash that identifies the content of a request.\<close>

definition request_hash :: "crypto \<Rightarrow> string \<Rightarrow> string \<Rightarrow> json \<Rightarrow> error + string" where
  "request_hash cr type txn v =
     (case parseRequest type txn v of
        Inl err \<Rightarrow> Inl err
      | Inr r \<Rightarrow> hashMatrixCanonicalJson (cr_sha cr) (matrixToDeviceHashInput r))"

lemma send_seen:
  assumes d: "pn_device q = Some device" and h: "request_hash cr type txn w = Inr h'"
    and t: "\<And>r. tr_type r = type \<Longrightarrow> tr_transaction r = txn \<Longrightarrow> previous_send s device r = Some t"
  shows "send cr e now at q type txn w s =
    (if tt_hash t = h' then Inr ((), s)
     else Inl (Conflict ''El identificador sendToDevice ya pertenece a otro contenido.''))"
proof -
  from h obtain r where r: "parseRequest type txn w = Inr r"
    and h: "hashMatrixCanonicalJson (cr_sha cr) (matrixToDeviceHashInput r) = Inr h'"
    by (auto simp: request_hash_def split: sum.splits)
  from r have "parseMatrixToDeviceRequest type txn w = Inr r"
    by (auto simp: parseRequest_def split: sum.splits error.splits)
  from parse_request_ok [OF this] t have "previous_send s device r = Some t" by simp
  with d r h show ?thesis by (simp add: send_def requireBoundDevice_def send_transaction_def)
qed

section \<open>The events of a send\<close>

lemma all_right_list: "all_right xs = Inr ys \<Longrightarrow> list_all2 (\<lambda>x y. x = Inr y) xs ys"
  by (induction xs arbitrary: ys rule: all_right.induct) (auto split: sum.splits)

lemma list_all2_ex:
  assumes "list_all2 P xs ys"
  shows "\<forall>x \<in> set xs. \<exists>y \<in> set ys. P x y" "\<forall>y \<in> set ys. \<exists>x \<in> set xs. P x y"
  using assms by (induction xs ys rule: list_all2_induct) auto

lemma deliveries_effect:
  "mapT (deliver cr i now) ts s = Inr (us, s') \<Longrightarrow>
     \<exists>evs. td_events s' = td_events s @ evs \<and>
       list_all2 (\<lambda>t v. \<exists>n h. v = event_for cr i now t n h) ts evs"
proof (induction ts arbitrary: s us)
  case (Cons t ts)
  then obtain u s1 us' where d: "deliver cr i now t s = Inr (u, s1)"
    and m: "mapT (deliver cr i now) ts s1 = Inr (us', s')" by (auto simp: tx_iffs)
  from Cons.IH [OF m] obtain evs where evs: "td_events s' = td_events s1 @ evs"
    "list_all2 (\<lambda>t v. \<exists>n h. v = event_for cr i now t n h) ts evs" by blast
  from d show ?case
  proof (rule deliver_effect)
    fix c h assume "s1 = s\<lparr>cursors := bump (rt_device t) (cursors s),
      td_events := td_events s @ [event_for cr i now t (Suc (latest_of s (rt_device t))) h]\<rparr>"
    with evs show ?thesis
      by (intro exI [where x = "event_for cr i now t (Suc (latest_of s (rt_device t))) h # evs"]) auto
  qed
qed (simp add: tx_simps)

text \<open>What permits a target: its user is the sender's own, or shares an eligible conversation with it.\<close>

definition permitted :: "'x e2e_db_scheme \<Rightarrow> uuid \<Rightarrow> uuid \<Rightarrow> uuid option \<Rightarrow> bool" where
  "permitted s sender recipient conv \<longleftrightarrow>
     (recipient = sender \<and> conv = None) \<or>
     (\<exists>now k. access_granted now s k \<and> conv = Some (ca_id k) \<and> recipient \<noteq> sender \<and>
        ((ca_client k = sender \<and> ca_cashier k = recipient) \<or> (ca_client k = recipient \<and> ca_cashier k = sender)))"

lemma recipient_conversations_permitted:
  "recipient_conversations p at is s = Inr (m, s') \<Longrightarrow> (i, conv) \<in> set m \<Longrightarrow> permitted s (pn_id p) i conv"
proof (induction p at "is" s arbitrary: m s' rule: recipient_conversations.induct)
  case (2 p at j rest s)
  show ?case
  proof (cases "j = pn_id p")
    case True
    with "2.IH"(1) "2.prems" show ?thesis by simp
  next
    case False
    then obtain k s1 m' s2 where
      l: "(if pn_role p = CLIENT then lockCurrentByParticipants (at j) (pn_id p) j s
           else lockCurrentByParticipants (at j) j (pn_id p) s) = Inr (k, s1)"
      and m': "recipient_conversations p at rest s1 = Inr (m', s2)" and m: "m = (j, Some (ca_id k)) # m'"
      using "2.prems"(1) by (auto split: sum.splits prod.splits)
    have g: "s1 = s" "access_granted (at j) s k"
      "(ca_client k = pn_id p \<and> ca_cashier k = j) \<or> (ca_client k = j \<and> ca_cashier k = pn_id p)"
      using l by (auto split: if_splits dest!: lockCurrentByParticipants_granted)
    show ?thesis
    proof (cases "(i, conv) \<in> set m'")
      case True
      with "2.IH"(2) [OF False l refl] m' g(1) show ?thesis by simp
    next
      case notin: False
      with "2.prems"(2) m have "i = j" "conv = Some (ca_id k)" by auto
      with g False show ?thesis by (auto simp: permitted_def)
    qed
  qed
qed (simp add: permitted_def)

text \<open>The Matrix addresses of the accepted targets determine their parts: device identifiers have one length.\<close>

lemma requested_shape:
  assumes "request_ok r" "(u, d, c) \<in> set (requested_targets r)"
  shows "length d = 33"
proof -
  from assms(2) obtain ds where "(u, ds) \<in> set (tr_messages r)" "(d, c) \<in> set ds"
    by (auto simp: requested_targets_def)
  with assms(1) show ?thesis by (auto simp: request_ok_def devices_ok_def matrix_device_id_def)
qed

lemma requested_length: "length (requested_targets r) = target_count (tr_messages r)"
  by (simp add: requested_targets_def target_count_def length_concat comp_def case_prod_unfold)

lemma address_map_Some:
  assumes "address_map ks a = Some k"
  shows "k \<in> set ks" "matrixAddress (mk_matrix_user k) (mk_matrix_device k) = a"
  using map_of_SomeD [OF assms [unfolded address_map_def]] by auto

definition target_of ::
    "'x e2e_db_scheme \<Rightarrow> uuid \<Rightarrow> string \<Rightarrow> string \<times> string \<times> olm_content \<Rightarrow> resolved_target \<Rightarrow> bool" where
  "target_of s sender curve = (\<lambda>(u, d, c) t. rt_content t = c \<and> oc_sender_key c = curve \<and>
     (\<exists>k \<in> set (matrix_keys s). mk_matrix_user k = u \<and> mk_matrix_device k = d \<and> rt_device t = mk_device k \<and>
        rt_user t = mk_user k \<and> map fst (oc_ciphertext c) = [mk_curve k]) \<and>
     (\<exists>dv \<in> set (devices s). d_id dv = rt_device t \<and> d_status dv = DevActive) \<and>
     permitted s sender (rt_user t) (rt_conversation t))"

lemma resolve_one_target:
  assumes ok: "request_ok r" and q: "(u, d, c) \<in> set (requested_targets r)"
    and m: "recipient_conversations p at is s = Inr (m, s')"
    and t: "resolve_one curve (address_map (requested_identities s (requested_targets r))) m (u, d, c) = Inr t"
  shows "target_of s (pn_id p) curve (u, d, c) t"
proof -
  from t obtain k conv where k: "address_map (requested_identities s (requested_targets r)) (matrixAddress u d) = Some k"
    and f: "oc_sender_key c = curve" "map fst (oc_ciphertext c) = [mk_curve k]" "map_of m (mk_user k) = Some conv"
      "t = \<lparr>rt_device = mk_device k, rt_user = mk_user k, rt_content = c, rt_conversation = conv\<rparr>"
    by (auto simp: resolve_one_def split: option.splits if_splits)
  note a = address_map_Some [OF k]
  from a(1) obtain u' d' c' where q': "(u', d', c') \<in> set (requested_targets r)" "mk_matrix_user k = u'"
      "mk_matrix_device k = d'"
    and s: "k \<in> set (matrix_keys s)" "\<exists>dv \<in> set (devices s). d_id dv = mk_device k \<and> d_status dv = DevActive"
    by (auto simp: requested_identities_def)
  have "length (mk_matrix_device k) = length d"
    using requested_shape [OF ok q] requested_shape [OF ok q'(1)] q' by simp
  with a(2) have "mk_matrix_user k = u \<and> mk_matrix_device k = d" by (simp add: matrixAddress_def)
  moreover have "permitted s (pn_id p) (mk_user k) conv"
    using recipient_conversations_permitted [OF m map_of_SomeD [OF f(3)]] .
  ultimately show ?thesis using f s by (auto simp: target_of_def)
qed

lemma resolved_targets:
  assumes ok: "request_ok r" and res: "resolveTargets p at r curve s = Inr (ts, s')"
  shows "length ts = target_count (tr_messages r)"
    "\<forall>q \<in> set (requested_targets r). \<exists>t \<in> set ts. target_of s (pn_id p) curve q t"
    "\<forall>t \<in> set ts. \<exists>q \<in> set (requested_targets r). target_of s (pn_id p) curve q t"
proof -
  define ids where "ids = requested_identities s (requested_targets r)"
  from res obtain m s1 ts0 where
    m: "recipient_conversations p at (sort (remdups (map mk_user ids))) s = Inr (m, s1)" and
    all: "all_right (map (resolve_one curve (address_map ids) m) (requested_targets r)) = Inr ts0" and
    ts: "ts = sort_key rt_device ts0"
    by (auto simp: resolveTargets_def Let_def ids_def split: if_splits sum.splits prod.splits)
  from all_right_list [OF all]
  have two: "list_all2 (\<lambda>q t. resolve_one curve (address_map ids) m q = Inr t) (requested_targets r) ts0"
    by (simp add: list_all2_map1)
  have target: "target_of s (pn_id p) curve q t" if "q \<in> set (requested_targets r)"
    "resolve_one curve (address_map ids) m q = Inr t" for q t
    using resolve_one_target [OF ok _ m] that unfolding ids_def by (cases q) auto
  show "length ts = target_count (tr_messages r)"
    using list_all2_lengthD [OF two] by (simp add: ts requested_length)
  show "\<forall>q \<in> set (requested_targets r). \<exists>t \<in> set ts. target_of s (pn_id p) curve q t"
    using list_all2_ex(1) [OF two] target unfolding ts set_sort by blast
  show "\<forall>t \<in> set ts. \<exists>q \<in> set (requested_targets r). target_of s (pn_id p) curve q t"
    using list_all2_ex(2) [OF two] target unfolding ts set_sort by blast
qed

section \<open>Windows\<close>

lemma sorted_prefix:
  assumes "sorted_wrt (\<lambda>x y. key x < key y) xs" "0 < n" "n \<le> length xs"
  shows "filter (\<lambda>x. key x \<le> (key (last (take n xs)) :: nat)) xs = take n xs"
  using assms
proof (induction xs arbitrary: n)
  case (Cons x xs)
  obtain m where m: "n = Suc m" using Cons.prems(2) by (cases n) auto
  show ?case
  proof (cases "m = 0")
    case True
    with Cons.prems m show ?thesis by (auto simp: filter_empty_conv)
  next
    case False
    with Cons.prems m have l: "last (take n (x # xs)) = last (take m xs)" "take m xs \<noteq> []" by auto
    then have "last (take m xs) \<in> set xs" by (metis in_set_takeD last_in_set)
    with Cons.prems(1) have "key x < key (last (take m xs))" by simp
    with Cons.IH [of m] Cons.prems False m l show ?thesis by simp
  qed
qed simp

text \<open>A bounded page ordered by a key is exactly what lies up to its end, when the keys are distinct.\<close>

lemma page_exact:
  assumes d: "distinct (map key (filter P all))" and bound: "\<And>r. P r \<Longrightarrow> key r \<le> latest"
    and rows: "rows = take 100 (sort_key key (filter P all))"
  shows "rows = sort_key key (filter (\<lambda>r. P r \<and> key r \<le> window_end rows key latest) all)"
proof (cases "length rows < 100")
  case True
  then have "rows = sort_key key (filter P all)" by (simp add: rows)
  moreover have "filter (\<lambda>r. P r \<and> key r \<le> latest) all = filter P all"
    using bound by (auto intro: filter_cong)
  ultimately show ?thesis using True by (simp add: window_end_def)
next
  case False
  let ?xs = "sort_key key (filter P all)"
  have "distinct (map key ?xs)" using d by (simp add: distinct_map)
  then have "sorted_wrt (<) (map key ?xs)" by (simp add: strict_sorted_iff)
  then have s: "sorted_wrt (\<lambda>x y. key x < key y) ?xs" by (simp add: sorted_wrt_map)
  have l: "100 \<le> length ?xs" using False by (simp add: rows)
  have "rows = filter (\<lambda>x. key x \<le> key (last rows)) ?xs"
    using sorted_prefix [OF s _ l] by (simp add: rows)
  also have "\<dots> = sort_key key (filter (\<lambda>r. key r \<le> key (last rows)) (filter P all))"
    by (rule filter_sort)
  finally show ?thesis using False by (simp add: window_end_def conj_commute)
qed

definition window_events :: "'x e2e_db_scheme \<Rightarrow> sync_batch \<Rightarrow> time \<Rightarrow> td_event list" where
  "window_events s b now = sort_key ev_seq (filter (\<lambda>v. ev_device v = sb_device b \<and> sb_from b < ev_seq v \<and>
     ev_seq v \<le> sb_up_to b \<and> now < ev_expires v) (td_events s))"

lemma queue_distinct: "queue_ok s \<Longrightarrow> distinct (map ev_seq (filter (\<lambda>v. ev_device v = d \<and> P v) (td_events s)))"
proof -
  assume "queue_ok s"
  then have "distinct (device_seqs s d)" by (auto simp: queue_ok_def strict_sorted_iff)
  then have "distinct (map ev_seq (filter P (filter (\<lambda>v. ev_device v = d) (td_events s))))"
    by (simp add: device_seqs_def distinct_map_filter del: filter_filter)
  then show ?thesis by (simp add: conj_commute)
qed

lemma foldl_min: "foldl (\<lambda>t v. min t (f v)) a vs \<le> (a :: int) \<and> (\<forall>v \<in> set vs. foldl (\<lambda>t v. min t (f v)) a vs \<le> f v)"
proof (induction vs arbitrary: a)
  case (Cons v vs)
  from Cons.IH [of "min a (f v)"] show ?case by auto
qed simp

lemma created_window:
  assumes ok: "queue_ok s" and c: "createSyncBatch cr e user device previous from fromList x s = Inr (b, s')"
  shows "event_window s device from (sx_latest x) (sx_now x) = window_events s b (sx_now x)"
    "length (window_events s b (sx_now x)) \<le> 100"
    "sb_up_to b < sx_latest x \<Longrightarrow> length (window_events s b (sx_now x)) = 100"
    "sb_expires b \<le> sx_now x + TO_DEVICE_TTL_MS"
    "\<forall>v \<in> set (window_events s b (sx_now x)). sb_expires b \<le> ev_expires v"
proof -
  note eff = createSyncBatch_effect [OF c]
  let ?P = "\<lambda>v. ev_device v = device \<and> from < ev_seq v \<and> ev_seq v \<le> sx_latest x \<and> sx_now x < ev_expires v"
  let ?w = "event_window s device from (sx_latest x) (sx_now x)"
  have page: "?w = sort_key ev_seq (filter (\<lambda>v. ?P v \<and> ev_seq v \<le> sb_up_to b) (td_events s))"
    unfolding eff(6) by (rule page_exact [OF queue_distinct [OF ok] _ event_window_def]) simp
  have same: "(\<lambda>v. ?P v \<and> ev_seq v \<le> sb_up_to b) = (\<lambda>v. ev_device v = sb_device b \<and> sb_from b < ev_seq v \<and>
     ev_seq v \<le> sb_up_to b \<and> sx_now x < ev_expires v)"
    using createSyncBatch_range(2) [OF c] eff(3,5) by (intro ext) auto
  show w: "?w = window_events s b (sx_now x)" using page unfolding same window_events_def .
  have len: "length ?w \<le> 100" by (simp add: event_window_def)
  then show "length (window_events s b (sx_now x)) \<le> 100" by (simp add: w)
  show "length (window_events s b (sx_now x)) = 100" if "sb_up_to b < sx_latest x"
    using that len eff(6) by (simp add: window_end_def w split: if_splits)
  show "sb_expires b \<le> sx_now x + TO_DEVICE_TTL_MS"
    unfolding eff(12) w by (rule conjunct1 [OF foldl_min])
  show "\<forall>v \<in> set (window_events s b (sx_now x)). sb_expires b \<le> ev_expires v"
    unfolding eff(12) w by (rule conjunct2 [OF foldl_min])
qed

section \<open>Batches stay\<close>

definition same_batch :: "sync_batch \<Rightarrow> sync_batch \<Rightarrow> bool" where
  "same_batch b b' \<longleftrightarrow> b' = b\<lparr>sb_acked := sb_acked b'\<rparr>"

definition batches_later :: "sync_batch list \<Rightarrow> sync_batch list \<Rightarrow> bool" where
  "batches_later bs bs' \<longleftrightarrow> (\<exists>cs ds. bs' = cs @ ds \<and> list_all2 same_batch bs cs)"

lemma same_batch_refl [simp]: "same_batch b b"
  by (simp add: same_batch_def)

lemma same_batch_sym: "same_batch b c \<longleftrightarrow> same_batch c b"
  by (cases b; cases c) (auto simp: same_batch_def)

lemma same_batch_trans: "same_batch a b \<Longrightarrow> same_batch b c \<Longrightarrow> same_batch a c"
  by (cases a; cases b; cases c) (auto simp: same_batch_def)

lemma same_ack [simp]: "same_batch b (ack_row i now b)"
  by (cases b) (auto simp: same_batch_def ack_row_def)

lemma same_batch_fields:
  assumes "same_batch b b'"
  shows "sb_id b' = sb_id b" "sb_device b' = sb_device b" "sb_previous b' = sb_previous b"
    "sb_up_to b' = sb_up_to b" "sb_expires b' = sb_expires b" "sb_hash b' = sb_hash b"
    "token_data b' = token_data b" "sb_keys b' = sb_keys b" "sb_fallback b' = sb_fallback b"
  using assms by (cases b; cases b'; simp add: same_batch_def token_data_def)+

lemma batches_later_refl: "batches_later bs bs"
  unfolding batches_later_def by (intro exI [where x = bs] exI [where x = "[]"]) (simp add: list.rel_refl)

lemma batches_later_append: "batches_later bs (bs @ cs)"
  by (auto simp: batches_later_def list.rel_refl)

lemma batches_later_map: "(\<And>b. same_batch b (f b)) \<Longrightarrow> batches_later bs (map f bs @ cs)"
  by (auto simp: batches_later_def list_all2_map2 list.rel_refl)

lemma batches_later_trans: "batches_later as bs \<Longrightarrow> batches_later bs cs \<Longrightarrow> batches_later as cs"
proof -
  assume "batches_later as bs" "batches_later bs cs"
  then obtain bs1 m1 cs1 m2 where a: "bs = bs1 @ m1" "list_all2 same_batch as bs1" "cs = cs1 @ m2"
    "list_all2 same_batch bs cs1" by (auto simp: batches_later_def)
  from a(4) obtain u v where u: "cs1 = u @ v" "list_all2 same_batch bs1 u"
    unfolding a(1) by (auto simp: list_all2_append1)
  have "list_all2 same_batch as u" by (rule list_all2_trans [OF same_batch_trans a(2) u(2)])
  with a(3) u(1) show ?thesis by (auto simp: batches_later_def)
qed

lemma find_later:
  assumes "batches_later bs bs'" "\<And>b b'. same_batch b b' \<Longrightarrow> P b' = P b" "find P bs = Some b"
  obtains b' where "find P bs' = Some b'" "same_batch b b'"
proof -
  from assms(1) obtain cs ds where c: "bs' = cs @ ds" "list_all2 same_batch bs cs" by (auto simp: batches_later_def)
  from c(2) assms(3) have "\<exists>b'. find P cs = Some b' \<and> same_batch b b'"
    by (induction bs cs rule: list_all2_induct) (auto simp: assms(2) split: if_splits)
  with that c(1) show ?thesis by (auto simp: find_append)
qed

lemma find_named_later:
  assumes "batches_later bs bs'" "find (\<lambda>b. uuid_text (sb_id b) = i) bs = Some b"
  shows "\<exists>b'. find (\<lambda>b. uuid_text (sb_id b) = i) bs' = Some b' \<and> same_batch b b'"
  by (rule find_later [OF assms(1) _ assms(2)]) (auto dest: same_batch_fields(1))

lemma find_child_later:
  assumes "batches_later bs bs'" "find (\<lambda>b. sb_previous b = k) bs = Some b"
  shows "\<exists>b'. find (\<lambda>b. sb_previous b = k) bs' = Some b' \<and> same_batch b b'"
  by (rule find_later [OF assms(1) _ assms(2)]) (auto dest: same_batch_fields(3))

lemma deliveries_batches: "mapT (deliver cr i now) ts s = Inr (us, s') \<Longrightarrow> sync_batches s' = sync_batches s"
proof (induction ts arbitrary: s us)
  case (Cons t ts)
  then obtain u s1 us' where "deliver cr i now t s = Inr (u, s1)" "mapT (deliver cr i now) ts s1 = Inr (us', s')"
    by (auto simp: tx_iffs)
  with Cons.IH show ?case by (elim deliver_effect) auto
qed (simp add: tx_simps)

lemma send_batches:
  assumes "send cr e now at p type txn v s = Inr (u, s')"
  shows "sync_batches s' = sync_batches s"
  using assms
proof (rule send_cases)
  fix device r hash assume run: "send_transaction cr e now at p device r hash s = Inr (u, s')"
  show ?thesis
  proof (cases "previous_send s device r")
    case None
    from send_transaction_fresh [OF run None] obtain ts s1 where
      t: "create_tombstone e p device r hash now s = Inr (uuid_at e (draws s), s1)" and
      m: "mapT (deliver cr (uuid_at e (draws s)) now) ts s1 = Inr (map (\<lambda>_. ()) ts, s')" by metis
    show ?thesis using deliveries_batches [OF m] tombstone_effect(2) [OF t] by simp
  next
    case (Some t)
    with run show ?thesis by (auto simp: send_transaction_def split: if_splits)
  qed
qed

lemma chosen_batches:
  "chosen_batch cr e p device since x s = Inr (b, s') \<Longrightarrow> batches_later (sync_batches s) (sync_batches s')"
  by (cases since) (auto simp: chosen_batch_def batches_later_refl batches_later_append batches_later_map
      elim!: initial_cases incremental_cases dest!: createSyncBatch_effect(1) acknowledge_effect)

lemma op_batches: "transport_op_run cr e op s = Inr s' \<Longrightarrow> batches_later (sync_batches s) (sync_batches s')"
proof (cases op)
  case (OpSend now at p type txn v)
  assume "transport_op_run cr e op s = Inr s'"
  with OpSend show ?thesis by (auto simp: map_sum_snd batches_later_refl dest: send_batches)
next
  case (OpSync now p since timeout)
  assume "transport_op_run cr e op s = Inr s'"
  with OpSync obtain y where "sync cr e now p since timeout s = Inr (y, s')" by (auto simp: map_sum_snd)
  then show ?thesis by (rule sync_cases) (rule chosen_batches)
qed

lemma run_batches: "transport_run cr e s s' \<Longrightarrow> batches_later (sync_batches s) (sync_batches s')"
  by (induction rule: transport_run.induct) (auto intro: batches_later_refl batches_later_trans op_batches)

text \<open>The successor of the batch a token names.\<close>

definition child_of :: "string \<Rightarrow> sync_batch list \<Rightarrow> sync_batch option" where
  "child_of i bs = (case find (\<lambda>b. uuid_text (sb_id b) = i) bs of
     None \<Rightarrow> None | Some parent \<Rightarrow> find (\<lambda>b. sb_previous b = Some (sb_id parent)) bs)"

lemma child_later:
  assumes "batches_later bs bs'" "child_of i bs = Some b"
  shows "\<exists>b'. child_of i bs' = Some b' \<and> same_batch b b'"
proof -
  from assms(2) obtain parent where p: "find (\<lambda>b. uuid_text (sb_id b) = i) bs = Some parent"
    and c: "find (\<lambda>b. sb_previous b = Some (sb_id parent)) bs = Some b"
    by (auto simp: child_of_def split: option.splits)
  obtain parent' where p': "find (\<lambda>b. uuid_text (sb_id b) = i) bs' = Some parent'" "same_batch parent parent'"
    using find_named_later [OF assms(1) p] by blast
  obtain b' where "find (\<lambda>b. sb_previous b = Some (sb_id parent)) bs' = Some b'" "same_batch b b'"
    using find_child_later [OF assms(1) c] by blast
  with p' show ?thesis by (simp add: child_of_def same_batch_fields)
qed

lemma requireSyncBatch_named:
  assumes "requireSyncBatch cr device token now s = Inr parent"
  obtains i where "parseMatrixSyncTokenBatchId token = Inr i"
    "find (\<lambda>b. uuid_text (sb_id b) = i) (sync_batches s) = Some parent"
  using assms by (auto simp: requireSyncBatch_def split: sum.splits option.splits if_splits)

lemma incremental_named:
  assumes "incremental_batch cr e p device token x s = Inr (b, s')"
  obtains i c where "parseMatrixSyncTokenBatchId token = Inr i" "child_of i (sync_batches s') = Some c" "same_batch c b"
  using assms
proof (cases rule: incremental_cases)
  case (replay parent)
  from requireSyncBatch_named [OF replay(1)] obtain i where "parseMatrixSyncTokenBatchId token = Inr i"
    "find (\<lambda>b. uuid_text (sb_id b) = i) (sync_batches s) = Some parent" by blast
  with that [of i b] replay(2,4) show ?thesis by (simp add: child_of_def)
next
  case (created parent s1)
  from requireSyncBatch_named [OF created(1)] obtain i where i: "parseMatrixSyncTokenBatchId token = Inr i"
    and f: "find (\<lambda>b. uuid_text (sb_id b) = i) (sync_batches s) = Some parent" by blast
  note eff = createSyncBatch_effect [OF created(3)]
  let ?ack = "ack_row (sb_id parent) (sx_now x)"
  have bs: "sync_batches s' = map ?ack (sync_batches s) @ [?ack b]"
    using acknowledge_effect [OF created(4)] eff(1) by simp
  have ack: "batches_later (sync_batches s) (sync_batches s')" unfolding bs by (rule batches_later_map) simp
  obtain parent' where p': "find (\<lambda>b. uuid_text (sb_id b) = i) (sync_batches s') = Some parent'" "same_batch parent parent'"
    using find_named_later [OF ack f] by blast
  have "find (\<lambda>k. sb_previous k = Some (sb_id parent)) (map ?ack (sync_batches s)) = None"
    using eff(14) by (auto simp: find_None_iff)
  then have "find (\<lambda>k. sb_previous k = Some (sb_id parent)) (sync_batches s') = Some (?ack b)"
    by (simp add: bs find_append eff(4))
  with p' have "child_of i (sync_batches s') = Some (?ack b)" by (simp add: child_of_def same_batch_fields)
  with that [of i "?ack b"] i show ?thesis by (simp add: same_batch_sym)
qed

text \<open>A batch that has a successor gives that successor again.\<close>

lemma incremental_again:
  assumes run: "incremental_batch cr e p device token x s = Inr (b, s')"
    and i: "parseMatrixSyncTokenBatchId token = Inr i" and c: "child_of i (sync_batches s) = Some c"
  shows "s' = s \<and> b = c"
  using run
proof (cases rule: incremental_cases)
  case (replay parent)
  from requireSyncBatch_named [OF replay(1)] i have
    "find (\<lambda>b. uuid_text (sb_id b) = i) (sync_batches s) = Some parent" by auto
  with c replay(2,4) show ?thesis by (simp add: child_of_def)
next
  case (created parent s1)
  from requireSyncBatch_named [OF created(1)] i have
    "find (\<lambda>b. uuid_text (sb_id b) = i) (sync_batches s) = Some parent" by auto
  with c have "find (\<lambda>b. sb_previous b = Some (sb_id parent)) (sync_batches s) = Some c" by (simp add: child_of_def)
  then have "c \<in> set (sync_batches s)" "sb_previous c = Some (sb_id parent)" by (auto simp: find_Some_iff)
  with createSyncBatch_effect(14) [OF created(3)] show ?thesis by auto
qed

lemma same_response:
  assumes "same_batch b c" "buildSyncResponse cr p b inc now s = Inr (y, s)"
    "buildSyncResponse cr q c inc' now' s' = Inr (z, s')"
  shows "sr_next z = sr_next y \<and> sr_keys z = sr_keys y \<and> sr_fallback_types z = sr_fallback_types y"
  using assms(2,3)
  by (auto simp: buildSyncResponse_def reconstructSyncToken_def same_batch_fields [OF assms(1)]
      split: sum.splits if_splits)

text \<open>The batch an incremental sync answered with is found again as long as it and its predecessor are live.\<close>

lemma incremental_replays:
  fixes s :: "'x e2e_db_scheme"
  assumes run: "incremental_batch cr e p device token x s = Inr (b, s1)"
  shows "\<exists>parent i. parseMatrixSyncTokenBatchId token = Inr i \<and> uuid_text (sb_id parent) = i \<and>
    sx_now x < sb_expires parent \<and> sx_now x < sb_expires b \<and>
    (\<forall>(s2 :: 'x e2e_db_scheme) x' q. batches_later (sync_batches s1) (sync_batches s2) \<longrightarrow>
       (\<exists>k \<in> set (sync_batches s2). same_batch parent k) \<and> (\<exists>k \<in> set (sync_batches s2). same_batch b k) \<and>
       (sx_now x' < sb_expires parent \<longrightarrow> sx_now x' < sb_expires b \<longrightarrow>
         (\<exists>c. incremental_batch cr e q device token x' s2 = Inr (c, s2) \<and> same_batch b c)))"
proof -
  have "\<exists>parent. requireSyncBatch cr device token (sx_now x) s = Inr parent \<and> sx_now x < sb_expires b \<and>
      batches_later (sync_batches s) (sync_batches s1)"
    using run
  proof (cases rule: incremental_cases)
    case (created parent s0)
    note eff = createSyncBatch_effect [OF created(3)]
    have "sync_batches s1 = map (ack_row (sb_id parent) (sx_now x)) (sync_batches s) @
        [ack_row (sb_id parent) (sx_now x) b]"
      using acknowledge_effect [OF created(4)] eff(1) by simp
    then show ?thesis using created(1) eff(11) by (simp add: batches_later_map)
  qed (auto simp: batches_later_refl)
  then obtain parent where req: "requireSyncBatch cr device token (sx_now x) s = Inr parent"
    and live: "sx_now x < sb_expires b" and l1: "batches_later (sync_batches s) (sync_batches s1)" by blast
  note found = requireSyncBatch_found [OF req]
  obtain i where i: "parseMatrixSyncTokenBatchId token = Inr i"
    and f: "find (\<lambda>b. uuid_text (sb_id b) = i) (sync_batches s) = Some parent" by (rule requireSyncBatch_named [OF req])
  obtain i' c where "parseMatrixSyncTokenBatchId token = Inr i'" "child_of i' (sync_batches s1) = Some c"
    "same_batch c b" by (rule incremental_named [OF run])
  then have child: "child_of i (sync_batches s1) = Some c" "same_batch c b" using i by simp_all
  have again: "(\<exists>k \<in> set (sync_batches s2). same_batch parent k) \<and> (\<exists>k \<in> set (sync_batches s2). same_batch b k) \<and>
       (sx_now x' < sb_expires parent \<longrightarrow> sx_now x' < sb_expires b \<longrightarrow>
         (\<exists>c. incremental_batch cr e q device token x' s2 = Inr (c, s2) \<and> same_batch b c))"
    if l2: "batches_later (sync_batches s1) (sync_batches s2)" for s2 :: "'x e2e_db_scheme" and x' q
  proof -
    obtain k where k: "find (\<lambda>b. uuid_text (sb_id b) = i) (sync_batches s2) = Some k" "same_batch parent k"
      using find_named_later [OF batches_later_trans [OF l1 l2] f] by blast
    obtain d where d: "child_of i (sync_batches s2) = Some d" "same_batch c d"
      using child_later [OF l2 child(1)] by blast
    have bd: "same_batch b d" using child(2) d(2) same_batch_sym same_batch_trans by blast
    have succ: "find (\<lambda>b. sb_previous b = Some (sb_id k)) (sync_batches s2) = Some d"
      using d(1) k(1) by (simp add: child_of_def)
    have members: "k \<in> set (sync_batches s2)" "d \<in> set (sync_batches s2)"
      using k(1) succ by (auto simp: find_Some_iff)
    note same = same_batch_fields [OF k(2)] same_batch_fields [OF bd]
    have "incremental_batch cr e q device token x' s2 = Inr (d, s2)"
      if "sx_now x' < sb_expires parent" "sx_now x' < sb_expires b"
      using i k(1) succ that found(2,4) same
      by (simp add: incremental_batch_def requireSyncBatch_def)
    with bd k(2) members show ?thesis by blast
  qed
  have "uuid_text (sb_id parent) = i" using f by (auto simp: find_Some_iff)
  with i found(3) live again show ?thesis by blast
qed

lemma same_answer_again:
  assumes "same_batch b c" "buildSyncResponse cr p b inc now s = Inr (y, s)"
  shows "\<exists>z. buildSyncResponse cr q c inc' now' s' = Inr (z, s') \<and> sr_next z = sr_next y \<and> sr_keys z = sr_keys y \<and>
    sr_fallback_types z = sr_fallback_types y"
  using assms(2)
  by (auto simp: buildSyncResponse_def reconstructSyncToken_def same_batch_fields [OF assms(1)]
      split: sum.splits if_splits)

text \<open>A sync leaves what the check of the session reads as it was.\<close>

lemma sync_frame:
  assumes "sync cr e now p rawSince rawTimeout s = Inr (y, s')"
  shows "sessions s' = sessions s \<and> users s' = users s \<and> devices s' = devices s \<and> matrix_keys s' = matrix_keys s \<and>
    cursors s' = cursors s \<and> list_position s' = list_position s"
  using assms
proof (rule sync_cases)
  fix device since x b
  assume b: "chosen_batch cr e p device since x s = Inr (b, s')"
  show ?thesis
  proof (cases since)
    case None
    with b have "initial_batch cr e p device x s = Inr (b, s')" by (simp add: chosen_batch_def)
    then show ?thesis
    proof (cases rule: initial_cases)
      case created
      show ?thesis unfolding createSyncBatch_effect(1) [OF created] by simp
    qed simp
  next
    case (Some token)
    with b have "incremental_batch cr e p device token x s = Inr (b, s')" by (simp add: chosen_batch_def)
    then show ?thesis
    proof (cases rule: incremental_cases)
      case (created parent s1)
      show ?thesis
        unfolding acknowledge_effect [OF created(4)] createSyncBatch_effect(1) [OF created(3)] by simp
    qed simp
  qed
qed

lemma lock_again:
  assumes "sync cr e now p rawSince rawTimeout s = Inr (y, s')" "lockSyncContext q d t s = Inr (x, s)"
  shows "lockSyncContext q d t s' = Inr (x, s')"
proof -
  have f: "sessions s' = sessions s" "users s' = users s" "devices s' = devices s" "matrix_keys s' = matrix_keys s"
    "cursors s' = cursors s" "list_position s' = list_position s" using sync_frame [OF assms(1)] by simp_all
  have rows: "[\<lparr>sx_now = t, sx_latest = cu_latest c, sx_list = list_position s\<rparr>.
        se \<leftarrow> sessions s, se_id se = pn_session q \<and> se_user se = pn_id q \<and> se_device se = Some d \<and>
          se_revoked se = None \<and> t < se_expires se,
        u \<leftarrow> users s, u_id u = se_user se \<and> se_version se = u_session_version u \<and> u_status u = AccActive \<and>
          \<not> u_reset_required u,
        dv \<leftarrow> devices s, d_id dv = d \<and> d_status dv = DevActive,
        k \<leftarrow> matrix_keys s, mk_device k = d_id dv,
        c \<leftarrow> cursors s, cu_device c = d_id dv] = [x]"
    using assms(2) by (auto simp: lockSyncContext_def Let_def split: list.splits)
  show ?thesis unfolding lockSyncContext_def Let_def f rows by simp
qed

text \<open>A batch a sync added is the one it created.\<close>

lemma new_batch:
  assumes ok: "transport_ok e s" and b0: "chosen_batch cr e p device since x s = Inr (b0, s')"
    and b: "b \<in> set (sync_batches s')" "sb_id b \<notin> sb_id ` set (sync_batches s)"
  obtains previous start fromList s1 where "b = b0"
    "createSyncBatch cr e (pn_id p) device previous start fromList x s = Inr (b, s1)"
    "filter (\<lambda>v. ev_device v = device \<and> start < ev_seq v) (td_events s') =
       filter (\<lambda>v. ev_device v = device \<and> start < ev_seq v) (td_events s)"
    "previous = None \<and> start = 0 \<and> fromList = 0 \<or>
     (\<exists>parent \<in> set (sync_batches s). previous = Some (sb_id parent) \<and> start = sb_up_to parent \<and> fromList = sb_list parent \<and>
        sb_device parent = device \<and> sb_acked parent = None \<and> sx_now x < sb_expires parent)"
proof (cases since)
  case None
  with b0 have "initial_batch cr e p device x s = Inr (b0, s')" by (simp add: chosen_batch_def)
  then show ?thesis
  proof (cases rule: initial_cases)
    case created
    note eff = createSyncBatch_effect [OF created]
    have "b = b0" using b eff(1) by auto
    with that [of None 0 0 s'] created eff(1) show ?thesis by simp
  qed (use b in auto)
next
  case (Some token)
  with b0 have "incremental_batch cr e p device token x s = Inr (b0, s')" by (simp add: chosen_batch_def)
  then show ?thesis
  proof (cases rule: incremental_cases)
    case (created parent s1)
    note eff = createSyncBatch_effect [OF created(3)] and found = requireSyncBatch_found [OF created(1)]
    have s': "s' = s\<lparr>draws := Suc (draws s),
        sync_batches := map (ack_row (sb_id parent) (sx_now x)) (sync_batches s @ [b0]),
        td_events := filter (\<lambda>v. \<not> (ev_device v = device \<and> ev_seq v \<le> sb_up_to parent)) (td_events s)\<rparr>"
      using acknowledge_effect [OF created(4)] eff(1) by simp
    have "b = ack_row (sb_id parent) (sx_now x) b0" using b by (auto simp: s')
    moreover from this have "sb_id b0 \<noteq> sb_id parent" using b(2) found(1) by auto
    ultimately have eq: "b = b0" by (simp add: ack_other)
    have "filter (\<lambda>v. ev_device v = device \<and> sb_up_to parent < ev_seq v) (td_events s') =
        filter (\<lambda>v. ev_device v = device \<and> sb_up_to parent < ev_seq v) (td_events s)"
      by (auto simp: s' intro!: filter_cong)
    then show ?thesis
      using that [of "Some (sb_id parent)" "sb_up_to parent" "sb_list parent" s1] eq created found by blast
  qed (use b in auto)
qed

lemma window_events_alt: "window_events s b now = sort_key ev_seq (filter (\<lambda>v. ev_seq v \<le> sb_up_to b \<and> now < ev_expires v)
    (filter (\<lambda>v. ev_device v = sb_device b \<and> sb_from b < ev_seq v) (td_events s)))"
  unfolding window_events_def filter_filter
  by (rule arg_cong [where f = "sort_key ev_seq"], rule filter_cong) auto

text \<open>
  What the schema demands of an inserted batch: the insert branch of the trigger function
  sinochat_validate_matrix_sync_batch, the trigger function of the replay window, the CHECK
  constraints of the table, its primary key and its two unique indexes.  The foreign key of the
  device is the cursor row the first trigger reads.
\<close>

definition sync_batch_accepted :: "'x e2e_db_scheme \<Rightarrow> sync_batch \<Rightarrow> bool" where
  "sync_batch_accepted s b \<longleftrightarrow>
     (case sb_previous b of
        None \<Rightarrow> sb_from b = 0 \<and> sb_from_list b = 0
      | Some i \<Rightarrow> (case find (\<lambda>k. sb_id k = i) (sync_batches s) of
          None \<Rightarrow> False
        | Some k \<Rightarrow> sb_device k = sb_device b \<and> sb_up_to k = sb_from b \<and> sb_list k = sb_from_list b \<and>
            sb_created k \<le> sb_created b \<and> sb_created b < sb_expires k \<and> sb_acked k = None)) \<and>
     (case find (\<lambda>c. cu_device c = sb_device b) (cursors s) of
        None \<Rightarrow> False | Some c \<Rightarrow> sb_up_to b \<le> cu_latest c) \<and>
     sb_list b \<le> list_position s \<and> sb_from b \<le> sb_up_to b \<and>
     sb_from_list b \<le> sb_list b \<and> sb_expires b \<le> sb_created b + 2592000000 \<and>
     sb_expires b \<le> sb_created b + TO_DEVICE_TTL_MS \<and>
     (\<forall>v \<in> set (td_events s). ev_device v = sb_device b \<longrightarrow> sb_from b < ev_seq v \<longrightarrow> ev_seq v \<le> sb_up_to b \<longrightarrow>
        sb_created b < ev_expires v \<longrightarrow> sb_expires b \<le> ev_expires v) \<and>
     sb_created b < sb_expires b \<and> (case sb_acked b of None \<Rightarrow> True | Some t \<Rightarrow> sb_created b \<le> t) \<and>
     hash_shape (sb_hash b) \<and> sb_keys b \<le> 100 \<and>
     (\<forall>k \<in> set (sync_batches s). sb_id k \<noteq> sb_id b \<and> sb_hash k \<noteq> sb_hash b \<and>
        (sb_previous b \<noteq> None \<longrightarrow> sb_previous k \<noteq> sb_previous b))"

lemma created_hash_fresh:
  assumes "createSyncBatch cr e user device previous from fromList x s = Inr (b, s')" "k \<in> set (sync_batches s)"
  shows "sb_hash k \<noteq> sb_hash b"
  using assms by (auto simp: createSyncBatch_def Let_def split: if_splits sum.splits)

section \<open>A sync does not fail by itself\<close>

definition hashes_ok :: "crypto \<Rightarrow> sync_batch list \<Rightarrow> bool" where
  "hashes_ok cr bs \<longleftrightarrow> (\<forall>b \<in> set bs. \<exists>i. issueMatrixSyncToken (cr_mac cr) (cr_sha cr) (token_data b) = Inr i \<and>
     sb_hash b = it_hash i)"

text \<open>The hash of a token for the next identifier is none of the stored ones.\<close>

definition hash_fresh :: "crypto \<Rightarrow> env \<Rightarrow> 'x e2e_db_scheme \<Rightarrow> bool" where
  "hash_fresh cr e s \<longleftrightarrow> (\<forall>k i. issueMatrixSyncToken (cr_mac cr) (cr_sha cr) k = Inr i \<longrightarrow>
     sd_id k = uuid_text (uuid_at e (draws s)) \<longrightarrow> it_hash i \<notin> sb_hash ` set (sync_batches s))"

lemma foldl_min_gt: "(n :: int) < a \<Longrightarrow> \<forall>v \<in> set vs. n < f v \<Longrightarrow> n < foldl (\<lambda>t v. min t (f v)) a vs"
  by (induction vs arbitrary: a) auto

lemma window_end_ge:
  assumes "rows = take 100 (sort_key key (filter P all))" "\<And>r. P r \<Longrightarrow> start < key r" "start \<le> latest"
  shows "start \<le> window_end rows key latest"
proof (cases "length rows < 100")
  case True
  then show ?thesis using assms(3) by (simp add: window_end_def)
next
  case False
  then have "rows \<noteq> []" by auto
  from take_sorted_last(2) [OF assms(1) this] assms(2) False show ?thesis
    by (simp add: window_end_def less_imp_le)
qed

lemma create_total:
  assumes "start \<le> sx_latest x" "lstart \<le> sx_list x" "unclaimed_keys s device \<le> 100" "hash_fresh cr e s"
    "\<forall>b \<in> set (sync_batches s). previous \<noteq> None \<longrightarrow> sb_previous b \<noteq> previous"
  shows "createSyncBatch cr e user device previous start lstart x s \<noteq> Inl err"
proof -
  let ?w = "event_window s device start (sx_latest x) (sx_now x)"
  let ?c = "change_window s user lstart (sx_list x)"
  define up where "up = (if length ?w < 100 then sx_latest x else ev_seq (last ?w))"
  define lt where "lt = (if length ?c < 100 then sx_list x else lc_position (last ?c))"
  define ex where "ex = foldl (\<lambda>t v. min t (ev_expires v)) (sx_now x + TO_DEVICE_TTL_MS) ?w"
  have up: "start \<le> up" unfolding up_def window_end_def [symmetric]
    by (rule window_end_ge [OF event_window_def _ assms(1)]) simp
  have lt: "lstart \<le> lt" unfolding lt_def window_end_def [symmetric]
    by (rule window_end_ge [OF change_window_def _ assms(2)]) simp
  have "\<forall>v \<in> set ?w. sx_now x < ev_expires v" by (auto simp: event_window_def dest: in_set_takeD)
  then have ex: "sx_now x < ex" unfolding ex_def by (intro foldl_min_gt) simp_all
  have good: "token_data_ok \<lparr>sd_id = uuid_text i, sd_device = uuid_text device, sd_previous = map_option uuid_text previous,
      sd_from = int start, sd_up_to = int up, sd_from_list = int lstart, sd_list = int lt,
      sd_keys = int (unclaimed_keys s device), sd_fallback = f\<rparr>" for i f
    using up lt assms(3) by (auto simp: token_data_ok_def uuid_text_shape safe_integer_def split: option.splits)
  let ?k = "\<lparr>sd_id = uuid_text (uuid_at e (draws s)), sd_device = uuid_text device,
      sd_previous = map_option uuid_text previous, sd_from = int start, sd_up_to = int up, sd_from_list = int lstart,
      sd_list = int lt, sd_keys = int (unclaimed_keys s device), sd_fallback = unused_fallback s device\<rparr>"
  obtain i where i: "issueMatrixSyncToken (cr_mac cr) (cr_sha cr) ?k = Inr i" using good tokens.issue_good by blast
  then have "it_hash i \<notin> sb_hash ` set (sync_batches s)" using assms(4) unfolding hash_fresh_def by fastforce
  then have "\<forall>b \<in> set (sync_batches s). sb_hash b \<noteq> it_hash i" by (metis image_eqI)
  then show ?thesis
    unfolding createSyncBatch_def Let_def up_def [symmetric] lt_def [symmetric] ex_def [symmetric]
    using ex i assms(5) by (auto simp: token_data_def)
qed

lemma acknowledge_total:
  assumes "distinct (map sb_id bs)" "parent \<in> set bs" "sb_acked parent = None" "sync_batches s = bs @ [b]"
    "sb_id b \<noteq> sb_id parent"
  shows "acknowledge device parent now s \<noteq> Inl err"
proof -
  let ?P = "\<lambda>b. sb_id b = sb_id parent \<and> sb_acked b = None"
  have "count_where ?P bs \<le> count_where (\<lambda>b. sb_id b = sb_id parent) bs" by (rule count_where_mono) simp
  also have "\<dots> \<le> 1" by (rule count_where_key_le [OF assms(1)])
  finally have "count_where ?P bs \<le> 1" .
  moreover have "0 < count_where ?P bs" using assms(2,3) by (intro count_where_pos) auto
  ultimately have "count_where ?P (sync_batches s) = 1" using assms(4,5) by simp
  then show ?thesis by (simp add: acknowledge_def Let_def)
qed

lemma reconstruct_total:
  assumes "crypto_ok (cr_mac cr) (cr_sha cr)" "hashes_ok cr bs" "c \<in> set bs" "same_batch c b"
  shows "reconstructSyncToken cr b \<noteq> Inl err"
proof -
  from assms(2,3) obtain i where i: "issueMatrixSyncToken (cr_mac cr) (cr_sha cr) (token_data b) = Inr i"
    "sb_hash b = it_hash i" using same_batch_fields(6,7) [OF assms(4)] by (auto simp: hashes_ok_def)
  from tokens.verify_issued [OF assms(1) i(1)] i show ?thesis by (simp add: reconstructSyncToken_def)
qed

lemma chosen_total:
  assumes ok: "transport_ok e s" and h: "hash_fresh cr e s" and k: "\<forall>d. unclaimed_keys s d \<le> 100"
    and x: "sx_latest x = latest_of s device" "sx_list x = list_position s"
    and f: "chosen_batch cr e p device since x s = Inl err"
  shows "err = unknownSyncPosition"
proof (cases since)
  case None
  have "createSyncBatch cr e (pn_id p) device None 0 0 x s \<noteq> Inl err"
    using h k by (intro create_total) auto
  with None f show ?thesis by (auto simp: chosen_batch_def initial_batch_def split: option.splits)
next
  case (Some token)
  with f have f: "incremental_batch cr e p device token x s = Inl err" by (simp add: chosen_batch_def)
  show ?thesis
  proof (cases "requireSyncBatch cr device token (sx_now x) s")
    case (Inl err')
    with f show ?thesis
      by (auto simp: incremental_batch_def requireSyncBatch_def split: sum.splits option.splits if_splits)
  next
    case (Inr parent)
    note found = requireSyncBatch_found [OF Inr]
    have b: "batch_ok s parent" and d: "distinct (map sb_id (sync_batches s))"
      using ok found(1) by (simp_all add: transport_ok_def succession_ok_def)
    show ?thesis
    proof (cases "find (\<lambda>b. sb_previous b = Some (sb_id parent)) (sync_batches s) \<noteq> None \<or> sb_acked parent \<noteq> None")
      case True
      with f Inr show ?thesis by (auto simp: incremental_batch_def split: option.splits if_splits)
    next
      case False
      then have none: "\<forall>b \<in> set (sync_batches s). sb_previous b \<noteq> Some (sb_id parent)" "sb_acked parent = None"
        by (auto simp: find_None_iff)
      let ?c = "createSyncBatch cr e (pn_id p) device (Some (sb_id parent)) (sb_up_to parent) (sb_list parent) x s"
      have "?c \<noteq> Inl err'" for err'
        using b h k none found(2) x by (intro create_total) (auto simp: batch_ok_def)
      then obtain n s1 where c: "?c = Inr (n, s1)" by (cases ?c) auto
      note eff = createSyncBatch_effect [OF c]
      have "sb_id n \<notin> batch_ids (sync_batches s)"
        using ok supply_ok_fresh eff(2) unfolding transport_ok_def by (metis order_refl)
      then have "sb_id n \<noteq> sb_id parent" using found(1) by (auto simp: batch_ids_def)
      then have "acknowledge device parent (sx_now x) s1 \<noteq> Inl err'" for err'
        by (intro acknowledge_total [OF d found(1) none(2), where b = n]) (simp_all add: eff(1))
      with f Inr False c show ?thesis by (auto simp: incremental_batch_def tx_iffs)
    qed
  qed
qed

lemma rev_member: "rev xs = b # r \<Longrightarrow> b \<in> set xs"
  by (metis list.set_intros(1) set_rev)

lemma open_initial_member: "open_initial s device now = Some b \<Longrightarrow> b \<in> set (sync_batches s)"
  unfolding open_initial_def by (auto split: list.splits dest!: rev_member simp del: rev_eq_Cons_iff)

lemma chosen_member:
  assumes "chosen_batch cr e p device since x s = Inr (b, s')" "hashes_ok cr (sync_batches s)"
  shows "reconstructSyncToken cr b \<noteq> Inl err \<or> \<not> crypto_ok (cr_mac cr) (cr_sha cr)"
proof -
  have member: "b \<in> set (sync_batches s) \<or> hashes_ok cr [b]"
  proof (cases since)
    case None
    with assms(1) have "initial_batch cr e p device x s = Inr (b, s')" by (simp add: chosen_batch_def)
    then show ?thesis
    proof (cases rule: initial_cases)
      case replay
      then show ?thesis by (simp add: open_initial_member)
    next
      case created
      from createSyncBatch_effect(13) [OF this] show ?thesis by (simp add: hashes_ok_def)
    qed
  next
    case (Some token)
    with assms(1) have "incremental_batch cr e p device token x s = Inr (b, s')" by (simp add: chosen_batch_def)
    then show ?thesis
    proof (cases rule: incremental_cases)
      case (replay parent)
      then show ?thesis by (auto simp: find_Some_iff)
    next
      case (created parent s1)
      from createSyncBatch_effect(13) [OF created(3)] show ?thesis by (simp add: hashes_ok_def)
    qed
  qed
  then show ?thesis
    using reconstruct_total [of cr "sync_batches s" b b] reconstruct_total [of cr "[b]" b b] assms(2) by auto
qed

end
