(* ===== verification/TransportClaims.thy ===== *)
theory TransportClaims
  imports Transport
begin

text \<open>
  The properties of the to-device transport over the lemmas of Transport, and their witnesses: a
  client sends one message to its cashier, whose device syncs, acknowledges and retries.
\<close>

section \<open>Properties\<close>

text \<open>C13: any sequence of sends and syncs keeps the queues in order and below their cursors, the acknowledged
  events gone, and the sync batches of every device a chain of adjoining windows without branches.\<close>

theorem transport_invariant:
  assumes "transport_run cr e s s'" "transport_ok e s"
  shows "queue_ok s' \<and> (\<forall>b \<in> set (sync_batches s'). batch_ok s' b) \<and> succession_ok (sync_batches s')"
  using run_keeps [OF assms] by (simp add: transport_ok_def)

text \<open>C14: a send may be repeated: after it succeeded, in any later state the same request of the same device
  succeeds again and changes nothing, and another content under its transaction identifier is a
  conflict.\<close>

theorem resend_is_idempotent:
  assumes "send cr e now at p type txn v s = Inr (u, s1)" "transport_run cr e s1 s2" "pn_device q = pn_device p"
  shows "send cr e now' at' q type txn v s2 = Inr ((), s2) \<and>
    (\<forall>w h. request_hash cr type txn w = Inr h \<longrightarrow> request_hash cr type txn v \<noteq> Inr h \<longrightarrow>
       send cr e now' at' q type txn w s2 =
         Inl (Conflict ''El identificador sendToDevice ya pertenece a otro contenido.''))"
  using assms(1)
proof (rule send_cases)
  fix device r hash
  assume d: "pn_device p = Some device" and r: "parseMatrixToDeviceRequest type txn v = Inr r"
    and h: "hashMatrixCanonicalJson (cr_sha cr) (matrixToDeviceHashInput r) = Inr hash"
    and run: "send_transaction cr e now at p device r hash s = Inr (u, s1)"
  have v: "request_hash cr type txn v = Inr hash" using r h by (simp add: request_hash_def parseRequest_def)
  from send_tombstone [OF run] obtain t where t: "previous_send s1 device r = Some t" "tt_hash t = hash" by blast
  have seen: "previous_send s2 device r' = Some t" if "tr_type r' = type" "tr_transaction r' = txn" for r'
    using previous_send_later [OF run_later [OF assms(2)] t(1)] previous_send_key [of r r' s2 device] that parse_request_ok [OF r]
    by simp
  have q: "pn_device q = Some device" using d assms(3) by simp
  show ?thesis using send_seen [OF q _ seen] v t(2) by simp
qed

text \<open>C15: a send under a new transaction identifier appends to the queues one event for each target of the
  request and nothing else.  Each goes to an active device with the Matrix address asked for, carries the
  content of the request for it encrypted to the device's own Curve25519 key, lives 48 hours, and its user
  is the sender or the counterpart of an eligible conversation of the sender, which the event names.\<close>

theorem send_delivers_each_target:
  assumes "send cr e now at p type txn v s = Inr (w, s')" "parseMatrixToDeviceRequest type txn v = Inr r"
    "pn_device p = Some device" "previous_send s device r = None"
  shows "\<exists>evs. td_events s' = td_events s @ evs \<and> length evs = tr_targets r \<and>
    (\<forall>(u, d, c) \<in> set (requested_targets r). \<exists>v \<in> set evs. ev_content v = c \<and>
       (\<exists>k \<in> set (matrix_keys s). mk_matrix_user k = u \<and> mk_matrix_device k = d \<and> ev_device v = mk_device k \<and>
          ev_user v = mk_user k \<and> map fst (oc_ciphertext c) = [mk_curve k])) \<and>
    (\<forall>v \<in> set evs. ev_expires v = now + TO_DEVICE_TTL_MS \<and>
       (\<exists>dv \<in> set (devices s). d_id dv = ev_device v \<and> d_status dv = DevActive) \<and>
       permitted s (pn_id p) (ev_user v) (ev_conversation v))"
  using assms(1)
proof (rule send_cases)
  fix device' r' hash
  assume "pn_device p = Some device'" "parseMatrixToDeviceRequest type txn v = Inr r'"
    "send_transaction cr e now at p device' r' hash s = Inr (w, s')"
  with assms(2,3) have run: "send_transaction cr e now at p device r hash s = Inr (w, s')" by simp
  have ok: "request_ok r" using parse_request_ok [OF assms(2)] by blast
  then have count: "tr_targets r = target_count (tr_messages r)" by (simp add: request_ok_def)
  from send_transaction_fresh [OF run assms(4)] obtain curve ts s1 where
    res: "resolveTargets p at r curve s = Inr (ts, s)" and
    t: "create_tombstone e p device r hash now s = Inr (uuid_at e (draws s), s1)" and
    m: "mapT (deliver cr (uuid_at e (draws s)) now) ts s1 = Inr (map (\<lambda>_. ()) ts, s')" by metis
  from deliveries_effect [OF m] tombstone_effect(2) [OF t] obtain evs where evs: "td_events s' = td_events s @ evs"
    and two: "list_all2 (\<lambda>t v. \<exists>n h. v = event_for cr (uuid_at e (draws s)) now t n h) ts evs" by auto
  note all = resolved_targets [OF ok res]
  have sent: "\<exists>v \<in> set evs. ev_content v = c \<and>
       (\<exists>k \<in> set (matrix_keys s). mk_matrix_user k = u \<and> mk_matrix_device k = d \<and> ev_device v = mk_device k \<and>
          ev_user v = mk_user k \<and> map fst (oc_ciphertext c) = [mk_curve k])"
    if "(u, d, c) \<in> set (requested_targets r)" for u d c
  proof -
    from all(2) that obtain t where t: "t \<in> set ts" "target_of s (pn_id p) curve (u, d, c) t" by blast
    from list_all2_ex(1) [OF two] t(1) obtain v n h where "v \<in> set evs"
      "v = event_for cr (uuid_at e (draws s)) now t n h" by blast
    with t(2) show ?thesis by (auto simp: target_of_def event_for_def intro!: bexI [where x = v])
  qed
  have fair: "ev_expires v = now + TO_DEVICE_TTL_MS \<and>
       (\<exists>dv \<in> set (devices s). d_id dv = ev_device v \<and> d_status dv = DevActive) \<and>
       permitted s (pn_id p) (ev_user v) (ev_conversation v)" if "v \<in> set evs" for v
  proof -
    from list_all2_ex(2) [OF two] that obtain t n h where "t \<in> set ts"
      "v = event_for cr (uuid_at e (draws s)) now t n h" by blast
    with all(3) show ?thesis by (fastforce simp: target_of_def event_for_def)
  qed
  show ?thesis using evs list_all2_lengthD [OF two] all(1) count sent fair by (intro exI [where x = evs]) auto
qed

text \<open>C16: an event leaves its queue only when its own device presents, unexpired and not acknowledged before, the
  token of a window that reaches it; a sync adds no event.\<close>

theorem sync_removes_only_acknowledged:
  assumes "sync cr e now p rawSince rawTimeout s = Inr (y, s')"
  shows "set (td_events s') \<subseteq> set (td_events s) \<and>
    (\<forall>v \<in> set (td_events s) - set (td_events s').
       \<exists>token. \<exists>parent \<in> set (sync_batches s). parseSince rawSince = Inr (Some token) \<and>
         verifyMatrixSyncToken (cr_mac cr) (cr_sha cr) token (sb_hash parent) (token_data parent) \<and>
         now < sb_expires parent \<and> sb_acked parent = None \<and> pn_device p = Some (sb_device parent) \<and>
         ev_device v = sb_device parent \<and> ev_seq v \<le> sb_up_to parent)"
  using assms
proof (rule sync_cases)
  fix device since x b
  assume d: "pn_device p = Some device" and since: "parseSince rawSince = Inr since" and x: "sx_now x = now"
    and b: "chosen_batch cr e p device since x s = Inr (b, s')"
  show ?thesis
  proof (cases since)
    case None
    then have "td_events s' = td_events s" using b
      by (auto simp: chosen_batch_def elim!: initial_cases dest!: createSyncBatch_effect(1))
    then show ?thesis by simp
  next
    case (Some token)
    with b have "incremental_batch cr e p device token x s = Inr (b, s')" by (simp add: chosen_batch_def)
    then show ?thesis
    proof (cases rule: incremental_cases)
      case (created parent s1)
      note found = requireSyncBatch_found [OF created(1)]
      have events: "td_events s' = filter (\<lambda>v. \<not> (ev_device v = device \<and> ev_seq v \<le> sb_up_to parent)) (td_events s)"
        using acknowledge_effect [OF created(4)] createSyncBatch_effect(1) [OF created(3)] by simp
      show ?thesis unfolding events using found d since Some created(2) x
        by (intro conjI ballI exI [where x = token] bexI [where x = parent]) auto
    qed simp
  qed
qed

text \<open>C17: repeating an incremental sync is safe.  At the same instant it succeeds, with the same next token and key
  counts, and changes nothing.  At any later time, after any further sends and syncs, it succeeds with
  that answer while the session is valid and neither the batch its token names nor the batch of the
  answer has expired; and whenever it succeeds it gives that answer and changes nothing.\<close>

theorem sync_replay:
  fixes s :: "'x e2e_db_scheme"
  assumes crypto: "crypto_ok (cr_mac cr) (cr_sha cr)" and run: "sync cr e now p rawSince rawTimeout s = Inr (y, s1)"
    and since: "parseSince rawSince = Inr (Some token)" and later: "transport_run cr e s1 s2"
    and device: "pn_device p = Some d" "pn_device q = Some d"
  shows "(\<exists>z. sync cr e now p rawSince rawTimeout s1 = Inr (z, s1) \<and> sr_next z = sr_next y \<and>
      sr_keys z = sr_keys y \<and> sr_fallback_types z = sr_fallback_types y) \<and>
    ((\<exists>x. lockSyncContext q d now' s2 = Inr (x, s2)) \<longrightarrow>
      (\<forall>b \<in> set (sync_batches s2). parseMatrixSyncTokenBatchId token = Inr (uuid_text (sb_id b)) \<or>
         parseMatrixSyncTokenBatchId (sr_next y) = Inr (uuid_text (sb_id b)) \<longrightarrow> now' < sb_expires b) \<longrightarrow>
      (\<exists>z. sync cr e now' q rawSince rawTimeout s2 = Inr (z, s2) \<and> sr_next z = sr_next y)) \<and>
    (\<forall>z s3. sync cr e now' q rawSince rawTimeout s2 = Inr (z, s3) \<longrightarrow> s3 = s2 \<and> sr_next z = sr_next y \<and>
      sr_keys z = sr_keys y \<and> sr_fallback_types z = sr_fallback_types y)"
  using run
proof (rule sync_cases)
  fix device since' x b
  assume "pn_device p = Some device" "parseSince rawSince = Inr since'"
    and timeout: "parseSyncTimeout rawTimeout = Inr ()" and lock: "lockSyncContext p device now s = Inr (x, s)"
    and x: "sx_now x = now"
    and b: "chosen_batch cr e p device since' x s = Inr (b, s1)"
    and y: "buildSyncResponse cr p b (since' \<noteq> None) now s1 = Inr (y, s1)"
  then have eq: "device = d" "since' = Some token" using device(1) since by simp_all
  have inc: "incremental_batch cr e p d token x s = Inr (b, s1)"
    using b eq by (simp add: chosen_batch_def)
  obtain parent i where i: "parseMatrixSyncTokenBatchId token = Inr i" "uuid_text (sb_id parent) = i"
    and live: "sx_now x < sb_expires parent" "sx_now x < sb_expires b"
    and again: "\<And>(s2 :: 'x e2e_db_scheme) x' q. batches_later (sync_batches s1) (sync_batches s2) \<Longrightarrow>
       (\<exists>k \<in> set (sync_batches s2). same_batch parent k) \<and> (\<exists>k \<in> set (sync_batches s2). same_batch b k) \<and>
       (sx_now x' < sb_expires parent \<longrightarrow> sx_now x' < sb_expires b \<longrightarrow>
         (\<exists>c. incremental_batch cr e q d token x' s2 = Inr (c, s2) \<and> same_batch b c))"
    using incremental_replays [OF inc] by blast
  have answers: "\<exists>z. sync cr e t q rawSince rawTimeout s2 = Inr (z, s2) \<and> sr_next z = sr_next y \<and>
      sr_keys z = sr_keys y \<and> sr_fallback_types z = sr_fallback_types y"
    if "batches_later (sync_batches s1) (sync_batches s2)" "pn_device q = Some d"
      "lockSyncContext q d t s2 = Inr (x', s2)" "t < sb_expires parent" "t < sb_expires b" for s2 :: "'x e2e_db_scheme" and q t x'
  proof -
    have t: "sx_now x' = t" using lockSyncContext_effect [OF that(3)] by simp
    from again [OF that(1), of x' q] that(4,5) t obtain c where
      c: "incremental_batch cr e q d token x' s2 = Inr (c, s2)" "same_batch b c" by auto
    from same_answer_again [OF c(2) y, of q True t s2] obtain z where
      "buildSyncResponse cr q c True t s2 = Inr (z, s2)" "sr_next z = sr_next y" "sr_keys z = sr_keys y"
      "sr_fallback_types z = sr_fallback_types y" by blast
    with c(1) that(2,3) timeout since t show ?thesis
      by (simp add: sync_def requireBoundDevice_def bindT_def chosen_batch_def)
  qed
  have lock1: "lockSyncContext p d now s1 = Inr (x, s1)"
    using lock_again [OF run] lock eq(1) by simp
  have one: "\<exists>z. sync cr e now p rawSince rawTimeout s1 = Inr (z, s1) \<and> sr_next z = sr_next y \<and>
      sr_keys z = sr_keys y \<and> sr_fallback_types z = sr_fallback_types y"
    using answers [OF batches_later_refl device(1) lock1] live x by simp
  note bs = run_batches [OF later]
  have named: "parseMatrixSyncTokenBatchId (sr_next y) = Inr (uuid_text (sb_id b))"
    using y tokens.batch_issued [OF crypto]
    by (fastforce simp: buildSyncResponse_def reconstructSyncToken_def token_data_def split: sum.splits if_splits)
  have two: "\<exists>z. sync cr e now' q rawSince rawTimeout s2 = Inr (z, s2) \<and> sr_next z = sr_next y"
    if "\<exists>x. lockSyncContext q d now' s2 = Inr (x, s2)"
      "\<forall>b \<in> set (sync_batches s2). parseMatrixSyncTokenBatchId token = Inr (uuid_text (sb_id b)) \<or>
         parseMatrixSyncTokenBatchId (sr_next y) = Inr (uuid_text (sb_id b)) \<longrightarrow> now' < sb_expires b"
  proof -
    from again [OF bs] obtain k k' where k: "k \<in> set (sync_batches s2)" "same_batch parent k"
      "k' \<in> set (sync_batches s2)" "same_batch b k'" by blast
    note same = same_batch_fields [OF k(2)] same_batch_fields [OF k(4)]
    have "now' < sb_expires parent" using that(2) k(1) i same by auto
    moreover have "now' < sb_expires b" using that(2) k(3) named same by auto
    ultimately show ?thesis using answers [OF bs device(2)] that(1) by blast
  qed
  have three: "s3 = s2 \<and> sr_next z = sr_next y \<and> sr_keys z = sr_keys y \<and> sr_fallback_types z = sr_fallback_types y"
    if "sync cr e now' q rawSince rawTimeout s2 = Inr (z, s3)" for z s3
    using that
  proof (rule sync_cases)
    fix device' since'' x' b'
    assume "pn_device q = Some device'" "parseSince rawSince = Inr since''"
      and b': "chosen_batch cr e q device' since'' x' s2 = Inr (b', s3)"
      and z: "buildSyncResponse cr q b' (since'' \<noteq> None) now' s3 = Inr (z, s3)"
    then have inc': "incremental_batch cr e q d token x' s2 = Inr (b', s3)"
      using since device by (auto simp: chosen_batch_def)
    obtain i' c where "parseMatrixSyncTokenBatchId token = Inr i'" and
      child: "child_of i' (sync_batches s1) = Some c" "same_batch c b" by (rule incremental_named [OF inc])
    then have i': "i' = i" using i by simp
    from child_later [OF bs child(1)] obtain c' where
      c': "child_of i (sync_batches s2) = Some c'" "same_batch c c'" unfolding i' by blast
    from incremental_again [OF inc' i(1) c'(1)] have "s3 = s2" "b' = c'" by blast+
    moreover have "same_batch b c'" using child(2) c'(2) same_batch_sym same_batch_trans by blast
    ultimately show ?thesis using same_response y z by blast
  qed
  show ?thesis using one two three by blast
qed

text \<open>C18: the window of a new batch is named by the token the sync answers with, holds at most 100 of the live
  events of the device and stops short of the cursor only when it holds 100.  The batch expires before
  none of its events does, and the deletion of the acknowledged events leaves the window as it was.\<close>

theorem sync_window:
  assumes "transport_ok e s" "sync cr e now p rawSince rawTimeout s = Inr (y, s')"
    "b \<in> set (sync_batches s')" "sb_id b \<notin> sb_id ` set (sync_batches s)"
  shows "(\<exists>i. issueMatrixSyncToken (cr_mac cr) (cr_sha cr) (token_data b) = Inr i \<and> sr_next y = it_token i) \<and>
    length (window_events s b now) \<le> 100 \<and>
    (sb_up_to b < latest_of s (sb_device b) \<longrightarrow> length (window_events s b now) = 100) \<and>
    now < sb_expires b \<and> (\<forall>v \<in> set (window_events s b now). sb_expires b \<le> ev_expires v) \<and>
    window_events s' b now = window_events s b now"
  using assms(2)
proof (rule sync_cases)
  fix device since x b0
  assume x: "sx_now x = now" "sx_latest x = latest_of s device"
    and b0: "chosen_batch cr e p device since x s = Inr (b0, s')"
    and y: "buildSyncResponse cr p b0 (since \<noteq> None) now s' = Inr (y, s')"
  obtain previous start fromList s1 where
    eq: "b = b0" and
    c: "createSyncBatch cr e (pn_id p) device previous start fromList x s = Inr (b, s1)" and
    f: "filter (\<lambda>v. ev_device v = device \<and> start < ev_seq v) (td_events s') =
       filter (\<lambda>v. ev_device v = device \<and> start < ev_seq v) (td_events s)" and
    link: "previous = None \<and> start = 0 \<and> fromList = 0 \<or>
     (\<exists>parent \<in> set (sync_batches s). previous = Some (sb_id parent) \<and> start = sb_up_to parent \<and> fromList = sb_list parent \<and>
        sb_device parent = device \<and> sb_acked parent = None \<and> sx_now x < sb_expires parent)"
    by (rule new_batch [OF assms(1) b0 assms(3,4)])
  note eff = createSyncBatch_effect [OF c]
  have "queue_ok s" using assms(1) by (simp add: transport_ok_def)
  note w = created_window [OF this c, unfolded x]
  have "\<exists>i. issueMatrixSyncToken (cr_mac cr) (cr_sha cr) (token_data b) = Inr i \<and> sr_next y = it_token i"
    using y unfolding eq by (auto simp: buildSyncResponse_def reconstructSyncToken_def split: sum.splits if_splits)
  moreover have "window_events s' b now = window_events s b now"
    by (simp only: window_events_alt eff(3,5) f)
  ultimately show ?thesis using w eff(3,11) x by simp
qed

text \<open>C19: every batch a sync inserts is accepted by the triggers, the CHECK constraints, the primary key and the
  unique indexes of its table, when the clock has not gone back behind the batches there are and the
  hash function gives hexadecimal digests.\<close>

theorem sync_batch_satisfies_schema:
  assumes "transport_ok e s" "\<forall>k \<in> set (sync_batches s). sb_created k \<le> now"
    "sync cr e now p rawSince rawTimeout s = Inr (y, s')"
    "b \<in> set (sync_batches s')" "sb_id b \<notin> sb_id ` set (sync_batches s)"
    "crypto_ok (cr_mac cr) (cr_sha cr)"
  shows "sync_batch_accepted s b"
  using assms(3)
proof (rule sync_cases)
  fix device since x b0
  assume lock: "lockSyncContext p device now s = Inr (x, s)"
    and x: "sx_now x = now" "sx_latest x = latest_of s device" "sx_list x = list_position s"
    and b0: "chosen_batch cr e p device since x s = Inr (b0, s')"
  obtain previous start fromList s1 where
    eq: "b = b0" and
    c: "createSyncBatch cr e (pn_id p) device previous start fromList x s = Inr (b, s1)" and
    f: "filter (\<lambda>v. ev_device v = device \<and> start < ev_seq v) (td_events s') =
       filter (\<lambda>v. ev_device v = device \<and> start < ev_seq v) (td_events s)" and
    link: "previous = None \<and> start = 0 \<and> fromList = 0 \<or>
     (\<exists>parent \<in> set (sync_batches s). previous = Some (sb_id parent) \<and> start = sb_up_to parent \<and> fromList = sb_list parent \<and>
        sb_device parent = device \<and> sb_acked parent = None \<and> sx_now x < sb_expires parent)"
    by (rule new_batch [OF assms(1) b0 assms(4,5)])
  note eff = createSyncBatch_effect [OF c] and range = createSyncBatch_range [OF c]
  have q: "queue_ok s" and ids: "distinct (map sb_id (sync_batches s))"
    using assms(1) by (simp_all add: transport_ok_def succession_ok_def)
  note w = created_window [OF q c, unfolded x]
  have keys: "sb_keys b \<le> 100" using eff(13) tokens.issue_good [of "token_data b"]
    by (auto simp: token_data_ok_def token_data_def)
  have prev: "case sb_previous b of
        None \<Rightarrow> sb_from b = 0 \<and> sb_from_list b = 0
      | Some i \<Rightarrow> (case find (\<lambda>k. sb_id k = i) (sync_batches s) of
          None \<Rightarrow> False
        | Some k \<Rightarrow> sb_device k = sb_device b \<and> sb_up_to k = sb_from b \<and> sb_list k = sb_from_list b \<and>
            sb_created k \<le> sb_created b \<and> sb_created b < sb_expires k \<and> sb_acked k = None)"
    using link assms(2) eff x find_key_eq [OF ids] by auto
  have cursor: "case find (\<lambda>c. cu_device c = sb_device b) (cursors s) of
      None \<Rightarrow> False | Some c \<Rightarrow> sb_up_to b \<le> cu_latest c"
    using lockSyncContext_effect(5) [OF lock] range(2) eff(3) by auto
  have hash: "hash_shape (sb_hash b)" using eff(13) issued_shape [OF assms(6)] by auto
  have unique: "\<forall>k \<in> set (sync_batches s). sb_id k \<noteq> sb_id b \<and> sb_hash k \<noteq> sb_hash b \<and>
        (sb_previous b \<noteq> None \<longrightarrow> sb_previous k \<noteq> sb_previous b)"
  proof (intro ballI conjI impI)
    fix k assume k: "k \<in> set (sync_batches s)"
    show "sb_id k \<noteq> sb_id b" using assms(5) k by (metis imageI)
    show "sb_hash k \<noteq> sb_hash b" by (rule created_hash_fresh [OF c k])
    show "sb_previous k \<noteq> sb_previous b" if "sb_previous b \<noteq> None"
      using eff(4,14) k that by simp
  qed
  have "\<forall>v \<in> set (td_events s). ev_device v = sb_device b \<longrightarrow> sb_from b < ev_seq v \<longrightarrow> ev_seq v \<le> sb_up_to b \<longrightarrow>
      sb_created b < ev_expires v \<longrightarrow> sb_expires b \<le> ev_expires v"
    using w(5) eff(9) x by (auto simp: window_events_def)
  then show ?thesis
    using prev cursor hash unique range keys w(4) eff(9,10,11) x by (simp add: sync_batch_accepted_def)
qed

text \<open>A sync fails only for the reasons it reports: a session without a device, a malformed timeout, a token that
  names no live window of the device, or a session that is no longer valid.  None of its internal errors,
  conflicts and unique violations can occur.\<close>

theorem sync_failures:
  assumes "transport_ok e s" "hashes_ok cr (sync_batches s)" "crypto_ok (cr_mac cr) (cr_sha cr)" "hash_fresh cr e s"
    "\<forall>d. unclaimed_keys s d \<le> 100" "sync cr e now p rawSince rawTimeout s = Inl err"
  shows "err \<in> {Forbidden ''La sesion no esta vinculada a un dispositivo Matrix.'', BadRequest ''M_INVALID_PARAM'',
    BadRequest ''M_UNKNOWN_POS'', Unauthorized ''La sesion Matrix ya no esta vigente.''}"
proof (cases "requireBoundDevice p")
  case (Inl err')
  with assms(6) show ?thesis by (auto simp: sync_def requireBoundDevice_def split: option.splits)
next
  case (Inr device)
  note device = this
  show ?thesis
  proof (cases "parseSyncTimeout rawTimeout")
    case (Inl err')
    with assms(6) device show ?thesis
      by (auto simp: sync_def parseSyncTimeout_def split: query.splits if_splits)
  next
    case (Inr u)
    note timeout = this
    show ?thesis
    proof (cases "parseSince rawSince")
      case (Inl err')
      with assms(6) device timeout show ?thesis
        by (auto simp: sync_def parseSince_def split: query.splits if_splits)
    next
      case (Inr since)
      show ?thesis
      proof (cases "lockSyncContext p device now s")
        case (Inl err')
        with assms(6) device timeout \<open>parseSince rawSince = Inr since\<close> show ?thesis
          by (auto simp: sync_def bindT_Inl lockSyncContext_def Let_def split: list.splits)
      next
        case ctx: (Inr r)
        obtain x s0 where r: "r = (x, s0)" by (cases r)
        note eff = lockSyncContext_effect [OF ctx [unfolded r]]
        from assms(6) device timeout Inr ctx have
          "bindT (chosen_batch cr e p device since x) (\<lambda>b. buildSyncResponse cr p b (since \<noteq> None) (sx_now x)) s = Inl err"
          by (simp add: sync_def bindT_def r eff(1))
        then consider "chosen_batch cr e p device since x s = Inl err"
          | b s' where "chosen_batch cr e p device since x s = Inr (b, s')"
              "buildSyncResponse cr p b (since \<noteq> None) (sx_now x) s' = Inl err"
          by (auto simp: bindT_Inl_iff)
        then show ?thesis
        proof cases
          case 1
          from chosen_total [OF assms(1,4,5) eff(3,4) 1] show ?thesis by simp
        next
          case 2
          from chosen_member [OF 2(1) assms(2)] assms(3) 2(2) show ?thesis
            by (auto simp: buildSyncResponse_def split: sum.splits)
        qed
      qed
    qed
  qed
qed

section \<open>Witnesses\<close>

definition demo_token :: "uuid \<Rightarrow> string" where
  "demo_token i = ''sct1.'' @ uuid_text i @ ''.'' @ replicate 43 (CHR ''A'')"

definition demo_crypto_pair :: crypto where
  "demo_crypto_pair = \<lparr>cr_mac = \<lambda>_. replicate 43 (CHR ''A''), 
     cr_sha = \<lambda>t. replicate 64 (if length t = 85 then if t = demo_token 9 then CHR ''1'' else CHR ''0'' else CHR ''0'')\<rparr>"

definition demo_ids :: env where
  "demo_ids = \<lparr>uuid_at = \<lambda>i. i + 7, random_at = \<lambda>_ _. 0, has_publisher = False\<rparr>"

definition demo_device_keys :: device_keys where
  "demo_device_keys = \<lparr>dk_algorithms = [], dk_device = [], dk_keys = [], dk_signatures = [], dk_user = []\<rparr>"

definition demo_transport :: e2e_db where
  "demo_transport = \<lparr>draws = 0, users = users demo_world, cashiers = cashiers demo_world,
     subscriptions = subscriptions demo_world, blocks = [], assignments = assignments demo_world,
     conversations = conversations demo_world, requests = [], notifications = [], audits = [],
     devices = [\<lparr>d_id = 60, d_user = 1, d_status = DevActive, d_protocol = ''matrix-olm-v1'', d_binding = []\<rparr>,
       \<lparr>d_id = 61, d_user = 2, d_status = DevActive, d_protocol = ''matrix-olm-v1'', d_binding = []\<rparr>],
     list_states = [], list_position = 0, list_changes = [],
     sessions = [\<lparr>se_id = 70, se_user = 1, se_device = Some 60, se_expires = 1000, se_revoked = None, se_version = 0\<rparr>,
       \<lparr>se_id = 71, se_user = 2, se_device = Some 61, se_expires = 1000, se_revoked = None, se_version = 0\<rparr>],
     matrix_keys = [\<lparr>mk_device = 60, mk_user = 1, mk_matrix_user = ''@u'' @ replicate 32 (CHR ''3'') @ '':s'',
         mk_matrix_device = CHR ''D'' # replicate 32 (CHR ''4''), mk_curve = replicate 43 (CHR ''B''), mk_ed25519 = replicate 43 (CHR ''B''),
         mk_keys = demo_device_keys, mk_hash = [], mk_uploaded = 0\<rparr>,
       \<lparr>mk_device = 61, mk_user = 2, mk_matrix_user = ''@u'' @ replicate 32 (CHR ''1'') @ '':s'',
         mk_matrix_device = CHR ''D'' # replicate 32 (CHR ''2''), mk_curve = replicate 43 (CHR ''A''), mk_ed25519 = replicate 43 (CHR ''A''),
         mk_keys = demo_device_keys, mk_hash = [], mk_uploaded = 0\<rparr>],
     cursors = [\<lparr>cu_device = 60, cu_latest = 0\<rparr>, \<lparr>cu_device = 61, cu_latest = 0\<rparr>],
     td_transactions = [], td_events = [], sync_batches = [], one_time_keys = [],
     fallback_keys = [], fallback_slots = [], registrations = []\<rparr>"

definition demo_client :: principal where
  "demo_client = \<lparr>pn_id = 1, pn_role = CLIENT, pn_session = 70, pn_device = Some 60\<rparr>"

definition demo_cashier :: principal where
  "demo_cashier = \<lparr>pn_id = 2, pn_role = CASHIER, pn_session = 71, pn_device = Some 61\<rparr>"

definition demo_body :: json where
  "demo_body = JObj [(''messages'', messages_json (tr_messages (demo_request (IntNum 1))))]"

definition demo_sent :: e2e_db where
  "demo_sent = demo_transport\<lparr>draws := 1,
     cursors := [\<lparr>cu_device = 60, cu_latest = 0\<rparr>, \<lparr>cu_device = 61, cu_latest = 1\<rparr>],
     td_transactions := [\<lparr>tt_id = 7, tt_session = 70, tt_device = 60, tt_txn = ''t1'', tt_type = MATRIX_OLM_EVENT_TYPE,
       tt_hash = replicate 64 (CHR ''0''), tt_created = 10\<rparr>],
     td_events := [\<lparr>ev_tx = 7, ev_user = 2, ev_device = 61, ev_seq = 1, ev_conversation = Some 50,
       ev_content = demo_content (IntNum 1), ev_hash = replicate 64 (CHR ''0''), ev_created = 10, ev_expires = 172800010\<rparr>]\<rparr>"

lemma demo_parse: "parseMatrixToDeviceRequest MATRIX_OLM_EVENT_TYPE ''t1'' demo_body = Inr (demo_request (IntNum 1))"
  using parse_request_back [OF conjunct1 [OF demo_request_ok] demo_limits [OF disjI1 [OF refl]]]
  by (simp add: demo_body_def demo_request_def)

lemma demo_hash:
  "hashMatrixCanonicalJson (cr_sha demo_crypto_pair) (matrixToDeviceHashInput (demo_request (IntNum 1))) =
     Inr (replicate 64 (CHR ''0''))"
  by code_simp

lemma demo_send_transaction:
  "send_transaction demo_crypto_pair demo_ids 10 (\<lambda>_. 10) demo_client 60 (demo_request (IntNum 1))
     (replicate 64 (CHR ''0'')) demo_transport = Inr ((), demo_sent)"
  by code_simp

lemma demo_send:
  "send demo_crypto_pair demo_ids 10 (\<lambda>_. 10) demo_client MATRIX_OLM_EVENT_TYPE ''t1'' demo_body demo_transport =
     Inr ((), demo_sent)"
  using demo_parse demo_hash demo_send_transaction
  by (simp add: send_def requireBoundDevice_def demo_client_def parseRequest_def)

definition demo_batch :: "uuid \<Rightarrow> uuid option \<Rightarrow> nat \<Rightarrow> time \<Rightarrow> time \<Rightarrow> time option \<Rightarrow> sync_batch" where
  "demo_batch i previous start created expires acked = \<lparr>sb_id = i, sb_device = 61, sb_previous = previous,
     sb_from = start, sb_up_to = 1, sb_from_list = 0, sb_list = 0, sb_keys = 0, sb_fallback = False,
     sb_hash = replicate 64 (CHR ''0''), sb_created = created, sb_expires = expires, sb_acked = acked\<rparr>"

definition demo_response :: "uuid \<Rightarrow> out_event list \<Rightarrow> list_changes_out option \<Rightarrow> sync_response" where
  "demo_response i events changes = \<lparr>sr_next = demo_token i, sr_events = events, sr_keys = 0, sr_fallback_types = [],
     sr_lists = changes\<rparr>"

definition demo_synced :: e2e_db where
  "demo_synced = demo_sent\<lparr>draws := 2, sync_batches := [demo_batch 8 None 0 20 172800010 None]\<rparr>"

lemma demo_tokens: "demo_token 8 \<noteq> demo_token 9" "uuid_text 8 \<noteq> uuid_text 9"
  using uuid_text_inj [of 8 9] by (auto simp: demo_token_def uuid_text_shape uuid_shape_length)

lemma demo_pair_ok: "crypto_ok (cr_mac demo_crypto_pair) (cr_sha demo_crypto_pair)"
  by (simp add: crypto_ok_def demo_crypto_pair_def hash_shape_def base64url_char_def alphanumeric_def
      lower_hex_def list_all_iff)

lemma demo_issue:
  assumes "a \<le> b" "k \<le> 100" "c \<le> d"
  shows "issueMatrixSyncToken (cr_mac demo_crypto_pair) (cr_sha demo_crypto_pair) \<lparr>sd_id = uuid_text i,
     sd_device = uuid_text n, sd_previous = map_option uuid_text o', sd_from = int a, sd_up_to = int b,
     sd_from_list = int c, sd_list = int d, sd_keys = int k, sd_fallback = f\<rparr> =
    Inr \<lparr>it_token = demo_token i, it_hash = cr_sha demo_crypto_pair (demo_token i)\<rparr>"
  using assms
  by (auto simp: issueMatrixSyncToken_def assertTokenData_def token_data_ok_def uuid_text_shape safe_integer_def
      demo_token_def demo_crypto_pair_def Let_def split: option.splits)

lemma demo_verify:
  assumes "a \<le> b" "k \<le> 100" "c \<le> d"
  shows "verifyMatrixSyncToken (cr_mac demo_crypto_pair) (cr_sha demo_crypto_pair) (demo_token i)
     (cr_sha demo_crypto_pair (demo_token i)) \<lparr>sd_id = uuid_text i,
     sd_device = uuid_text n, sd_previous = map_option uuid_text o', sd_from = int a, sd_up_to = int b,
     sd_from_list = int c, sd_list = int d, sd_keys = int k, sd_fallback = f\<rparr>"
  using tokens.verify_issued [OF demo_pair_ok demo_issue [OF assms]] by simp

lemma demo_parse_token: "parseMatrixSyncTokenBatchId (demo_token i) = Inr (uuid_text i)"
  using tokens.batch_issued [OF demo_pair_ok demo_issue [of 0 0 0 0 0]] by simp

lemma demo_token_length: "length (demo_token i) = 85"
  by (simp add: demo_token_def uuid_shape_length uuid_text_shape)

lemma demo_nonempty: "demo_token i \<noteq> []"
  by (simp add: demo_token_def)

lemma demo_hashes: "cr_sha demo_crypto_pair (demo_token 8) = replicate 64 (CHR ''0'')"
  "cr_sha demo_crypto_pair (demo_token 9) = replicate 64 (CHR ''1'')"
  using demo_tokens by (simp_all add: demo_crypto_pair_def demo_token_length)

lemmas demo_state_defs = demo_sent_def demo_transport_def demo_world_def empty_db_def demo_synced_def
  demo_cashier_def demo_ids_def demo_batch_def demo_response_def demo_hashes

lemmas sync_defs = sync_def requireBoundDevice_def parseSyncTimeout_def parseSince_def lockSyncContext_def bindT_def
  chosen_batch_def initial_batch_def open_initial_def incremental_batch_def requireSyncBatch_def createSyncBatch_def
  acknowledge_def returnT_def Let_def event_window_def change_window_def token_data_def unclaimed_keys_def
  unused_fallback_def buildSyncResponse_def reconstructSyncToken_def buildDeviceListChanges_def
  deliverable_events_def delivery_relation_def participant_def usable_client_def usable_cashier_def
  verified_profile_def in_period_def

lemma demo_first_sync:
  "sync demo_crypto_pair demo_ids 20 demo_cashier QAbsent QAbsent demo_sent =
     Inr (demo_response 8 [\<lparr>oe_sender = ''@u'' @ replicate 32 (CHR ''3'') @ '':s'', oe_type = MATRIX_OLM_EVENT_TYPE,
       oe_content = demo_content (IntNum 1)\<rparr>] None, demo_synced)"
  using demo_issue [of 0 1 0 0 0 8 61 None False] demo_verify [of 0 1 0 0 0 8 61 None False]
  by (simp add: sync_defs demo_state_defs)

definition demo_acknowledged :: e2e_db where
  "demo_acknowledged = demo_synced\<lparr>draws := 3, td_events := [],
     sync_batches := [demo_batch 8 None 0 20 172800010 (Some 30),
       (demo_batch 9 (Some 8) 1 30 172800030 None)\<lparr>sb_hash := replicate 64 (CHR ''1'')\<rparr>]\<rparr>"

lemma demo_second_sync:
  "sync demo_crypto_pair demo_ids 30 demo_cashier (QString (demo_token 8)) QAbsent demo_synced =
     Inr (demo_response 9 [] (Some \<lparr>lo_changed = [], lo_left = []\<rparr>), demo_acknowledged)"
  using demo_issue [of 1 1 0 0 0 9 61 "Some 8" False] demo_verify [of 1 1 0 0 0 9 61 "Some 8" False]
    demo_verify [of 0 1 0 0 0 8 61 None False] demo_token_length [of 8] demo_nonempty demo_tokens(2)
  by (simp add: sync_defs demo_state_defs demo_acknowledged_def demo_parse_token)

lemma demo_third_sync:
  "sync demo_crypto_pair demo_ids 40 demo_cashier (QString (demo_token 8)) QAbsent demo_acknowledged =
     Inr (demo_response 9 [] (Some \<lparr>lo_changed = [], lo_left = []\<rparr>), demo_acknowledged)"
  using demo_issue [of 1 1 0 0 0 9 61 "Some 8" False] demo_verify [of 1 1 0 0 0 9 61 "Some 8" False]
    demo_verify [of 0 1 0 0 0 8 61 None False] demo_token_length [of 8] demo_nonempty demo_tokens(2)
  by (simp add: sync_defs demo_state_defs demo_acknowledged_def demo_parse_token)

lemma demo_transport_ok: "transport_ok demo_ids demo_transport"
  by (simp add: transport_ok_def queue_ok_def device_seqs_def succession_ok_def tombstones_ok_def batch_ids_def
      supply_ok_def demo_transport_def demo_ids_def)

lemma demo_sent_ok: "transport_ok demo_ids demo_sent"
  by (rule send_keeps [OF demo_transport_ok demo_send])

lemma demo_synced_ok: "transport_ok demo_ids demo_synced"
  by (rule sync_keeps [OF demo_sent_ok demo_first_sync])

lemma demo_send_step: "transport_run demo_crypto_pair demo_ids demo_transport demo_sent"
  using transport_run.step [OF transport_run.idle, where op = "OpSend 10 (\<lambda>_. 10) demo_client MATRIX_OLM_EVENT_TYPE ''t1'' demo_body"]
    demo_send by (simp add: map_sum_snd)

lemma demo_sync_step: "transport_run demo_crypto_pair demo_ids demo_sent demo_synced"
  by (rule transport_run.step [OF transport_run.idle, where op = "OpSync 20 demo_cashier QAbsent QAbsent"])
    (simp add: demo_first_sync)

theorem transport_invariant_witness: "queue_ok demo_sent"
  using transport_invariant [OF demo_send_step demo_transport_ok] by blast

theorem resend_is_idempotent_witness:
  "send demo_crypto_pair demo_ids 25 (\<lambda>_. 25) demo_client MATRIX_OLM_EVENT_TYPE ''t1'' demo_body demo_synced =
     Inr ((), demo_synced)"
  using resend_is_idempotent [OF demo_send demo_sync_step refl, of 25 "\<lambda>_. 25"] by blast

theorem send_delivers_each_target_witness:
  "\<exists>evs. td_events demo_sent = td_events demo_transport @ evs \<and> length evs = 1"
proof -
  have "pn_device demo_client = Some 60" "previous_send demo_transport 60 (demo_request (IntNum 1)) = None"
    by (simp_all add: demo_client_def previous_send_def demo_transport_def)
  from send_delivers_each_target [OF demo_send demo_parse this] show ?thesis by (auto simp: demo_request_def)
qed

theorem sync_removes_only_acknowledged_witness:
  "ev_device (hd (td_events demo_synced)) = 61 \<and> ev_seq (hd (td_events demo_synced)) \<le> 1"
proof -
  have batches: "set (sync_batches demo_synced) = {demo_batch 8 None 0 20 172800010 None}" by (simp add: demo_synced_def)
  have "hd (td_events demo_synced) \<in> set (td_events demo_synced) - set (td_events demo_acknowledged)"
    by (simp add: demo_synced_def demo_sent_def demo_acknowledged_def)
  with sync_removes_only_acknowledged [OF demo_second_sync, THEN conjunct2, THEN bspec]
  show ?thesis unfolding batches by (auto simp: demo_batch_def)
qed

theorem sync_replay_witness:
  "\<exists>z. sync demo_crypto_pair demo_ids 40 demo_cashier (QString (demo_token 8)) QAbsent demo_acknowledged =
     Inr (z, demo_acknowledged) \<and> sr_next z = demo_token 9"
proof -
  have since: "parseSince (QString (demo_token 8)) = Inr (Some (demo_token 8))"
    by (simp add: parseSince_def demo_token_length demo_nonempty)
  have device: "pn_device demo_cashier = Some 61" by (simp add: demo_cashier_def)
  have lock: "\<exists>x. lockSyncContext demo_cashier 61 40 demo_acknowledged = Inr (x, demo_acknowledged)"
    by (simp add: lockSyncContext_def demo_acknowledged_def demo_state_defs)
  have live: "\<forall>b \<in> set (sync_batches demo_acknowledged). 40 < sb_expires b"
    by (simp add: demo_acknowledged_def demo_batch_def)
  from sync_replay [OF demo_pair_ok demo_second_sync since transport_run.idle device device, of 40] lock live
  show ?thesis by (auto simp: demo_response_def)
qed

theorem sync_window_witness:
  "length (window_events demo_sent (demo_batch 8 None 0 20 172800010 None) 20) \<le> 100 \<and>
   sb_expires (demo_batch 8 None 0 20 172800010 None) = 172800010"
proof -
  have "demo_batch 8 None 0 20 172800010 None \<in> set (sync_batches demo_synced)" by (simp add: demo_synced_def)
  moreover have "sb_id (demo_batch 8 None 0 20 172800010 None) \<notin> sb_id ` set (sync_batches demo_sent)"
    by (simp add: demo_sent_def demo_transport_def)
  ultimately show ?thesis
    using sync_window [OF demo_sent_ok demo_first_sync] by (simp add: demo_batch_def)
qed

theorem sync_batch_satisfies_schema_witness:
  "sync_batch_accepted demo_synced ((demo_batch 9 (Some 8) 1 30 172800030 None)\<lparr>sb_hash := replicate 64 (CHR ''1'')\<rparr>)"
  by (rule sync_batch_satisfies_schema [OF demo_synced_ok _ demo_second_sync])
    (simp_all add: demo_synced_def demo_acknowledged_def demo_batch_def demo_pair_ok)

theorem sync_failures_witness:
  "\<exists>m. sync demo_crypto_pair demo_ids 20 demo_cashier (QString ''x'') QAbsent demo_sent = Inl (BadRequest m)"
proof -
  have run: "sync demo_crypto_pair demo_ids 20 demo_cashier (QString ''x'') QAbsent demo_sent = Inl unknownSyncPosition"
    by (simp add: sync_defs demo_state_defs parseMatrixSyncTokenBatchId_def token_shape_def)
  have none: "hashes_ok demo_crypto_pair (sync_batches demo_sent)" "hash_fresh demo_crypto_pair demo_ids demo_sent"
    "\<forall>d. unclaimed_keys demo_sent d \<le> 100"
    by (simp_all add: hashes_ok_def hash_fresh_def unclaimed_keys_def demo_sent_def demo_transport_def)
  from sync_failures [OF demo_sent_ok none(1) demo_pair_ok none(2,3) run] run show ?thesis by blast
qed

end
