(* ===== verification/JsonParse.thy ===== *)
theory JsonParse
  imports Json Bytes "HOL-Library.Monad_Syntax"
begin

text \<open>
  JSON.parse, by the grammar of RFC 8259, on texts of characters below 256 (\<open>point_char\<close>).
  An integer of at most 53 bits is an IntNum whatever its spelling; any other number is kept by
  its text, so that a larger integer is not an IntNum.  A repeated key of an object takes the last
  value.  The fuel of the parser is twice the length of its text; \<open>json_fuel_enough\<close> shows
  that more fuel changes nothing, \<open>parse_json_text\<close> that JSON.stringify is undone.
\<close>

section \<open>Tokens\<close>

definition json_space :: "char \<Rightarrow> bool" where
  "json_space c \<longleftrightarrow> code c \<in> {9, 10, 13, 32}"

definition skip_ws :: "string \<Rightarrow> string" where
  "skip_ws s = dropWhile json_space s"

definition hex_value :: "char \<Rightarrow> nat option" where
  "hex_value c =
     map_of (zip ''0123456789abcdef'' [0..<16] @ zip ''ABCDEF'' [10..<16]) c"

definition simple_escape :: "char \<Rightarrow> char option" where
  "simple_escape c = map_of
     [(CHR 0x22, CHR 0x22), (CHR 0x5C, CHR 0x5C), (CHR ''/'', CHR ''/''), (CHR ''b'', CHR 0x08),
      (CHR ''f'', CHR 0x0C), (CHR ''n'', CHR 0x0A), (CHR ''r'', CHR 0x0D), (CHR ''t'', CHR 0x09)] c"

definition hex4 :: "char \<Rightarrow> char \<Rightarrow> char \<Rightarrow> char \<Rightarrow> nat option" where
  "hex4 a b c d =
     (case (hex_value a, hex_value b, hex_value c, hex_value d) of
        (Some p, Some q, Some r, Some t) \<Rightarrow> Some (((p * 16 + q) * 16 + r) * 16 + t)
      | _ \<Rightarrow> None)"

text \<open>What follows the backslash of an escape.\<close>

definition escape :: "string \<Rightarrow> (char \<times> string) option" where
  "escape s = (case s of
     [] \<Rightarrow> None
   | e # r \<Rightarrow>
       if e = CHR ''u'' then
         (case r of
            h1 # h2 # h3 # h4 # r' \<Rightarrow> map_option (\<lambda>n. (point_char n, r')) (hex4 h1 h2 h3 h4)
          | _ \<Rightarrow> None)
       else map_option (\<lambda>x. (x, r)) (simple_escape e))"

lemma escape_shorter: "escape s = Some (x, r) \<Longrightarrow> length r < length s"
  by (auto simp: escape_def split: list.splits if_splits)

text \<open>The rest of a string after its opening quote.\<close>

function string_body :: "string \<Rightarrow> (string \<times> string) option" where
  "string_body [] = None"
| "string_body (c # r) =
     (if c = CHR 0x22 then Some ([], r)
      else if c = CHR 0x5C then do {
        (x, r') \<leftarrow> escape r;
        (s, t) \<leftarrow> string_body r';
        Some (x # s, t) }
      else if code c < 32 then None
      else do {
        (s, t) \<leftarrow> string_body r;
        Some (c # s, t) })"
  by pat_completeness auto

termination
  by (relation "measure length") (auto dest: escape_shorter)

definition is_digit :: "char \<Rightarrow> bool" where
  "is_digit c \<longleftrightarrow> 48 \<le> code c \<and> code c \<le> 57"

fun digits_value :: "nat \<Rightarrow> string \<Rightarrow> nat" where
  "digits_value acc [] = acc"
| "digits_value acc (c # r) = digits_value (acc * 10 + (code c - 48)) r"

definition number_value :: "bool \<Rightarrow> nat \<Rightarrow> int \<Rightarrow> string \<Rightarrow> json_number" where
  "number_value neg m x text =
     (let integral = (0 \<le> x \<or> 10 ^ nat (- x) dvd m);
          n = (if 0 \<le> x then m * 10 ^ nat x else m div 10 ^ nat (- x))
      in if m = 0 then (if neg then MinusZero else IntNum 0)
         else if integral \<and> n \<le> 9007199254740991 then IntNum (if neg then - int n else int n)
         else OtherNum text)"

text \<open>Digits, a fraction and an exponent, each of the last two absent or with at least one digit.\<close>

definition some_digits :: "string \<Rightarrow> (string \<times> string) option" where
  "some_digits s = (if takeWhile is_digit s = [] then None
     else Some (takeWhile is_digit s, dropWhile is_digit s))"

definition starts :: "string \<Rightarrow> string \<Rightarrow> bool" where
  "starts cs s \<longleftrightarrow> s \<noteq> [] \<and> hd s \<in> set cs"

definition fraction :: "string \<Rightarrow> (string \<times> string) option" where
  "fraction s = (if starts ''.'' s then some_digits (tl s) else Some ([], s))"

definition exponent :: "string \<Rightarrow> (int \<times> string) option" where
  "exponent s =
     (if starts ''eE'' s then do {
        (ds, r) \<leftarrow> some_digits (if starts ''+-'' (tl s) then tl (tl s) else tl s);
        Some (if starts ''-'' (tl s) then - int (digits_value 0 ds) else int (digits_value 0 ds), r) }
      else Some (0, s))"

text \<open>Sign, digits as a whole and power of ten of a number, with the rest of the text.\<close>

definition decimal :: "string \<Rightarrow> ((bool \<times> nat \<times> int) \<times> string) option" where
  "decimal s = do {
     (ds, r) \<leftarrow> some_digits (if starts ''-'' s then tl s else s);
     if hd ds = CHR ''0'' \<and> 1 < length ds then None else do {
       (fs, r1) \<leftarrow> fraction r;
       (x, r2) \<leftarrow> exponent r1;
       Some ((starts ''-'' s, digits_value 0 (ds @ fs), x - int (length fs)), r2) } }"

definition number :: "string \<Rightarrow> (json_number \<times> string) option" where
  "number s = do {
     ((neg, m, x), r) \<leftarrow> decimal s;
     Some (number_value neg m x (take (length s - length r) s), r) }"

text \<open>The least integer not below a number, exactly; a number kept by its text is read again.\<close>

fun number_ceiling :: "json_number \<Rightarrow> int" where
  "number_ceiling (IntNum n) = n"
| "number_ceiling MinusZero = 0"
| "number_ceiling (OtherNum t) =
     (case decimal t of
        None \<Rightarrow> 0
      | Some ((neg, m, x), _) \<Rightarrow>
          let v = (if 0 \<le> x then int m * 10 ^ nat x
                   else if neg then int m div 10 ^ nat (- x)
                   else - (- int m div 10 ^ nat (- x)))
          in if neg then - v else v)"

text \<open>
  Number.isInteger: every finite double from 2 to the power of 53 on is an integer, and the others
  with an integer value are IntNum.
\<close>

fun number_is_integer :: "json_number \<Rightarrow> bool" where
  "number_is_integer (OtherNum t) \<longleftrightarrow>
     9007199254740992 \<le> \<bar>number_ceiling (OtherNum t)\<bar> \<and> \<bar>number_ceiling (OtherNum t)\<bar> < 2 ^ 1024"
| "number_is_integer _ \<longleftrightarrow> True"

definition literal :: "string \<Rightarrow> json \<Rightarrow> string \<Rightarrow> (json \<times> string) option" where
  "literal w v s = (if take (length w) s = w then Some (v, drop (length w) s) else None)"

section \<open>Values\<close>

definition put_member :: "string \<times> json \<Rightarrow> (string \<times> json) list \<Rightarrow> (string \<times> json) list" where
  "put_member = (\<lambda>(k, v) kvs.
     if k \<in> set (map fst kvs) then upd_where (\<lambda>p. fst p = k) (\<lambda>p. (k, v)) kvs else kvs @ [(k, v)])"

definition object_of :: "(string \<times> json) list \<Rightarrow> json" where
  "object_of kvs = JObj (fold put_member kvs [])"

definition next_char :: "string \<Rightarrow> (char \<times> string) option" where
  "next_char s = (case skip_ws s of [] \<Rightarrow> None | c # r \<Rightarrow> Some (c, r))"

definition expect :: "char \<Rightarrow> string \<Rightarrow> string option" where
  "expect c s = do { (d, r) \<leftarrow> next_char s; if d = c then Some r else None }"

text \<open>The tokens of one character and the literals, by the first character.\<close>

definition parse_scalar :: "char \<Rightarrow> string \<Rightarrow> (json \<times> string) option" where
  "parse_scalar c r =
     (if c = CHR 0x22 then do { (t, r') \<leftarrow> string_body r; Some (JStr t, r') }
      else if c = CHR ''n'' then literal ''null'' JNull (c # r)
      else if c = CHR ''t'' then literal ''true'' (JBool True) (c # r)
      else if c = CHR ''f'' then literal ''false'' (JBool False) (c # r)
      else do { (x, r') \<leftarrow> number (c # r); Some (JNum x, r') })"

fun parse_value :: "nat \<Rightarrow> string \<Rightarrow> (json \<times> string) option"
  and parse_elements :: "nat \<Rightarrow> string \<Rightarrow> (json list \<times> string) option"
  and parse_members :: "nat \<Rightarrow> string \<Rightarrow> ((string \<times> json) list \<times> string) option" where
  "parse_value 0 s = None"
| "parse_value (Suc n) s = do {
     (c, r) \<leftarrow> next_char s;
     if c = CHR ''['' then
       (case expect (CHR '']'') r of
          Some r' \<Rightarrow> Some (JArr [], r')
        | None \<Rightarrow> do { (vs, r') \<leftarrow> parse_elements n r; Some (JArr vs, r') })
     else if c = CHR ''{'' then
       (case expect (CHR ''}'') r of
          Some r' \<Rightarrow> Some (JObj [], r')
        | None \<Rightarrow> do { (kvs, r') \<leftarrow> parse_members n r; Some (object_of kvs, r') })
     else parse_scalar c r }"
| "parse_elements 0 s = None"
| "parse_elements (Suc n) s = do {
     (v, r) \<leftarrow> parse_value n s;
     (c, r') \<leftarrow> next_char r;
     if c = CHR '','' then do { (vs, t) \<leftarrow> parse_elements n r'; Some (v # vs, t) }
     else if c = CHR '']'' then Some ([v], r')
     else None }"
| "parse_members 0 s = None"
| "parse_members (Suc n) s = do {
     r \<leftarrow> expect (CHR 0x22) s;
     (k, r1) \<leftarrow> string_body r;
     r2 \<leftarrow> expect (CHR '':'') r1;
     (v, r3) \<leftarrow> parse_value n r2;
     (c, r4) \<leftarrow> next_char r3;
     if c = CHR '','' then do { (kvs, t) \<leftarrow> parse_members n r4; Some ((k, v) # kvs, t) }
     else if c = CHR ''}'' then Some ([(k, v)], r4)
     else None }"

definition parse_json :: "string \<Rightarrow> json option" where
  "parse_json s =
     (case parse_value (2 * length s + 2) s of
        Some (v, r) \<Rightarrow> if skip_ws r = [] then Some v else None
      | None \<Rightarrow> None)"

section \<open>The fuel is enough\<close>

lemma string_body_shorter: "string_body s = Some (t, r) \<Longrightarrow> length r < length s"
proof (induction s arbitrary: t r rule: string_body.induct)
  case (2 c s)
  show ?case
  proof (cases "c = CHR 0x22 \<or> (c \<noteq> CHR 0x5C \<and> code c < 32)")
    case True
    with "2.prems" show ?thesis by (auto split: if_splits)
  next
    case False
    show ?thesis
    proof (cases "c = CHR 0x5C")
      case True
      with "2.prems" obtain x r' u where "escape s = Some (x, r')" "string_body r' = Some (u, r)"
        by (auto simp: bind_eq_Some_conv)
      with escape_shorter [of s x r'] "2.IH"(1) [of "(x, r')" x r' u r] True show ?thesis by simp
    next
      case nb: False
      with "2.prems" False obtain u where "string_body s = Some (u, r)" by (auto simp: bind_eq_Some_conv)
      with "2.IH"(2) [of u r] nb False show ?thesis by simp
    qed
  qed
qed simp

lemma next_char_shorter: "next_char s = Some (c, r) \<Longrightarrow> length r < length s"
  using length_dropWhile_le [of json_space s] by (auto simp: next_char_def skip_ws_def split: list.splits)

lemma expect_shorter: "expect c s = Some r \<Longrightarrow> length r < length s"
  by (auto simp: expect_def bind_eq_Some_conv split: if_splits dest: next_char_shorter)

lemma some_digits_shorter: "some_digits s = Some (ds, r) \<Longrightarrow> length r < length s"
  using length_dropWhile_le [of is_digit "tl s"]
  by (cases s) (auto simp: some_digits_def split: if_splits)

lemma fraction_shorter: "fraction s = Some (fs, r) \<Longrightarrow> length r \<le> length s"
  by (auto simp: fraction_def split: if_splits dest: some_digits_shorter)

lemma exponent_shorter: "exponent s = Some (x, r) \<Longrightarrow> length r \<le> length s"
  by (auto simp: exponent_def bind_eq_Some_conv split: if_splits dest: some_digits_shorter)

lemma number_shorter: "number s = Some (x, r) \<Longrightarrow> length r < length s"
  by (auto simp: number_def decimal_def bind_eq_Some_conv split: if_splits
    dest!: some_digits_shorter fraction_shorter exponent_shorter)

lemma literal_shorter: "literal w v (c # s) = Some (u, r) \<Longrightarrow> w \<noteq> [] \<Longrightarrow> length r \<le> length s"
  by (cases w) (auto simp: literal_def split: if_splits)

lemma scalar_shorter: "parse_scalar c s = Some (v, r) \<Longrightarrow> length r \<le> length s"
  by (auto simp: parse_scalar_def bind_eq_Some_conv split: if_splits
    dest!: string_body_shorter literal_shorter number_shorter)

lemma parse_shorter:
  "parse_value n s = Some (v, r) \<Longrightarrow> length r < length s"
  "parse_elements n s = Some (vs, r) \<Longrightarrow> length r < length s"
  "parse_members n s = Some (kvs, r) \<Longrightarrow> length r < length s"
proof (induction n s and n s and n s arbitrary: v r and vs r and kvs r
    rule: parse_value_parse_elements_parse_members.induct)
  case (2 n s)
  from "2.prems" obtain c t where c: "next_char s = Some (c, t)" by (auto simp: bind_eq_Some_conv)
  note c' = next_char_shorter [OF c]
  have "length r \<le> length t"
    using "2.prems" "2.IH"(1) [OF c refl] "2.IH"(2) [OF c refl]
    by (auto simp: bind_eq_Some_conv c split: if_splits option.splits
        dest!: expect_shorter scalar_shorter intro: less_imp_le)
  with c' show ?case by simp
next
  case (4 n s)
  from "4.prems" obtain v t c t' where v: "parse_value n s = Some (v, t)" and c: "next_char t = Some (c, t')"
    by (auto simp: bind_eq_Some_conv)
  have "length t' < length s" using "4.IH"(1) [OF v] next_char_shorter [OF c] by simp
  moreover have "length r \<le> length t'"
    using "4.prems" "4.IH"(2) [OF v refl c refl]
    by (auto simp: bind_eq_Some_conv v c split: if_splits intro: less_imp_le)
  ultimately show ?case by simp
next
  case (6 n s)
  from "6.prems" obtain t k t1 t2 v t3 c t4 where o: "expect (CHR 0x22) s = Some t"
    and k: "string_body t = Some (k, t1)" and e: "expect (CHR '':'') t1 = Some t2"
    and v: "parse_value n t2 = Some (v, t3)" and c: "next_char t3 = Some (c, t4)"
    by (auto simp: bind_eq_Some_conv)
  have "length t4 < length s"
    using expect_shorter [OF o] string_body_shorter [OF k] expect_shorter [OF e]
      "6.IH"(1) [OF o k refl e v] next_char_shorter [OF c] by simp
  moreover have "length r \<le> length t4"
    using "6.prems" "6.IH"(2) [OF o k refl e v refl c refl]
    by (auto simp: bind_eq_Some_conv o k e v c split: if_splits intro: less_imp_le)
  ultimately show ?case by simp
qed simp_all

lemma fuel_stable:
  "2 * length s < n \<Longrightarrow> 2 * length s < m \<Longrightarrow> parse_value n s = parse_value m s"
  "2 * length s + 1 < n \<Longrightarrow> 2 * length s + 1 < m \<Longrightarrow> parse_elements n s = parse_elements m s"
  "2 * length s + 1 < n \<Longrightarrow> 2 * length s + 1 < m \<Longrightarrow> parse_members n s = parse_members m s"
proof (induction n arbitrary: m s)
  case (Suc n)
  { case 1
    then obtain k where k: "m = Suc k" by (cases m) auto
    have "parse_elements n r = parse_elements k r \<and> parse_members n r = parse_members k r"
      if "next_char s = Some (c, r)" for c r
      using next_char_shorter [OF that] 1 k by (intro conjI Suc.IH) simp_all
    then show ?case by (auto simp: k intro!: Option.bind_cong split: option.split)
  next
    case 2
    then obtain k where k: "m = Suc k" by (cases m) auto
    have v: "parse_value n s = parse_value k s" using 2 k by (intro Suc.IH) simp_all
    have "parse_elements n r' = parse_elements k r'"
      if "parse_value k s = Some (v, r)" "next_char r = Some (c, r')" for v r c r'
      using parse_shorter(1) [OF that(1)] next_char_shorter [OF that(2)] 2 k by (intro Suc.IH) simp_all
    then show ?case by (auto simp: k v intro!: Option.bind_cong)
  next
    case 3
    then obtain k where k: "m = Suc k" by (cases m) auto
    have v: "parse_value n r2 = parse_value k r2" and "parse_value k r2 = Some (v, r3) \<Longrightarrow>
        next_char r3 = Some (c, r4) \<Longrightarrow> parse_members n r4 = parse_members k r4"
      if o: "expect (CHR 0x22) s = Some r" and b: "string_body r = Some (q, r1)" and e: "expect (CHR '':'') r1 = Some r2"
      for r q r1 r2 v r3 c r4
    proof -
      have l: "length r2 + 2 < length s"
        using expect_shorter [OF o] string_body_shorter [OF b] expect_shorter [OF e] by simp
      then show "parse_value n r2 = parse_value k r2" using 3 k by (intro Suc.IH) simp_all
      assume "parse_value k r2 = Some (v, r3)" "next_char r3 = Some (c, r4)"
      from parse_shorter(1) [OF this(1)] next_char_shorter [OF this(2)] l
      show "parse_members n r4 = parse_members k r4" using 3 k by (intro Suc.IH) simp_all
    qed
    then show ?case by (auto simp: k intro!: Option.bind_cong)
  }
qed simp_all

lemma json_fuel_enough:
  "2 * length s < n \<Longrightarrow> parse_json s =
     (case parse_value n s of Some (v, r) \<Rightarrow> if skip_ws r = [] then Some v else None | None \<Rightarrow> None)"
  unfolding parse_json_def by (subst fuel_stable(1) [of s "2 * length s + 2" n]) simp_all

section \<open>JSON.parse undoes JSON.stringify\<close>

text \<open>
  The values JSON.stringify writes without loss: integers of 53 bits, and objects with distinct
  keys.
\<close>

inductive plain_json :: "json \<Rightarrow> bool" where
  plain_null: "plain_json JNull"
| plain_bool: "plain_json (JBool b)"
| plain_num: "safe_integer n \<Longrightarrow> plain_json (JNum (IntNum n))"
| plain_str: "plain_json (JStr t)"
| plain_arr: "list_all plain_json vs \<Longrightarrow> plain_json (JArr vs)"
| plain_obj: "list_all (\<lambda>kv. plain_json (snd kv)) kvs \<Longrightarrow> distinct (map fst kvs) \<Longrightarrow> plain_json (JObj kvs)"

monos list.pred_mono

lemma hex_digits: "\<forall>n \<in> set [0..<16]. hex_value (hex_digit n) = Some n"
  by code_simp

lemma control_escape: "code c < 32 \<Longrightarrow> hex4 (CHR ''0'') (CHR ''0'') (hex_digit (code c div 16 mod 16)) (hex_digit (code c mod 16)) = Some (code c)"
proof -
  assume c: "code c < 32"
  have "hex_value (CHR ''0'') = Some 0" by code_simp
  moreover have "hex_value (hex_digit (code c div 16 mod 16)) = Some (code c div 16)"
    using hex_digits c by (simp add: div_less_dividend)
  moreover have "hex_value (hex_digit (code c mod 16)) = Some (code c mod 16)" using hex_digits by simp
  ultimately show ?thesis by (simp add: hex4_def)
qed

lemma char_from_code: "code c = code d \<Longrightarrow> c = d"
  by (simp add: code_def)

lemma escape_read:
  "string_body (escape_char c @ t) = map_option (\<lambda>(u, r). (c # u, r)) (string_body t)"
proof -
  have b: "(do { (u, r) \<leftarrow> x; Some (c # u, r) }) = map_option (\<lambda>(u, r). (c # u, r)) x" for x :: "(string \<times> string) option"
    by (cases x) auto
  show ?thesis
  proof (cases "code c < 32")
    case True
    show ?thesis
    proof (cases "code c \<in> {8, 9, 10, 12, 13}")
      case True
      then have "c \<in> {CHR 0x08, CHR 0x09, CHR 0x0A, CHR 0x0C, CHR 0x0D}"
        by (auto intro: char_from_code simp: code_def)
      then show ?thesis by (auto simp: escape_char_def escape_def simple_escape_def b [symmetric])
    next
      case False
      from True have "c \<noteq> CHR 0x22" "c \<noteq> CHR 0x5C" by (auto simp: code_def)
      with True False have "escape_char c = CHR 0x5C # ''u00'' @ hexs 2 (code c)"
        by (simp add: escape_char_def code_def)
      moreover have "hexs 2 (code c) = [hex_digit (code c div 16 mod 16), hex_digit (code c mod 16)]"
        by (simp add: numeral_2_eq_2)
      ultimately show ?thesis
        using True control_escape [OF True] by (simp add: escape_def point_char_def b [symmetric])
    qed
  next
    case False
    then show ?thesis
      by (auto simp: escape_char_def code_def escape_def simple_escape_def b [symmetric] Let_def)
  qed
qed

lemma string_body_quote: "string_body (concat (map escape_char t) @ CHR 0x22 # r) = Some (t, r)"
  by (induction t) (simp_all add: escape_read)

lemma nat_text_is_digit: "c \<in> set (nat_text n) \<Longrightarrow> is_digit c"
proof -
  have "\<forall>c \<in> set ''0123456789''. is_digit c" by code_simp
  then show "c \<in> set (nat_text n) \<Longrightarrow> is_digit c" using nat_text_digits by blast
qed

lemma digits_value_append: "digits_value acc (s @ [c]) = digits_value acc s * 10 + (code c - 48)"
  by (induction s arbitrary: acc) simp_all

lemma digit_code: "n < 10 \<Longrightarrow> code (digit n) - 48 = n"
proof -
  have "\<forall>n \<in> set [0..<10]. code (digit n) - 48 = n" by code_simp
  then show "n < 10 \<Longrightarrow> code (digit n) - 48 = n" by simp
qed

lemma digits_value_text: "digits_value 0 (nat_text n) = n"
proof (induction n rule: nat_text.induct)
  case (1 n)
  then show ?case
    by (cases "n < 10") (simp_all add: nat_text.simps [of n] digits_value_append digit_code)
qed

lemma nat_text_head: "hd (nat_text n) = CHR ''0'' \<Longrightarrow> length (nat_text n) = 1"
proof (induction n rule: nat_text.induct)
  case (1 n)
  show ?case
  proof (cases "n < 10")
    case False
    with 1 nat_text_nonempty [of "n div 10"] have "hd (nat_text (n div 10)) = CHR ''0''"
      by (simp add: nat_text.simps [of n])
    with 1 False have l: "length (nat_text (n div 10)) = 1" by simp
    have "nat_text (n div 10) \<noteq> [CHR ''0'']"
      using digits_value_text [of "n div 10"] False by (auto simp: code_def)
    with l \<open>hd (nat_text (n div 10)) = CHR ''0''\<close> show ?thesis by (cases "nat_text (n div 10)") auto
  qed (simp add: nat_text.simps [of n])
qed

text \<open>A text after which a number ends.\<close>

definition ends_number :: "string \<Rightarrow> bool" where
  "ends_number r \<longleftrightarrow> (case r of [] \<Rightarrow> True | c # t \<Rightarrow> \<not> is_digit c \<and> c \<notin> set ''.eE'')"

lemma some_digits_text: "ends_number r \<Longrightarrow> some_digits (nat_text n @ r) = Some (nat_text n, r)"
proof -
  assume r: "ends_number r"
  have "takeWhile is_digit (nat_text n @ r) = nat_text n @ takeWhile is_digit r"
    "dropWhile is_digit (nat_text n @ r) = dropWhile is_digit r"
    using nat_text_is_digit by (auto simp: takeWhile_append dropWhile_append)
  moreover have "takeWhile is_digit r = []" "dropWhile is_digit r = r"
    using r by (auto simp: ends_number_def split: list.splits)
  ultimately show ?thesis by (simp add: some_digits_def nat_text_nonempty)
qed

lemma ends_plain: "ends_number r \<Longrightarrow> fraction r = Some ([], r) \<and> exponent r = Some (0, r)"
  by (auto simp: ends_number_def fraction_def exponent_def starts_def split: list.splits)

lemma number_value_safe: "m \<le> 9007199254740991 \<Longrightarrow> \<not> (neg \<and> m = 0) \<Longrightarrow>
    number_value neg m 0 t = IntNum (if neg then - int m else int m)"
  by (auto simp: number_value_def Let_def)

lemma number_int_text:
  assumes "safe_integer n" "ends_number r"
  shows "number (int_text n @ r) = Some (IntNum n, r)"
proof -
  let ?m = "nat \<bar>n\<bar>"
  have first: "\<not> starts ''-'' (nat_text m @ r)" for m
  proof -
    have "hd (nat_text m) \<in> set (nat_text m)" using nat_text_nonempty by simp
    then have "is_digit (hd (nat_text m))" by (rule nat_text_is_digit)
    moreover have "\<not> is_digit (CHR ''-'')" by code_simp
    ultimately show ?thesis using nat_text_nonempty [of m] by (auto simp: starts_def)
  qed
  have val: "number_value (n < 0) ?m 0 t = IntNum n" for t
    using assms(1) by (subst number_value_safe) (auto simp: safe_integer_def)
  have tail: "fraction r = Some ([], r)" "exponent r = Some (0, r)" using ends_plain [OF assms(2)] by blast+
  show ?thesis
  proof (cases "n < 0")
    case True
    then have t: "int_text n @ r = CHR ''-'' # nat_text ?m @ r" by (simp add: int_text_def)
    show ?thesis
      unfolding number_def decimal_def t
      using some_digits_text [OF assms(2), of ?m] nat_text_head [of ?m] val True tail
      by (simp add: starts_def digits_value_text)
  next
    case False
    then have t: "int_text n @ r = nat_text ?m @ r" by (simp add: int_text_def)
    show ?thesis
      unfolding number_def decimal_def t
      using some_digits_text [OF assms(2), of ?m] nat_text_head [of ?m] val False tail first [of ?m]
      by (simp add: digits_value_text)
  qed
qed

lemma next_char_Cons: "\<not> json_space c \<Longrightarrow> next_char (c # r) = Some (c, r)"
  by (simp add: next_char_def skip_ws_def)

lemma next_char_marks:
  "next_char (CHR '','' # r) = Some (CHR '','', r)" "next_char (CHR '']'' # r) = Some (CHR '']'', r)"
  "next_char (CHR ''}'' # r) = Some (CHR ''}'', r)" "next_char (CHR ''['' # r) = Some (CHR ''['', r)"
  "next_char (CHR ''{'' # r) = Some (CHR ''{'', r)" "next_char (CHR 0x22 # r) = Some (CHR 0x22, r)"
  "next_char (CHR '':'' # r) = Some (CHR '':'', r)"
  by (rule next_char_Cons, code_simp)+

lemma ends_marks:
  "ends_number (CHR '','' # r)" "ends_number (CHR '']'' # r)" "ends_number (CHR ''}'' # r)" "ends_number []"
  by (simp_all add: ends_number_def is_digit_def code_def)

definition value_start :: "char \<Rightarrow> bool" where
  "value_start c \<longleftrightarrow> \<not> json_space c \<and> c \<notin> set '']},:''"

lemma digit_start: "is_digit c \<Longrightarrow> value_start c"
proof -
  assume "is_digit c"
  then have c: "48 \<le> code c" "code c \<le> 57" by (simp_all add: is_digit_def)
  have "code (CHR '']'') = 93" "code (CHR ''}'') = 125" "code (CHR '','') = 44" "code (CHR '':'') = 58"
    by (simp_all add: code_def)
  with c show ?thesis by (auto simp: value_start_def json_space_def)
qed

lemma int_text_start: "\<exists>c t. int_text n = c # t \<and> value_start c \<and> c \<notin> set ''[{ntf'' \<and> c \<noteq> CHR 0x22"
proof -
  have d: "\<exists>c t. nat_text m = c # t \<and> value_start c \<and> c \<notin> set ''[{ntf'' \<and> c \<noteq> CHR 0x22" for m
  proof (cases "nat_text m")
    case (Cons c t)
    then have "is_digit c" using nat_text_is_digit [of c m] by simp
    moreover have "\<forall>x \<in> set ''[{ntf''. \<not> is_digit x" "\<not> is_digit (CHR 0x22)" by code_simp+
    ultimately show ?thesis using Cons digit_start by blast
  qed (simp add: nat_text_nonempty)
  have "value_start (CHR ''-'')" by code_simp
  with d [of "nat n"] show ?thesis by (simp add: int_text_def)
qed

lemma json_text_start: "plain_json v \<Longrightarrow> \<exists>c t. json_text v = c # t \<and> value_start c"
proof (induction rule: plain_json.induct)
  case (plain_num n)
  then show ?case using int_text_start [of n] by auto
qed (simp_all add: json_quote_def value_start_def json_space_def code_def)

definition reads_back :: "json \<Rightarrow> bool" where
  "reads_back v \<longleftrightarrow> (\<forall>n r. 2 * length (json_text v) < n \<longrightarrow> ends_number r \<longrightarrow>
     parse_value n (json_text v @ r) = Some (v, r))"

lemma reads_backD: "reads_back v \<Longrightarrow> 2 * length (json_text v) < n \<Longrightarrow> ends_number r \<Longrightarrow>
    parse_value n (json_text v @ r) = Some (v, r)"
  by (simp add: reads_back_def)

lemma read_elements:
  "vs \<noteq> [] \<Longrightarrow> list_all reads_back vs \<Longrightarrow> 2 * length (join_with (CHR '','') (map json_text vs)) + 1 < n \<Longrightarrow>
     parse_elements n (join_with (CHR '','') (map json_text vs) @ CHR '']'' # r) = Some (vs, r)"
proof (induction vs arbitrary: n)
  case (Cons v vs)
  then obtain k where k: "n = Suc k" by (cases n) auto
  have v: "reads_back v" using Cons.prems by simp
  show ?case
  proof (cases vs)
    case Nil
    with Cons.prems k reads_backD [OF v, of k "CHR '']'' # r"] show ?thesis
      by (simp add: ends_marks next_char_marks)
  next
    case (Cons w ws)
    with Cons.prems(3) k Cons.IH [of k] \<open>list_all reads_back (v # vs)\<close>
      reads_backD [OF v, of k "CHR '','' # join_with (CHR '','') (map json_text vs) @ CHR '']'' # r"]
    show ?thesis by (simp add: ends_marks next_char_marks)
  qed
qed simp

definition member_text :: "string \<times> json \<Rightarrow> string" where
  "member_text kv = json_quote (fst kv) @ '':'' @ json_text (snd kv)"

lemma read_members:
  "kvs \<noteq> [] \<Longrightarrow> list_all (\<lambda>kv. reads_back (snd kv)) kvs \<Longrightarrow>
     2 * length (join_with (CHR '','') (map member_text kvs)) + 1 < n \<Longrightarrow>
     parse_members n (join_with (CHR '','') (map member_text kvs) @ CHR ''}'' # r) = Some (kvs, r)"
proof (induction kvs arbitrary: n)
  case (Cons kv kvs)
  then obtain k where k: "n = Suc k" by (cases n) auto
  obtain key v where kv: "kv = (key, v)" by (cases kv)
  have v: "reads_back v" using Cons.prems kv by simp
  show ?case
  proof (cases kvs)
    case Nil
    with Cons.prems k kv reads_backD [OF v, of k "CHR ''}'' # r"] show ?thesis
      by (simp add: ends_marks next_char_marks member_text_def json_quote_def expect_def string_body_quote)
  next
    case (Cons w ws)
    define J where "J = join_with (CHR '','') (map member_text kvs)"
    have j: "join_with (CHR '','') (map member_text (kv # kvs)) = member_text kv @ CHR '','' # J"
      using Cons by (simp add: J_def)
    have "parse_members k (J @ CHR ''}'' # r) = Some (kvs, r)"
      unfolding J_def by (rule Cons.IH) (use Cons Cons.prems k j J_def in simp_all)
    with Cons.prems(3) k kv reads_backD [OF v, of k "CHR '','' # J @ CHR ''}'' # r"]
    show ?thesis
      unfolding j
      by (simp add: ends_marks next_char_marks member_text_def json_quote_def expect_def string_body_quote)
  qed
qed simp

lemma fold_put_distinct:
  "distinct (map fst (acc @ kvs)) \<Longrightarrow> fold put_member kvs acc = acc @ kvs"
proof (induction kvs arbitrary: acc)
  case (Cons kv kvs)
  then have "put_member kv acc = acc @ [kv]" by (cases kv) (simp add: put_member_def)
  then show ?case using Cons.IH [of "acc @ [kv]"] Cons.prems by simp
qed simp

lemma object_of_distinct: "distinct (map fst kvs) \<Longrightarrow> object_of kvs = JObj kvs"
  by (simp add: object_of_def fold_put_distinct)

lemma reads_backI:
  "(\<And>k r. 2 * length (json_text v) \<le> k \<Longrightarrow> ends_number r \<Longrightarrow>
      parse_value (Suc k) (json_text v @ r) = Some (v, r)) \<Longrightarrow> reads_back v"
  unfolding reads_back_def by (metis Suc_le_D Suc_leI Suc_le_mono)

lemma array_reads_back:
  assumes "list_all reads_back vs" "list_all plain_json vs"
  shows "reads_back (JArr vs)"
proof (rule reads_backI)
  fix k r
  assume k: "2 * length (json_text (JArr vs)) \<le> k"
  show "parse_value (Suc k) (json_text (JArr vs) @ r) = Some (JArr vs, r)"
  proof (cases vs)
    case Nil
    then show ?thesis by (simp add: next_char_marks expect_def)
  next
    case (Cons w ws)
    define J where "J = join_with (CHR '','') (map json_text vs)"
    have start: "\<exists>c t. J = c # t \<and> value_start c"
      using json_text_start [of w] assms(2) Cons by (cases ws) (auto simp: J_def)
    then have e: "expect (CHR '']'') (J @ CHR '']'' # r) = None"
      by (auto simp: expect_def value_start_def next_char_Cons)
    have v: "parse_elements k (J @ CHR '']'' # r) = Some (vs, r)"
      unfolding J_def by (rule read_elements) (use Cons assms(1) k J_def in simp_all)
    have t: "json_text (JArr vs) @ r = CHR ''['' # J @ CHR '']'' # r" by (simp add: J_def)
    show ?thesis unfolding t by (simp add: next_char_marks e v)
  qed
qed

lemma object_reads_back:
  assumes "list_all (\<lambda>kv. reads_back (snd kv)) kvs" "distinct (map fst kvs)"
  shows "reads_back (JObj kvs)"
proof (rule reads_backI)
  fix k r
  assume k: "2 * length (json_text (JObj kvs)) \<le> k"
  define J where "J = join_with (CHR '','') (map member_text kvs)"
  have t: "json_text (JObj kvs) = CHR ''{'' # J @ ''}''" by (simp add: J_def member_text_def [abs_def])
  show "parse_value (Suc k) (json_text (JObj kvs) @ r) = Some (JObj kvs, r)"
  proof (cases kvs)
    case Nil
    then show ?thesis by (simp add: next_char_marks expect_def)
  next
    case (Cons w ws)
    have "\<exists>t. J = CHR 0x22 # t" using Cons by (cases ws) (auto simp: J_def member_text_def json_quote_def)
    then have e: "expect (CHR ''}'') (J @ CHR ''}'' # r) = None" by (auto simp: expect_def next_char_marks)
    have v: "parse_members k (J @ CHR ''}'' # r) = Some (kvs, r)"
      unfolding J_def by (rule read_members) (use Cons assms(1) k t J_def in simp_all)
    have t': "json_text (JObj kvs) @ r = CHR ''{'' # J @ CHR ''}'' # r" unfolding t by simp
    show ?thesis unfolding t' by (simp add: next_char_marks e v object_of_distinct [OF assms(2)])
  qed
qed

lemma plain_reads_back: "plain_json v \<Longrightarrow> reads_back v"
proof (induction rule: plain_json.induct)
  case plain_null
  have "next_char (''null'' @ r) = Some (CHR ''n'', ''ull'' @ r)" for r
    by (simp add: next_char_def skip_ws_def json_space_def code_def)
  then show ?case by (intro reads_backI) (simp add: parse_scalar_def literal_def)
next
  case (plain_bool b)
  have "next_char (''true'' @ r) = Some (CHR ''t'', ''rue'' @ r)"
    "next_char (''false'' @ r) = Some (CHR ''f'', ''alse'' @ r)" for r
    by (simp_all add: next_char_def skip_ws_def json_space_def code_def)
  then show ?case by (intro reads_backI) (simp add: parse_scalar_def literal_def)
next
  case (plain_num m)
  obtain c t where t: "int_text m = c # t" and c: "value_start c" "c \<notin> set ''[{ntf''" "c \<noteq> CHR 0x22"
    using int_text_start by blast
  have "number (c # t @ r) = Some (IntNum m, r)" if "ends_number r" for r
    using number_int_text [OF plain_num that] t by simp
  moreover have "next_char (c # t @ r) = Some (c, t @ r)" for r
    using c by (intro next_char_Cons) (simp add: value_start_def)
  ultimately show ?case using t c by (intro reads_backI) (simp add: parse_scalar_def)
next
  case (plain_str t)
  show ?case
    by (intro reads_backI) (simp add: json_quote_def next_char_marks parse_scalar_def string_body_quote)
next
  case (plain_arr vs)
  then show ?case by (intro array_reads_back) (simp_all add: list_all_iff)
next
  case (plain_obj kvs)
  then show ?case by (intro object_reads_back) (simp_all add: list_all_iff)
qed

lemma parse_json_text: "plain_json v \<Longrightarrow> parse_json (json_text v) = Some v"
  using reads_backD [OF plain_reads_back, of v "2 * length (json_text v) + 2" "[]"]
  by (simp add: parse_json_def ends_marks skip_ws_def)

end
