(* ===== verification/UploadGrants.thy ===== *)
theory UploadGrants
  imports JsonParse
begin

text \<open>
  apps/api/src/messages/upload-grant.service.ts: the token that lets a user upload one
  encrypted photo and send it.  A token is the base64url text of the grant's JSON, a dot and the
  base64url text of its HMAC.  The HMAC of node:crypto is a parameter (\<open>gc_hmac\<close>, of a secret and a
  text), a list of 32 bytes (\<open>hmac_ok\<close>).  Messages are written without their accents.
\<close>

section \<open>Grants\<close>

record upload_grant =
  ug_reservation :: string
  ug_user :: string
  ug_conversation :: string
  ug_object_key :: string
  ug_mime :: string
  ug_plain_size :: int
  ug_cipher_size :: int
  ug_sha :: string
  ug_expires :: int

record upload_request =
  ur_mime :: string
  ur_plain_size :: int
  ur_cipher_size :: int
  ur_sha :: string

record grant_config =
  gc_secret :: "string option"
  gc_production :: bool
  gc_hmac :: "string \<Rightarrow> string \<Rightarrow> nat list"

definition mime_types :: "string list" where
  "mime_types = [''image/jpeg'', ''image/png'', ''image/webp'']"

definition grant_json :: "upload_grant \<Rightarrow> json" where
  "grant_json g = JObj
     [(''version'', JNum (IntNum 1)), (''reservationId'', JStr (ug_reservation g)), (''userId'', JStr (ug_user g)),
      (''conversationId'', JStr (ug_conversation g)), (''objectKey'', JStr (ug_object_key g)),
      (''declaredMimeType'', JStr (ug_mime g)), (''plaintextByteSize'', JNum (IntNum (ug_plain_size g))),
      (''ciphertextByteSize'', JNum (IntNum (ug_cipher_size g))), (''ciphertextSha256'', JStr (ug_sha g)),
      (''expiresAt'', JNum (IntNum (ug_expires g)))]"

text \<open>String.toLowerCase on ASCII letters.\<close>

definition lower_char :: "char \<Rightarrow> char" where
  "lower_char c = (if 65 \<le> code c \<and> code c \<le> 90 then byte (code c + 32) else c)"

definition lower :: "string \<Rightarrow> string" where
  "lower s = map lower_char s"

text \<open>The pattern of a version 4 UUID in either case.\<close>

definition uuid4_fits :: "char \<Rightarrow> char \<Rightarrow> bool" where
  "uuid4_fits t c \<longleftrightarrow>
     (if t = CHR ''x'' then lower_hex c \<or> upper_hex c else if t = CHR ''v'' then c \<in> set ''89abAB'' else c = t)"

definition uuid4_shape :: "string \<Rightarrow> bool" where
  "uuid4_shape s \<longleftrightarrow> list_all2 uuid4_fits ''xxxxxxxx-xxxx-4xxx-vxxx-xxxxxxxxxxxx'' s"

definition sha_shape :: "string \<Rightarrow> bool" where
  "sha_shape s \<longleftrightarrow> length s = 64 \<and> list_all lower_hex s"

definition number_field :: "(string \<times> json) list \<Rightarrow> string \<Rightarrow> json_number option" where
  "number_field kvs k = (case field kvs k of Some (JNum n) \<Rightarrow> Some n | _ \<Rightarrow> None)"

definition integer_field :: "(string \<times> json) list \<Rightarrow> string \<Rightarrow> int option" where
  "integer_field kvs k = (case number_field kvs k of
     Some n \<Rightarrow> if number_is_integer n then Some (number_ceiling n) else None | None \<Rightarrow> None)"

definition checked :: "('a \<Rightarrow> bool) \<Rightarrow> 'a option \<Rightarrow> 'a option" where
  "checked P x = (case x of Some y \<Rightarrow> if P y then Some y else None | None \<Rightarrow> None)"

text \<open>isGrant, with the value read as a grant when it is one.\<close>

definition isGrant :: "json \<Rightarrow> upload_grant option" where
  "isGrant v = (case v of
     JObj kvs \<Rightarrow> do {
       version \<leftarrow> checked (\<lambda>n. n = IntNum 1) (number_field kvs ''version'');
       reservation \<leftarrow> checked uuid4_shape (string_field kvs ''reservationId'');
       user \<leftarrow> string_field kvs ''userId'';
       conversation \<leftarrow> string_field kvs ''conversationId'';
       key \<leftarrow> checked (\<lambda>k. take 19 k = ''ephemeral/messages/'') (string_field kvs ''objectKey'');
       mime \<leftarrow> checked (\<lambda>m. m \<in> set mime_types) (string_field kvs ''declaredMimeType'');
       plain \<leftarrow> integer_field kvs ''plaintextByteSize'';
       cipher \<leftarrow> integer_field kvs ''ciphertextByteSize'';
       sha \<leftarrow> checked sha_shape (string_field kvs ''ciphertextSha256'');
       expires \<leftarrow> number_field kvs ''expiresAt'';
       Some \<lparr>ug_reservation = reservation, ug_user = user, ug_conversation = conversation, ug_object_key = key,
         ug_mime = mime, ug_plain_size = plain, ug_cipher_size = cipher, ug_sha = sha,
         ug_expires = number_ceiling expires\<rparr> }
   | _ \<Rightarrow> None)"

section \<open>The service\<close>

definition secret :: "grant_config \<Rightarrow> error + string" where
  "secret cfg =
     (let fallback = (if gc_production cfg
          then Inl (InternalError ''ATTACHMENT_GRANT_SECRET debe tener al menos 32 bytes.'')
          else Inr ''sinochat-development-upload-grant-only'')
      in case gc_secret cfg of
        Some v \<Rightarrow> if v \<noteq> [] \<and> 32 \<le> utf8_length v then Inr v else fallback
      | None \<Rightarrow> fallback)"

definition sign :: "grant_config \<Rightarrow> string \<Rightarrow> error + string" where
  "sign cfg payload = map_sum id (\<lambda>k. base64url_encode (gc_hmac cfg k payload)) (secret cfg)"

definition new_grant :: "string \<Rightarrow> string \<Rightarrow> string \<Rightarrow> upload_request \<Rightarrow> time \<Rightarrow> upload_grant" where
  "new_grant r user conv q now =
     \<lparr>ug_reservation = r, ug_user = user, ug_conversation = conv, ug_object_key = ''ephemeral/messages/'' @ r,
       ug_mime = ur_mime q, ug_plain_size = ur_plain_size q, ug_cipher_size = ur_cipher_size q,
       ug_sha = lower (ur_sha q), ug_expires = now + 600000\<rparr>"

definition grant_payload :: "upload_grant \<Rightarrow> string" where
  "grant_payload g = base64url_encode (utf8_encode (json_text (grant_json g)))"

text \<open>The reservation identifier \<open>r\<close> is the UUID drawn from randomUUID.\<close>

definition create_grant ::
    "grant_config \<Rightarrow> string \<Rightarrow> string \<Rightarrow> string \<Rightarrow> upload_request \<Rightarrow> time \<Rightarrow> error + (upload_grant \<times> string)" where
  "create_grant cfg r user conv q now =
     (let g = new_grant r user conv q now; payload = grant_payload g in
      map_sum id (\<lambda>s. (g, payload @ ''.'' @ s)) (sign cfg payload))"

fun split_on :: "char \<Rightarrow> string \<Rightarrow> string list" where
  "split_on c [] = [[]]"
| "split_on c (x # xs) =
     (if x = c then [] # split_on c xs
      else (case split_on c xs of [] \<Rightarrow> [[x]] | p # ps \<Rightarrow> (x # p) # ps))"

definition nth_part :: "string list \<Rightarrow> nat \<Rightarrow> string" where
  "nth_part ps i = (if i < length ps then ps ! i else [])"

text \<open>The parsed grant of a payload whose signature holds, not yet expired at \<open>now\<close>.\<close>

definition open_payload :: "time \<Rightarrow> string \<Rightarrow> error + upload_grant" where
  "open_payload now payload =
     (case parse_json (utf8_text (base64_decode payload)) of
        None \<Rightarrow> Inl (Unauthorized ''Permiso de foto invalido.'')
      | Some v \<Rightarrow> (case isGrant v of
          None \<Rightarrow> Inl (Unauthorized ''El permiso para subir la foto vencio o es invalido.'')
        | Some g \<Rightarrow>
            if ug_expires g \<le> now then Inl (Unauthorized ''El permiso para subir la foto vencio o es invalido.'')
            else Inr g))"

definition verify_grant :: "grant_config \<Rightarrow> time \<Rightarrow> string \<Rightarrow> error + upload_grant" where
  "verify_grant cfg now token =
     (let bad = Inl (Unauthorized ''Permiso de foto invalido.''); parts = split_on (CHR ''.'') token;
          payload = nth_part parts 0; provided = nth_part parts 1; extra = nth_part parts 2 in
      if payload = [] \<or> provided = [] \<or> extra \<noteq> [] then bad
      else if \<not> (length provided = 43 \<and> list_all base64url_char provided) then bad
      else (case sign cfg payload of
          Inl e \<Rightarrow> Inl e
        | Inr expected \<Rightarrow>
            if base64url_encode (base64_decode provided) \<noteq> provided \<or>
               length (base64_decode expected) \<noteq> length (base64_decode provided) \<or>
               base64_decode expected \<noteq> base64_decode provided
            then bad
            else open_payload now payload))"

definition assertMatches :: "upload_grant \<Rightarrow> string \<Rightarrow> string \<Rightarrow> error + unit" where
  "assertMatches g user conv =
     (if ug_user g \<noteq> user \<or> ug_conversation g \<noteq> conv
      then Inl (BadRequest ''El permiso de foto no corresponde a esta conversacion.'') else Inr ())"

section \<open>What a token proves\<close>

definition hmac_ok :: "grant_config \<Rightarrow> bool" where
  "hmac_ok cfg \<longleftrightarrow> (\<forall>k t. length (gc_hmac cfg k t) = 32 \<and> (\<forall>b \<in> set (gc_hmac cfg k t). b < 256))"

definition grant_ok :: "upload_grant \<Rightarrow> bool" where
  "grant_ok g \<longleftrightarrow> uuid4_shape (ug_reservation g) \<and> take 19 (ug_object_key g) = ''ephemeral/messages/'' \<and>
     ug_mime g \<in> set mime_types \<and> sha_shape (ug_sha g)"

definition grant_sizes_ok :: "upload_grant \<Rightarrow> bool" where
  "grant_sizes_ok g \<longleftrightarrow> safe_integer (ug_plain_size g) \<and> safe_integer (ug_cipher_size g) \<and> safe_integer (ug_expires g)"

text \<open>What class-validator checks of an upload request.\<close>

definition upload_request_ok :: "upload_request \<Rightarrow> bool" where
  "upload_request_ok q \<longleftrightarrow> ur_mime q \<in> set mime_types \<and> 1 \<le> ur_plain_size q \<and> ur_plain_size q \<le> 5242880 \<and>
     1 \<le> ur_cipher_size q \<and> ur_cipher_size q \<le> 5505024 \<and>
     length (ur_sha q) = 64 \<and> list_all (\<lambda>c. lower_hex c \<or> upper_hex c) (ur_sha q)"

lemma split_on_Cons: "c \<notin> set p \<Longrightarrow> split_on c (p @ c # r) = p # split_on c r"
  by (induction p) auto

lemma split_on_last: "c \<notin> set p \<Longrightarrow> split_on c p = [p]"
  by (induction p) auto

lemma checked_eq [simp]: "checked P x = Some y \<longleftrightarrow> x = Some y \<and> P y"
  by (auto simp: checked_def split: option.splits)

lemma isGrant_shape: "isGrant v = Some g \<Longrightarrow> grant_ok g"
  by (auto simp: isGrant_def grant_ok_def bind_eq_Some_conv split: json.splits)

lemma checked_Some [simp]: "P y \<Longrightarrow> checked P (Some y) = Some y"
  by (simp add: checked_def)

lemma grant_fields:
  assumes "grant_ok g" "grant_sizes_ok g"
  shows "isGrant (grant_json g) = Some g"
  using assms unfolding isGrant_def grant_json_def grant_ok_def
  by (simp add: string_field_def number_field_def integer_field_def field_def)

lemma grant_json_plain: "grant_sizes_ok g \<Longrightarrow> plain_json (grant_json g)"
  unfolding grant_json_def grant_sizes_ok_def
  by (intro plain_json.intros) (simp_all add: plain_json.intros safe_integer_def)

lemma lower_hex_lower: "lower_hex c \<or> upper_hex c \<Longrightarrow> lower_hex (lower_char c)"
proof -
  have "\<forall>c \<in> set ''0123456789abcdefABCDEF''. lower_hex (lower_char c)" by code_simp
  then show "lower_hex c \<or> upper_hex c \<Longrightarrow> lower_hex (lower_char c)"
    by (auto simp: lower_hex_def [of c] upper_hex_def)
qed

lemma lower_sha: "length s = 64 \<Longrightarrow> list_all (\<lambda>c. lower_hex c \<or> upper_hex c) s \<Longrightarrow> sha_shape (lower s)"
  using lower_hex_lower by (auto simp: sha_shape_def lower_def list_all_iff)

lemma new_grant_ok:
  assumes "upload_request_ok q" "uuid4_shape r"
  shows "grant_ok (new_grant r user conv q now)"
  using assms lower_sha by (simp add: grant_ok_def new_grant_def upload_request_ok_def)

lemma sign_shape:
  assumes "hmac_ok cfg" "sign cfg p = Inr s"
  shows "length s = 43 \<and> list_all base64url_char s \<and> base64url_encode (base64_decode s) = s"
proof -
  from assms(2) obtain k where s: "s = base64url_encode (gc_hmac cfg k p)" by (auto simp: sign_def map_sum_def split: sum.splits)
  from assms(1) have b: "\<forall>b \<in> set (gc_hmac cfg k p). b < 256" "length (gc_hmac cfg k p) = 32" by (auto simp: hmac_ok_def)
  have "base64_decode s = gc_hmac cfg k p" unfolding s by (rule base64url_roundtrip [OF b(1)])
  moreover have "length s = 43" using b(2) by (simp add: s base64url_encode_def length_to_sextets)
  moreover have "list_all base64url_char s" using base64url_chars [OF b(1)] by (simp add: s list_all_iff)
  ultimately show ?thesis using s by simp
qed

lemma base64url_no_dot: "list_all base64url_char s \<Longrightarrow> CHR ''.'' \<notin> set s"
proof -
  have "\<not> base64url_char (CHR ''.'')" by code_simp
  then show "list_all base64url_char s \<Longrightarrow> CHR ''.'' \<notin> set s" by (auto simp: list_all_iff)
qed

lemma grant_payload_chars: "list_all base64url_char (grant_payload g)"
  unfolding grant_payload_def list_all_iff using base64url_chars utf8_encode_less by blast

lemma grant_payload_nonempty: "grant_payload g \<noteq> []"
proof -
  have "json_text (grant_json g) \<noteq> []" by (simp add: grant_json_def)
  then have "utf8_encode (json_text (grant_json g)) \<noteq> []" using utf8_roundtrip [of "json_text (grant_json g)"]
    by (cases "utf8_encode (json_text (grant_json g))") (simp_all add: utf8_decode_def)
  then have "length (to_sextets (utf8_encode (json_text (grant_json g)))) \<noteq> 0"
    unfolding length_to_sextets by (cases "utf8_encode (json_text (grant_json g))") simp_all
  then show ?thesis by (simp add: grant_payload_def base64url_encode_def)
qed

lemma open_grant_payload:
  assumes "grant_ok g" "grant_sizes_ok g"
  shows "open_payload now (grant_payload g) =
    (if ug_expires g \<le> now then Inl (Unauthorized ''El permiso para subir la foto vencio o es invalido.'')
     else Inr g)"
proof -
  have "base64_decode (grant_payload g) = utf8_encode (json_text (grant_json g))"
    unfolding grant_payload_def by (rule base64url_roundtrip) (simp add: utf8_encode_less)
  then show ?thesis
    using grant_fields [OF assms] parse_json_text [OF grant_json_plain [OF assms(2)]]
    by (simp add: open_payload_def utf8_text_roundtrip)
qed

lemma open_payload_grant:
  assumes "open_payload now p = Inr g"
  obtains v where "parse_json (utf8_text (base64_decode p)) = Some v" "isGrant v = Some g" "now < ug_expires g"
proof (cases "parse_json (utf8_text (base64_decode p))")
  case (Some v)
  with assms that [of v] show thesis by (cases "isGrant v") (auto simp: open_payload_def split: if_splits)
qed (use assms in \<open>simp add: open_payload_def\<close>)

lemma first_parts: "nth_part ps 1 \<noteq> [] \<Longrightarrow> take 2 ps = [nth_part ps 0, nth_part ps 1]"
proof -
  assume "nth_part ps 1 \<noteq> []"
  then have "1 < length ps" by (simp add: nth_part_def split: if_splits)
  then obtain x y r where "ps = x # y # r" by (cases ps; cases "tl ps") auto
  then show ?thesis by (simp add: nth_part_def numeral_2_eq_2)
qed

lemma if_error_Inr: "((if b then Inl e else x) = Inr y) = (\<not> b \<and> x = Inr y)"
  by simp

lemma verify_signed:
  assumes "hmac_ok cfg" "sign cfg p = Inr s" "p \<noteq> []" "CHR ''.'' \<notin> set p"
  shows "verify_grant cfg now (p @ ''.'' @ s) = open_payload now p"
proof -
  note shape = sign_shape [OF assms(1,2)]
  then have "split_on (CHR ''.'') (p @ ''.'' @ s) = [p, s]"
    using assms(4) base64url_no_dot [of s] by (simp add: split_on_Cons split_on_last)
  moreover have "s \<noteq> []" using shape by auto
  ultimately show ?thesis using shape assms(2,3) by (simp add: verify_grant_def nth_part_def)
qed

text \<open>What a token means does not depend on the instant it is verified at.\<close>

lemma verify_opens: "verify_grant cfg now token = Inr g \<Longrightarrow> open_payload now (nth_part (split_on (CHR ''.'') token) 0) = Inr g"
  unfolding verify_grant_def Let_def if_error_Inr
  by (cases "sign cfg (nth_part (split_on (CHR ''.'') token) 0)") (simp_all only: sum.case if_error_Inr, blast+)

lemma verify_same_grant:
  assumes "verify_grant cfg now token = Inr g" "verify_grant cfg' now' token = Inr g'"
  shows "g' = g"
  using open_payload_grant [OF verify_opens [OF assms(1)]] open_payload_grant [OF verify_opens [OF assms(2)]]
  by (metis option.inject)

section \<open>Properties\<close>

text \<open>C39: a permission to upload a photo verifies to the grant it was issued for during ten minutes, for the user and
  the conversation it was issued to, and is refused as expired from then on.\<close>

theorem grant_roundtrip:
  assumes "hmac_ok cfg" "upload_request_ok q" "uuid4_shape r" "safe_integer (now + 600000)"
    "create_grant cfg r user conv q now = Inr (g, token)"
  shows "verify_grant cfg later token =
    (if later < now + 600000 then Inr g
     else Inl (Unauthorized ''El permiso para subir la foto vencio o es invalido.'')) \<and>
    assertMatches g user conv = Inr ()"
proof -
  from assms(5) obtain s where g: "g = new_grant r user conv q now"
    and t: "token = grant_payload g @ ''.'' @ s" "sign cfg (grant_payload g) = Inr s"
    by (auto simp: create_grant_def map_sum_def Let_def split: sum.splits)
  have "grant_ok g" using new_grant_ok [OF assms(2,3)] g by simp
  moreover have "grant_sizes_ok g"
    using assms(2,4) g by (simp add: grant_sizes_ok_def new_grant_def upload_request_ok_def safe_integer_def)
  moreover have "verify_grant cfg later token = open_payload later (grant_payload g)"
    unfolding t(1)
    by (rule verify_signed [OF assms(1) t(2) grant_payload_nonempty base64url_no_dot [OF grant_payload_chars]])
  moreover have "ug_expires g = now + 600000" using g by (simp add: new_grant_def)
  moreover have "assertMatches g user conv = Inr ()" using g by (simp add: assertMatches_def new_grant_def)
  ultimately show ?thesis using open_grant_payload by simp
qed

text \<open>C40: an accepted permission carries the signature of its payload, character by character, and its payload is
  the JSON of a well-formed grant that has not expired.\<close>

theorem accepted_grant_signed:
  assumes "hmac_ok cfg" "verify_grant cfg now token = Inr g"
  shows "\<exists>payload s v. sign cfg payload = Inr s \<and> take 2 (split_on (CHR ''.'') token) = [payload, s] \<and>
    parse_json (utf8_text (base64_decode payload)) = Some v \<and> isGrant v = Some g \<and> grant_ok g \<and> now < ug_expires g"
proof -
  define parts where "parts = split_on (CHR ''.'') token"
  define p where "p = nth_part parts 0"
  define s where "s = nth_part parts 1"
  note v = assms(2) [unfolded verify_grant_def Let_def, folded parts_def, folded p_def s_def]
  from v have s: "s \<noteq> []" "p \<noteq> []" unfolding if_error_Inr by blast+
  from v obtain e where e: "sign cfg p = Inr e" unfolding if_error_Inr by (cases "sign cfg p") (simp_all only: sum.case, blast+)
  note v = v [unfolded e sum.case if_error_Inr]
  have canonical: "base64url_encode (base64_decode s) = s" using v [THEN conjunct2, THEN conjunct2, THEN conjunct1] by satx
  have same: "base64_decode e = base64_decode s" using v [THEN conjunct2, THEN conjunct2, THEN conjunct1] by satx
  have opened: "open_payload now p = Inr g" using v [THEN conjunct2, THEN conjunct2, THEN conjunct2] .
  have "base64url_encode (base64_decode e) = e" using sign_shape [OF assms(1) e] by blast
  then have same': "e = s" unfolding same canonical by (rule sym)
  have two: "take 2 parts = [p, s]" using s(1) unfolding p_def s_def by (rule first_parts)
  obtain v where v: "parse_json (utf8_text (base64_decode p)) = Some v" "isGrant v = Some g" "now < ug_expires g"
    using opened by (rule open_payload_grant)
  show ?thesis
    by (intro exI [of _ p] exI [of _ s] exI [of _ v] conjI)
      (use e same' two v isGrant_shape [OF v(2)] parts_def in simp_all)
qed

text \<open>Concrete values for the witnesses; they take an HMAC of 32 zero bytes.\<close>

definition demo_grant_config :: grant_config where
  "demo_grant_config = \<lparr>gc_secret = None, gc_production = False, gc_hmac = \<lambda>k t. replicate 32 0\<rparr>"

definition demo_upload :: upload_request where
  "demo_upload = \<lparr>ur_mime = ''image/png'', ur_plain_size = 1000, ur_cipher_size = 1016,
     ur_sha = replicate 64 (CHR ''A'')\<rparr>"

definition demo_reservation :: string where
  "demo_reservation = ''00000000-0000-4000-8000-000000000007''"

lemma demo_grant_ok: "hmac_ok demo_grant_config" "upload_request_ok demo_upload" "uuid4_shape demo_reservation"
proof -
  show "hmac_ok demo_grant_config" by (simp add: hmac_ok_def demo_grant_config_def)
  have "list_all (\<lambda>c. lower_hex c \<or> upper_hex c) (replicate 64 (CHR ''A''))"
    by (simp add: list_all_iff upper_hex_def)
  then show "upload_request_ok demo_upload" by (simp add: upload_request_ok_def demo_upload_def mime_types_def)
  show "uuid4_shape demo_reservation" by code_simp
qed

definition demo_created :: "upload_grant \<times> string" where
  "demo_created = (let g = new_grant demo_reservation ''u'' ''c'' demo_upload 1000 in
     (g, grant_payload g @ ''.'' @ base64url_encode (replicate 32 0)))"

lemma demo_create: "create_grant demo_grant_config demo_reservation ''u'' ''c'' demo_upload 1000 = Inr demo_created"
  by (simp add: create_grant_def demo_created_def Let_def sign_def secret_def demo_grant_config_def)

theorem grant_roundtrip_witness:
  "verify_grant demo_grant_config 600999 (snd demo_created) = Inr (fst demo_created) \<and>
   verify_grant demo_grant_config 601000 (snd demo_created) =
     Inl (Unauthorized ''El permiso para subir la foto vencio o es invalido.'')"
proof -
  have c: "create_grant demo_grant_config demo_reservation ''u'' ''c'' demo_upload 1000 =
      Inr (fst demo_created, snd demo_created)" using demo_create by simp
  have n: "safe_integer (1000 + 600000)" by (simp add: safe_integer_def)
  from grant_roundtrip [OF demo_grant_ok n c, of 600999] grant_roundtrip [OF demo_grant_ok n c, of 601000]
  show ?thesis by simp
qed

text \<open>A token signed under the demonstration's HMAC.\<close>

definition demo_sign :: "upload_grant \<Rightarrow> string" where
  "demo_sign g = grant_payload g @ ''.'' @ base64url_encode (replicate 32 0)"

lemma demo_verify_signed:
  assumes "grant_ok g" "grant_sizes_ok g" "now < ug_expires g"
  shows "verify_grant demo_grant_config now (demo_sign g) = Inr g"
proof -
  have s: "sign demo_grant_config (grant_payload g) = Inr (base64url_encode (replicate 32 0))"
    by (simp add: sign_def secret_def demo_grant_config_def)
  show ?thesis
    using open_grant_payload [OF assms(1,2), of now] assms(3)
      verify_signed [OF demo_grant_ok(1) s grant_payload_nonempty base64url_no_dot [OF grant_payload_chars], of now]
    by (simp add: demo_sign_def)
qed

lemma demo_grant_good:
  "grant_ok (new_grant demo_reservation user conv demo_upload 1000)"
  "grant_sizes_ok (new_grant demo_reservation user conv demo_upload 1000)"
  by (rule new_grant_ok [OF demo_grant_ok(2,3)])
    (simp add: grant_sizes_ok_def new_grant_def demo_upload_def safe_integer_def)

lemma demo_expires: "ug_expires (new_grant demo_reservation user conv demo_upload 1000) = 601000"
  by (simp add: new_grant_def)

lemma demo_verify_grant: "verify_grant demo_grant_config 5000 (snd demo_created) = Inr (fst demo_created)"
  using demo_verify_signed [OF demo_grant_good, of 5000 "''u''" "''c''"]
  unfolding demo_created_def Let_def fst_conv snd_conv demo_sign_def demo_expires by simp

theorem accepted_grant_signed_witness:
  "\<exists>payload s v. sign demo_grant_config payload = Inr s \<and>
    take 2 (split_on (CHR ''.'') (snd demo_created)) = [payload, s] \<and>
    parse_json (utf8_text (base64_decode payload)) = Some v \<and> isGrant v = Some (fst demo_created) \<and>
    grant_ok (fst demo_created) \<and> 5000 < ug_expires (fst demo_created)"
  by (rule accepted_grant_signed [OF demo_grant_ok(1) demo_verify_grant])

end
