(* ===== verification/Messages.thy ===== *)
theory Messages
  imports ToDevice UploadGrants
begin

text \<open>
  apps/api/src/messages/messages.service.ts: conversations, photo uploads, messages and their
  receipts.  A message is stored once with one envelope per active device of both
  participants.  The object storage is a parameter (\<open>object_storage\<close>), every clock reading an
  argument, and an operation that runs outside a transaction for a part returns the state it
  leaves also when it fails.  The texts' accents are left out.
\<close>

section \<open>Tables\<close>

datatype message_kind = TEXT | IMAGE
datatype delivery_status = Sent | Delivered | Read
datatype upload_status = UploadPending | Available | PurgePending | PurgeFailed

record message_row =
  m_id :: uuid
  m_conversation :: uuid
  m_sender :: uuid
  m_device :: uuid
  m_client_id :: uuid
  m_sequence :: nat
  m_kind :: message_kind
  m_created :: time
  m_expires :: time

record envelope_row =
  en_message :: uuid
  en_device :: uuid
  en_protocol :: string
  en_suite :: string
  en_ciphertext :: "nat list"

record receipt_row =
  re_message :: uuid
  re_recipient :: uuid
  re_status :: delivery_status
  re_delivered :: "time option"
  re_read :: "time option"

record attachment_row =
  at_message :: uuid
  at_object_key :: string
  at_mime :: string
  at_plain_size :: int
  at_cipher_size :: int
  at_sha :: string
  at_suite :: string
  at_status :: upload_status
  at_created :: time
  at_attempts :: nat
  at_purge_attempt :: "time option"
  at_purge_error :: "string option"

record pending_upload =
  pu_id :: string
  pu_user :: uuid
  pu_conversation :: uuid
  pu_object_key :: string
  pu_mime :: string
  pu_plain_size :: int
  pu_cipher_size :: int
  pu_sha :: string
  pu_expires :: time
  pu_attempts :: nat
  pu_purge_attempt :: "time option"
  pu_purge_error :: "string option"

record msg_db = e2e_db +
  messages :: "message_row list"
  envelopes :: "envelope_row list"
  receipts :: "receipt_row list"
  attachments :: "attachment_row list"
  pending_uploads :: "pending_upload list"
  message_sequence :: nat
  usernames :: "uuid \<Rightarrow> string"    \<comment> \<open>the username column of users\<close>

text \<open>48 hours, in milliseconds: the retention of the messages_prepare trigger.\<close>

abbreviation MESSAGE_TTL_MS :: time where
  "MESSAGE_TTL_MS \<equiv> 172800000"

record presigned_upload =
  ps_url :: string
  ps_headers :: "(string \<times> string) list"
  ps_seconds :: int

record object_storage =
  os_presign_upload :: "string \<Rightarrow> int \<Rightarrow> string \<Rightarrow> time \<Rightarrow> error + presigned_upload"
  os_assert_uploaded :: "string \<Rightarrow> int \<Rightarrow> string \<Rightarrow> error + unit"
  os_presign_download :: "string \<Rightarrow> int \<Rightarrow> time \<Rightarrow> error + string"

text \<open>An action leaves a state in any case; a transaction that fails leaves the state it found.\<close>

type_synonym ('s, 'a) action = "'s \<Rightarrow> (error + 'a) \<times> 's"

definition run_transaction :: "('s, 'a) tx \<Rightarrow> ('s, 'a) action" where
  "run_transaction m s = (case m s of Inl e \<Rightarrow> (Inl e, s) | Inr (x, s') \<Rightarrow> (Inr x, s'))"

section \<open>Conversations\<close>

record conversation_item =
  ci_id :: uuid
  ci_participant :: uuid
  ci_participant_name :: string
  ci_participant_status :: account_status
  ci_assigned :: time
  ci_unread :: nat
  ci_last :: "(message_kind \<times> time \<times> string) option"

record conversation_page =
  cpg_items :: "conversation_item list"
  cpg_page :: nat
  cpg_limit :: nat
  cpg_more :: bool

definition unread_count :: "time \<Rightarrow> 'x msg_db_scheme \<Rightarrow> uuid \<Rightarrow> uuid \<Rightarrow> nat" where
  "unread_count now s i conv = length
     [(m, r). m \<leftarrow> messages s, m_conversation m = conv \<and> now < m_expires m,
        r \<leftarrow> receipts s, re_message r = m_id m \<and> re_recipient r = i \<and> re_status r \<noteq> Read]"

definition latest_message :: "time \<Rightarrow> 'x msg_db_scheme \<Rightarrow> uuid \<Rightarrow> message_row option" where
  "latest_message now s conv =
     (case rev (sort_key m_sequence (filter (\<lambda>m. m_conversation m = conv \<and> now < m_expires m) (messages s))) of
        [] \<Rightarrow> None | m # _ \<Rightarrow> Some m)"

definition conversation_item_of ::
    "time \<Rightarrow> 'x msg_db_scheme \<Rightarrow> uuid \<Rightarrow> conversation_row \<Rightarrow> assignment_row \<Rightarrow> user_row \<Rightarrow> conversation_item" where
  "conversation_item_of now s i c a p =
     \<lparr>ci_id = c_id c, ci_participant = u_id p, ci_participant_name = usernames s (u_id p),
       ci_participant_status = u_status p, ci_assigned = a_started a,
       ci_unread = unread_count now s i (c_id c),
       ci_last = map_option (\<lambda>m. (m_kind m, m_created m, nat_text (m_sequence m))) (latest_message now s (c_id c))\<rparr>"

text \<open>The joined rows, most recent conversation first and then by identifier, both descending.\<close>

definition conversation_rows ::
    "time \<Rightarrow> 'x msg_db_scheme \<Rightarrow> user_role \<Rightarrow> uuid \<Rightarrow> (conversation_row \<times> assignment_row \<times> user_row) list" where
  "conversation_rows now s role i =
     rev (sort_key (\<lambda>(c, a, p). c_created c) (sort_key (\<lambda>(c, a, p). c_id c)
       [(c, a, p). (c, a, cs) \<leftarrow> eligible_rows now s (\<lambda>c a.
            (role = CLIENT \<and> a_client a = i) \<or> (role = CASHIER \<and> a_cashier a = i)),
          p \<leftarrow> users s, u_id p = (if role = CLIENT then a_cashier a else a_client a)]))"

definition listConversations ::
    "time \<Rightarrow> uuid \<Rightarrow> user_role \<Rightarrow> nat \<Rightarrow> nat \<Rightarrow> 'x msg_db_scheme \<Rightarrow> conversation_page" where
  "listConversations now i role limit page s =
     (let n = (if role = CLIENT then 1 else limit);
          skipped = (if role = CLIENT then 0 else (page - 1) * n);
          requested = (if role = CLIENT then 1 else n + 1);
          rows = take requested (drop skipped (conversation_rows now s role i))
      in \<lparr>cpg_items = map (\<lambda>(c, a, p). conversation_item_of now s i c a p) (take n rows),
           cpg_page = (if role = CLIENT then 1 else page), cpg_limit = n,
           cpg_more = (role \<noteq> CLIENT \<and> n < length rows)\<rparr>)"

definition lockActiveConversation ::
    "time \<Rightarrow> uuid \<Rightarrow> uuid \<Rightarrow> uuid option \<Rightarrow> ('x msg_db_scheme, unit) tx" where
  "lockActiveConversation now i conv device = bindT (lockCurrent now i conv device) (\<lambda>_. returnT ())"

definition requireActiveConversation ::
    "time \<Rightarrow> uuid \<Rightarrow> uuid \<Rightarrow> 'x msg_db_scheme \<Rightarrow> error + (uuid \<times> uuid \<times> uuid)" where
  "requireActiveConversation now i conv s =
     map_sum id (\<lambda>k. (ca_id k, ca_client k, ca_cashier k)) (requireCurrent now i conv s)"

section \<open>Photo uploads\<close>

record upload_clock =
  uk_now :: time         \<comment> \<open>the grant's instant\<close>
  uk_lock :: time
  uk_count :: time
  uk_relock :: time
  uk_require :: time

record upload_answer =
  ua_url :: string
  ua_headers :: "(string \<times> string) list"
  ua_seconds :: int
  ua_token :: string
  ua_expires :: time

definition open_reservation :: "time \<Rightarrow> uuid \<Rightarrow> pending_upload \<Rightarrow> bool" where
  "open_reservation now i p \<longleftrightarrow> pu_user p = i \<and> now < pu_expires p \<and> pu_purge_attempt p = None"

definition reserve :: "upload_grant \<Rightarrow> uuid \<Rightarrow> uuid \<Rightarrow> ('x msg_db_scheme, unit) tx" where
  "reserve g i conv s =
     (if \<exists>p \<in> set (pending_uploads s). pu_id p = ug_reservation g \<or> pu_object_key p = ug_object_key g
      then Inl (UniqueViolation ''pending_attachment_uploads'')
      else Inr ((), s\<lparr>pending_uploads := pending_uploads s @
        [\<lparr>pu_id = ug_reservation g, pu_user = i, pu_conversation = conv, pu_object_key = ug_object_key g,
          pu_mime = ug_mime g, pu_plain_size = ug_plain_size g, pu_cipher_size = ug_cipher_size g,
          pu_sha = ug_sha g, pu_expires = ug_expires g, pu_attempts = 0, pu_purge_attempt = None, pu_purge_error = None\<rparr>]\<rparr>))"

definition reserve_upload ::
    "upload_clock \<Rightarrow> uuid \<Rightarrow> uuid \<Rightarrow> upload_grant \<Rightarrow> ('x msg_db_scheme, unit) tx" where
  "reserve_upload at i conv g =
     bindT (lockActiveConversation (uk_lock at) i conv None) (\<lambda>_.
     bindT (getT (\<lambda>s. count_where (open_reservation (uk_count at) i) (pending_uploads s))) (\<lambda>pending.
     bindT (guardT (pending < 4) (Conflict ''Ya alcanzaste el limite de fotos pendientes.'')) (\<lambda>_.
     bindT (reserve g i conv) (\<lambda>_.
     lockActiveConversation (uk_relock at) i conv None))))"

definition requestUpload ::
    "object_storage \<Rightarrow> grant_config \<Rightarrow> env \<Rightarrow> upload_clock \<Rightarrow> uuid \<Rightarrow> uuid \<Rightarrow> upload_request \<Rightarrow>
       ('x msg_db_scheme, upload_answer) action" where
  "requestUpload st cfg e at i conv q s =
     (case create_grant cfg (uuid_text (uuid_at e (draws s))) (uuid_text i) (uuid_text conv) q (uk_now at) of
        Inl er \<Rightarrow> (Inl er, s)
      | Inr (g, token) \<Rightarrow>
          (case run_transaction (reserve_upload at i conv g) (s\<lparr>draws := Suc (draws s)\<rparr>) of
             (Inl er, s') \<Rightarrow> (Inl er, s')
           | (Inr _, s') \<Rightarrow>
               (case os_presign_upload st (ug_object_key g) (ug_cipher_size g) (ug_sha g) (uk_now at) of
                  Inl er \<Rightarrow> (Inl er, s')
                | Inr up \<Rightarrow>
                    (case requireActiveConversation (uk_require at) i conv s' of
                       Inl er \<Rightarrow> (Inl er, s')
                     | Inr _ \<Rightarrow> (Inr \<lparr>ua_url = ps_url up, ua_headers = ps_headers up,
                           ua_seconds = ps_seconds up, ua_token = token, ua_expires = ug_expires g\<rparr>, s')))))"

section \<open>Envelopes\<close>

record active_device =
  ad_id :: uuid
  ad_user :: uuid
  ad_protocol :: string
  ad_curve :: string
  ad_matrix_device :: string

record envelope_input =
  ei_device :: uuid
  ei_protocol :: string
  ei_suite :: string
  ei_ciphertext :: string

record message_input =
  mi_client_id :: uuid
  mi_device :: uuid
  mi_kind :: message_kind
  mi_envelopes :: "envelope_input list"
  mi_grant :: "string option"

abbreviation MATRIX_DEVICE_PROTOCOL_VERSION :: string where
  "MATRIX_DEVICE_PROTOCOL_VERSION \<equiv> ''matrix-olm-v1''"

abbreviation MATRIX_MESSAGE_PROTOCOL_VERSION :: string where
  "MATRIX_MESSAGE_PROTOCOL_VERSION \<equiv> ''matrix-megolm-v1''"

text \<open>
  The content of a ciphertext; bytes that are no UTF-8, a text that is no JSON and a value that
  is no Megolm content are the same error to the caller.
\<close>

definition megolm_of_bytes :: "nat list \<Rightarrow> megolm_content option" where
  "megolm_of_bytes bs = do {
     text \<leftarrow> utf8_fatal bs;
     v \<leftarrow> parse_json text;
     case parseMatrixMegolmRoomContent v of Inl _ \<Rightarrow> None | Inr m \<Rightarrow> Some m }"

definition check_content :: "active_device \<Rightarrow> nat list \<Rightarrow> error + unit" where
  "check_content sender bs =
     (case megolm_of_bytes bs of
        None \<Rightarrow> Inl (BadRequest ''Un ciphertext Megolm no es valido.'')
      | Some m \<Rightarrow>
          if mg_sender_key m \<noteq> ad_curve sender \<or> mg_device m \<noteq> ad_matrix_device sender
          then Inl (BadRequest ''El sobre cifrado no corresponde a los dispositivos declarados.'')
          else Inr ())"

definition device_of :: "active_device list \<Rightarrow> uuid \<Rightarrow> active_device option" where
  "device_of devs i = find (\<lambda>d. ad_id d = i) (rev devs)"

definition check_envelope ::
    "active_device list \<Rightarrow> active_device \<Rightarrow> uuid list \<Rightarrow> string option \<Rightarrow> envelope_input \<Rightarrow> error + unit" where
  "check_envelope devs sender received canonical en =
     (if ei_device en \<in> set received
      then Inl (BadRequest ''No puede repetirse un dispositivo destinatario.'')
      else if (case device_of devs (ei_device en) of
          None \<Rightarrow> True | Some d \<Rightarrow> ad_protocol d \<noteq> MATRIX_DEVICE_PROTOCOL_VERSION) \<or>
        ei_protocol en \<noteq> MATRIX_MESSAGE_PROTOCOL_VERSION \<or> ei_suite en \<noteq> MATRIX_MEGOLM_ALGORITHM
      then Inl (BadRequest ''Los sobres no coinciden con los dispositivos activos.'')
      else if length (base64_decode (ei_ciphertext en)) < 16 \<or>
        128 * 1024 < length (base64_decode (ei_ciphertext en))
      then Inl (BadRequest ''Un sobre cifrado supera el tamano permitido.'')
      else if base64_encode (base64_decode (ei_ciphertext en)) \<noteq> ei_ciphertext en
      then Inl (BadRequest ''Un sobre cifrado no es canonico.'')
      else if (case canonical of None \<Rightarrow> False | Some t \<Rightarrow> t \<noteq> ei_ciphertext en)
      then Inl (BadRequest ''El ciphertext Megolm debe ser identico para todos los dispositivos.'')
      else check_content sender (base64_decode (ei_ciphertext en)))"

fun check_envelopes ::
    "active_device list \<Rightarrow> active_device \<Rightarrow> uuid list \<Rightarrow> string option \<Rightarrow> envelope_input list \<Rightarrow> error + uuid list" where
  "check_envelopes devs sender received canonical [] = Inr received"
| "check_envelopes devs sender received canonical (en # rest) =
     (case check_envelope devs sender received canonical en of
        Inl e \<Rightarrow> Inl e
      | Inr _ \<Rightarrow> check_envelopes devs sender (received @ [ei_device en]) (Some (ei_ciphertext en)) rest)"

definition assertCompleteEnvelopes :: "message_input \<Rightarrow> active_device list \<Rightarrow> error + unit" where
  "assertCompleteEnvelopes inp devs =
     (if devs = [] then Inl (Conflict ''Los participantes deben configurar dispositivos seguros.'')
      else case device_of devs (mi_device inp) of
        None \<Rightarrow> Inl (Forbidden ''Dispositivo emisor no autorizado.'')
      | Some sender \<Rightarrow>
          if ad_protocol sender \<noteq> MATRIX_DEVICE_PROTOCOL_VERSION
          then Inl (Conflict ''El dispositivo emisor no usa el protocolo E2EE vigente.'')
          else if \<not> (\<exists>d \<in> set devs. ad_user d \<noteq> ad_user sender)
          then Inl (Conflict ''La contraparte debe configurar un dispositivo seguro.'')
          else (case check_envelopes devs sender [] None (mi_envelopes inp) of
              Inl e \<Rightarrow> Inl e
            | Inr received \<Rightarrow>
                if length received \<noteq> length (remdups (map ad_id devs)) \<or> (\<exists>d \<in> set devs. ad_id d \<notin> set received)
                then Inl (Conflict ''Debes cifrar el mensaje para todos los dispositivos activos.'')
                else Inr ()))"

definition active_devices :: "'x msg_db_scheme \<Rightarrow> conversation_access \<Rightarrow> active_device list" where
  "active_devices s k =
     sort_key ad_user (sort_key ad_id
       [\<lparr>ad_id = d_id d, ad_user = d_user d, ad_protocol = d_protocol d, ad_curve = mk_curve mk,
          ad_matrix_device = mk_matrix_device mk\<rparr>.
          d \<leftarrow> devices s, d_user d \<in> {ca_client k, ca_cashier k} \<and> d_status d = DevActive,
          mk \<leftarrow> matrix_keys s, mk_device mk = d_id d])"

definition lockConversationAndDevices ::
    "time \<Rightarrow> uuid \<Rightarrow> uuid \<Rightarrow> uuid \<Rightarrow> ('x msg_db_scheme, conversation_access \<times> active_device list) tx" where
  "lockConversationAndDevices now i conv device =
     bindT (lockCurrent now i conv (Some device)) (\<lambda>k.
     bindT (getT (\<lambda>s. active_devices s k)) (\<lambda>devs.
     bindT (guardT (\<exists>d \<in> set devs. ad_id d = device \<and> ad_user d = i)
       (Forbidden ''Dispositivo emisor no autorizado.'')) (\<lambda>_.
     returnT (k, devs))))"

section \<open>Sending\<close>

record send_clock =
  sk_node :: time          \<comment> \<open>Date.now, when the permission is verified\<close>
  sk_reservation :: time
  sk_begin :: time         \<comment> \<open>CURRENT_TIMESTAMP of the transaction\<close>
  sk_lock :: time
  sk_claim :: time
  sk_created :: time
  sk_relock :: time

record ack_clock =
  ak_lock :: time
  ak_now :: time
  ak_relock :: time

record message_ack =
  mk_ack_id :: uuid
  mk_ack_client_id :: uuid
  mk_ack_sequence :: string
  mk_ack_kind :: message_kind
  mk_ack_created :: time
  mk_ack_expires :: time
  mk_ack_new :: bool

definition messageAcknowledgement :: "message_row \<Rightarrow> bool \<Rightarrow> message_ack" where
  "messageAcknowledgement m new =
     \<lparr>mk_ack_id = m_id m, mk_ack_client_id = m_client_id m, mk_ack_sequence = nat_text (m_sequence m),
       mk_ack_kind = m_kind m, mk_ack_created = m_created m, mk_ack_expires = m_expires m, mk_ack_new = new\<rparr>"

definition find_message :: "'x msg_db_scheme \<Rightarrow> uuid \<Rightarrow> uuid \<Rightarrow> message_row option" where
  "find_message s device client_id =
     find (\<lambda>m. m_device m = device \<and> m_client_id m = client_id) (messages s)"

definition assertIdempotentMessageMatches ::
    "message_row \<Rightarrow> uuid \<Rightarrow> uuid \<Rightarrow> message_kind \<Rightarrow> error + unit" where
  "assertIdempotentMessageMatches m i conv kind =
     (if m_sender m \<noteq> i \<or> m_conversation m \<noteq> conv \<or> m_kind m \<noteq> kind
      then Inl (Conflict ''El identificador idempotente ya pertenece a otro mensaje.'') else Inr ())"

definition acknowledgeExistingMessage ::
    "ack_clock \<Rightarrow> uuid \<Rightarrow> uuid \<Rightarrow> message_input \<Rightarrow> ('x msg_db_scheme, message_ack) tx" where
  "acknowledgeExistingMessage at i conv inp =
     bindT (lockConversationAndDevices (ak_lock at) i conv (mi_device inp)) (\<lambda>_.
     bindT (getT (\<lambda>s. find_message s (mi_device inp) (mi_client_id inp))) (\<lambda>found.
     case found of
       None \<Rightarrow> throwT (NotFound ''Mensaje no disponible.'')
     | Some m \<Rightarrow>
         bindT (liftT (assertIdempotentMessageMatches m i conv (mi_kind inp))) (\<lambda>_.
         bindT (guardT (ak_now at < m_expires m) (NotFound ''Mensaje no disponible.'')) (\<lambda>_.
         bindT (lockConversationAndDevices (ak_relock at) i conv (mi_device inp)) (\<lambda>_.
         returnT (messageAcknowledgement m False))))))"

text \<open>The WHERE clauses that find a grant's reservation, before the transaction and inside it.\<close>

definition reservation_matches :: "upload_grant \<Rightarrow> uuid \<Rightarrow> uuid \<Rightarrow> time \<Rightarrow> pending_upload \<Rightarrow> bool" where
  "reservation_matches g i conv now p \<longleftrightarrow>
     pu_id p = lower (ug_reservation g) \<and> pu_user p = i \<and> pu_conversation p = conv \<and>
     pu_object_key p = ug_object_key g \<and> now < pu_expires p \<and> pu_purge_attempt p = None"

definition reservation_same_file :: "upload_grant \<Rightarrow> pending_upload \<Rightarrow> bool" where
  "reservation_same_file g p \<longleftrightarrow> pu_mime p = ug_mime g \<and> pu_plain_size p = ug_plain_size g \<and>
     pu_cipher_size p = ug_cipher_size g \<and> pu_sha p = ug_sha g"

definition prepareAttachment ::
    "object_storage \<Rightarrow> grant_config \<Rightarrow> send_clock \<Rightarrow> uuid \<Rightarrow> uuid \<Rightarrow> message_input \<Rightarrow> 'x msg_db_scheme \<Rightarrow>
       error + upload_grant option" where
  "prepareAttachment st cfg at i conv inp s =
     (let token = (case mi_grant inp of None \<Rightarrow> [] | Some t \<Rightarrow> t) in
      if mi_kind inp = TEXT then
        (if token \<noteq> [] then Inl (BadRequest ''Un mensaje de texto no puede incluir una foto.'') else Inr None)
      else if token = [] then Inl (BadRequest ''El mensaje de imagen requiere una foto cifrada.'')
      else case verify_grant cfg (sk_node at) token of
        Inl e \<Rightarrow> Inl e
      | Inr g \<Rightarrow> (case assertMatches g (uuid_text i) (uuid_text conv) of
          Inl e \<Rightarrow> Inl e
        | Inr _ \<Rightarrow>
            if \<not> (\<exists>p \<in> set (pending_uploads s).
                 reservation_matches g i conv (sk_reservation at) p \<and> reservation_same_file g p)
            then Inl (Conflict ''El permiso de la foto ya fue utilizado o vencio.'')
            else (case os_assert_uploaded st (ug_object_key g) (ug_cipher_size g) (ug_sha g) of
                Inl e \<Rightarrow> Inl e
              | Inr _ \<Rightarrow> Inr (Some g))))"

definition claim_reservation ::
    "send_clock \<Rightarrow> uuid \<Rightarrow> uuid \<Rightarrow> upload_grant option \<Rightarrow> ('x msg_db_scheme, unit) tx" where
  "claim_reservation at i conv grant =
     (case grant of
        None \<Rightarrow> returnT ()
      | Some g \<Rightarrow>
          bindT (getT (\<lambda>s. count_where (reservation_matches g i conv (sk_claim at)) (pending_uploads s))) (\<lambda>n.
          bindT (guardT (n = 1) (Conflict ''El permiso de la foto ya fue utilizado o vencio.'')) (\<lambda>_.
          modifyT (\<lambda>s. s\<lparr>pending_uploads :=
            filter (\<lambda>p. \<not> reservation_matches g i conv (sk_claim at) p) (pending_uploads s)\<rparr>))))"

definition create_message ::
    "env \<Rightarrow> send_clock \<Rightarrow> uuid \<Rightarrow> uuid \<Rightarrow> message_input \<Rightarrow> uuid \<Rightarrow> upload_grant option \<Rightarrow>
       ('x msg_db_scheme, message_row) tx" where
  "create_message e at i conv inp recipient grant s =
     (let m = \<lparr>m_id = uuid_at e (draws s), m_conversation = conv, m_sender = i, m_device = mi_device inp,
            m_client_id = mi_client_id inp, m_sequence = message_sequence s, m_kind = mi_kind inp,
            m_created = sk_created at, m_expires = sk_created at + MESSAGE_TTL_MS\<rparr>
      in if find_message s (mi_device inp) (mi_client_id inp) \<noteq> None
         then Inl (UniqueViolation ''messages_sender_client_id_key'')
         else if (\<exists>g a. grant = Some g \<and> a \<in> set (attachments s) \<and> at_object_key a = ug_object_key g)
         then Inl (UniqueViolation ''attachments_object_key_key'')
         else Inr (m, s\<lparr>draws := Suc (draws s), message_sequence := Suc (message_sequence s),
           messages := messages s @ [m],
           envelopes := envelopes s @ map (\<lambda>en. \<lparr>en_message = m_id m, en_device = ei_device en,
             en_protocol = ei_protocol en, en_suite = ei_suite en,
             en_ciphertext = base64_decode (ei_ciphertext en)\<rparr>) (mi_envelopes inp),
           receipts := receipts s @ [\<lparr>re_message = m_id m, re_recipient = recipient, re_status = Sent,
             re_delivered = None, re_read = None\<rparr>],
           attachments := attachments s @ (case grant of None \<Rightarrow> [] | Some g \<Rightarrow>
             [\<lparr>at_message = m_id m, at_object_key = ug_object_key g, at_mime = ug_mime g,
               at_plain_size = ug_plain_size g, at_cipher_size = ug_cipher_size g, at_sha = ug_sha g,
               at_suite = ''A256CTR'', at_status = Available, at_created = sk_begin at,
               at_attempts = 0, at_purge_attempt = None, at_purge_error = None\<rparr>])\<rparr>))"

definition notify_message :: "uuid \<Rightarrow> uuid \<Rightarrow> message_row \<Rightarrow> ('x msg_db_scheme, unit) tx" where
  "notify_message recipient conv m = modifyT (\<lambda>s. s\<lparr>notifications := notifications s @
     [\<lparr>n_user = recipient, n_type = NotifNewMessage, n_related = conv, n_message = Some (m_id m),
       n_expires = Some (m_expires m)\<rparr>]\<rparr>)"

definition store_message ::
    "env \<Rightarrow> send_clock \<Rightarrow> uuid \<Rightarrow> uuid \<Rightarrow> message_input \<Rightarrow> upload_grant option \<Rightarrow>
       ('x msg_db_scheme, message_row) tx" where
  "store_message e at i conv inp grant =
     bindT (lockConversationAndDevices (sk_lock at) i conv (mi_device inp)) (\<lambda>(k, devs).
     bindT (liftT (assertCompleteEnvelopes inp devs)) (\<lambda>_.
     bindT (returnT (if ca_client k = i then ca_cashier k else ca_client k)) (\<lambda>recipient.
     bindT (claim_reservation at i conv grant) (\<lambda>_.
     bindT (create_message e at i conv inp recipient grant) (\<lambda>m.
     bindT (notify_message recipient conv m) (\<lambda>_.
     bindT (lockActiveConversation (sk_relock at) i conv (Some (mi_device inp))) (\<lambda>_.
     returnT m)))))))"

text \<open>
  The whole handler.  \<open>others\<close> is what other requests commit between the first look for the
  message and the transaction, \<open>later\<close> what they commit before a duplicate is acknowledged.
\<close>

definition send_message ::
    "object_storage \<Rightarrow> grant_config \<Rightarrow> env \<Rightarrow> send_clock \<Rightarrow> ack_clock \<Rightarrow>
       ('x msg_db_scheme \<Rightarrow> 'x msg_db_scheme) \<Rightarrow> ('x msg_db_scheme \<Rightarrow> 'x msg_db_scheme) \<Rightarrow>
       uuid \<Rightarrow> uuid \<Rightarrow> message_input \<Rightarrow> ('x msg_db_scheme, message_ack) action" where
  "send_message st cfg e at ak others later i conv inp s =
     (if find_message s (mi_device inp) (mi_client_id inp) \<noteq> None
      then run_transaction (acknowledgeExistingMessage ak i conv inp) s
      else case prepareAttachment st cfg at i conv inp s of
        Inl er \<Rightarrow> (Inl er, s)
      | Inr grant \<Rightarrow>
          (case run_transaction (store_message e at i conv inp grant) (others s) of
             (Inr m, s') \<Rightarrow> (Inr (messageAcknowledgement m True), s')
           | (Inl (UniqueViolation key), s') \<Rightarrow>
               let s'' = later s' in
               if find_message s'' (mi_device inp) (mi_client_id inp) \<noteq> None
               then run_transaction (acknowledgeExistingMessage ak i conv inp) s''
               else (Inl (UniqueViolation key), s'')
           | (Inl er, s') \<Rightarrow> (Inl er, s')))"

section \<open>Reading\<close>

record list_clock =
  lk_lock :: time
  lk_now :: time
  lk_relock :: time

record attachment_out =
  ao_mime :: string
  ao_plain_size :: int
  ao_cipher_size :: int
  ao_sha :: string
  ao_suite :: string
  ao_url :: string

record message_out =
  mo_id :: uuid
  mo_sender :: uuid
  mo_device :: uuid
  mo_client_id :: uuid
  mo_sequence :: string
  mo_kind :: message_kind
  mo_created :: time
  mo_expires :: time
  mo_protocol :: string
  mo_suite :: string
  mo_ciphertext :: string
  mo_attachment :: "attachment_out option"
  mo_receipts :: "receipt_row list"

record message_page =
  mp_items :: "message_out list"
  mp_next :: string

definition envelopes_for :: "'x msg_db_scheme \<Rightarrow> uuid \<Rightarrow> message_row \<Rightarrow> envelope_row list" where
  "envelopes_for s device m = filter (\<lambda>en. en_message en = m_id m \<and> en_device en = device) (envelopes s)"

definition readable_messages :: "'x msg_db_scheme \<Rightarrow> time \<Rightarrow> uuid \<Rightarrow> uuid \<Rightarrow> message_row list" where
  "readable_messages s now conv device =
     sort_key m_sequence (filter (\<lambda>m. m_conversation m = conv \<and> now < m_expires m \<and>
       envelopes_for s device m \<noteq> []) (messages s))"

text \<open>findMany: after a sequence number in ascending order, else the latest, reversed by the caller.\<close>

definition page_rows :: "nat option \<Rightarrow> nat \<Rightarrow> message_row list \<Rightarrow> message_row list" where
  "page_rows after limit rows =
     (case after of
        Some n \<Rightarrow> take limit (filter (\<lambda>m. n < m_sequence m) rows)
      | None \<Rightarrow> rev (take limit (rev rows)))"

definition attachment_out_of ::
    "object_storage \<Rightarrow> time \<Rightarrow> 'x msg_db_scheme \<Rightarrow> message_row \<Rightarrow> error + attachment_out option" where
  "attachment_out_of st now s m =
     (let remaining = (m_expires m - now) div 1000 in
      case find (\<lambda>a. at_message a = m_id m) (attachments s) of
        None \<Rightarrow> Inr None
      | Some a \<Rightarrow>
          if at_status a = Available \<and> 0 < remaining
          then map_sum id (\<lambda>url. Some \<lparr>ao_mime = at_mime a, ao_plain_size = at_plain_size a,
              ao_cipher_size = at_cipher_size a, ao_sha = at_sha a, ao_suite = at_suite a, ao_url = url\<rparr>)
            (os_presign_download st (at_object_key a) remaining now)
          else Inr None)"

definition message_out_of ::
    "object_storage \<Rightarrow> time \<Rightarrow> 'x msg_db_scheme \<Rightarrow> uuid \<Rightarrow> message_row \<Rightarrow> error + message_out" where
  "message_out_of st now s device m =
     (case envelopes_for s device m of
        [] \<Rightarrow> Inl (NotFound ''No existe un sobre cifrado para este dispositivo.'')
      | en # _ \<Rightarrow> map_sum id (\<lambda>a. \<lparr>mo_id = m_id m, mo_sender = m_sender m, mo_device = m_device m,
          mo_client_id = m_client_id m, mo_sequence = nat_text (m_sequence m), mo_kind = m_kind m,
          mo_created = m_created m, mo_expires = m_expires m, mo_protocol = en_protocol en,
          mo_suite = en_suite en, mo_ciphertext = base64_encode (en_ciphertext en), mo_attachment = a,
          mo_receipts = filter (\<lambda>r. re_message r = m_id m) (receipts s)\<rparr>)
          (attachment_out_of st now s m))"

text \<open>The query's text of one to twenty digits is read by BigInt; an absent one asks for the latest.\<close>

definition after_number :: "string option \<Rightarrow> nat option" where
  "after_number after = (case after of Some t \<Rightarrow> if t = [] then None else Some (digits_value 0 t) | None \<Rightarrow> None)"

definition listMessages ::
    "object_storage \<Rightarrow> list_clock \<Rightarrow> uuid \<Rightarrow> uuid \<Rightarrow> uuid \<Rightarrow> string option \<Rightarrow> nat \<Rightarrow>
       ('x msg_db_scheme, message_page) tx" where
  "listMessages st at i conv device after limit =
     bindT (lockActiveConversation (lk_lock at) i conv (Some device)) (\<lambda>_.
     bindT (getT (\<lambda>s. all_right (map (message_out_of st (lk_now at) s device)
       (page_rows (after_number after) limit (readable_messages s (lk_now at) conv device))))) (\<lambda>r.
     bindT (liftT r) (\<lambda>items.
     bindT (lockActiveConversation (lk_relock at) i conv (Some device)) (\<lambda>_.
     returnT \<lparr>mp_items = items, mp_next =
       (if items \<noteq> [] then mo_sequence (last items)
        else case after of Some t \<Rightarrow> t | None \<Rightarrow> ''0'')\<rparr>))))"

section \<open>Receipts\<close>

fun rank :: "delivery_status \<Rightarrow> nat" where
  "rank Sent = 0"
| "rank Delivered = 1"
| "rank Read = 2"

record receipt_result =
  rr_out_message :: uuid
  rr_out_status :: delivery_status
  rr_out_delivered :: "time option"
  rr_out_read :: "time option"

definition receipt_result_of :: "receipt_row \<Rightarrow> receipt_result" where
  "receipt_result_of r = \<lparr>rr_out_message = re_message r, rr_out_status = re_status r,
     rr_out_delivered = re_delivered r, rr_out_read = re_read r\<rparr>"

text \<open>The joins of both statements: the message is unexpired and its conversation current for the user.\<close>

definition receipt_current :: "time \<Rightarrow> 'x msg_db_scheme \<Rightarrow> uuid \<Rightarrow> uuid \<Rightarrow> receipt_row \<Rightarrow> bool" where
  "receipt_current now s i message r \<longleftrightarrow>
     re_message r = message \<and> re_recipient r = i \<and>
     (\<exists>m \<in> set (messages s). m_id m = re_message r \<and> now < m_expires m \<and>
        eligible_rows now s (\<lambda>c a. c_id c = m_conversation m \<and> participant i a) \<noteq> [])"

definition advance_receipt :: "delivery_status \<Rightarrow> time \<Rightarrow> receipt_row \<Rightarrow> receipt_row" where
  "advance_receipt requested now r =
     r\<lparr>re_status := requested,
       re_delivered := (case re_delivered r of None \<Rightarrow> Some now | t \<Rightarrow> t),
       re_read := (if requested = Read then (case re_read r of None \<Rightarrow> Some now | t \<Rightarrow> t) else re_read r)\<rparr>"

definition updateReceipt ::
    "time \<Rightarrow> time \<Rightarrow> uuid \<Rightarrow> uuid \<Rightarrow> bool \<Rightarrow> ('x msg_db_scheme, receipt_result) tx" where
  "updateReceipt now1 now2 i message read s =
     (let requested = (if read then Read else Delivered);
          selected = (\<lambda>r. receipt_current now1 s i message r \<and> rank (re_status r) < rank requested);
          s' = s\<lparr>receipts := upd_where selected (advance_receipt requested now1) (receipts s)\<rparr>
      in case filter selected (receipts s) of
           r # _ \<Rightarrow> Inr (receipt_result_of (advance_receipt requested now1 r), s')
         | [] \<Rightarrow>
             (case filter (receipt_current now2 s i message) (receipts s) of
                r # _ \<Rightarrow> Inr (receipt_result_of r, s')
              | [] \<Rightarrow> Inl (NotFound ''Mensaje no disponible.'')))"

section \<open>Events\<close>

text \<open>The queries of ConversationEligibilityService behind the realtime events.\<close>

definition findCurrentNewMessage ::
    "time \<Rightarrow> uuid \<Rightarrow> uuid \<Rightarrow> uuid \<Rightarrow> 'x msg_db_scheme \<Rightarrow>
       error + (message_row \<times> uuid \<times> uuid) option" where
  "findCurrentNewMessage now message conv sender s =
     singleOrNull [(m, a_client a, a_cashier a).
       m \<leftarrow> messages s, m_id m = message \<and> m_conversation m = conv \<and> m_sender m = sender \<and> now < m_expires m,
       (c, a, cs) \<leftarrow> eligible_rows now s (\<lambda>c a. c_id c = m_conversation m \<and> participant sender a)]"

definition findCurrentReceiptMessage ::
    "time \<Rightarrow> uuid \<Rightarrow> uuid \<Rightarrow> 'x msg_db_scheme \<Rightarrow> error + (uuid \<times> uuid) option" where
  "findCurrentReceiptMessage now message recipient s =
     singleOrNull [(m_conversation m, m_sender m).
       m \<leftarrow> messages s, m_id m = message \<and> now < m_expires m,
       r \<leftarrow> receipts s, re_message r = m_id m \<and> re_recipient r = recipient,
       row \<leftarrow> eligible_rows now s (\<lambda>c a. c_id c = m_conversation m \<and> participant recipient a)]"

section \<open>The controller\<close>

definition assertSessionDevice :: "principal \<Rightarrow> uuid option \<Rightarrow> error + uuid" where
  "assertSessionDevice p requested =
     (case pn_device p of
        None \<Rightarrow> Inl (Forbidden ''La sesion no esta vinculada al dispositivo solicitado.'')
      | Some d \<Rightarrow>
          if requested \<noteq> None \<and> requested \<noteq> Some d
          then Inl (Forbidden ''La sesion no esta vinculada al dispositivo solicitado.'') else Inr d)"

text \<open>The send endpoint; the last component says whether the counterpart is notified in real time.\<close>

definition post_message ::
    "object_storage \<Rightarrow> grant_config \<Rightarrow> env \<Rightarrow> send_clock \<Rightarrow> ack_clock \<Rightarrow>
       ('x msg_db_scheme \<Rightarrow> 'x msg_db_scheme) \<Rightarrow> ('x msg_db_scheme \<Rightarrow> 'x msg_db_scheme) \<Rightarrow>
       principal \<Rightarrow> uuid \<Rightarrow> message_input \<Rightarrow> ('x msg_db_scheme, message_ack \<times> bool) action" where
  "post_message st cfg e at ak others later p conv inp s =
     (case assertSessionDevice p (Some (mi_device inp)) of
        Inl er \<Rightarrow> (Inl er, s)
      | Inr _ \<Rightarrow>
          (case send_message st cfg e at ak others later (pn_id p) conv inp s of
             (Inl er, s') \<Rightarrow> (Inl er, s')
           | (Inr ack, s') \<Rightarrow> (Inr (ack, mk_ack_new ack), s')))"

definition get_messages ::
    "object_storage \<Rightarrow> list_clock \<Rightarrow> principal \<Rightarrow> uuid \<Rightarrow> uuid \<Rightarrow> string option \<Rightarrow> nat \<Rightarrow>
       ('x msg_db_scheme, message_page) tx" where
  "get_messages st at p conv device after limit =
     bindT (liftT (assertSessionDevice p (Some device))) (\<lambda>_. listMessages st at (pn_id p) conv device after limit)"

definition post_upload_grant ::
    "object_storage \<Rightarrow> grant_config \<Rightarrow> env \<Rightarrow> upload_clock \<Rightarrow> principal \<Rightarrow> uuid \<Rightarrow> upload_request \<Rightarrow>
       ('x msg_db_scheme, upload_answer) action" where
  "post_upload_grant st cfg e at p conv q s =
     (case assertSessionDevice p None of
        Inl er \<Rightarrow> (Inl er, s)
      | Inr _ \<Rightarrow> requestUpload st cfg e at (pn_id p) conv q s)"

definition patch_receipt :: "time \<Rightarrow> time \<Rightarrow> principal \<Rightarrow> uuid \<Rightarrow> bool \<Rightarrow> ('x msg_db_scheme, receipt_result) tx" where
  "patch_receipt now1 now2 p message read =
     bindT (liftT (assertSessionDevice p None)) (\<lambda>_. updateReceipt now1 now2 (pn_id p) message read)"

end
