(* ===== verification/MessageFacts.thy ===== *)
theory MessageFacts
  imports Messages
begin

text \<open>
  What the operations of the message service do, one lemma per operation, and the invariant of
  its tables (\<open>message_ok\<close>, \<open>uploads_ok\<close>).
\<close>

section \<open>Locks and actions\<close>

lemma run_transaction_cases:
  "run_transaction m s = (r, s') \<Longrightarrow> (\<exists>e. m s = Inl e \<and> r = Inl e \<and> s' = s) \<or> (\<exists>x. m s = Inr (x, s') \<and> r = Inr x)"
  by (auto simp: run_transaction_def split: sum.splits)

lemma liftT_iffs:
  "liftT x s = Inr r \<longleftrightarrow> (\<exists>y. x = Inr y \<and> r = (y, s))" "liftT x s = Inl e \<longleftrightarrow> x = Inl e"
  by (cases x; auto simp: liftT_def)+

lemma lockCurrent_same: "lockCurrent now i conv dev s = Inr (k, s') \<Longrightarrow> s' = s"
  using lockCurrent_granted by blast

lemma lockActive_same: "lockActiveConversation now i conv dev s = Inr (u, s') \<Longrightarrow> s' = s"
  by (auto simp: lockActiveConversation_def tx_iffs dest: lockCurrent_same)

lemma lockDevices_ok:
  assumes "lockConversationAndDevices now i conv device s = Inr ((k, devs), s')"
  shows "s' = s" and "devs = active_devices s k" and "lockCurrent now i conv (Some device) s = Inr (k, s)"
    and "\<exists>d \<in> set devs. ad_id d = device \<and> ad_user d = i"
proof -
  from assms obtain s1 where l: "lockCurrent now i conv (Some device) s = Inr (k, s1)" and s: "s' = s1"
    "devs = active_devices s1 k" "\<exists>d \<in> set devs. ad_id d = device \<and> ad_user d = i"
    by (auto simp: lockConversationAndDevices_def tx_iffs)
  have "s1 = s" using l by (rule lockCurrent_same)
  with l s show "s' = s" "devs = active_devices s k" "lockCurrent now i conv (Some device) s = Inr (k, s)"
    "\<exists>d \<in> set devs. ad_id d = device \<and> ad_user d = i" by simp_all
qed

lemma acknowledge_ok:
  assumes "acknowledgeExistingMessage at i conv inp s = Inr (ack, s')"
  shows "s' = s \<and> (\<exists>m. find_message s (mi_device inp) (mi_client_id inp) = Some m \<and>
    ack = messageAcknowledgement m False \<and> m_sender m = i \<and> m_conversation m = conv \<and> m_kind m = mi_kind inp \<and>
    ak_now at < m_expires m)"
proof -
  from assms obtain k1 s1 where l: "lockConversationAndDevices (ak_lock at) i conv (mi_device inp) s = Inr (k1, s1)"
    and rest: "(case find_message s1 (mi_device inp) (mi_client_id inp) of
       None \<Rightarrow> throwT (NotFound ''Mensaje no disponible.'')
     | Some m \<Rightarrow>
         bindT (liftT (assertIdempotentMessageMatches m i conv (mi_kind inp))) (\<lambda>_.
         bindT (guardT (ak_now at < m_expires m) (NotFound ''Mensaje no disponible.'')) (\<lambda>_.
         bindT (lockConversationAndDevices (ak_relock at) i conv (mi_device inp)) (\<lambda>_.
         returnT (messageAcknowledgement m False))))) s1 = Inr (ack, s')"
    by (auto simp: acknowledgeExistingMessage_def tx_iffs)
  have s1: "s1 = s" using lockDevices_ok(1) [of "ak_lock at" i conv "mi_device inp" s "fst k1" "snd k1" s1] l by simp
  show ?thesis
  proof (cases "find_message s (mi_device inp) (mi_client_id inp)")
    case None
    with rest s1 show ?thesis by (simp add: tx_iffs)
  next
    case (Some m)
    with rest s1 obtain k2 where "lockConversationAndDevices (ak_relock at) i conv (mi_device inp) s = Inr (k2, s')"
      and "assertIdempotentMessageMatches m i conv (mi_kind inp) = Inr ()" "ak_now at < m_expires m"
      and "ack = messageAcknowledgement m False"
      by (auto simp: tx_iffs liftT_iffs)
    with Some lockDevices_ok(1) [of "ak_relock at" i conv "mi_device inp" s "fst k2" "snd k2" s'] show ?thesis
      by (auto simp: assertIdempotentMessageMatches_def split: if_splits)
  qed
qed

section \<open>Accepted envelopes\<close>

lemma check_envelope_ok:
  assumes "check_envelope devs sender received canonical en = Inr u"
  shows "ei_device en \<notin> set received" "device_of devs (ei_device en) \<noteq> None"
    "ei_protocol en = MATRIX_MESSAGE_PROTOCOL_VERSION" "ei_suite en = MATRIX_MEGOLM_ALGORITHM"
    "16 \<le> length (base64_decode (ei_ciphertext en))" "length (base64_decode (ei_ciphertext en)) \<le> 131072"
    "base64_encode (base64_decode (ei_ciphertext en)) = ei_ciphertext en"
    "\<forall>t. canonical = Some t \<longrightarrow> t = ei_ciphertext en"
    "check_content sender (base64_decode (ei_ciphertext en)) = Inr ()"
  using assms unfolding check_envelope_def
  by (simp_all split: if_splits option.splits)

lemma check_envelopes_ok:
  "check_envelopes devs sender received canonical es = Inr r \<Longrightarrow>
     r = received @ map ei_device es \<and> distinct (map ei_device es) \<and> set received \<inter> set (map ei_device es) = {} \<and>
     (\<forall>en \<in> set es. device_of devs (ei_device en) \<noteq> None \<and>
        check_content sender (base64_decode (ei_ciphertext en)) = Inr () \<and>
        (\<forall>t. canonical = Some t \<longrightarrow> ei_ciphertext en = t)) \<and>
     (\<forall>en \<in> set es. \<forall>en' \<in> set es. ei_ciphertext en = ei_ciphertext en')"
proof (induction es arbitrary: received canonical)
  case (Cons en es)
  then have c: "check_envelope devs sender received canonical en = Inr ()"
    and r: "check_envelopes devs sender (received @ [ei_device en]) (Some (ei_ciphertext en)) es = Inr r"
    by (auto split: sum.splits)
  show ?case using Cons.IH [OF r] check_envelope_ok(1,2,8,9) [OF c] by auto
qed simp

text \<open>An accepted batch has one envelope per device and one ciphertext, the sender's Megolm event.\<close>

lemma complete_envelopes:
  assumes "assertCompleteEnvelopes inp devs = Inr ()" "distinct (map ad_id devs)"
  obtains sender where "device_of devs (mi_device inp) = Some sender" "distinct (map ei_device (mi_envelopes inp))"
    "set (map ei_device (mi_envelopes inp)) = set (map ad_id devs)"
    "\<forall>en \<in> set (mi_envelopes inp). check_content sender (base64_decode (ei_ciphertext en)) = Inr ()"
    "\<forall>en \<in> set (mi_envelopes inp). \<forall>en' \<in> set (mi_envelopes inp). ei_ciphertext en = ei_ciphertext en'"
proof -
  from assms(1) obtain sender received where s: "device_of devs (mi_device inp) = Some sender"
    and c: "check_envelopes devs sender [] None (mi_envelopes inp) = Inr received"
    and l: "length received = length (remdups (map ad_id devs))" "\<forall>d \<in> set devs. ad_id d \<in> set received"
    by (auto simp: assertCompleteEnvelopes_def split: if_splits option.splits sum.splits)
  note ok = check_envelopes_ok [OF c]
  have r: "received = map ei_device (mi_envelopes inp)" using ok by simp
  have sub: "set (map ad_id devs) \<subseteq> set received" using l(2) by auto
  have "distinct received" using ok r by simp
  then have "card (set received) = length received" by (rule distinct_card)
  also have "\<dots> = card (set (map ad_id devs))" using l(1) by (simp only: length_remdups_card_conv)
  finally have "set (map ad_id devs) = set received" by (intro card_subset_eq) (use sub in simp_all)
  then have eq: "set (map ei_device (mi_envelopes inp)) = set (map ad_id devs)" unfolding r by (rule sym)
  show thesis by (rule that [OF s _ eq]) (use ok in blast)+
qed

lemma check_content_ok:
  "check_content sender bs = Inr () \<Longrightarrow>
     \<exists>m. megolm_of_bytes bs = Some m \<and> mg_sender_key m = ad_curve sender \<and> mg_device m = ad_matrix_device sender"
  by (auto simp: check_content_def split: option.splits if_splits)

section \<open>A stored message\<close>

lemma claim_ok:
  assumes "claim_reservation at i conv grant s = Inr (u, s')"
  shows "s' = s\<lparr>pending_uploads := (case grant of None \<Rightarrow> pending_uploads s
     | Some g \<Rightarrow> filter (\<lambda>p. \<not> reservation_matches g i conv (sk_claim at) p) (pending_uploads s))\<rparr> \<and>
    (\<forall>g. grant = Some g \<longrightarrow>
      count_where (reservation_matches g i conv (sk_claim at)) (pending_uploads s) = 1)"
  using assms by (auto simp: claim_reservation_def tx_iffs split: option.splits)

definition new_envelopes :: "uuid \<Rightarrow> message_input \<Rightarrow> envelope_row list" where
  "new_envelopes message inp = map (\<lambda>en. \<lparr>en_message = message, en_device = ei_device en,
     en_protocol = ei_protocol en, en_suite = ei_suite en,
     en_ciphertext = base64_decode (ei_ciphertext en)\<rparr>) (mi_envelopes inp)"

definition new_attachment :: "time \<Rightarrow> uuid \<Rightarrow> upload_grant option \<Rightarrow> attachment_row list" where
  "new_attachment created message grant = (case grant of None \<Rightarrow> [] | Some g \<Rightarrow>
     [\<lparr>at_message = message, at_object_key = ug_object_key g, at_mime = ug_mime g, at_plain_size = ug_plain_size g,
       at_cipher_size = ug_cipher_size g, at_sha = ug_sha g, at_suite = ''A256CTR'', at_status = Available, at_created = created,
       at_attempts = 0, at_purge_attempt = None, at_purge_error = None\<rparr>])"

lemma create_ok:
  assumes "create_message e at i conv inp recipient grant s = Inr (m, s')"
  shows "m = \<lparr>m_id = uuid_at e (draws s), m_conversation = conv, m_sender = i, m_device = mi_device inp,
      m_client_id = mi_client_id inp, m_sequence = message_sequence s, m_kind = mi_kind inp,
      m_created = sk_created at, m_expires = sk_created at + MESSAGE_TTL_MS\<rparr> \<and>
    find_message s (mi_device inp) (mi_client_id inp) = None \<and>
    s' = s\<lparr>draws := Suc (draws s), message_sequence := Suc (message_sequence s), messages := messages s @ [m],
      envelopes := envelopes s @ new_envelopes (m_id m) inp,
      receipts := receipts s @ [\<lparr>re_message = m_id m, re_recipient = recipient, re_status = Sent,
        re_delivered = None, re_read = None\<rparr>],
      attachments := attachments s @ new_attachment (sk_begin at) (m_id m) grant\<rparr>"
  using assms
  by (auto simp: create_message_def Let_def new_envelopes_def new_attachment_def split: if_splits)

text \<open>The whole transaction, in terms of the state it found.\<close>

lemma store_ok:
  assumes "store_message e at i conv inp grant s = Inr (m, s')"
  obtains k where "lockCurrent (sk_lock at) i conv (Some (mi_device inp)) s = Inr (k, s)"
    "assertCompleteEnvelopes inp (active_devices s k) = Inr ()"
    "\<exists>d \<in> set (active_devices s k). ad_id d = mi_device inp \<and> ad_user d = i"
    "\<forall>g. grant = Some g \<longrightarrow> count_where (reservation_matches g i conv (sk_claim at)) (pending_uploads s) = 1"
    "find_message s (mi_device inp) (mi_client_id inp) = None"
    "m = \<lparr>m_id = uuid_at e (draws s), m_conversation = conv, m_sender = i, m_device = mi_device inp,
      m_client_id = mi_client_id inp, m_sequence = message_sequence s, m_kind = mi_kind inp,
      m_created = sk_created at, m_expires = sk_created at + MESSAGE_TTL_MS\<rparr>"
    "messages s' = messages s @ [m]" "envelopes s' = envelopes s @ new_envelopes (m_id m) inp"
    "receipts s' = receipts s @ [\<lparr>re_message = m_id m,
       re_recipient = (if ca_client k = i then ca_cashier k else ca_client k), re_status = Sent,
       re_delivered = None, re_read = None\<rparr>]"
    "attachments s' = attachments s @ new_attachment (sk_begin at) (m_id m) grant"
    "pending_uploads s' = (case grant of None \<Rightarrow> pending_uploads s
       | Some g \<Rightarrow> filter (\<lambda>p. \<not> reservation_matches g i conv (sk_claim at) p) (pending_uploads s))"
    "message_sequence s' = Suc (message_sequence s)" "draws s' = Suc (draws s)"
    "notifications s' = notifications s @ [\<lparr>n_user = (if ca_client k = i then ca_cashier k else ca_client k),
       n_type = NotifNewMessage, n_related = conv, n_message = Some (m_id m), n_expires = Some (m_expires m)\<rparr>]" "msg_db.more s' = msg_db.more s"
proof -
  from assms obtain k devs s1 s2 s3 u v w where
    l: "lockConversationAndDevices (sk_lock at) i conv (mi_device inp) s = Inr ((k, devs), s1)"
    and a: "assertCompleteEnvelopes inp devs = Inr u"
    and c: "claim_reservation at i conv grant s1 = Inr (v, s2)"
    and m: "create_message e at i conv inp (if ca_client k = i then ca_cashier k else ca_client k) grant s2 = Inr (m, s3)"
    and n: "bindT (notify_message (if ca_client k = i then ca_cashier k else ca_client k) conv m) (\<lambda>_.
       lockActiveConversation (sk_relock at) i conv (Some (mi_device inp))) s3 = Inr (w, s')"
    unfolding store_message_def by (auto simp: tx_iffs liftT_iffs split: prod.splits)
  note lk = lockDevices_ok [OF l]
  from n obtain s4 where n: "s4 = s3\<lparr>notifications := notifications s3 @
      [\<lparr>n_user = (if ca_client k = i then ca_cashier k else ca_client k), n_type = NotifNewMessage,
        n_related = conv, n_message = Some (m_id m), n_expires = Some (m_expires m)\<rparr>]\<rparr>"
    and "lockActiveConversation (sk_relock at) i conv (Some (mi_device inp)) s4 = Inr (w, s')"
    by (auto simp: notify_message_def tx_iffs)
  then have s': "s' = s4" using lockActive_same by blast
  note c = claim_ok [OF c [unfolded lk(1)]]
  note m = create_ok [OF m]
  have "find_message s2 d i = find_message s d i" for d i using c by (simp add: find_message_def)
  with c m n s' lk(2-4) a show thesis by (intro that [of k]) simp_all
qed

section \<open>The invariant of the tables\<close>

text \<open>The CHECK constraint message_receipts_state_check.\<close>

fun receipt_state_ok :: "delivery_status \<Rightarrow> time option \<Rightarrow> time option \<Rightarrow> bool" where
  "receipt_state_ok Sent d r \<longleftrightarrow> d = None \<and> r = None"
| "receipt_state_ok Delivered d r \<longleftrightarrow> d \<noteq> None \<and> r = None"
| "receipt_state_ok Read d r \<longleftrightarrow> d \<noteq> None \<and> r \<noteq> None"

definition message_ids :: "'x msg_db_scheme \<Rightarrow> uuid set" where
  "message_ids s = m_id ` set (messages s)"

definition message_keys_ok :: "'x msg_db_scheme \<Rightarrow> bool" where
  "message_keys_ok s \<longleftrightarrow>
     sorted_wrt (<) (map m_sequence (messages s)) \<and> (\<forall>m \<in> set (messages s). m_sequence m < message_sequence s) \<and>
     distinct (map m_id (messages s)) \<and> distinct (map (\<lambda>m. (m_device m, m_client_id m)) (messages s)) \<and>
     distinct (map (\<lambda>en. (en_message en, en_device en)) (envelopes s))"

definition message_links_ok :: "'x msg_db_scheme \<Rightarrow> bool" where
  "message_links_ok s \<longleftrightarrow>
     en_message ` set (envelopes s) \<subseteq> message_ids s \<and> re_message ` set (receipts s) \<subseteq> message_ids s \<and>
     at_message ` set (attachments s) \<subseteq> message_ids s"

text \<open>Retention, the triggers of the payload and the states of the receipts.\<close>

definition message_rows_ok :: "'x msg_db_scheme \<Rightarrow> bool" where
  "message_rows_ok s \<longleftrightarrow>
     (\<forall>m \<in> set (messages s). m_expires m = m_created m + MESSAGE_TTL_MS \<and>
        count_where (\<lambda>a. at_message a = m_id m) (attachments s) = (if m_kind m = IMAGE then 1 else 0)) \<and>
     (\<forall>r \<in> set (receipts s). receipt_state_ok (re_status r) (re_delivered r) (re_read r))"

definition message_inv :: "env \<Rightarrow> 'x msg_db_scheme \<Rightarrow> bool" where
  "message_inv e s \<longleftrightarrow> message_keys_ok s \<and> message_links_ok s \<and> message_rows_ok s \<and>
     supply_ok e (draws s) (message_ids s)"

text \<open>
  The committed transactions: a message, a reservation, a receipt, a drawn identifier, and any
  change of the other tables.
\<close>

definition same_messages :: "'x msg_db_scheme \<Rightarrow> 'x msg_db_scheme \<Rightarrow> bool" where
  "same_messages s s' \<longleftrightarrow> messages s' = messages s \<and> envelopes s' = envelopes s \<and> receipts s' = receipts s \<and>
     attachments s' = attachments s \<and> message_sequence s' = message_sequence s \<and> draws s \<le> draws s'"

inductive message_step :: "env \<Rightarrow> 'x msg_db_scheme \<Rightarrow> 'x msg_db_scheme \<Rightarrow> bool" for e where
  stored: "store_message e at i conv inp grant s = Inr (m, s') \<Longrightarrow> (grant = None) = (mi_kind inp = TEXT) \<Longrightarrow>
     message_step e s s'"
| receipt: "updateReceipt now1 now2 i message read s = Inr (r, s') \<Longrightarrow> message_step e s s'"
| elsewhere: "same_messages s s' \<Longrightarrow> message_step e s s'"

inductive_cases message_stepE: "message_step e s s'"

lemma same_messages_inv: "message_inv e s \<Longrightarrow> same_messages s s' \<Longrightarrow> message_inv e s'"
  by (auto simp: message_inv_def same_messages_def message_keys_ok_def message_links_ok_def message_rows_ok_def
      message_ids_def intro: supply_ok_mono)

lemma find_message_None:
  "find_message s d k = None \<longleftrightarrow> (d, k) \<notin> (\<lambda>m. (m_device m, m_client_id m)) ` set (messages s)"
  by (auto simp: find_message_def find_None_iff)

lemma store_keys:
  assumes "store_message e at i conv inp grant s = Inr (m, s')" "message_keys_ok s" "message_links_ok s"
    "m_id m \<notin> message_ids s"
  shows "message_keys_ok s'"
  using assms(1)
proof (rule store_ok)
  fix k
  assume a: "assertCompleteEnvelopes inp (active_devices s k) = Inr ()"
    and none: "find_message s (mi_device inp) (mi_client_id inp) = None"
    and m: "m = \<lparr>m_id = uuid_at e (draws s), m_conversation = conv, m_sender = i, m_device = mi_device inp,
      m_client_id = mi_client_id inp, m_sequence = message_sequence s, m_kind = mi_kind inp,
      m_created = sk_created at, m_expires = sk_created at + MESSAGE_TTL_MS\<rparr>"
    and t: "messages s' = messages s @ [m]" "envelopes s' = envelopes s @ new_envelopes (m_id m) inp"
      "message_sequence s' = Suc (message_sequence s)"
  from a obtain sender received where "check_envelopes (active_devices s k) sender [] None (mi_envelopes inp) = Inr received"
    by (auto simp: assertCompleteEnvelopes_def split: if_splits option.splits sum.splits)
  from check_envelopes_ok [OF this] have "distinct (map ei_device (mi_envelopes inp))" by simp
  then have new: "distinct (map (\<lambda>en. (en_message en, en_device en)) (new_envelopes (m_id m) inp))"
    by (simp add: new_envelopes_def comp_def distinct_map inj_on_def)
  have "(en_message en, en_device en) \<noteq> (en_message en', en_device en')"
    if "en \<in> set (envelopes s)" "en' \<in> set (new_envelopes (m_id m) inp)" for en en'
    using that assms(3,4) by (auto simp: message_links_ok_def new_envelopes_def)
  then have "distinct (map (\<lambda>en. (en_message en, en_device en)) (envelopes s'))"
    using assms(2) new unfolding t message_keys_ok_def by (fastforce simp: image_iff)
  moreover have "sorted_wrt (<) (map m_sequence (messages s'))"
    using assms(2) m unfolding t message_keys_ok_def by (simp add: sorted_wrt_append)
  moreover have "\<forall>m \<in> set (messages s'). m_sequence m < message_sequence s'"
    using assms(2) m unfolding t message_keys_ok_def by (auto simp: less_SucI)
  moreover have "distinct (map m_id (messages s'))"
    using assms(2,4) unfolding t message_keys_ok_def message_ids_def by simp
  moreover have "distinct (map (\<lambda>m. (m_device m, m_client_id m)) (messages s'))"
    using assms(2) none [unfolded find_message_None] m unfolding t message_keys_ok_def by (simp add: image_iff)
  ultimately show ?thesis unfolding message_keys_ok_def by blast
qed

lemma store_rows:
  assumes "store_message e at i conv inp grant s = Inr (m, s')" "message_links_ok s" "message_rows_ok s"
    "m_id m \<notin> message_ids s" "(grant = None) = (mi_kind inp = TEXT)"
  shows "message_links_ok s' \<and> message_rows_ok s'"
  using assms(1)
proof (rule store_ok)
  fix k
  assume m: "m = \<lparr>m_id = uuid_at e (draws s), m_conversation = conv, m_sender = i, m_device = mi_device inp,
      m_client_id = mi_client_id inp, m_sequence = message_sequence s, m_kind = mi_kind inp,
      m_created = sk_created at, m_expires = sk_created at + MESSAGE_TTL_MS\<rparr>"
    and t: "messages s' = messages s @ [m]" "envelopes s' = envelopes s @ new_envelopes (m_id m) inp"
     "attachments s' = attachments s @ new_attachment (sk_begin at) (m_id m) grant"
    and r: "receipts s' = receipts s @ [\<lparr>re_message = m_id m,
       re_recipient = (if ca_client k = i then ca_cashier k else ca_client k), re_status = Sent,
       re_delivered = None, re_read = None\<rparr>]"
  have links: "message_links_ok s'"
    using assms(2) unfolding message_links_ok_def message_ids_def t r
    by (auto simp: new_envelopes_def new_attachment_def split: option.splits)
  have old: "count_where (\<lambda>a. at_message a = m_id m) (attachments s) = 0"
    using assms(2,4) by (auto simp: count_where_0_iff message_links_ok_def)
  have kind: "count_where (\<lambda>a. at_message a = m_id m) (new_attachment (sk_begin at) (m_id m) grant) = (if m_kind m = IMAGE then 1 else 0)"
    using assms(5) m by (cases "mi_kind inp") (auto simp: new_attachment_def split: option.splits)
  have other: "count_where (\<lambda>a. at_message a = j) (new_attachment (sk_begin at) (m_id m) grant) = 0" if "j \<noteq> m_id m" for j
    using that by (auto simp: new_attachment_def split: option.splits)
  have "m_expires n = m_created n + MESSAGE_TTL_MS \<and>
        count_where (\<lambda>a. at_message a = m_id n) (attachments s') = (if m_kind n = IMAGE then 1 else 0)"
    if n: "n \<in> set (messages s')" for n
  proof (cases "n = m")
    case True
    then show ?thesis using old kind m unfolding t by simp
  next
    case False
    with n have "n \<in> set (messages s)" unfolding t by simp
    moreover from this have "m_id n \<noteq> m_id m" using assms(4) unfolding message_ids_def by (metis imageI)
    ultimately show ?thesis using assms(3) other unfolding t message_rows_ok_def by simp
  qed
  moreover have "\<forall>r \<in> set (receipts s'). receipt_state_ok (re_status r) (re_delivered r) (re_read r)"
    using assms(3) unfolding r message_rows_ok_def by simp
  ultimately have "message_rows_ok s'" unfolding message_rows_ok_def by blast
  with links show ?thesis by simp
qed

lemma store_inv:
  assumes "store_message e at i conv inp grant s = Inr (m, s')" "(grant = None) = (mi_kind inp = TEXT)"
    "message_inv e s"
  shows "message_inv e s'" and "m_id m \<notin> message_ids s"
proof -
  have "m_id m = uuid_at e (draws s) \<and> message_ids s' = insert (m_id m) (message_ids s) \<and> draws s' = Suc (draws s)"
    using assms(1) by (rule store_ok) (simp add: message_ids_def)
  then have i: "m_id m = uuid_at e (draws s)" "message_ids s' = insert (m_id m) (message_ids s)"
    "draws s' = Suc (draws s)" by simp_all
  have sup: "supply_ok e (draws s) (message_ids s)" using assms(3) by (simp add: message_inv_def)
  show fresh: "m_id m \<notin> message_ids s" using supply_ok_fresh [OF sup order_refl] i(1) by simp
  have "supply_ok e (draws s') (message_ids s')"
    using supply_ok_draw [OF sup order_refl] i by simp
  with store_keys [OF assms(1)] store_rows [OF assms(1) _ _ fresh assms(2)] assms(3) fresh
  show "message_inv e s'" by (simp add: message_inv_def)
qed

section \<open>Receipts\<close>

definition advances :: "receipt_row \<Rightarrow> receipt_row \<Rightarrow> bool" where
  "advances r r' \<longleftrightarrow> re_message r' = re_message r \<and> re_recipient r' = re_recipient r \<and>
     rank (re_status r) \<le> rank (re_status r') \<and>
     (\<forall>t. re_delivered r = Some t \<longrightarrow> re_delivered r' = Some t) \<and> (\<forall>t. re_read r = Some t \<longrightarrow> re_read r' = Some t)"

lemma advances_refl: "advances r r"
  by (simp add: advances_def)

lemma advance_receipt_advances:
  "rank (re_status r) < rank q \<Longrightarrow> advances r (advance_receipt q now r)"
  by (auto simp: advances_def advance_receipt_def split: option.splits)

lemma advance_receipt_state:
  "rank (re_status r) < rank q \<Longrightarrow> receipt_state_ok (re_status r) (re_delivered r) (re_read r) \<Longrightarrow>
   receipt_state_ok (re_status (advance_receipt q now r)) (re_delivered (advance_receipt q now r))
     (re_read (advance_receipt q now r))"
  by (cases q; cases "re_status r") (auto simp: advance_receipt_def)

definition receipt_selected :: "time \<Rightarrow> 'x msg_db_scheme \<Rightarrow> uuid \<Rightarrow> uuid \<Rightarrow> bool \<Rightarrow> receipt_row \<Rightarrow> bool" where
  "receipt_selected now s i message read r \<longleftrightarrow>
     receipt_current now s i message r \<and> rank (re_status r) < rank (if read then Read else Delivered)"

lemma updateReceipt_state:
  assumes "updateReceipt now1 now2 i message read s = Inr (res, s')"
  shows "s' = s\<lparr>receipts := upd_where (receipt_selected now1 s i message read)
    (advance_receipt (if read then Read else Delivered) now1) (receipts s)\<rparr>"
  using assms unfolding updateReceipt_def Let_def receipt_selected_def [abs_def]
  by (auto split: list.splits)

lemma receipt_inv:
  assumes "updateReceipt now1 now2 i message read s = Inr (res, s')" "message_inv e s"
  shows "message_inv e s'"
proof -
  let ?q = "if read then Read else Delivered"
  have s': "s' = s\<lparr>receipts := upd_where (receipt_selected now1 s i message read) (advance_receipt ?q now1) (receipts s)\<rparr>"
    using assms(1) by (rule updateReceipt_state)
  have key: "re_message (advance_receipt q now r) = re_message r" for q now r by (simp add: advance_receipt_def)
  have "re_message ` set (receipts s') = re_message ` set (receipts s)"
    unfolding s' by (simp add: image_upd_where key)
  moreover have "\<forall>r \<in> set (receipts s'). receipt_state_ok (re_status r) (re_delivered r) (re_read r)"
    using assms(2) unfolding s' message_inv_def message_rows_ok_def
    by (auto simp: set_upd_where receipt_selected_def intro: advance_receipt_state)
  ultimately show ?thesis
    using assms(2) unfolding s' message_inv_def message_keys_ok_def message_links_ok_def message_rows_ok_def message_ids_def
    by simp
qed

lemma step_inv: "message_step e s s' \<Longrightarrow> message_inv e s \<Longrightarrow> message_inv e s'"
  by (erule message_stepE) (blast intro: store_inv receipt_inv same_messages_inv)+

lemma steps_inv: "(message_step e)\<^sup>*\<^sup>* s s' \<Longrightarrow> message_inv e s \<Longrightarrow> message_inv e s'"
  by (induction rule: rtranclp_induct) (blast intro: step_inv)+

end
