(* ===== verification/MessageClaims.thy ===== *)
theory MessageClaims
  imports MessageFacts
begin

text \<open>The properties of the message service, over the lemmas of MessageFacts.\<close>

section \<open>What a client seals\<close>

definition megolm_ok :: "megolm_content \<Rightarrow> bool" where
  "megolm_ok m \<longleftrightarrow> matrix_device_id (mg_device m) \<and> isCanonicalUnpaddedBase64 (mg_sender_key m) (Some 32) 1 \<and>
     isCanonicalUnpaddedBase64 (mg_session m) (Some 32) 1 \<and> isCanonicalUnpaddedBase64 (mg_ciphertext m) None 16 \<and>
     json_bytes (megolm_json m) \<le> 128 * 1024"

definition sealed :: "megolm_content \<Rightarrow> string" where
  "sealed m = base64_encode (utf8_encode (json_text (megolm_json m)))"

lemma utf8_encode_length: "length (utf8_encode t) = utf8_length t"
  by (induction t) (auto simp: utf8_encode_def utf8_length_def code_def)

lemma sealed_bytes: "base64_decode (sealed m) = utf8_encode (json_text (megolm_json m))"
  unfolding sealed_def by (rule base64_roundtrip) (simp add: utf8_encode_less)

lemma sealed_size: "length (base64_decode (sealed m)) = json_bytes (megolm_json m)"
  by (simp add: sealed_bytes utf8_encode_length json_bytes_def)

lemma utf8_length_ge: "length t \<le> utf8_length t"
  by (induction t) (auto simp: utf8_length_def)

lemma json_quote_ge: "length t + 2 \<le> length (json_quote t)"
proof -
  have one: "1 \<le> length (escape_char c)" for c by (simp add: escape_char_def Let_def)
  have "length t \<le> length (concat (map escape_char t))"
  proof (induction t)
    case (Cons a t)
    with one [of a] show ?case by simp
  qed simp
  then show ?thesis by (simp add: json_quote_def)
qed

lemma sealed_size_min: "16 \<le> length (base64_decode (sealed m))"
proof -
  have "18 \<le> length (json_quote ''algorithm'') + length (json_quote MATRIX_MEGOLM_ALGORITHM)"
    using json_quote_ge [of "''algorithm''"] json_quote_ge [of MATRIX_MEGOLM_ALGORITHM] by simp
  also have "\<dots> \<le> length (json_text (megolm_json m))" by (simp add: megolm_json_def)
  also have "\<dots> \<le> json_bytes (megolm_json m)" by (simp add: json_bytes_def utf8_length_ge)
  finally show ?thesis by (simp add: sealed_size)
qed

lemma megolm_plain: "plain_json (megolm_json m)"
  unfolding megolm_json_def by (intro plain_json.intros) (simp_all add: plain_json.intros)

lemma megolm_of_sealed: "megolm_ok m \<Longrightarrow> megolm_of_bytes (base64_decode (sealed m)) = Some m"
  unfolding megolm_of_bytes_def sealed_bytes utf8_fatal_roundtrip megolm_ok_def
  by (simp add: parse_json_text [OF megolm_plain] parse_megolm_back)

section \<open>Sending\<close>

text \<open>The devices of the model have distinct identifiers when the schema's keys hold.\<close>

definition device_keys_ok :: "'x msg_db_scheme \<Rightarrow> bool" where
  "device_keys_ok s \<longleftrightarrow> distinct (map d_id (devices s)) \<and> distinct (map mk_device (matrix_keys s))"

lemma join_key_distinct:
  assumes "distinct (map key xs)" "\<And>x y. y \<in> set (f x) \<Longrightarrow> key' y = key x" "\<And>x. length (f x) \<le> 1"
  shows "distinct (map key' (concat (map f xs)))"
  using assms(1)
proof (induction xs)
  case (Cons x xs)
  have "distinct (map key' (f x))" using assms(3) [of x] by (cases "f x") auto
  moreover have "key' y \<noteq> key' z" if "y \<in> set (f x)" "z \<in> set (concat (map f xs))" for y z
    using that assms(2) Cons.prems by (fastforce simp: image_iff)
  ultimately show ?case using Cons by (auto simp: image_iff)
qed simp

lemma active_devices_distinct: "device_keys_ok s \<Longrightarrow> distinct (map ad_id (active_devices s k))"
proof -
  assume ok: "device_keys_ok s"
  let ?f = "\<lambda>d :: device_row. if d_user d \<in> {ca_client k, ca_cashier k} \<and> d_status d = DevActive
     then concat (map (\<lambda>mk :: matrix_key_row. if mk_device mk = d_id d then [\<lparr>ad_id = d_id d, ad_user = d_user d,
       ad_protocol = d_protocol d, ad_curve = mk_curve mk, ad_matrix_device = mk_matrix_device mk\<rparr>] else [])
       (matrix_keys s)) else []"
  have "length (concat (map (\<lambda>mk. if mk_device mk = d_id d then [h mk] else []) (matrix_keys s))) \<le> 1"
    for d :: device_row and h :: "matrix_key_row \<Rightarrow> active_device"
    using ok by (intro join_if count_where_key_le) (simp_all add: device_keys_ok_def)
  then have "length (?f d) \<le> 1" for d by (auto simp del: One_nat_def)
  moreover have "ad_id y = d_id d" if "y \<in> set (?f d)" for y and d :: device_row using that by (auto split: if_splits)
  ultimately have "distinct (map ad_id (concat (map ?f (devices s))))"
    using ok unfolding device_keys_ok_def by (intro join_key_distinct [where key = d_id]) auto
  then show ?thesis by (simp add: active_devices_def distinct_map)
qed

lemma device_of_distinct:
  "distinct (map ad_id devs) \<Longrightarrow> d \<in> set devs \<Longrightarrow> device_of devs (ad_id d) = Some d"
  unfolding device_of_def by (rule find_key_eq) (simp_all add: rev_map [symmetric])

lemma ack_not_new:
  "run_transaction (acknowledgeExistingMessage ak i conv inp) s = (Inr ack, s') \<Longrightarrow> \<not> mk_ack_new ack"
  using run_transaction_cases acknowledge_ok by (fastforce simp: messageAcknowledgement_def)

lemma send_new:
  assumes "send_message st cfg e at ak others later i conv inp s = (Inr ack, s')" "mk_ack_new ack"
  obtains grant m where "prepareAttachment st cfg at i conv inp s = Inr grant"
    "store_message e at i conv inp grant (others s) = Inr (m, s')" "ack = messageAcknowledgement m True"
    "find_message s (mi_device inp) (mi_client_id inp) = None"
proof -
  have n: "find_message s (mi_device inp) (mi_client_id inp) = None"
    using assms ack_not_new by (fastforce simp: send_message_def split: if_splits)
  with assms obtain grant where g: "prepareAttachment st cfg at i conv inp s = Inr grant"
    by (auto simp: send_message_def split: sum.splits)
  show thesis
  proof (cases "store_message e at i conv inp grant (others s)")
    case (Inr p)
    with assms n g that show thesis by (cases p) (auto simp: send_message_def run_transaction_def)
  next
    case (Inl er)
    with assms n g show thesis
      by (cases er) (auto simp: send_message_def run_transaction_def Let_def split: if_splits
        dest: ack_not_new [unfolded run_transaction_def])
  qed
qed

lemma prepare_kind: "prepareAttachment st cfg at i conv inp s = Inr grant \<Longrightarrow> (grant = None) = (mi_kind inp = TEXT)"
  by (auto simp: prepareAttachment_def Let_def split: if_splits sum.splits)

text \<open>What a message's stored envelopes hold.\<close>

lemma stored_envelopes:
  assumes "store_message e at i conv inp grant s = Inr (m, s')" "message_links_ok s" "m_id m \<notin> message_ids s"
  shows "filter (\<lambda>en. en_message en = m_id m) (envelopes s') = new_envelopes (m_id m) inp \<and>
    filter (\<lambda>r. re_message r = m_id m) (receipts s') = [last (receipts s')]"
  using assms(1)
proof (rule store_ok)
  fix k
  assume t: "envelopes s' = envelopes s @ new_envelopes (m_id m) inp"
    and r: "receipts s' = receipts s @ [\<lparr>re_message = m_id m,
       re_recipient = (if ca_client k = i then ca_cashier k else ca_client k), re_status = Sent,
       re_delivered = None, re_read = None\<rparr>]"
  have "filter (\<lambda>en. en_message en = m_id m) (envelopes s) = []" "filter (\<lambda>r. re_message r = m_id m) (receipts s) = []"
    using assms(2,3) by (auto simp: filter_empty_conv message_links_ok_def)
  moreover have "filter (\<lambda>en. en_message en = m_id m) (new_envelopes (m_id m) inp) = new_envelopes (m_id m) inp"
    by (simp add: new_envelopes_def filter_map comp_def)
  ultimately show ?thesis unfolding t r by simp
qed

text \<open>
  A delivery: one envelope for each active device of the two participants, all with the same
  bytes, which are a Megolm event of the sending device.
\<close>

definition delivered_to_all :: "'x msg_db_scheme \<Rightarrow> conversation_access \<Rightarrow> uuid \<Rightarrow> uuid \<Rightarrow> envelope_row list \<Rightarrow> bool" where
  "delivered_to_all s k i device ens \<longleftrightarrow>
     distinct (map en_device ens) \<and> set (map en_device ens) = set (map ad_id (active_devices s k)) \<and>
     (\<exists>bs content sender. (\<forall>en \<in> set ens. en_ciphertext en = bs) \<and> megolm_of_bytes bs = Some content \<and>
        sender \<in> set (active_devices s k) \<and> ad_id sender = device \<and> ad_user sender = i \<and>
        mg_sender_key content = ad_curve sender \<and> mg_device content = ad_matrix_device sender)"

lemma envelopes_delivered:
  assumes "assertCompleteEnvelopes inp (active_devices s k) = Inr ()" "device_keys_ok s"
    "\<exists>d \<in> set (active_devices s k). ad_id d = mi_device inp \<and> ad_user d = i"
  shows "delivered_to_all s k i (mi_device inp) (new_envelopes message inp)"
proof -
  let ?devs = "active_devices s k"
  have d: "distinct (map ad_id ?devs)" using assms(2) by (rule active_devices_distinct)
  from assms(3) obtain own where own: "own \<in> set ?devs" "ad_id own = mi_device inp" "ad_user own = i" by blast
  from complete_envelopes [OF assms(1) d] obtain sender where s: "device_of ?devs (mi_device inp) = Some sender"
    and di: "distinct (map ei_device (mi_envelopes inp))"
    and all: "set (map ei_device (mi_envelopes inp)) = set (map ad_id ?devs)"
    and c: "\<forall>en \<in> set (mi_envelopes inp). check_content sender (base64_decode (ei_ciphertext en)) = Inr ()"
    and same: "\<forall>en \<in> set (mi_envelopes inp). \<forall>en' \<in> set (mi_envelopes inp). ei_ciphertext en = ei_ciphertext en'"
    by metis
  have "sender = own" using s device_of_distinct [OF d own(1)] own(2) by simp
  from own all obtain en where en: "en \<in> set (mi_envelopes inp)" by (auto simp: image_iff)
  from check_content_ok [OF c [rule_format, OF en]] obtain content
    where "megolm_of_bytes (base64_decode (ei_ciphertext en)) = Some content"
      "mg_sender_key content = ad_curve sender" "mg_device content = ad_matrix_device sender" by blast
  moreover have "en_ciphertext x = base64_decode (ei_ciphertext en)" if "x \<in> set (new_envelopes message inp)" for x
  proof -
    from that obtain y where "y \<in> set (mi_envelopes inp)" "en_ciphertext x = base64_decode (ei_ciphertext y)"
      by (auto simp: new_envelopes_def)
    with same en show ?thesis by metis
  qed
  moreover have "map en_device (new_envelopes message inp) = map ei_device (mi_envelopes inp)"
    by (simp add: new_envelopes_def)
  ultimately show ?thesis
    using di all own \<open>sender = own\<close> unfolding delivered_to_all_def by metis
qed

section \<open>Resending, uploads, receipts and pages\<close>

lemma send_existing:
  assumes "find_message s (mi_device inp) (mi_client_id inp) = Some m"
  shows "send_message st cfg e at ak others later i conv inp s = run_transaction (acknowledgeExistingMessage ak i conv inp) s"
  using assms by (simp add: send_message_def)

lemma run_ack_same:
  "run_transaction (acknowledgeExistingMessage ak i conv inp) s = (r, s') \<Longrightarrow> s' = s"
  by (drule run_transaction_cases) (auto dest: acknowledge_ok)

text \<open>Any send ends in the state it found, in the one other requests left, or in one a store made.\<close>

lemma send_states:
  assumes "send_message st cfg e at ak others later i conv inp s = (r, s')"
  shows "s' = s \<or> s' = others s \<or> s' = later (others s) \<or>
    (\<exists>grant m. (grant = None) = (mi_kind inp = TEXT) \<and> store_message e at i conv inp grant (others s) = Inr (m, s'))"
proof (cases "find_message s (mi_device inp) (mi_client_id inp)")
  case (Some m)
  with assms send_existing run_ack_same show ?thesis by metis
next
  case None
  show ?thesis
  proof (cases "prepareAttachment st cfg at i conv inp s")
    case (Inl er)
    with None assms show ?thesis by (simp add: send_message_def)
  next
    case (Inr grant)
    show ?thesis
    proof (cases "store_message e at i conv inp grant (others s)")
      case st: (Inr p)
      obtain m s1 where p: "p = (m, s1)" by (cases p)
      have "s' = s1" using None assms Inr st p by (simp add: send_message_def run_transaction_def)
      with st p prepare_kind [OF Inr] show ?thesis by blast
    next
      case (Inl er)
      then show ?thesis
        using None assms \<open>prepareAttachment st cfg at i conv inp s = Inr grant\<close>
        by (cases er) (auto simp: send_message_def run_transaction_def [of "store_message e at i conv inp grant"] Let_def
          split: if_splits dest: run_ack_same)
    qed
  qed
qed

lemma reserve_upload_ok:
  assumes "reserve_upload at i conv g s = Inr (u, s')"
  shows "count_where (open_reservation (uk_count at) i) (pending_uploads s) < 4 \<and>
    s' = s\<lparr>pending_uploads := pending_uploads s @
      [\<lparr>pu_id = ug_reservation g, pu_user = i, pu_conversation = conv, pu_object_key = ug_object_key g,
        pu_mime = ug_mime g, pu_plain_size = ug_plain_size g, pu_cipher_size = ug_cipher_size g,
        pu_sha = ug_sha g, pu_expires = ug_expires g, pu_attempts = 0, pu_purge_attempt = None,
     pu_purge_error = None\<rparr>]\<rparr> \<and>
    ug_reservation g \<notin> pu_id ` set (pending_uploads s)"
proof -
  from assms obtain s1 s2 where "lockActiveConversation (uk_lock at) i conv None s = Inr ((), s1)"
    "count_where (open_reservation (uk_count at) i) (pending_uploads s1) < 4" "reserve g i conv s1 = Inr ((), s2)"
    "lockActiveConversation (uk_relock at) i conv None s2 = Inr (u, s')"
    by (auto simp: reserve_upload_def tx_iffs)
  moreover from this have "s1 = s" "s' = s2" by (auto dest: lockActive_same)
  ultimately show ?thesis by (auto simp: reserve_def split: if_splits)
qed

text \<open>An upload request leaves the state as it was but for a drawn identifier, or reserves one upload.\<close>

lemma requestUpload_states:
  assumes "requestUpload st cfg e at i conv q s = (r, s')"
  shows "s' = s \<or> s' = s\<lparr>draws := Suc (draws s)\<rparr> \<or>
    (\<exists>g token. create_grant cfg (uuid_text (uuid_at e (draws s))) (uuid_text i) (uuid_text conv) q (uk_now at) = Inr (g, token) \<and>
       reserve_upload at i conv g (s\<lparr>draws := Suc (draws s)\<rparr>) = Inr ((), s'))"
proof (cases "create_grant cfg (uuid_text (uuid_at e (draws s))) (uuid_text i) (uuid_text conv) q (uk_now at)")
  case (Inl er)
  with assms show ?thesis by (simp add: requestUpload_def)
next
  case (Inr p)
  then obtain g token where g: "create_grant cfg (uuid_text (uuid_at e (draws s))) (uuid_text i) (uuid_text conv) q (uk_now at) = Inr (g, token)"
    by (cases p) simp
  show ?thesis
  proof (cases "reserve_upload at i conv g (s\<lparr>draws := Suc (draws s)\<rparr>)")
    case (Inl er)
    with assms g show ?thesis by (simp add: requestUpload_def run_transaction_def)
  next
    case (Inr u)
    then obtain s2 where "reserve_upload at i conv g (s\<lparr>draws := Suc (draws s)\<rparr>) = Inr ((), s2)" by (cases u) simp
    with assms g show ?thesis by (auto simp: requestUpload_def run_transaction_def split: sum.splits)
  qed
qed

lemma requestUpload_same_messages:
  assumes "requestUpload st cfg e at i conv q s = (r, s')"
  shows "same_messages s s'"
  using requestUpload_states [OF assms] by (auto simp: same_messages_def dest!: reserve_upload_ok)

text \<open>The open reservations a user has at an instant are at most four.\<close>

definition uploads_bounded :: "time \<Rightarrow> 'x msg_db_scheme \<Rightarrow> bool" where
  "uploads_bounded now s \<longleftrightarrow> (\<forall>i. count_where (open_reservation now i) (pending_uploads s) \<le> 4)"

lemma open_reservation_later: "now \<le> now' \<Longrightarrow> open_reservation now' i p \<Longrightarrow> open_reservation now i p"
  by (simp add: open_reservation_def)

lemma uploads_bounded_later: "uploads_bounded now s \<Longrightarrow> now \<le> now' \<Longrightarrow> uploads_bounded now' s"
  unfolding uploads_bounded_def
  by (intro allI, rule order_trans [OF count_where_mono [OF open_reservation_later]]) auto

lemma reserve_upload_bounded:
  assumes "reserve_upload at i conv g s = Inr (u, s')" "uploads_bounded now s" "now \<le> uk_count at"
  shows "uploads_bounded (uk_count at) s'"
  unfolding uploads_bounded_def
proof
  fix j
  note ok = reserve_upload_ok [OF assms(1)]
  have "count_where (open_reservation (uk_count at) j) (pending_uploads s) \<le> 4"
    using uploads_bounded_later [OF assms(2,3)] by (simp add: uploads_bounded_def)
  then show "count_where (open_reservation (uk_count at) j) (pending_uploads s') \<le> 4"
    using ok by (cases "j = i") (auto simp: open_reservation_def)
qed

lemma filter_Cons_member: "filter P xs = r # rs \<Longrightarrow> r \<in> set xs \<and> P r"
  by (metis filter_set filter_eq_Cons_iff in_set_conv_decomp)

lemma all_right_map: "all_right (map f xs) = Inr ys \<Longrightarrow> list_all2 (\<lambda>x y. f x = Inr y) xs ys"
proof (induction xs arbitrary: ys)
  case (Cons x xs)
  then show ?case by (cases "f x") (auto split: sum.splits)
qed simp

lemma message_out_sequence: "message_out_of st now s device m = Inr out \<Longrightarrow> mo_sequence out = nat_text (m_sequence m)"
  by (auto simp: message_out_of_def map_sum_def split: list.splits sum.splits)

lemma readable_sorted: "message_keys_ok s \<Longrightarrow> sorted_wrt (<) (map m_sequence (readable_messages s now conv device))"
proof -
  assume "message_keys_ok s"
  let ?R = "filter (\<lambda>m. m_conversation m = conv \<and> now < m_expires m \<and> envelopes_for s device m \<noteq> []) (messages s)"
  have strict: "sorted_wrt (<) (map m_sequence ?R)"
    using \<open>message_keys_ok s\<close> by (simp add: message_keys_ok_def sorted_wrt_map sorted_wrt_filter)
  then have "sorted (map m_sequence ?R)" by (simp add: strict_sorted_iff)
  then have "sort_key m_sequence ?R = ?R" by (rule sort_key_id_if_sorted)
  with strict show ?thesis by (simp add: readable_messages_def)
qed

lemma listMessages_ok:
  assumes "listMessages st at i conv device (Some after) n s = Inr (p, s')"
  defines "rows \<equiv> page_rows (after_number (Some after)) n (readable_messages s (lk_now at) conv device)"
  shows "s' = s \<and> map mo_sequence (mp_items p) = map (\<lambda>m. nat_text (m_sequence m)) rows \<and>
    mp_next p = (if rows = [] then after else nat_text (m_sequence (last rows)))"
proof -
  from assms(1) obtain s1 s2 items u where l: "lockActiveConversation (lk_lock at) i conv (Some device) s = Inr (u, s1)"
    "lockActiveConversation (lk_relock at) i conv (Some device) s1 = Inr (u, s')"
    and a: "all_right (map (message_out_of st (lk_now at) s1 device)
      (page_rows (after_number (Some after)) n (readable_messages s1 (lk_now at) conv device))) = Inr items"
    and p: "mp_items p = items" "mp_next p = (if items \<noteq> [] then mo_sequence (last items) else after)"
    unfolding listMessages_def by (auto simp: tx_iffs liftT_iffs)
  have s: "s1 = s" "s' = s" using l by (auto dest: lockActive_same)
  from all_right_map [OF a] have "list_all2 (\<lambda>m out. mo_sequence out = nat_text (m_sequence m)) rows items"
    unfolding s rows_def by (rule list_all2_mono) (simp add: message_out_sequence)
  then have m: "map mo_sequence items = map (\<lambda>m. nat_text (m_sequence m)) rows" by (induction rule: list_all2_induct) auto
  then have "rows \<noteq> [] \<Longrightarrow> mo_sequence (last items) = nat_text (m_sequence (last rows))"
    by (metis last_map list.map_disc_iff)
  with m show ?thesis using s p by (auto simp del: map_eq_conv dest: arg_cong [of _ _ length])
qed

lemma complete_batch_ok:
  assumes "megolm_ok m" "distinct (map ad_id devs)" "sender \<in> set devs" "ad_id sender = mi_device inp"
    "mg_sender_key m = ad_curve sender" "mg_device m = ad_matrix_device sender"
    "\<forall>d \<in> set devs. ad_protocol d = MATRIX_DEVICE_PROTOCOL_VERSION" "\<exists>d \<in> set devs. ad_user d \<noteq> ad_user sender"
    "mi_envelopes inp = map (\<lambda>i. \<lparr>ei_device = i, ei_protocol = MATRIX_MESSAGE_PROTOCOL_VERSION,
       ei_suite = MATRIX_MEGOLM_ALGORITHM, ei_ciphertext = sealed m\<rparr>) order"
    "distinct order" "set order = set (map ad_id devs)"
  shows "assertCompleteEnvelopes inp devs = Inr ()"
proof -
  let ?en = "\<lambda>i. \<lparr>ei_device = i, ei_protocol = MATRIX_MESSAGE_PROTOCOL_VERSION,
    ei_suite = MATRIX_MEGOLM_ALGORITHM, ei_ciphertext = sealed m\<rparr>"
  have one: "check_envelope devs sender received canonical (?en i) = Inr ()"
    if "i \<notin> set received" "i \<in> set (map ad_id devs)" "canonical = None \<or> canonical = Some (sealed m)" for i received canonical
  proof -
    from that(2) obtain d where "d \<in> set devs" "ad_id d = i" by auto
    then have "device_of devs i = Some d" "ad_protocol d = MATRIX_DEVICE_PROTOCOL_VERSION"
      using device_of_distinct [OF assms(2)] assms(7) by auto
    moreover have "check_content sender (base64_decode (sealed m)) = Inr ()"
      using megolm_of_sealed [OF assms(1)] assms(5,6) by (simp add: check_content_def)
    moreover have "base64_encode (base64_decode (sealed m)) = sealed m" unfolding sealed_bytes by (simp add: sealed_def)
    moreover have "16 \<le> length (base64_decode (sealed m))" "length (base64_decode (sealed m)) \<le> 131072"
      using sealed_size_min assms(1) by (simp_all add: sealed_size megolm_ok_def)
    ultimately show ?thesis using that(1,3) by (auto simp: check_envelope_def not_less)
  qed
  have all: "check_envelopes devs sender received canonical (map ?en is) = Inr (received @ is)"
    if "distinct is" "set is \<inter> set received = {}" "set is \<subseteq> set (map ad_id devs)"
      "canonical = None \<or> canonical = Some (sealed m)" for "is" received canonical
    using that
  proof (induction "is" arbitrary: received canonical)
    case (Cons i "is")
    have "check_envelope devs sender received canonical (?en i) = Inr ()" using Cons.prems by (intro one) auto
    moreover have "check_envelopes devs sender (received @ [i]) (Some (sealed m)) (map ?en is) = Inr ((received @ [i]) @ is)"
      using Cons.prems by (intro Cons.IH) auto
    ultimately show ?case by simp
  qed simp
  have "check_envelopes devs sender [] None (mi_envelopes inp) = Inr order"
    using all [of order "[]" None] assms(9-11) by simp
  moreover have "length order = length (remdups (map ad_id devs))"
    using assms(10,11) by (metis distinct_card length_remdups_card_conv)
  moreover have "\<forall>d \<in> set devs. ad_id d \<in> set order" using assms(11) by auto
  moreover have "device_of devs (mi_device inp) = Some sender" using device_of_distinct [OF assms(2,3)] assms(4) by simp
  moreover have "devs \<noteq> []" using assms(3) by auto
  ultimately show ?thesis using assms(3,7,8) by (auto simp: assertCompleteEnvelopes_def)
qed

section \<open>Properties\<close>

text \<open>C28: a message that is created is stored once, under the next sequence number, with exactly one envelope for
  each active device of the two participants of its current conversation, all with the same bytes,
  which are a Megolm event with the identity keys of the sending device; its one receipt is for the
  other participant, and other messages, envelopes and receipts stay.\<close>

theorem send_reaches_every_device:
  assumes "send_message st cfg e at ak others later i conv inp s = (Inr ack, s')" "mk_ack_new ack"
    "message_inv e (others s)" "device_keys_ok (others s)"
  shows "\<exists>k m. lockCurrent (sk_lock at) i conv (Some (mi_device inp)) (others s) = Inr (k, others s) \<and>
    messages s' = messages (others s) @ [m] \<and> mk_ack_id ack = m_id m \<and>
    m_sequence m = message_sequence (others s) \<and> m_sender m = i \<and> m_conversation m = conv \<and>
    delivered_to_all (others s) k i (mi_device inp) (filter (\<lambda>en. en_message en = m_id m) (envelopes s')) \<and>
    map re_recipient (filter (\<lambda>r. re_message r = m_id m) (receipts s')) =
      [if ca_client k = i then ca_cashier k else ca_client k] \<and>
    take (length (envelopes (others s))) (envelopes s') = envelopes (others s) \<and>
    take (length (receipts (others s))) (receipts s') = receipts (others s)"
proof -
  obtain grant m where p: "prepareAttachment st cfg at i conv inp s = Inr grant"
    and m: "store_message e at i conv inp grant (others s) = Inr (m, s')" and a: "ack = messageAcknowledgement m True"
    using assms(1,2) by (rule send_new)
  have fresh: "m_id m \<notin> message_ids (others s)" using store_inv(2) [OF m prepare_kind [OF p] assms(3)] .
  have links: "message_links_ok (others s)" using assms(3) by (simp add: message_inv_def)
  note stored = stored_envelopes [OF m links fresh]
  from m show ?thesis
  proof (rule store_ok)
    fix k
    assume k: "lockCurrent (sk_lock at) i conv (Some (mi_device inp)) (others s) = Inr (k, others s)"
      and e: "assertCompleteEnvelopes inp (active_devices (others s) k) = Inr ()"
      and o: "\<exists>d \<in> set (active_devices (others s) k). ad_id d = mi_device inp \<and> ad_user d = i"
      and mm: "m = \<lparr>m_id = uuid_at e (draws (others s)), m_conversation = conv, m_sender = i, m_device = mi_device inp,
        m_client_id = mi_client_id inp, m_sequence = message_sequence (others s), m_kind = mi_kind inp,
        m_created = sk_created at, m_expires = sk_created at + MESSAGE_TTL_MS\<rparr>"
      and t: "messages s' = messages (others s) @ [m]" "envelopes s' = envelopes (others s) @ new_envelopes (m_id m) inp"
      and r: "receipts s' = receipts (others s) @ [\<lparr>re_message = m_id m,
        re_recipient = (if ca_client k = i then ca_cashier k else ca_client k), re_status = Sent,
        re_delivered = None, re_read = None\<rparr>]"
    have "delivered_to_all (others s) k i (mi_device inp) (filter (\<lambda>en. en_message en = m_id m) (envelopes s'))"
      unfolding stored [THEN conjunct1] by (rule envelopes_delivered [OF e assms(4) o])
    moreover have "map re_recipient (filter (\<lambda>r. re_message r = m_id m) (receipts s')) =
        [if ca_client k = i then ca_cashier k else ca_client k]"
      unfolding stored [THEN conjunct2] by (simp add: r)
    moreover have "mk_ack_id ack = m_id m" "m_sequence m = message_sequence (others s)" "m_sender m = i"
      "m_conversation m = conv" using a by (simp_all add: messageAcknowledgement_def mm)
    moreover have "take (length (envelopes (others s))) (envelopes s') = envelopes (others s)"
      "take (length (receipts (others s))) (receipts s') = receipts (others s)" unfolding t r by simp_all
    ultimately show ?thesis using k t(1) by (intro exI [of _ k] exI [of _ m] conjI) simp_all
  qed
qed

text \<open>C29: sending again what is stored under the device and client identifier changes nothing and creates no second
  message: a success acknowledges the stored message as not new, and only to its sender, in its
  conversation, with its kind and before it expires.\<close>

theorem resend_acknowledges_stored:
  assumes "find_message s (mi_device inp) (mi_client_id inp) = Some m"
    "send_message st cfg e at ak others later i conv inp s = (r, s')"
  shows "s' = s \<and> (r = Inr (messageAcknowledgement m False) \<and> m_sender m = i \<and> m_conversation m = conv \<and>
      m_kind m = mi_kind inp \<and> ak_now ak < m_expires m \<or> (\<exists>er. r = Inl er))"
proof -
  have run: "run_transaction (acknowledgeExistingMessage ak i conv inp) s = (r, s')"
    using assms(2) send_existing [OF assms(1)] by metis
  show ?thesis
  proof (cases r)
    case (Inl er)
    with run_ack_same [OF run] show ?thesis by simp
  next
    case (Inr ack)
    with run_transaction_cases [OF run] have "acknowledgeExistingMessage ak i conv inp s = Inr (ack, s')" by auto
    from acknowledge_ok [OF this] assms(1) Inr show ?thesis by auto
  qed
qed

text \<open>A batch made of one sealed Megolm event of the sending device, addressed once to each active device of both
  participants, is accepted, in any order of the devices.\<close>

theorem complete_batch_accepted:
  assumes "megolm_ok m" "distinct (map ad_id devs)" "sender \<in> set devs" "ad_id sender = mi_device inp"
    "mg_sender_key m = ad_curve sender" "mg_device m = ad_matrix_device sender"
    "\<forall>d \<in> set devs. ad_protocol d = MATRIX_DEVICE_PROTOCOL_VERSION" "\<exists>d \<in> set devs. ad_user d \<noteq> ad_user sender"
    "mi_envelopes inp = map (\<lambda>i. \<lparr>ei_device = i, ei_protocol = MATRIX_MESSAGE_PROTOCOL_VERSION,
       ei_suite = MATRIX_MEGOLM_ALGORITHM, ei_ciphertext = sealed m\<rparr>) order"
    "distinct order" "set order = set (map ad_id devs)"
  shows "assertCompleteEnvelopes inp devs = Inr ()"
  using assms by (rule complete_batch_ok)

text \<open>C30: every handler of the message service keeps the tables consistent, whatever other requests commit meanwhile:
  sequence numbers increase in the order of the table, a device and client identifier name at most
  one message, a message and a device at most one envelope, rows belong to a message, retention is
  48 hours, a photo message has exactly one attachment and a text none, and a receipt's instants
  agree with its status.\<close>

theorem handlers_keep_messages:
  assumes "message_inv e s" "(message_step e)\<^sup>*\<^sup>* s (others s)" "(message_step e)\<^sup>*\<^sup>* (others s) (later (others s))"
  shows "message_inv e (snd (send_message st cfg e at ak others later i conv inp s)) \<and>
    message_inv e (snd (requestUpload st cfg e at' i conv q s)) \<and>
    (\<forall>res s'. updateReceipt now1 now2 i message read s = Inr (res, s') \<longrightarrow> message_inv e s')"
proof (intro conjI allI impI)
  have o: "message_inv e (others s)" using steps_inv [OF assms(2,1)] .
  obtain r s' where sent: "send_message st cfg e at ak others later i conv inp s = (r, s')" by fastforce
  from send_states [OF sent] show "message_inv e (snd (send_message st cfg e at ak others later i conv inp s))"
    using sent assms(1) o steps_inv [OF assms(3) o] store_inv(1) [OF _ _ o] by auto
  obtain r' t where "requestUpload st cfg e at' i conv q s = (r', t)" by fastforce
  with requestUpload_same_messages [OF this] assms(1) show "message_inv e (snd (requestUpload st cfg e at' i conv q s))"
    by (auto intro: same_messages_inv)
next
  fix res s' assume "updateReceipt now1 now2 i message read s = Inr (res, s')"
  then show "message_inv e s'" using assms(1) by (rule receipt_inv)
qed

text \<open>C32: a user never has more than four open photo reservations: a state that respects the bound respects it after
  any upload request, at the instant of its count and from then on.\<close>

theorem open_uploads_bounded:
  assumes "requestUpload st cfg e at i conv q s = (r, s')" "uploads_bounded now s" "now \<le> uk_count at" "uk_count at \<le> t"
  shows "uploads_bounded t s'"
proof -
  have "uploads_bounded (uk_count at) s" using assms(2,3) by (rule uploads_bounded_later)
  with requestUpload_states [OF assms(1)] reserve_upload_bounded [of at i conv _ "s\<lparr>draws := Suc (draws s)\<rparr>" _ s' now] assms(2,3)
  have "uploads_bounded (uk_count at) s'" by (auto simp: uploads_bounded_def)
  then show ?thesis using assms(4) by (rule uploads_bounded_later)
qed

text \<open>
  What other requests do to the reservations: a request for an upload makes one, a send takes one,
  and everything else, the retention included, makes none.
\<close>

inductive upload_step :: "env \<Rightarrow> 'x msg_db_scheme \<Rightarrow> 'x msg_db_scheme \<Rightarrow> bool" for e where
  asked: "requestUpload st cfg e at i conv q s = (r, s') \<Longrightarrow> upload_step e s s'"
| sent: "store_message e at i conv inp grant s = Inr (m, s') \<Longrightarrow> upload_step e s s'"
| otherwise: "pu_id ` set (pending_uploads s') \<subseteq> pu_id ` set (pending_uploads s) \<Longrightarrow> draws s \<le> draws s' \<Longrightarrow>
     upload_step e s s'"

lemma new_grant_reservation: "ug_reservation (new_grant r user conv q now) = r"
  by (simp add: new_grant_def)

lemma grant_reservation: "create_grant cfg r user conv q now = Inr (g, token) \<Longrightarrow> ug_reservation g = r"
  by (cases "sign cfg (grant_payload (new_grant r user conv q now))")
    (auto simp: create_grant_def Let_def new_grant_reservation)

text \<open>The identifiers drawn from the \<open>m\<close>-th up to the \<open>n\<close>-th.\<close>

definition drawn_ids :: "env \<Rightarrow> nat \<Rightarrow> nat \<Rightarrow> string set" where
  "drawn_ids e m n = (\<lambda>j. uuid_text (uuid_at e j)) ` {m..<n}"

lemma drawn_ids_mono: "k \<le> m \<Longrightarrow> n \<le> q \<Longrightarrow> drawn_ids e m n \<subseteq> drawn_ids e k q"
  unfolding drawn_ids_def by (intro image_mono) auto

lemma drawn_ids_Suc: "uuid_text (uuid_at e m) \<in> drawn_ids e m (Suc m)"
  by (simp add: drawn_ids_def)

lemma stored_uploads:
  assumes "store_message e at i conv inp grant s = Inr (m, s')"
  obtains "draws s' = Suc (draws s)" "set (pending_uploads s') \<subseteq> set (pending_uploads s)"
proof -
  from assms have "draws s' = Suc (draws s) \<and> set (pending_uploads s') \<subseteq> set (pending_uploads s)"
  proof (rule store_ok)
    assume "pending_uploads s' = (case grant of None \<Rightarrow> pending_uploads s
       | Some g \<Rightarrow> filter (\<lambda>p. \<not> reservation_matches g i conv (sk_claim at) p) (pending_uploads s))"
      and "draws s' = Suc (draws s)"
    then show ?thesis by (cases grant) auto
  qed
  with that show thesis by blast
qed

lemma upload_step_ids:
  assumes "upload_step e s s'"
  shows "draws s \<le> draws s' \<and>
    pu_id ` set (pending_uploads s') \<subseteq> pu_id ` set (pending_uploads s) \<union> drawn_ids e (draws s) (draws s')"
  using assms
proof (induction rule: upload_step.induct)
  case (asked st cfg at i conv q s r s')
  from requestUpload_states [OF asked] show ?case
  proof (elim disjE exE conjE)
    fix g token assume g: "create_grant cfg (uuid_text (uuid_at e (draws s))) (uuid_text i) (uuid_text conv) q (uk_now at) = Inr (g, token)"
      and r: "reserve_upload at i conv g (s\<lparr>draws := Suc (draws s)\<rparr>) = Inr ((), s')"
    from reserve_upload_ok [OF r] have "draws s' = Suc (draws s)"
      "pu_id ` set (pending_uploads s') = insert (ug_reservation g) (pu_id ` set (pending_uploads s))" by simp_all
    then show ?thesis using drawn_ids_Suc [of e "draws s"] by (simp add: grant_reservation [OF g] subset_insertI2)
  qed simp_all
next
  case (sent at i conv inp grant s m s')
  then obtain "draws s' = Suc (draws s)" "set (pending_uploads s') \<subseteq> set (pending_uploads s)"
    by (rule stored_uploads)
  moreover from this(2) have "pu_id ` set (pending_uploads s') \<subseteq> pu_id ` set (pending_uploads s)" by (rule image_mono)
  ultimately show ?case by (simp add: le_supI1)
next
  case (otherwise s' s)
  then show ?case by (simp add: le_supI1)
qed

lemma upload_steps_ids:
  "(upload_step e)\<^sup>*\<^sup>* s s' \<Longrightarrow> draws s \<le> draws s' \<and>
    pu_id ` set (pending_uploads s') \<subseteq> pu_id ` set (pending_uploads s) \<union> drawn_ids e (draws s) (draws s')"
proof (induction rule: rtranclp_induct)
  case (step y z)
  note y = upload_step_ids [OF step.hyps(2)]
  have "drawn_ids e (draws s) (draws y) \<union> drawn_ids e (draws y) (draws z) \<subseteq> drawn_ids e (draws s) (draws z)"
    using y step.IH drawn_ids_mono [of "draws s" "draws s" "draws y" "draws z" e]
      drawn_ids_mono [of "draws s" "draws y" "draws z" "draws z" e] by simp
  with y step.IH show ?case by (intro conjI) (simp, blast)
qed simp

text \<open>The reservation a send has taken.\<close>

lemma store_takes_reservation:
  assumes "store_message e at i conv inp (Some g) s = Inr (m, s')"
  shows "lower (ug_reservation g) \<in> pu_id ` set (pending_uploads s)" and "draws s \<le> draws s'"
    and "distinct (map pu_id (pending_uploads s)) \<Longrightarrow> lower (ug_reservation g) \<notin> pu_id ` set (pending_uploads s')"
proof -
  let ?P = "reservation_matches g i conv (sk_claim at)"
  have "count_where ?P (pending_uploads s) = 1 \<and> pending_uploads s' = filter (\<lambda>p. \<not> ?P p) (pending_uploads s) \<and>
      draws s' = Suc (draws s)"
    using assms by (rule store_ok) simp
  then have one: "count_where ?P (pending_uploads s) \<noteq> 0" and gone: "pending_uploads s' = filter (\<lambda>p. \<not> ?P p) (pending_uploads s)"
    and d: "draws s' = Suc (draws s)" by simp_all
  from one obtain q where q: "q \<in> set (pending_uploads s)" "?P q" unfolding count_where_0_iff by blast
  from q(2) have id: "pu_id q = lower (ug_reservation g)" by (simp add: reservation_matches_def)
  show "lower (ug_reservation g) \<in> pu_id ` set (pending_uploads s)" using q(1) unfolding id [symmetric] by (rule imageI)
  show "draws s \<le> draws s'" using d by simp
  assume dist: "distinct (map pu_id (pending_uploads s))"
  show "lower (ug_reservation g) \<notin> pu_id ` set (pending_uploads s')"
  proof
    assume "lower (ug_reservation g) \<in> pu_id ` set (pending_uploads s')"
    then obtain p where p: "p \<in> set (pending_uploads s)" "\<not> ?P p" "pu_id p = pu_id q" unfolding gone id by auto
    have "p = q" by (rule distinct_key_eq [OF dist p(1) q(1) p(3)])
    with p(2) q(2) show False by simp
  qed
qed

lemma prepared_grant:
  assumes "prepareAttachment st cfg at i conv inp s = Inr grant" "mi_kind inp = IMAGE"
  obtains g where "grant = Some g"
    "verify_grant cfg (sk_node at) (case mi_grant inp of None \<Rightarrow> [] | Some t \<Rightarrow> t) = Inr g"
proof -
  have "\<exists>g. grant = Some g \<and> verify_grant cfg (sk_node at) (case mi_grant inp of None \<Rightarrow> [] | Some t \<Rightarrow> t) = Inr g"
    using assms unfolding prepareAttachment_def Let_def by (auto split: if_splits sum.splits)
  with that show thesis by blast
qed

text \<open>C31: a permission to send a photo is good for one message: once a photo message was created with it, no send with
  the same token creates another, in any conversation and however the two overlap.  The second send may
  have looked for its reservation at any time, before the first was stored too; between the two stored
  messages any requests for uploads, sends, purges and other work may commit, provided that the
  identifiers drawn meanwhile are none of the reservations that were open at the start.\<close>

theorem photo_permission_used_once:
  assumes "send_message st cfg e at ak others later i conv inp s = (Inr ack, s')" "mk_ack_new ack" "mi_kind inp = IMAGE"
    "distinct (map pu_id (pending_uploads (others s)))"
    "\<forall>j. draws (others s) \<le> j \<and> j < draws (others' s'') \<longrightarrow> uuid_text (uuid_at e j) \<notin> pu_id ` set (pending_uploads (others s))"
    "mi_kind inp' = IMAGE" "mi_grant inp' = mi_grant inp" "(upload_step e)\<^sup>*\<^sup>* s' (others' s'')"
    "send_message st' cfg e at' ak' others' later' i' conv' inp' s'' = (r, t)"
  shows "\<not> (\<exists>ack'. r = Inr ack' \<and> mk_ack_new ack')"
proof
  assume "\<exists>ack'. r = Inr ack' \<and> mk_ack_new ack'"
  then obtain ack' where new: "send_message st' cfg e at' ak' others' later' i' conv' inp' s'' = (Inr ack', t)" "mk_ack_new ack'"
    using assms(9) by blast
  obtain grant m where p: "prepareAttachment st cfg at i conv inp s = Inr grant"
    and m: "store_message e at i conv inp grant (others s) = Inr (m, s')" using assms(1,2) by (rule send_new)
  obtain grant' m' where p': "prepareAttachment st' cfg at' i' conv' inp' s'' = Inr grant'"
    and m': "store_message e at' i' conv' inp' grant' (others' s'') = Inr (m', t)" using new by (rule send_new)
  obtain g where g: "grant = Some g"
    "verify_grant cfg (sk_node at) (case mi_grant inp of None \<Rightarrow> [] | Some t \<Rightarrow> t) = Inr g"
    by (rule prepared_grant [OF p assms(3)])
  obtain g' where g': "grant' = Some g'"
    "verify_grant cfg (sk_node at') (case mi_grant inp of None \<Rightarrow> [] | Some t \<Rightarrow> t) = Inr g'"
    by (rule prepared_grant [OF p' assms(6), unfolded assms(7)])
  have same: "g' = g" using g(2) g'(2) by (rule verify_same_grant)
  note first = store_takes_reservation [OF m [unfolded g(1)]]
  have "lower (ug_reservation g) \<in> pu_id ` set (pending_uploads (others' s''))"
    using store_takes_reservation(1) [OF m' [unfolded g'(1) same]] .
  then have "lower (ug_reservation g) \<in> drawn_ids e (draws s') (draws (others' s''))"
    using upload_steps_ids [OF assms(8)] first(3) [OF assms(4)] by blast
  then obtain j where j: "draws s' \<le> j" "j < draws (others' s'')" "lower (ug_reservation g) = uuid_text (uuid_at e j)"
    unfolding drawn_ids_def by auto
  with first(2) have "draws (others s) \<le> j" by simp
  with assms(5) first(1) j(2,3) show False by simp
qed

text \<open>C33: a receipt only advances: an accepted update changes at most the caller's receipt of the named message, keeps
  its instants once set and never lowers a status, and, when both of its reads see the same instant,
  ends with a status at least the requested one.\<close>

theorem receipts_only_advance:
  assumes "updateReceipt now1 now2 i message read s = Inr (res, s')"
  shows "list_all2 (\<lambda>r r'. advances r r' \<and> (r' \<noteq> r \<longrightarrow> re_message r = message \<and> re_recipient r = i)) (receipts s) (receipts s') \<and>
    messages s' = messages s \<and> envelopes s' = envelopes s \<and> rr_out_message res = message \<and>
    (now1 = now2 \<longrightarrow> rank (if read then Read else Delivered) \<le> rank (rr_out_status res))"
proof -
  let ?q = "if read then Read else Delivered"
  let ?sel = "receipt_selected now1 s i message read"
  note s' = updateReceipt_state [OF assms]
  have "list_all2 (\<lambda>r r'. advances r r' \<and> (r' \<noteq> r \<longrightarrow> re_message r = message \<and> re_recipient r = i)) rows
    (upd_where ?sel (advance_receipt ?q now1) rows)" for rows
    by (induction rows) (auto simp: receipt_selected_def receipt_current_def advances_refl intro!: advance_receipt_advances)
  moreover have "rr_out_message res = message \<and> (now1 = now2 \<longrightarrow> rank ?q \<le> rank (rr_out_status res))"
  proof (cases "filter ?sel (receipts s)")
    case (Cons r rs)
    then have "?sel r" using filter_Cons_member [of ?sel] by blast
    with assms Cons show ?thesis
      unfolding updateReceipt_def Let_def receipt_selected_def [abs_def]
      by (auto simp: receipt_result_of_def advance_receipt_def receipt_current_def)
  next
    case Nil
    then have none: "\<forall>r \<in> set (receipts s). \<not> ?sel r" by (simp add: filter_empty_conv)
    from assms Nil obtain r rs where r: "filter (receipt_current now2 s i message) (receipts s) = r # rs"
      and res: "res = receipt_result_of r"
      unfolding updateReceipt_def Let_def receipt_selected_def [abs_def] by (auto split: list.splits)
    have "r \<in> set (receipts s)" "receipt_current now2 s i message r" using filter_Cons_member [OF r] by simp_all
    note cur = this
    have "rank ?q \<le> rank (re_status r)" if "now1 = now2"
      using none [rule_format, OF cur(1)] cur(2) that by (simp add: receipt_selected_def)
    moreover have "re_message r = message" using cur(2) by (simp add: receipt_current_def)
    ultimately show ?thesis by (simp add: res receipt_result_of_def)
  qed
  ultimately show ?thesis unfolding s' by simp
qed

lemma nat_text_eq: "nat_text m = nat_text n \<longleftrightarrow> m = n"
  using digits_value_text [of m] digits_value_text [of n] by metis

text \<open>
  What other requests do to the messages between two reads: a send stores one; anything else, the
  retention included, removes rows of messages and envelopes or leaves them.
\<close>

inductive poll_step :: "env \<Rightarrow> 'x msg_db_scheme \<Rightarrow> 'x msg_db_scheme \<Rightarrow> bool" for e where
  written: "store_message e at i conv inp grant s = Inr (m, s') \<Longrightarrow> poll_step e s s'"
| reduced: "messages s' = filter K (messages s) \<Longrightarrow> set (envelopes s') \<subseteq> set (envelopes s) \<Longrightarrow>
     message_sequence s \<le> message_sequence s' \<Longrightarrow> draws s \<le> draws s' \<Longrightarrow> poll_step e s s'"

definition poll_inv :: "env \<Rightarrow> 'x msg_db_scheme \<Rightarrow> bool" where
  "poll_inv e s \<longleftrightarrow> sorted_wrt (<) (map m_sequence (messages s)) \<and>
     (\<forall>m \<in> set (messages s). m_sequence m < message_sequence s) \<and> supply_ok e (draws s) (message_ids s)"

text \<open>A message that is there later is new, with a larger number, or was there with its envelopes.\<close>

definition since :: "'x msg_db_scheme \<Rightarrow> 'x msg_db_scheme \<Rightarrow> bool" where
  "since s s' \<longleftrightarrow> message_sequence s \<le> message_sequence s' \<and>
     (\<forall>m \<in> set (messages s'). message_sequence s \<le> m_sequence m \<or>
        m \<in> set (messages s) \<and> (\<forall>device. set (envelopes_for s' device m) \<subseteq> set (envelopes_for s device m)))"

lemma since_refl: "since s s"
  by (simp add: since_def)

lemma since_trans: "since s y \<Longrightarrow> since y z \<Longrightarrow> since s z"
  unfolding since_def by (meson order_trans)

lemma poll_step_since:
  assumes "poll_step e s s'" "poll_inv e s"
  shows "poll_inv e s' \<and> since s s'"
  using assms
proof (induction rule: poll_step.induct)
  case (written at i conv inp grant s m s')
  from written(1) have t: "messages s' = messages s @ [m] \<and> envelopes s' = envelopes s @ new_envelopes (m_id m) inp \<and>
      m_sequence m = message_sequence s \<and> m_id m = uuid_at e (draws s) \<and>
      message_sequence s' = Suc (message_sequence s) \<and> draws s' = Suc (draws s)"
    by (rule store_ok) simp
  then have fresh: "m_id m \<notin> message_ids s" using written(2) supply_ok_fresh [of e "draws s" "message_ids s" "draws s"]
    by (simp add: poll_inv_def)
  have "message_ids s' = insert (m_id m) (message_ids s)" using t by (simp add: message_ids_def)
  then have "supply_ok e (draws s') (message_ids s')"
    using supply_ok_draw [of e "draws s" "message_ids s" "draws s"] written(2) t by (simp add: poll_inv_def)
  then have inv: "poll_inv e s'" using written(2) t by (auto simp: poll_inv_def sorted_wrt_append less_SucI)
  have old: "envelopes_for s' device k = envelopes_for s device k" if "k \<in> set (messages s)" for k device
  proof -
    have "m_id k \<noteq> m_id m" using fresh that unfolding message_ids_def by (metis imageI)
    then show ?thesis using t by (simp add: envelopes_for_def new_envelopes_def filter_empty_conv)
  qed
  then have "since s s'" using t by (simp add: since_def)
  with inv show ?case ..
next
  case (reduced s' K s)
  have "message_ids s' \<subseteq> message_ids s" using reduced(1) by (auto simp: message_ids_def)
  then have "supply_ok e (draws s') (message_ids s')" using reduced(4,5) by (auto simp: poll_inv_def supply_ok_def)
  moreover have "sorted_wrt (<) (map m_sequence (messages s'))"
    using reduced(1,5) by (simp add: poll_inv_def sorted_wrt_map sorted_wrt_filter)
  ultimately have "poll_inv e s'" using reduced(1,3,5) by (auto simp: poll_inv_def intro: less_le_trans)
  moreover have "since s s'" using reduced(1-3) by (auto simp: since_def envelopes_for_def)
  ultimately show ?case ..
qed

lemma poll_steps_since: "(poll_step e)\<^sup>*\<^sup>* s s' \<Longrightarrow> poll_inv e s \<Longrightarrow> poll_inv e s' \<and> since s s'"
proof (induction rule: rtranclp_induct)
  case base
  then show ?case by (simp add: since_refl)
next
  case (step y z)
  then show ?case using poll_step_since since_trans by blast
qed

lemma readable_member:
  "m \<in> set (readable_messages s now conv device) \<longleftrightarrow>
     m \<in> set (messages s) \<and> m_conversation m = conv \<and> now < m_expires m \<and> envelopes_for s device m \<noteq> []"
  by (auto simp: readable_messages_def)

text \<open>What can be read later and numbers no larger than the first page was readable before.\<close>

lemma readable_before:
  assumes "since s s'" "poll_inv e s" "m \<in> set (readable_messages s' now' conv device)" "now \<le> now'"
    "k \<in> set (messages s)" "m_sequence m \<le> m_sequence k"
  shows "m \<in> set (readable_messages s now conv device)"
proof -
  have m: "m \<in> set (messages s')" "m_conversation m = conv" "now' < m_expires m" "envelopes_for s' device m \<noteq> []"
    using assms(3) by (simp_all add: readable_member)
  have "m_sequence k < message_sequence s" using assms(2,5) by (simp add: poll_inv_def)
  then have "m \<in> set (messages s) \<and> set (envelopes_for s' device m) \<subseteq> set (envelopes_for s device m)"
    using assms(1,6) m(1) unfolding since_def by fastforce
  moreover from this have "envelopes_for s device m \<noteq> []" using m(4) by (cases "envelopes_for s' device m") auto
  ultimately show ?thesis using m assms(4) by (simp add: readable_member)
qed

text \<open>Beyond the page is what is larger than its last row.\<close>

lemma beyond_page:
  fixes f :: "'a \<Rightarrow> nat"
  assumes "sorted_wrt (<) (map f rows)" "p = take n (filter (\<lambda>m. a < f m) rows)" "p \<noteq> []" "a < f m"
    "f m \<le> f (last p) \<Longrightarrow> m \<in> set rows"
  shows "f (last p) < f m \<longleftrightarrow> f m \<notin> f ` set p"
proof -
  let ?R = "filter (\<lambda>m. a < f m) rows"
  have sorted: "sorted_wrt (<) (map f ?R)" using assms(1) by (simp add: sorted_wrt_map sorted_wrt_filter)
  obtain q where R: "?R = p @ q" using assms(2) by (metis append_take_drop_id)
  have split: "sorted_wrt (<) (map f p)" "\<forall>x \<in> set p. \<forall>y \<in> set q. f x < f y"
    using sorted unfolding R by (simp_all add: sorted_wrt_append)
  have low: "f x \<le> f (last p)" if "x \<in> set p" for x
    using split(1) assms(3) that by (cases p rule: rev_cases) (auto simp: sorted_wrt_append intro: less_imp_le)
  show ?thesis
  proof
    assume "f (last p) < f m"
    then show "f m \<notin> f ` set p" using low by (metis imageE leD)
  next
    assume out: "f m \<notin> f ` set p"
    show "f (last p) < f m"
    proof (rule ccontr)
      assume "\<not> f (last p) < f m"
      then have "f m \<le> f (last p)" by simp
      then have "m \<in> set ?R" using assms(4,5) by simp
      then have "m \<in> set p \<union> set q" unfolding R by simp
      then have "m \<in> set q" using out by blast
      then have "f (last p) < f m" using split(2) assms(3) last_in_set by blast
      with \<open>\<not> f (last p) < f m\<close> show False ..
    qed
  qed
qed

text \<open>C34: reading after a sequence number and later, after sends, purges and expiry, after the number the first page
  returned misses nothing and repeats nothing: the first page is the earliest messages, up to its limit,
  the device could read after the cursor, and the second page the earliest, up to its own limit, of those it
  can read by then after the same cursor and did not get with the first.  The second read's clock is not
  before the first's; neither read changes a table.\<close>

theorem polling_is_complete:
  assumes "listMessages st at i conv device (Some after) n s = Inr (p1, s1)" "after \<noteq> []" "message_inv e s"
    "(poll_step e)\<^sup>*\<^sup>* s1 s'" "lk_now at \<le> lk_now at'"
    "listMessages st' at' i conv device (Some (mp_next p1)) k s' = Inr (p2, s2)"
  shows "map mo_sequence (mp_items p1) = map (\<lambda>m. nat_text (m_sequence m))
      (take n (filter (\<lambda>m. digits_value 0 after < m_sequence m) (readable_messages s (lk_now at) conv device))) \<and>
    map mo_sequence (mp_items p2) = map (\<lambda>m. nat_text (m_sequence m))
      (take k (filter (\<lambda>m. digits_value 0 after < m_sequence m \<and> nat_text (m_sequence m) \<notin> mo_sequence ` set (mp_items p1))
        (readable_messages s' (lk_now at') conv device))) \<and>
    s1 = s \<and> s2 = s'"
proof -
  let ?R = "readable_messages s (lk_now at) conv device" and ?R' = "readable_messages s' (lk_now at') conv device"
  let ?a = "digits_value 0 after"
  define rows where "rows = take n (filter (\<lambda>m. ?a < m_sequence m) ?R)"
  have one: "s1 = s" "map mo_sequence (mp_items p1) = map (\<lambda>m. nat_text (m_sequence m)) rows"
    "mp_next p1 = (if rows = [] then after else nat_text (m_sequence (last rows)))"
    using listMessages_ok [OF assms(1)] assms(2) by (simp_all add: after_number_def page_rows_def rows_def)
  have "after_number (Some (mp_next p1)) = Some (if rows = [] then ?a else m_sequence (last rows))"
    unfolding one(3) using assms(2) by (simp add: after_number_def nat_text_nonempty digits_value_text)
  then have two: "s2 = s'" "map mo_sequence (mp_items p2) = map (\<lambda>m. nat_text (m_sequence m))
      (take k (filter (\<lambda>m. (if rows = [] then ?a else m_sequence (last rows)) < m_sequence m) ?R'))"
    using listMessages_ok [OF assms(6)] by (simp_all add: page_rows_def)
  have inv: "poll_inv e s" using assms(3) by (simp add: message_inv_def poll_inv_def message_keys_ok_def)
  have since: "since s s'" using poll_steps_since [OF assms(4) [unfolded one(1)] inv] ..
  have sorted: "sorted_wrt (<) (map m_sequence ?R)" using assms(3) by (intro readable_sorted) (simp add: message_inv_def)
  have sent: "nat_text (m_sequence m) \<notin> mo_sequence ` set (mp_items p1) \<longleftrightarrow> m_sequence m \<notin> m_sequence ` set rows" for m
    using arg_cong [OF one(2), of set] by (simp add: image_iff nat_text_eq)
  have "filter (\<lambda>m. (if rows = [] then ?a else m_sequence (last rows)) < m_sequence m) ?R' =
    filter (\<lambda>m. ?a < m_sequence m \<and> m_sequence m \<notin> m_sequence ` set rows) ?R'"
  proof (cases "rows = []")
    case False
    have last: "?a < m_sequence (last rows)" "last rows \<in> set (messages s)"
      using last_in_set [OF False] in_set_takeD unfolding rows_def by (fastforce simp: readable_member)+
    have "m_sequence (last rows) < m_sequence m \<longleftrightarrow> ?a < m_sequence m \<and> m_sequence m \<notin> m_sequence ` set rows"
      if "m \<in> set ?R'" for m
      using beyond_page [OF sorted rows_def False, of m] readable_before [OF since inv that assms(5) last(2)] last(1) by auto
    then show ?thesis unfolding if_not_P [OF False] by (intro filter_cong refl)
  qed simp
  with one two show ?thesis by (simp add: sent rows_def)
qed

section \<open>Witnesses\<close>

definition demo_device :: "uuid \<Rightarrow> uuid \<Rightarrow> device_row" where
  "demo_device d i = \<lparr>d_id = d, d_user = i, d_status = DevActive, d_protocol = ''matrix-olm-v1'', d_binding = []\<rparr>"

definition demo_key :: "uuid \<Rightarrow> uuid \<Rightarrow> char \<Rightarrow> char \<Rightarrow> matrix_key_row" where
  "demo_key d i x k = \<lparr>mk_device = d, mk_user = i, mk_matrix_user = ''@u'' @ replicate 32 x @ '':s'',
     mk_matrix_device = CHR ''D'' # replicate 32 x, mk_curve = replicate 43 k, mk_ed25519 = replicate 43 k,
     mk_keys = \<lparr>dk_algorithms = [], dk_device = [], dk_keys = [], dk_signatures = [], dk_user = []\<rparr>, mk_hash = [], mk_uploaded = 0\<rparr>"

definition demo_photo_grant :: upload_grant where
  "demo_photo_grant = new_grant demo_reservation (uuid_text 2) (uuid_text 50) demo_upload 1000"

definition demo_pending :: pending_upload where
  "demo_pending = \<lparr>pu_id = demo_reservation, pu_user = 2, pu_conversation = 50,
     pu_object_key = ug_object_key demo_photo_grant, pu_mime = ''image/png'', pu_plain_size = 1000,
     pu_cipher_size = 1016, pu_sha = ug_sha demo_photo_grant, pu_expires = 601000, pu_attempts = 0, pu_purge_attempt = None,
     pu_purge_error = None\<rparr>"

definition demo_chat :: msg_db where
  "demo_chat = \<lparr>draws = 0, users = users demo_world, cashiers = cashiers demo_world,
     subscriptions = subscriptions demo_world, blocks = [], assignments = assignments demo_world,
     conversations = conversations demo_world, requests = [], notifications = [], audits = [],
     devices = [demo_device 60 1, demo_device 61 2], list_states = [], list_position = 0, list_changes = [],
     sessions = [], matrix_keys = [demo_key 60 1 (CHR ''4'') (CHR ''B''), demo_key 61 2 (CHR ''2'') (CHR ''A'')],
     cursors = [], td_transactions = [], td_events = [], sync_batches = [], one_time_keys = [],
     fallback_keys = [], fallback_slots = [], registrations = [],
     messages = [], envelopes = [], receipts = [], attachments = [], pending_uploads = [demo_pending],
     message_sequence = 1, usernames = \<lambda>_. ''''\<rparr>"

definition demo_storage_ok :: object_storage where
  "demo_storage_ok = \<lparr>os_presign_upload = \<lambda>k n h t. Inr \<lparr>ps_url = k, ps_headers = [], ps_seconds = 300\<rparr>, os_assert_uploaded = \<lambda>k n h. Inr (),
     os_presign_download = \<lambda>k n t. Inr k\<rparr>"

definition demo_msg_ids :: env where
  "demo_msg_ids = \<lparr>uuid_at = \<lambda>i. i + 7, random_at = \<lambda>_ _. 0, has_publisher = False\<rparr>"

definition demo_photo :: message_input where
  "demo_photo = \<lparr>mi_client_id = 80, mi_device = 61, mi_kind = IMAGE,
     mi_envelopes = map (\<lambda>i. \<lparr>ei_device = i, ei_protocol = MATRIX_MESSAGE_PROTOCOL_VERSION,
       ei_suite = MATRIX_MEGOLM_ALGORITHM, ei_ciphertext = sealed demo_megolm\<rparr>) [60, 61],
     mi_grant = Some (demo_sign demo_photo_grant)\<rparr>"

definition demo_send_clock :: send_clock where
  "demo_send_clock = \<lparr>sk_node = 5000, sk_reservation = 10, sk_begin = 10, sk_lock = 10, sk_claim = 10, sk_created = 10, sk_relock = 10\<rparr>"

definition demo_ack_clock :: ack_clock where
  "demo_ack_clock = \<lparr>ak_lock = 20, ak_now = 20, ak_relock = 20\<rparr>"

definition demo_message :: message_row where
  "demo_message = \<lparr>m_id = 7, m_conversation = 50, m_sender = 2, m_device = 61, m_client_id = 80, m_sequence = 1,
     m_kind = IMAGE, m_created = 10, m_expires = 172800010\<rparr>"

definition demo_chat_sent :: msg_db where
  "demo_chat_sent = demo_chat\<lparr>draws := 1, message_sequence := 2, messages := [demo_message],
     envelopes := new_envelopes 7 demo_photo, receipts := [\<lparr>re_message = 7, re_recipient = 1, re_status = Sent,
       re_delivered = None, re_read = None\<rparr>], attachments := new_attachment 10 7 (Some demo_photo_grant),
     pending_uploads := [], notifications := [\<lparr>n_user = 1, n_type = NotifNewMessage, n_related = 50,
       n_message = Some 7, n_expires = Some 172800010\<rparr>]\<rparr>"

lemmas demo_chat_defs = demo_chat_def demo_device_def demo_key_def demo_defs

lemmas lock_defs = lockCurrent_def eligible_rows_def eligible_joins_def participant_def verified_profile_def
  usable_cashier_def usable_client_def in_period_def access_of_def singleOrNull_def

definition demo_access :: conversation_access where
  "demo_access = \<lparr>ca_id = 50, ca_assignment = 40, ca_client = 1, ca_cashier = 2, ca_ends = Some 100\<rparr>"

text \<open>States that differ from the demonstration's only in the message tables.\<close>

lemma demo_lock:
  assumes "users s = users demo_chat" "cashiers s = cashiers demo_chat" "subscriptions s = subscriptions demo_chat"
    "assignments s = assignments demo_chat" "conversations s = conversations demo_chat" "devices s = devices demo_chat"
    "0 \<le> t" "t < 100"
  shows "lockCurrent t 2 50 (Some 61) s = Inr (demo_access, s)" "lockCurrent t 1 50 (Some 60) s = Inr (demo_access, s)"
  using assms by (simp_all add: lock_defs demo_chat_defs demo_access_def)

lemma demo_devices:
  assumes "devices s = devices demo_chat" "matrix_keys s = matrix_keys demo_chat"
  shows "map ad_id (active_devices s demo_access) = [60, 61]" "map ad_user (active_devices s demo_access) = [1, 2]"
    "map ad_protocol (active_devices s demo_access) = [MATRIX_DEVICE_PROTOCOL_VERSION, MATRIX_DEVICE_PROTOCOL_VERSION]"
    "map ad_curve (active_devices s demo_access) = [replicate 43 (CHR ''B''), replicate 43 (CHR ''A'')]"
    "map ad_matrix_device (active_devices s demo_access) = [CHR ''D'' # replicate 32 (CHR ''4''), CHR ''D'' # replicate 32 (CHR ''2'')]"
  using assms by (simp_all add: active_devices_def demo_chat_defs demo_access_def)

definition same_world :: "'x msg_db_scheme \<Rightarrow> bool" where
  "same_world s \<longleftrightarrow> users s = users demo_chat \<and> cashiers s = cashiers demo_chat \<and>
     subscriptions s = subscriptions demo_chat \<and> assignments s = assignments demo_chat \<and>
     conversations s = conversations demo_chat \<and> devices s = devices demo_chat \<and> matrix_keys s = matrix_keys demo_chat"

definition demo_active :: "active_device list" where
  "demo_active = active_devices demo_chat demo_access"

lemma demo_active_eq: "same_world s \<Longrightarrow> active_devices s demo_access = demo_active"
  by (simp add: active_devices_def demo_active_def same_world_def cong: if_cong)

lemma demo_active_list: "demo_active =
  [\<lparr>ad_id = 60, ad_user = 1, ad_protocol = MATRIX_DEVICE_PROTOCOL_VERSION, ad_curve = replicate 43 (CHR ''B''),
     ad_matrix_device = CHR ''D'' # replicate 32 (CHR ''4'')\<rparr>,
   \<lparr>ad_id = 61, ad_user = 2, ad_protocol = MATRIX_DEVICE_PROTOCOL_VERSION, ad_curve = replicate 43 (CHR ''A''),
     ad_matrix_device = CHR ''D'' # replicate 32 (CHR ''2'')\<rparr>]"
  by (simp add: demo_active_def active_devices_def demo_chat_defs demo_access_def)

lemma demo_locks:
  assumes "same_world s" "0 \<le> t" "t < 100"
  shows "lockConversationAndDevices t 2 50 61 s = Inr ((demo_access, demo_active), s)"
    "lockActiveConversation t 2 50 (Some 61) s = Inr ((), s)" "lockActiveConversation t 1 50 (Some 60) s = Inr ((), s)"
  using demo_lock [of s t] assms demo_active_eq [OF assms(1)]
  by (simp_all add: same_world_def lockConversationAndDevices_def lockActiveConversation_def bindT_def tx_simps demo_active_list)

lemma demo_megolm_ok: "megolm_ok demo_megolm"
  using demo_megolm_fields by (simp add: megolm_ok_def)

lemma demo_complete: "assertCompleteEnvelopes demo_photo demo_active = Inr ()"
  by (rule complete_batch_ok [OF demo_megolm_ok, where sender = "demo_active ! 1" and order = "[60, 61]"])
    (simp_all add: demo_active_list demo_photo_def demo_megolm_def)

lemma demo_reservation_lower: "lower demo_reservation = demo_reservation"
  by code_simp

lemma demo_photo_fields:
  "ug_reservation demo_photo_grant = demo_reservation" "ug_mime demo_photo_grant = ''image/png''"
  "ug_plain_size demo_photo_grant = 1000" "ug_cipher_size demo_photo_grant = 1016"
  "ug_user demo_photo_grant = uuid_text 2" "ug_conversation demo_photo_grant = uuid_text 50"
  by (simp_all add: demo_photo_grant_def new_grant_def demo_upload_def)

lemma demo_sign_nonempty: "demo_sign g \<noteq> []"
  by (simp add: demo_sign_def)

lemma demo_matches: "reservation_matches demo_photo_grant 2 50 10 demo_pending"
  by (simp add: reservation_matches_def demo_photo_fields demo_pending_def demo_reservation_lower)

lemma demo_prepare:
  "prepareAttachment demo_storage_ok demo_grant_config demo_send_clock 2 50 demo_photo demo_chat = Inr (Some demo_photo_grant)"
proof -
  have v: "verify_grant demo_grant_config 5000 (demo_sign demo_photo_grant) = Inr demo_photo_grant"
    unfolding demo_photo_grant_def by (rule demo_verify_signed [OF demo_grant_good]) (simp add: demo_expires)
  have "reservation_same_file demo_photo_grant demo_pending"
    by (simp add: reservation_same_file_def demo_photo_fields demo_pending_def)
  then show ?thesis
    using v demo_matches demo_sign_nonempty
    by (simp add: prepareAttachment_def demo_photo_def demo_send_clock_def assertMatches_def demo_photo_fields
        demo_chat_def demo_storage_ok_def)
qed

lemma demo_store:
  "store_message demo_msg_ids demo_send_clock 2 50 demo_photo (Some demo_photo_grant) demo_chat = Inr (demo_message, demo_chat_sent)"
proof -
  have w: "same_world demo_chat" by (simp add: same_world_def)
  let ?s1 = "demo_chat\<lparr>pending_uploads := []\<rparr>"
  let ?s2 = "demo_chat_sent\<lparr>notifications := []\<rparr>"
  have claim: "claim_reservation demo_send_clock 2 50 (Some demo_photo_grant) demo_chat = Inr ((), ?s1)"
    using demo_matches by (simp add: claim_reservation_def bindT_def tx_simps demo_send_clock_def demo_chat_def)
  have create: "create_message demo_msg_ids demo_send_clock 2 50 demo_photo 1 (Some demo_photo_grant) ?s1 = Inr (demo_message, ?s2)"
    by (simp add: create_message_def find_message_def demo_chat_def demo_chat_sent_def demo_msg_ids_def demo_send_clock_def
        demo_message_def new_envelopes_def new_attachment_def Let_def demo_photo_def)
  have notify: "notify_message 1 50 demo_message ?s2 = Inr ((), demo_chat_sent)"
    by (simp add: notify_message_def tx_simps demo_chat_sent_def demo_message_def demo_chat_def)
  have w2: "same_world demo_chat_sent" by (simp add: same_world_def demo_chat_sent_def)
  have device: "mi_device demo_photo = 61" by (simp add: demo_photo_def)
  have recipient: "(if ca_client demo_access = 2 then ca_cashier demo_access else ca_client demo_access) = 1"
    by (simp add: demo_access_def)
  have clock: "sk_lock demo_send_clock = 10" "sk_relock demo_send_clock = 10" by (simp_all add: demo_send_clock_def)
  show ?thesis
    unfolding store_message_def device clock
    using demo_locks(1) [OF w, of 10] demo_locks(2) [OF w2, of 10]
    by (simp add: bindT_def liftT_def demo_complete recipient returnT_def claim create notify del: One_nat_def)
qed

lemma demo_message_send:
  "send_message demo_storage_ok demo_grant_config demo_msg_ids demo_send_clock demo_ack_clock id id 2 50 demo_photo demo_chat =
     (Inr (messageAcknowledgement demo_message True), demo_chat_sent)"
  by (simp add: send_message_def demo_prepare demo_store run_transaction_def) (simp add: find_message_def demo_chat_def)

lemma demo_found: "find_message demo_chat_sent (mi_device demo_photo) (mi_client_id demo_photo) = Some demo_message"
  by (simp add: find_message_def demo_chat_sent_def demo_photo_def demo_message_def)

lemma demo_resend:
  "send_message demo_storage_ok demo_grant_config demo_msg_ids demo_send_clock demo_ack_clock id id 2 50 demo_photo demo_chat_sent =
     (Inr (messageAcknowledgement demo_message False), demo_chat_sent)"
proof -
  have w: "same_world demo_chat_sent" by (simp add: same_world_def demo_chat_sent_def)
  have "acknowledgeExistingMessage demo_ack_clock 2 50 demo_photo demo_chat_sent =
      Inr (messageAcknowledgement demo_message False, demo_chat_sent)"
    using demo_locks(1) [OF w, of 20] demo_found
    by (simp add: acknowledgeExistingMessage_def bindT_def tx_simps liftT_def demo_ack_clock_def demo_photo_def
        assertIdempotentMessageMatches_def demo_message_def)
  then show ?thesis using demo_found by (simp add: send_existing run_transaction_def)
qed

lemma demo_inv: "message_inv demo_msg_ids demo_chat"
  by (simp add: message_inv_def message_keys_ok_def message_links_ok_def message_rows_ok_def message_ids_def
      supply_ok_def demo_msg_ids_def demo_chat_def)

lemma demo_keys: "device_keys_ok demo_chat"
  by (simp add: device_keys_ok_def demo_chat_defs)

theorem send_reaches_every_device_witness:
  "\<exists>k m. messages demo_chat_sent = messages demo_chat @ [m] \<and>
    delivered_to_all demo_chat k 2 61 (filter (\<lambda>en. en_message en = m_id m) (envelopes demo_chat_sent))"
proof -
  have "mk_ack_new (messageAcknowledgement demo_message True)" by (simp add: messageAcknowledgement_def)
  from send_reaches_every_device [OF demo_message_send this] demo_inv demo_keys show ?thesis
    by (auto simp: demo_photo_def)
qed

theorem resend_acknowledges_stored_witness:
  "m_sender demo_message = 2 \<and> ak_now demo_ack_clock < m_expires demo_message"
  using resend_acknowledges_stored [OF demo_found demo_resend] by simp

theorem complete_batch_accepted_witness: "assertCompleteEnvelopes demo_photo demo_active = Inr ()"
  by (rule complete_batch_accepted [OF demo_megolm_ok, where sender = "demo_active ! 1" and order = "[60, 61]"])
    (simp_all add: demo_active_list demo_photo_def demo_megolm_def)

theorem handlers_keep_messages_witness: "message_inv demo_msg_ids demo_chat_sent"
  using handlers_keep_messages [OF demo_inv, of id id demo_storage_ok demo_grant_config demo_send_clock demo_ack_clock 2 50 demo_photo]
  by (simp add: demo_message_send)

theorem open_uploads_bounded_witness:
  "uploads_bounded 30 (snd (requestUpload demo_storage_ok demo_grant_config demo_msg_ids
    \<lparr>uk_now = 20, uk_lock = 20, uk_count = 20, uk_relock = 20, uk_require = 20\<rparr> 2 50 demo_upload demo_chat))"
proof -
  let ?r = "requestUpload demo_storage_ok demo_grant_config demo_msg_ids
    \<lparr>uk_now = 20, uk_lock = 20, uk_count = 20, uk_relock = 20, uk_require = 20\<rparr> 2 50 demo_upload demo_chat"
  have "uploads_bounded 10 demo_chat" by (simp add: uploads_bounded_def demo_chat_def)
  from open_uploads_bounded [OF prod.collapse [symmetric, of ?r] this, of 30] show ?thesis by simp
qed

lemma hexs_0: "hexs k 0 = replicate k (CHR ''0'')"
  by (induction k) (simp_all add: replicate_append_same hex_digit_def)

lemma small_uuid_fresh:
  assumes "n < 100"
  shows "uuid_text n \<noteq> demo_reservation"
proof -
  have z: "n div 16 ^ 24 = 0" "n div 16 ^ 20 = 0" "n div 16 ^ 16 = 0" using assms by simp_all
  have "uuid_text n = replicate 8 (CHR ''0'') @ ''-'' @ replicate 4 (CHR ''0'') @ ''-'' @ replicate 4 (CHR ''0'') @ ''-'' @
      hexs 4 (n div 16 ^ 12) @ ''-'' @ hexs 12 n" by (simp only: uuid_text_def z hexs_0)
  then have "uuid_text n ! 14 = CHR ''0''" by (simp add: nth_append)
  moreover have "demo_reservation ! 14 = CHR ''4''" by (simp add: demo_reservation_def)
  ultimately show ?thesis by force
qed

text \<open>The second send with the token begins before the first is stored and reaches its transaction after it.\<close>

theorem photo_permission_used_once_witness:
  "\<not> (\<exists>ack'. fst (send_message demo_storage_ok demo_grant_config demo_msg_ids demo_send_clock demo_ack_clock
      (\<lambda>_. demo_chat_sent) id 2 50 (demo_photo\<lparr>mi_client_id := 9\<rparr>) demo_chat) = Inr ack' \<and> mk_ack_new ack')"
proof -
  let ?send = "send_message demo_storage_ok demo_grant_config demo_msg_ids demo_send_clock demo_ack_clock
    (\<lambda>_. demo_chat_sent) id 2 50 (demo_photo\<lparr>mi_client_id := 9\<rparr>) demo_chat"
  have new: "mk_ack_new (messageAcknowledgement demo_message True)" by (simp add: messageAcknowledgement_def)
  have photo: "mi_kind demo_photo = IMAGE" "mi_kind (demo_photo\<lparr>mi_client_id := 9\<rparr>) = IMAGE"
    "mi_grant (demo_photo\<lparr>mi_client_id := 9\<rparr>) = mi_grant demo_photo" by (simp_all add: demo_photo_def)
  have ids: "distinct (map pu_id (pending_uploads (id demo_chat)))"
    "\<forall>j. draws (id demo_chat) \<le> j \<and> j < draws demo_chat_sent \<longrightarrow>
       uuid_text (uuid_at demo_msg_ids j) \<notin> pu_id ` set (pending_uploads (id demo_chat))"
    using small_uuid_fresh [of 7] by (simp_all add: demo_chat_def demo_chat_sent_def demo_msg_ids_def demo_pending_def)
  show ?thesis
    by (rule photo_permission_used_once [OF demo_message_send new photo(1) ids photo(2,3) rtranclp.rtrancl_refl
          prod.collapse [symmetric, of ?send]])
qed

lemma demo_receipt:
  "\<exists>res. updateReceipt 30 30 1 7 True demo_chat_sent = Inr (res, demo_chat_sent\<lparr>receipts :=
     [\<lparr>re_message = 7, re_recipient = 1, re_status = Read, re_delivered = Some 30, re_read = Some 30\<rparr>]\<rparr>)"
  by (simp add: updateReceipt_def receipt_current_def advance_receipt_def demo_chat_sent_def demo_chat_defs lock_defs
      demo_message_def)

theorem receipts_only_advance_witness:
  "advances \<lparr>re_message = 7, re_recipient = 1, re_status = Sent, re_delivered = None, re_read = None\<rparr>
     \<lparr>re_message = 7, re_recipient = 1, re_status = Read, re_delivered = Some 30, re_read = Some 30\<rparr>"
proof -
  obtain res where "updateReceipt 30 30 1 7 True demo_chat_sent = Inr (res, demo_chat_sent\<lparr>receipts :=
     [\<lparr>re_message = 7, re_recipient = 1, re_status = Read, re_delivered = Some 30, re_read = Some 30\<rparr>]\<rparr>)"
    using demo_receipt by blast
  from receipts_only_advance [OF this] show ?thesis by (simp add: demo_chat_sent_def)
qed

definition demo_list_clock :: list_clock where
  "demo_list_clock = \<lparr>lk_lock = 30, lk_now = 30, lk_relock = 30\<rparr>"

lemma demo_readable: "readable_messages demo_chat_sent 30 50 60 = [demo_message]"
  by (simp add: readable_messages_def envelopes_for_def demo_chat_sent_def demo_message_def new_envelopes_def demo_photo_def)

lemma demo_message_out: "\<exists>out. message_out_of demo_storage_ok 30 demo_chat_sent 60 demo_message = Inr out"
  by (simp add: message_out_of_def attachment_out_of_def envelopes_for_def demo_chat_sent_def demo_message_def
      new_envelopes_def new_attachment_def demo_photo_def demo_storage_ok_def)

lemma demo_page:
  assumes "after \<noteq> []"
  shows "\<exists>p. listMessages demo_storage_ok demo_list_clock 1 50 60 (Some after) 1 demo_chat_sent = Inr (p, demo_chat_sent)"
proof -
  have w: "same_world demo_chat_sent" by (simp add: same_world_def demo_chat_sent_def)
  obtain out where out: "message_out_of demo_storage_ok 30 demo_chat_sent 60 demo_message = Inr out"
    using demo_message_out by blast
  have "\<exists>items. all_right (map (message_out_of demo_storage_ok 30 demo_chat_sent 60)
      (page_rows (after_number (Some after)) 1 [demo_message])) = Inr items"
    using assms by (cases "digits_value 0 after < m_sequence demo_message") (simp_all add: page_rows_def after_number_def out)
  then show ?thesis
    using demo_locks(3) [OF w, of 30] demo_readable
    by (auto simp: listMessages_def bindT_def tx_simps liftT_def demo_list_clock_def)
qed

text \<open>The first read finds nothing; the message of the demonstration is stored, and the second finds it.\<close>

lemma demo_first_page:
  "listMessages demo_storage_ok demo_list_clock 1 50 60 (Some ''0'') 1 demo_chat =
     Inr (\<lparr>mp_items = [], mp_next = ''0''\<rparr>, demo_chat)"
proof -
  have w: "same_world demo_chat" by (simp add: same_world_def)
  have "readable_messages demo_chat 30 50 60 = []" by (simp add: readable_messages_def demo_chat_def)
  then show ?thesis using demo_locks(3) [OF w, of 30]
    by (simp add: listMessages_def bindT_def tx_simps liftT_def demo_list_clock_def page_rows_def after_number_def)
qed

theorem polling_is_complete_witness:
  "\<exists>p2 :: message_page.
     listMessages demo_storage_ok demo_list_clock 1 50 60 (Some ''0'') 1 demo_chat_sent = Inr (p2, demo_chat_sent) \<and>
     map mo_sequence (mp_items p2) = [nat_text 1]"
proof -
  obtain p2 where p2: "listMessages demo_storage_ok demo_list_clock 1 50 60 (Some ''0'') 1 demo_chat_sent = Inr (p2, demo_chat_sent)"
    using demo_page [of "''0''"] by auto
  have run: "(poll_step demo_msg_ids)\<^sup>*\<^sup>* demo_chat demo_chat_sent" using poll_step.written [OF demo_store] by blast
  have clock: "lk_now demo_list_clock = 30" by (simp add: demo_list_clock_def)
  have number: "digits_value 0 ''0'' < m_sequence demo_message" "m_sequence demo_message = 1"
    by (simp_all add: demo_message_def code_def)
  then have pos: "digits_value 0 ''0'' < Suc 0" by (simp only: One_nat_def)
  have "map mo_sequence (mp_items p2) = map (\<lambda>m. nat_text (m_sequence m))
      (take 1 (filter (\<lambda>m. digits_value 0 ''0'' < m_sequence m \<and> nat_text (m_sequence m) \<notin> mo_sequence ` set ([] :: message_out list))
        (readable_messages demo_chat_sent (lk_now demo_list_clock) 50 60)))"
    using polling_is_complete [OF demo_first_page list.distinct(2) demo_inv run order_refl, unfolded message_page.simps, OF p2]
    by (elim conjE)
  then have "map mo_sequence (mp_items p2) = [nat_text 1]"
    by (simp only: clock demo_readable filter.simps number(1) list.set image_empty empty_iff simp_thms if_True
        One_nat_def take_Suc_Cons take_0 list.map number(2) [unfolded One_nat_def] pos)
  then show ?thesis by (intro exI [of _ p2] conjI p2)
qed

end
