(* ===== verification/ObjectStorage.thy ===== *)
theory ObjectStorage
  imports Messages
begin

text \<open>
  apps/api/src/storage/object-storage.service.ts: the private bucket of the encrypted photos.  The
  S3 client of the AWS SDK and the URL parser are parameters; the bucket is a state of any type
  that only the client's commands read and change.  What the service needs of the client is stated
  twice: \<open>s3_sound\<close> is what a success may be trusted for whatever fails in between,
  \<open>s3_documented\<close> the behaviour of a bucket that answers every request.
\<close>

section \<open>Configuration\<close>

datatype versioning_mode = VersioningDisabled | VersioningPurgeAll

record storage_env =
  se_endpoint :: "string option"
  se_bucket :: "string option"
  se_access_key :: "string option"
  se_secret_key :: "string option"
  se_region :: "string option"
  se_versioning :: "string option"
  se_path_style :: "string option"
  se_node_env :: "string option"

record storage_configuration =
  sc_bucket :: string
  sc_mode :: versioning_mode
  sc_region :: string
  sc_path_style :: bool

definition js_space :: "char \<Rightarrow> bool" where
  "js_space c \<longleftrightarrow> code c \<in> {9, 10, 11, 12, 13, 32, 160}"

definition js_trim :: "string \<Rightarrow> string" where
  "js_trim t = rev (dropWhile js_space (rev (dropWhile js_space t)))"

definition ascii_lower :: "char \<Rightarrow> char" where
  "ascii_lower c = (if 65 \<le> code c \<and> code c \<le> 90 then byte (code c + 32) else c)"

text \<open>A text of the environment that is absent or empty is falsy.\<close>

definition truthy :: "string option \<Rightarrow> bool" where
  "truthy v \<longleftrightarrow> v \<noteq> None \<and> v \<noteq> Some []"

definition readObjectStorageForcePathStyle :: "storage_env \<Rightarrow> error + bool" where
  "readObjectStorageForcePathStyle env =
     (let configured = map_option (map ascii_lower \<circ> js_trim) (se_path_style env) in
      if \<not> truthy configured then Inr False
      else if configured = Some ''true'' then Inr True
      else if configured = Some ''false'' then Inr False
      else Inl (InternalError ''OBJECT_STORAGE_FORCE_PATH_STYLE debe ser true o false.''))"

text \<open>The mode as text: the trimmed setting, else disabled outside production.\<close>

definition versioning_text :: "storage_env \<Rightarrow> string option" where
  "versioning_text env =
     (let configured = map_option js_trim (se_versioning env) in
      if truthy configured then configured
      else if se_node_env env = Some ''production'' then None else Some ''disabled'')"

text \<open>\<open>protocol\<close> is the protocol of the URL a text parses to, if it parses.\<close>

definition getConfiguration :: "(string \<Rightarrow> string option) \<Rightarrow> storage_env \<Rightarrow> error + storage_configuration" where
  "getConfiguration protocol env =
     (if \<not> truthy (se_endpoint env) \<or> \<not> truthy (se_bucket env) \<or> \<not> truthy (se_access_key env) \<or>
         \<not> truthy (se_secret_key env) \<or> \<not> truthy (versioning_text env)
      then Inl (ServiceUnavailable ''El almacenamiento privado de fotos no esta configurado.'')
      else if versioning_text env \<noteq> Some ''disabled'' \<and> versioning_text env \<noteq> Some ''purge-all''
      then Inl (InternalError ''OBJECT_STORAGE_VERSIONING_MODE debe ser disabled o purge-all.'')
      else case protocol (the (se_endpoint env)) of
        None \<Rightarrow> Inl (InternalError ''OBJECT_STORAGE_ENDPOINT debe ser una URL valida.'')
      | Some scheme \<Rightarrow>
          if se_node_env env = Some ''production'' \<and> scheme \<noteq> ''https:''
          then Inl (InternalError ''OBJECT_STORAGE_ENDPOINT debe usar HTTPS en produccion.'')
          else map_sum id (\<lambda>path. \<lparr>sc_bucket = the (se_bucket env),
            sc_mode = (if versioning_text env = Some ''disabled'' then VersioningDisabled else VersioningPurgeAll),
            sc_region = (case se_region env of None \<Rightarrow> ''auto'' | Some r \<Rightarrow> r), sc_path_style = path\<rparr>)
            (readObjectStorageForcePathStyle env))"

section \<open>The client\<close>

abbreviation PRIVATE_NO_STORE :: string where
  "PRIVATE_NO_STORE \<equiv> ''private, no-store, max-age=0''"

record put_command =
  pc_bucket :: string
  pc_key :: string
  pc_content_type :: string
  pc_cache :: string
  pc_length :: int
  pc_sha :: string
  pc_if_none_match :: string

record head_result =
  hr_length :: "int option"
  hr_type :: "string option"
  hr_cache :: "string option"
  hr_sha :: "string option"

record version_page =
  vp_versions :: "(string option \<times> string option) list"
  vp_markers :: "(string option \<times> string option) list"

record 'b s3_client =
  s3_sign_put :: "put_command \<Rightarrow> int \<Rightarrow> time \<Rightarrow> string list \<Rightarrow> error + string"
  s3_sign_get :: "string \<Rightarrow> string \<Rightarrow> string \<Rightarrow> int \<Rightarrow> time option \<Rightarrow> error + string"
  s3_head :: "string \<Rightarrow> string \<Rightarrow> 'b \<Rightarrow> error + head_result"
  s3_versioning :: "string \<Rightarrow> 'b \<Rightarrow> error + string option"
  s3_list_versions :: "string \<Rightarrow> string \<Rightarrow> nat \<Rightarrow> 'b \<Rightarrow> error + version_page"
  s3_delete_versions :: "string \<Rightarrow> (string \<times> string) list \<Rightarrow> 'b \<Rightarrow> (error + string option list) \<times> 'b"
  s3_delete :: "string \<Rightarrow> string \<Rightarrow> 'b \<Rightarrow> (error + unit) \<times> 'b"

fun hex_value :: "char \<Rightarrow> nat option" where
  "hex_value c = (let n = code (ascii_lower c) in
     if 48 \<le> n \<and> n \<le> 57 then Some (n - 48) else if 97 \<le> n \<and> n \<le> 102 then Some (n - 87) else None)"

text \<open>Node's Buffer.from(text, "hex") stops at the first pair that is not hexadecimal.\<close>

fun hex_decode :: "string \<Rightarrow> nat list" where
  "hex_decode (a # b # rest) =
     (case (hex_value a, hex_value b) of
        (Some x, Some y) \<Rightarrow> (16 * x + y) # hex_decode rest
      | _ \<Rightarrow> [])"
| "hex_decode _ = []"

section \<open>Signed requests and the upload check\<close>

definition presignUpload ::
    "(string \<Rightarrow> string option) \<Rightarrow> storage_env \<Rightarrow> 'b s3_client \<Rightarrow> string \<Rightarrow> int \<Rightarrow> string \<Rightarrow> time \<Rightarrow>
       error + presigned_upload" where
  "presignUpload protocol env c key n sha at =
     (case getConfiguration protocol env of
        Inl e \<Rightarrow> Inl e
      | Inr cfg \<Rightarrow>
          let checksum = base64_encode (hex_decode sha) in
          map_sum id (\<lambda>url. \<lparr>ps_url = url,
              ps_headers = [(''cache-control'', PRIVATE_NO_STORE), (''content-length'', int_text n),
                (''content-type'', ''application/octet-stream''), (''if-none-match'', ''*''),
                (''x-amz-checksum-sha256'', checksum)],
              ps_seconds = 300\<rparr>)
            (s3_sign_put c \<lparr>pc_bucket = sc_bucket cfg, pc_key = key, pc_content_type = ''application/octet-stream'',
               pc_cache = PRIVATE_NO_STORE, pc_length = n, pc_sha = checksum, pc_if_none_match = ''*''\<rparr> 300 at
               [''cache-control'', ''content-length'', ''content-type'', ''if-none-match'', ''x-amz-checksum-sha256'']))"

definition assertUploaded ::
    "(string \<Rightarrow> string option) \<Rightarrow> storage_env \<Rightarrow> 'b s3_client \<Rightarrow> 'b \<Rightarrow> string \<Rightarrow> int \<Rightarrow> string \<Rightarrow> error + unit" where
  "assertUploaded protocol env c b key n sha =
     (case getConfiguration protocol env of
        Inl e \<Rightarrow> Inl e
      | Inr cfg \<Rightarrow>
          (case s3_head c (sc_bucket cfg) key b of
             Inl e \<Rightarrow> Inl e
           | Inr r \<Rightarrow>
               if hr_length r \<noteq> Some n \<or> hr_type r \<noteq> Some ''application/octet-stream'' \<or>
                  hr_cache r \<noteq> Some PRIVATE_NO_STORE \<or> hr_sha r \<noteq> Some (base64_encode (hex_decode sha))
               then Inl (ServiceUnavailable ''La foto cifrada no supero la verificacion de integridad.'')
               else Inr ()))"

definition presignDownload ::
    "(string \<Rightarrow> string option) \<Rightarrow> storage_env \<Rightarrow> 'b s3_client \<Rightarrow> string \<Rightarrow> int \<Rightarrow> time option \<Rightarrow> error + string" where
  "presignDownload protocol env c key seconds at =
     (case getConfiguration protocol env of
        Inl e \<Rightarrow> Inl e
      | Inr cfg \<Rightarrow> s3_sign_get c (sc_bucket cfg) key PRIVATE_NO_STORE (max 1 (min 60 seconds)) at)"

text \<open>The service as the message service sees it, over one state of the bucket.\<close>

definition storage_service ::
    "(string \<Rightarrow> string option) \<Rightarrow> storage_env \<Rightarrow> 'b s3_client \<Rightarrow> 'b \<Rightarrow> object_storage" where
  "storage_service protocol env c b =
     \<lparr>os_presign_upload = presignUpload protocol env c, os_assert_uploaded = assertUploaded protocol env c b,
       os_presign_download = (\<lambda>key seconds at. presignDownload protocol env c key seconds (Some at))\<rparr>"

section \<open>Deletion\<close>

definition exact_versions :: "string \<Rightarrow> version_page \<Rightarrow> (string \<times> string) list" where
  "exact_versions key page =
     [(key, the i). (k, i) \<leftarrow> vp_versions page @ vp_markers page, k = Some key \<and> truthy i]"

definition fingerprint :: "(string \<times> string) list \<Rightarrow> string" where
  "fingerprint vs = join_with (CHR 0x0A) (sort (map (\<lambda>(k, i). k @ [CHR 0x00] @ i) vs))"

primrec purge_versions ::
    "'b s3_client \<Rightarrow> string \<Rightarrow> string \<Rightarrow> nat \<Rightarrow> string option \<Rightarrow> 'b \<Rightarrow> (error + unit) \<times> 'b" where
  "purge_versions c bucket key 0 previous b = (Inl (InternalError ''OBJECT_VERSION_PURGE_LIMIT_REACHED''), b)"
| "purge_versions c bucket key (Suc n) previous b =
     (case s3_list_versions c bucket key 1000 b of
        Inl e \<Rightarrow> (Inl e, b)
      | Inr page \<Rightarrow>
          let versions = exact_versions key page; print = fingerprint versions in
          if versions = [] then (Inr (), b)
          else if previous = Some print then (Inl (InternalError ''OBJECT_VERSION_DELETE_NOT_VISIBLE''), b)
          else (case s3_delete_versions c bucket versions b of
              (Inl e, b') \<Rightarrow> (Inl e, b')
            | (Inr (failed # _), b') \<Rightarrow> (Inl (InternalError (''OBJECT_VERSION_DELETE_FAILED:'' @
                (case failed of None \<Rightarrow> ''UNKNOWN'' | Some reason \<Rightarrow> reason))), b')
            | (Inr [], b') \<Rightarrow> purge_versions c bucket key n (Some print) b'))"

abbreviation MAX_VERSION_PURGE_BATCHES :: nat where
  "MAX_VERSION_PURGE_BATCHES \<equiv> 10000"

definition delete_object ::
    "(string \<Rightarrow> string option) \<Rightarrow> storage_env \<Rightarrow> 'b s3_client \<Rightarrow> string \<Rightarrow> 'b \<Rightarrow> (error + unit) \<times> 'b" where
  "delete_object protocol env c key b =
     (case getConfiguration protocol env of
        Inl e \<Rightarrow> (Inl e, b)
      | Inr cfg \<Rightarrow>
          (case sc_mode cfg of
             VersioningPurgeAll \<Rightarrow> purge_versions c (sc_bucket cfg) key MAX_VERSION_PURGE_BATCHES None b
           | VersioningDisabled \<Rightarrow> s3_delete c (sc_bucket cfg) key b))"

definition assertProductionConfiguration ::
    "(string \<Rightarrow> string option) \<Rightarrow> storage_env \<Rightarrow> 'b s3_client \<Rightarrow> 'b \<Rightarrow> error + unit" where
  "assertProductionConfiguration protocol env c b =
     (if se_node_env env \<noteq> Some ''production'' then Inr ()
      else case getConfiguration protocol env of
        Inl e \<Rightarrow> Inl e
      | Inr cfg \<Rightarrow>
          (case s3_versioning c (sc_bucket cfg) b of
             Inl e \<Rightarrow> Inl e
           | Inr status \<Rightarrow>
               if sc_mode cfg = VersioningDisabled \<and> status \<noteq> None
               then Inl (InternalError ''El modo disabled exige un bucket que nunca haya habilitado versionado.'')
               else if sc_mode cfg = VersioningPurgeAll
               then map_sum id (\<lambda>_. ()) (s3_list_versions c (sc_bucket cfg)
                 ''__sinochat_versioning_capability_probe__'' 1 b)
               else Inr ()))"

section \<open>What the service relies on\<close>

text \<open>
  What an answer of the bucket may be trusted for: a listing without a version of the key means that
  none is left, and a deletion, failed or not, takes only what it names.  The single DeleteObject is
  final only in a bucket that never kept versions, which is the contract of the disabled mode.
\<close>

definition listed_versions :: "version_page \<Rightarrow> (string \<times> string) list" where
  "listed_versions page = [(k, i). (Some k, Some i) \<leftarrow> vp_versions page @ vp_markers page]"

definition s3_sound :: "'b s3_client \<Rightarrow> storage_configuration \<Rightarrow> ('b \<Rightarrow> (string \<times> string) set) \<Rightarrow> bool" where
  "s3_sound c cfg contents \<longleftrightarrow>
     (\<forall>b key page. s3_list_versions c (sc_bucket cfg) key 1000 b = Inr page \<longrightarrow>
        (\<forall>i. (key, i) \<in> set (listed_versions page) \<longrightarrow> i = []) \<longrightarrow> key \<notin> fst ` contents b) \<and>
     (\<forall>b vs r b'. s3_delete_versions c (sc_bucket cfg) vs b = (r, b') \<longrightarrow>
        contents b' \<subseteq> contents b \<and> contents b - set vs \<subseteq> contents b') \<and>
     (sc_mode cfg = VersioningDisabled \<longrightarrow> (\<forall>b key r b'. s3_delete c (sc_bucket cfg) key b = (r, b') \<longrightarrow>
        contents b' \<subseteq> contents b \<and> contents b - {x. fst x = key} \<subseteq> contents b' \<and>
        (r = Inr () \<longrightarrow> key \<notin> fst ` contents b')))"

definition storage_sound ::
    "(string \<Rightarrow> string option) \<Rightarrow> storage_env \<Rightarrow> 'b s3_client \<Rightarrow> ('b \<Rightarrow> (string \<times> string) set) \<Rightarrow> bool" where
  "storage_sound protocol env c contents \<longleftrightarrow>
     (\<forall>cfg. getConfiguration protocol env = Inr cfg \<longrightarrow> s3_sound c cfg contents)"

lemma exact_versions_key: "x \<in> set (exact_versions key page) \<Longrightarrow> fst x = key"
  by (auto simp: exact_versions_def)

lemma exact_versions_listed:
  "exact_versions key page = filter (\<lambda>x. fst x = key \<and> snd x \<noteq> []) (listed_versions page)"
proof -
  have "[(key, the i). (k, i) \<leftarrow> ps, k = Some key \<and> truthy i] =
      filter (\<lambda>x. fst x = key \<and> snd x \<noteq> []) [(k, i). (Some k, Some i) \<leftarrow> ps]" for ps
    by (induction ps) (auto simp: truthy_def split: option.splits)
  then show ?thesis unfolding exact_versions_def listed_versions_def .
qed

lemma s3_soundD:
  assumes "s3_sound c cfg contents"
  shows "s3_list_versions c (sc_bucket cfg) key 1000 b = Inr page \<Longrightarrow> exact_versions key page = [] \<Longrightarrow>
      key \<notin> fst ` contents b"
    "s3_delete_versions c (sc_bucket cfg) vs b = (d, b') \<Longrightarrow> contents b' \<subseteq> contents b"
    "s3_delete_versions c (sc_bucket cfg) vs b = (d, b') \<Longrightarrow> contents b - set vs \<subseteq> contents b'"
    "sc_mode cfg = VersioningDisabled \<Longrightarrow> s3_delete c (sc_bucket cfg) key b = (r, b') \<Longrightarrow>
      contents b' \<subseteq> contents b \<and> contents b - {x. fst x = key} \<subseteq> contents b' \<and>
      (r = Inr () \<longrightarrow> key \<notin> fst ` contents b')"
proof -
  show "key \<notin> fst ` contents b" if "s3_list_versions c (sc_bucket cfg) key 1000 b = Inr page" "exact_versions key page = []"
  proof -
    have "\<forall>i. (key, i) \<in> set (listed_versions page) \<longrightarrow> i = []"
      using that(2) unfolding exact_versions_listed by (auto simp: filter_empty_conv)
    then show ?thesis using assms that(1) unfolding s3_sound_def by blast
  qed
qed (use assms in \<open>simp_all add: s3_sound_def\<close>)

lemma purge_versions_sound:
  assumes "s3_sound c cfg contents"
  shows "purge_versions c (sc_bucket cfg) key n previous b = (r, b') \<Longrightarrow>
    contents b' \<subseteq> contents b \<and> contents b - {x. fst x = key} \<subseteq> contents b' \<and>
    (r = Inr () \<longrightarrow> key \<notin> fst ` contents b')"
proof (induction n arbitrary: previous b)
  case (Suc n)
  show ?case
  proof (cases "s3_list_versions c (sc_bucket cfg) key 1000 b")
    case (Inr page)
    obtain d b1 where del: "s3_delete_versions c (sc_bucket cfg) (exact_versions key page) b = (d, b1)" by fastforce
    note b1 = s3_soundD(2,3) [OF assms del]
    have rest: "contents b - {x. fst x = key} \<subseteq> contents b - set (exact_versions key page)"
      using exact_versions_key [of _ key page] by auto
    have none: "key \<notin> fst ` contents b" if "exact_versions key page = []"
      using assms Inr that by (rule s3_soundD(1))
    show ?thesis
    proof (cases "exact_versions key page = [] \<or> previous = Some (fingerprint (exact_versions key page)) \<or> d \<noteq> Inr []")
      case True
      with Suc.prems Inr del have "(b' = b \<or> b' = b1) \<and> (r = Inr () \<longrightarrow> exact_versions key page = [] \<and> b' = b)"
        by (auto simp: Let_def split: if_splits sum.splits list.splits)
      with b1 rest none show ?thesis by blast
    next
      case False
      with Suc.prems Inr del have "purge_versions c (sc_bucket cfg) key n
          (Some (fingerprint (exact_versions key page))) b1 = (r, b')" by (simp add: Let_def)
      from Suc.IH [OF this] b1 rest show ?thesis by blast
    qed
  qed (use Suc.prems in auto)
qed auto

text \<open>The contract of a deletion, whatever the storage behind it.\<close>

locale object_deletion =
  fixes trusted :: bool
    and del :: "string \<Rightarrow> 'b \<Rightarrow> (error + unit) \<times> 'b"
    and contents :: "'b \<Rightarrow> (string \<times> string) set"
  assumes deleted_gone: "trusted \<Longrightarrow> del key b = (Inr (), b') \<Longrightarrow> key \<notin> fst ` contents b'"
    and nothing_added: "trusted \<Longrightarrow> del key b = (r, b') \<Longrightarrow> contents b' \<subseteq> contents b"
    and others_kept: "trusted \<Longrightarrow> del key b = (r, b') \<Longrightarrow> x \<in> contents b \<Longrightarrow> fst x \<noteq> key \<Longrightarrow> x \<in> contents b'"
begin

lemma other_keys_same:
  assumes "trusted" "del key b = (r, b')" "k \<noteq> key"
  shows "k \<in> fst ` contents b' \<longleftrightarrow> k \<in> fst ` contents b"
proof
  show "k \<in> fst ` contents b" if "k \<in> fst ` contents b'"
    using that nothing_added [OF assms(1,2)] by (rule rev_subsetD [OF _ image_mono])
  assume "k \<in> fst ` contents b"
  then obtain x where x: "x \<in> contents b" "fst x = k" by auto
  then have "x \<in> contents b'" using assms(3) by (intro others_kept [OF assms(1,2)]) simp_all
  with x(2) show "k \<in> fst ` contents b'" by auto
qed

lemma stays_gone: "trusted \<Longrightarrow> del key b = (r, b') \<Longrightarrow> k \<notin> fst ` contents b \<Longrightarrow> k \<notin> fst ` contents b'"
  using nothing_added [of key b r b'] by (metis image_mono subsetD)

end

lemma delete_object_sound:
  assumes "storage_sound protocol env c contents" "delete_object protocol env c key b = (r, b')"
  shows "contents b' \<subseteq> contents b \<and> contents b - {x. fst x = key} \<subseteq> contents b' \<and>
    (r = Inr () \<longrightarrow> key \<notin> fst ` contents b')"
proof (cases "getConfiguration protocol env")
  case (Inl e)
  with assms(2) show ?thesis by (auto simp: delete_object_def)
next
  case (Inr cfg)
  then have "s3_sound c cfg contents" using assms(1) by (simp add: storage_sound_def)
  note sound = this
  show ?thesis
  proof (cases "sc_mode cfg")
    case VersioningPurgeAll
    with assms(2) Inr have "purge_versions c (sc_bucket cfg) key MAX_VERSION_PURGE_BATCHES None b = (r, b')"
      by (simp only: delete_object_def sum.case versioning_mode.case)
    with sound show ?thesis by (rule purge_versions_sound)
  next
    case VersioningDisabled
    with assms(2) Inr have "s3_delete c (sc_bucket cfg) key b = (r, b')" by (simp add: delete_object_def)
    with sound VersioningDisabled show ?thesis by (intro s3_soundD(4))
  qed
qed

interpretation deletion: object_deletion "storage_sound protocol env c contents" "delete_object protocol env c" contents
  for protocol env c contents
proof unfold_locales
  fix key b r b' x
  assume t: "storage_sound protocol env c contents"
  show "key \<notin> fst ` contents b'" if "delete_object protocol env c key b = (Inr (), b')"
    using delete_object_sound [OF t that] by simp
  assume d: "delete_object protocol env c key b = (r, b')"
  show "contents b' \<subseteq> contents b" using delete_object_sound [OF t d] by simp
  assume "x \<in> contents b" "fst x \<noteq> key"
  with delete_object_sound [OF t d] show "x \<in> contents b'" by blast
qed

section \<open>Purging every version\<close>

text \<open>
  ListObjectVersions answers in the order of the keys, so that the versions of a key come before those
  of longer keys with it as a prefix: of the key itself it gives all versions, or 1000 of them.
  Version identifiers are URL-ready texts.  DeleteObjects removes the versions it names.
\<close>

definition s3_documented :: "'b s3_client \<Rightarrow> storage_configuration \<Rightarrow> ('b \<Rightarrow> (string \<times> string) list) \<Rightarrow> bool" where
  "s3_documented c cfg contents \<longleftrightarrow>
     (\<forall>b. distinct (contents b) \<and> (\<forall>x \<in> set (contents b). snd x \<noteq> [] \<and> CHR 0x0A \<notin> set (snd x))) \<and>
     (\<forall>b key. \<exists>page. s3_list_versions c (sc_bucket cfg) key 1000 b = Inr page \<and>
        distinct (listed_versions page) \<and> set (listed_versions page) \<subseteq> set (contents b) \<and>
        count_where (\<lambda>x. fst x = key) (listed_versions page) = min 1000 (count_where (\<lambda>x. fst x = key) (contents b))) \<and>
     (\<forall>b vs. set vs \<subseteq> set (contents b) \<longrightarrow> length vs \<le> 1000 \<longrightarrow>
        (\<exists>b'. s3_delete_versions c (sc_bucket cfg) vs b = (Inr [], b') \<and>
           contents b' = filter (\<lambda>x. x \<notin> set vs) (contents b)))"

lemma documented_page:
  assumes "s3_documented c cfg contents"
  obtains page where "s3_list_versions c (sc_bucket cfg) key 1000 b = Inr page"
    "distinct (exact_versions key page)" "set (exact_versions key page) \<subseteq> set (contents b)"
    "length (exact_versions key page) = min 1000 (count_where (\<lambda>x. fst x = key) (contents b))"
proof -
  from assms obtain page where page: "s3_list_versions c (sc_bucket cfg) key 1000 b = Inr page"
    "distinct (listed_versions page)" "set (listed_versions page) \<subseteq> set (contents b)"
    "count_where (\<lambda>x. fst x = key) (listed_versions page) = min 1000 (count_where (\<lambda>x. fst x = key) (contents b))"
    unfolding s3_documented_def by blast
  have "\<forall>x \<in> set (contents b). snd x \<noteq> []" using assms unfolding s3_documented_def by blast
  then have "exact_versions key page = filter (\<lambda>x. fst x = key) (listed_versions page)"
    using page(3) unfolding exact_versions_listed by (intro filter_cong) auto
  with page show thesis by (intro that [of page]) (auto simp: count_where_def)
qed

lemma count_where_remove:
  assumes "distinct xs" "distinct vs" "set vs \<subseteq> {x \<in> set xs. P x}"
  shows "count_where P (filter (\<lambda>x. x \<notin> set vs) xs) = count_where P xs - length vs"
proof -
  have "count_where P (filter (\<lambda>x. x \<notin> set vs) xs) = card ({x \<in> set xs. P x} - set vs)"
    using distinct_card [of "filter P (filter (\<lambda>x. x \<notin> set vs) xs)"] assms(1)
    by (simp add: count_where_def Diff_eq Int_def conj_ac)
  also have "\<dots> = card {x \<in> set xs. P x} - card (set vs)" using assms(3) by (intro card_Diff_subset) simp_all
  also have "card {x \<in> set xs. P x} = count_where P xs"
    using distinct_card [of "filter P xs"] assms(1) by (simp add: count_where_def)
  also have "card (set vs) = length vs" using assms(2) by (rule distinct_card)
  finally show ?thesis .
qed

text \<open>Fingerprints of batches without a version in common differ.\<close>

lemma fingerprint_differs:
  assumes "vs \<noteq> []" "ws \<noteq> []" "set vs \<inter> set ws = {}" "CHR 0x0A \<notin> set key"
    "\<forall>x \<in> set vs \<union> set ws. fst x = key \<and> CHR 0x0A \<notin> set (snd x)"
  shows "fingerprint vs \<noteq> fingerprint ws"
proof
  let ?t = "\<lambda>(k, i). k @ [CHR 0x00] @ i"
  assume eq: "fingerprint vs = fingerprint ws"
  have line: "\<forall>y \<in> set (sort (map ?t us)). CHR 0x0A \<notin> set y" if "\<forall>x \<in> set us. fst x = key \<and> CHR 0x0A \<notin> set (snd x)" for us
    using that assms(4) by (auto split: prod.splits)
  have in_vs: "\<forall>x \<in> set vs. fst x = key \<and> CHR 0x0A \<notin> set (snd x)"
    and in_ws: "\<forall>x \<in> set ws. fst x = key \<and> CHR 0x0A \<notin> set (snd x)" using assms(5) by simp_all
  have nonempty: "sort (map ?t us) \<noteq> []" if "us \<noteq> []" for us
    using that by (metis length_0_conv length_map length_sort)
  have "sort (map ?t vs) = sort (map ?t ws)"
    by (rule join_with_unique [OF eq [unfolded fingerprint_def] nonempty [OF assms(1)] nonempty [OF assms(2)]
      line [OF in_vs] line [OF in_ws]])
  then have "set (map ?t vs) = set (map ?t ws)" by (metis set_sort)
  then have same: "?t ` set vs = ?t ` set ws" by simp
  obtain x where x: "x \<in> set vs" using assms(1) by (cases vs) auto
  then have "?t x \<in> ?t ` set ws" unfolding same [symmetric] by (rule imageI)
  then obtain y where y: "y \<in> set ws" "?t x = ?t y" by (rule imageE)
  have "fst x = key" "fst y = key" using in_vs in_ws x y(1) by simp_all
  with y(2) have "x = y" by (cases x; cases y) simp
  with x y(1) assms(3) show False by blast
qed

text \<open>What earlier batches deleted is not listed again.\<close>

definition batch_deleted :: "string \<Rightarrow> string option \<Rightarrow> (string \<times> string) list \<Rightarrow> bool" where
  "batch_deleted key previous left \<longleftrightarrow> previous = None \<or> (\<exists>vs. previous = Some (fingerprint vs) \<and> vs \<noteq> [] \<and>
     set vs \<inter> set left = {} \<and> (\<forall>x \<in> set vs. fst x = key \<and> CHR 0x0A \<notin> set (snd x)))"

lemma purge_versions_step:
  assumes "s3_documented c cfg contents" "CHR 0x0A \<notin> set key" "batch_deleted key previous (contents b)"
    "count_where (\<lambda>x. fst x = key) (contents b) \<noteq> 0"
  obtains vs b1 where
    "purge_versions c (sc_bucket cfg) key (Suc n) previous b = purge_versions c (sc_bucket cfg) key n (Some (fingerprint vs)) b1"
    "batch_deleted key (Some (fingerprint vs)) (contents b1)"
    "filter (\<lambda>x. fst x \<noteq> key) (contents b1) = filter (\<lambda>x. fst x \<noteq> key) (contents b)"
    "count_where (\<lambda>x. fst x = key) (contents b1) = count_where (\<lambda>x. fst x = key) (contents b) - 1000"
proof -
  let ?n = "count_where (\<lambda>x. fst x = key)"
  have rows: "distinct (contents b)" "\<forall>x \<in> set (contents b). CHR 0x0A \<notin> set (snd x)"
    using assms(1) unfolding s3_documented_def by blast+
  obtain page where page: "s3_list_versions c (sc_bucket cfg) key 1000 b = Inr page"
    "distinct (exact_versions key page)" "set (exact_versions key page) \<subseteq> set (contents b)"
    "length (exact_versions key page) = min 1000 (?n (contents b))" using assms(1) by (rule documented_page)
  define vs where "vs = exact_versions key page"
  note page = page [folded vs_def]
  have keys: "fst x = key" if "x \<in> set vs" for x using that unfolding vs_def by (rule exact_versions_key)
  have "length vs \<le> 1000" using page(4) by simp
  with assms(1) page(3) obtain b1 where b1: "s3_delete_versions c (sc_bucket cfg) vs b = (Inr [], b1)"
    "contents b1 = filter (\<lambda>x. x \<notin> set vs) (contents b)" unfolding s3_documented_def by blast
  have vs: "vs \<noteq> []" using page(4) assms(4) by auto
  have new: "previous \<noteq> Some (fingerprint vs)"
  proof
    assume "previous = Some (fingerprint vs)"
    with assms(3) obtain ws where ws: "fingerprint vs = fingerprint ws" "ws \<noteq> []" "set ws \<inter> set (contents b) = {}"
      "\<forall>x \<in> set ws. fst x = key \<and> CHR 0x0A \<notin> set (snd x)" unfolding batch_deleted_def by auto
    have "set vs \<inter> set ws = {}" using ws(3) page(3) by auto
    moreover have "\<forall>x \<in> set vs \<union> set ws. fst x = key \<and> CHR 0x0A \<notin> set (snd x)"
      using ws(4) keys rows(2) page(3) by auto
    ultimately show False using fingerprint_differs [OF vs ws(2) _ assms(2)] ws(1) by blast
  qed
  show thesis
  proof (rule that)
    show "purge_versions c (sc_bucket cfg) key (Suc n) previous b =
        purge_versions c (sc_bucket cfg) key n (Some (fingerprint vs)) b1"
      using page(1) vs new b1(1) by (simp add: vs_def Let_def)
    show "batch_deleted key (Some (fingerprint vs)) (contents b1)"
      unfolding batch_deleted_def b1(2) using vs keys rows(2) page(3) by (intro disjI2 exI [of _ vs]) auto
    show "filter (\<lambda>x. fst x \<noteq> key) (contents b1) = filter (\<lambda>x. fst x \<noteq> key) (contents b)"
      unfolding b1(2) filter_filter using keys by (intro filter_cong) auto
    have "?n (contents b1) = ?n (contents b) - length vs"
      unfolding b1(2) using rows(1) page(2,3) keys by (intro count_where_remove) auto
    then show "?n (contents b1) = ?n (contents b) - 1000" using page(4) by simp
  qed
qed

lemma batch_count: "0 < (k :: nat) \<Longrightarrow> k - 1000 + 1000 \<le> 1000 * n \<longleftrightarrow> k \<le> 1000 * n"
  by (cases "1000 \<le> k"; cases n) simp_all

lemma purge_versions_counts:
  assumes "s3_documented c cfg contents" "CHR 0x0A \<notin> set key"
  shows "batch_deleted key previous (contents b) \<Longrightarrow> purge_versions c (sc_bucket cfg) key n previous b = (r, b') \<Longrightarrow>
    (if count_where (\<lambda>x. fst x = key) (contents b) + 1000 \<le> 1000 * n
     then r = Inr () \<and> count_where (\<lambda>x. fst x = key) (contents b') = 0
     else r = Inl (InternalError ''OBJECT_VERSION_PURGE_LIMIT_REACHED'')) \<and>
    filter (\<lambda>x. fst x \<noteq> key) (contents b') = filter (\<lambda>x. fst x \<noteq> key) (contents b)"
proof (induction n arbitrary: previous b)
  case (Suc n)
  show ?case
  proof (cases "count_where (\<lambda>x. fst x = key) (contents b) = 0")
    case True
    obtain page where "s3_list_versions c (sc_bucket cfg) key 1000 b = Inr page"
      "length (exact_versions key page) = min 1000 (count_where (\<lambda>x. fst x = key) (contents b))"
      using documented_page [OF assms(1)] by metis
    with Suc.prems(2) True show ?thesis by simp
  next
    case False
    obtain vs b1 where "purge_versions c (sc_bucket cfg) key (Suc n) previous b =
        purge_versions c (sc_bucket cfg) key n (Some (fingerprint vs)) b1"
      "batch_deleted key (Some (fingerprint vs)) (contents b1)"
      "filter (\<lambda>x. fst x \<noteq> key) (contents b1) = filter (\<lambda>x. fst x \<noteq> key) (contents b)"
      "count_where (\<lambda>x. fst x = key) (contents b1) = count_where (\<lambda>x. fst x = key) (contents b) - 1000"
      using assms Suc.prems(1) False by (rule purge_versions_step)
    note step = this
    have "(count_where (\<lambda>x. fst x = key) (contents b1) + 1000 \<le> 1000 * n) =
        (count_where (\<lambda>x. fst x = key) (contents b) + 1000 \<le> 1000 * Suc n)"
      unfolding step(4) using False batch_count by simp
    with Suc.IH [OF step(2) Suc.prems(2) [unfolded step(1)]] step(3) show ?thesis by simp
  qed
qed simp

text \<open>C8: in a bucket that keeps versions, deleting an object removes all its versions and markers, as many as
  9,999,000, and reports success exactly then; with more it gives up after 10,000 batches.  The versions of
  other keys stay, also of keys it is a prefix of.\<close>

theorem deletion_purges_versions:
  assumes "getConfiguration protocol env = Inr cfg" "sc_mode cfg = VersioningPurgeAll" "s3_documented c cfg contents"
    "CHR 0x0A \<notin> set key" "delete_object protocol env c key b = (r, b')"
  shows "(if count_where (\<lambda>x. fst x = key) (contents b) \<le> 9999000
     then r = Inr () \<and> count_where (\<lambda>x. fst x = key) (contents b') = 0
     else r = Inl (InternalError ''OBJECT_VERSION_PURGE_LIMIT_REACHED'')) \<and>
    filter (\<lambda>x. fst x \<noteq> key) (contents b') = filter (\<lambda>x. fst x \<noteq> key) (contents b)"
proof -
  have "purge_versions c (sc_bucket cfg) key MAX_VERSION_PURGE_BATCHES None b = (r, b')"
    using assms(1,2,5) by (simp only: delete_object_def sum.case versioning_mode.case)
  from purge_versions_counts [OF assms(3,4) _ this] show ?thesis by (simp add: batch_deleted_def split: if_splits)
qed

section \<open>Witnesses\<close>

text \<open>A bucket of versions that answers as documented; identifiers are URL-ready, and a version is listed once.\<close>

definition demo_versions :: "(string \<times> string) list \<Rightarrow> (string \<times> string) list" where
  "demo_versions b = remdups (filter (\<lambda>x. snd x \<noteq> [] \<and> CHR 0x0A \<notin> set (snd x)) b)"

definition demo_listing :: "string \<Rightarrow> (string \<times> string) list \<Rightarrow> (string \<times> string) list" where
  "demo_listing key b = filter (\<lambda>x. fst x = key) (demo_versions b) @
     filter (\<lambda>x. fst x \<noteq> key \<and> take (length key) (fst x) = key) (demo_versions b)"

definition demo_bucket :: "(string \<times> string) list s3_client" where
  "demo_bucket = \<lparr>s3_sign_put = \<lambda>p n t h. Inr (pc_key p), s3_sign_get = \<lambda>bucket k cache n t. Inr k,
     s3_head = \<lambda>bucket k b. Inr \<lparr>hr_length = None, hr_type = None, hr_cache = None, hr_sha = None\<rparr>,
     s3_versioning = \<lambda>bucket b. Inr (Some ''Enabled''),
     s3_list_versions = \<lambda>bucket key n b. Inr \<lparr>vp_versions =
       map (\<lambda>(k, i). (Some k, Some i)) (take n (demo_listing key b)), vp_markers = []\<rparr>,
     s3_delete_versions = \<lambda>bucket vs b. (Inr [], filter (\<lambda>x. x \<notin> set vs) b),
     s3_delete = \<lambda>bucket k b. (Inr (), filter (\<lambda>x. fst x \<noteq> k) b)\<rparr>"

definition demo_storage_env :: storage_env where
  "demo_storage_env = \<lparr>se_endpoint = Some ''https://s3'', se_bucket = Some ''fotos'', se_access_key = Some ''k'',
     se_secret_key = Some ''s'', se_region = None, se_versioning = Some '' purge-all'', se_path_style = None,
     se_node_env = Some ''production''\<rparr>"

definition demo_configuration :: storage_configuration where
  "demo_configuration = \<lparr>sc_bucket = ''fotos'', sc_mode = VersioningPurgeAll, sc_region = ''auto'', sc_path_style = False\<rparr>"

lemma demo_configured: "getConfiguration (\<lambda>_. Some ''https:'') demo_storage_env = Inr demo_configuration"
  by code_simp

lemma demo_listed: "listed_versions \<lparr>vp_versions = map (\<lambda>(k, i). (Some k, Some i)) vs, vp_markers = []\<rparr> = vs"
  by (induction vs) (auto simp: listed_versions_def)

lemma demo_listing_page:
  "distinct (take n (demo_listing key b))" "set (take n (demo_listing key b)) \<subseteq> set (demo_versions b)"
  "count_where (\<lambda>x. fst x = key) (take n (demo_listing key b)) = min n (count_where (\<lambda>x. fst x = key) (demo_versions b))"
proof -
  have "distinct (demo_listing key b)" by (auto simp: demo_listing_def demo_versions_def)
  then show "distinct (take n (demo_listing key b))" by (rule distinct_take)
  show "set (take n (demo_listing key b)) \<subseteq> set (demo_versions b)" by (auto simp: demo_listing_def dest!: in_set_takeD)
  have none: "count_where (\<lambda>x. fst x = key) (take k (filter (\<lambda>x. fst x \<noteq> key \<and> Q x) xs)) = 0" for k Q xs
    by (auto simp: count_where_0_iff dest!: in_set_takeD)
  have "filter (\<lambda>x. fst x = key) (take n (filter (\<lambda>x. fst x = key) (demo_versions b))) = take n (filter (\<lambda>x. fst x = key) (demo_versions b))"
    by (auto intro: filter_True dest!: in_set_takeD)
  then show "count_where (\<lambda>x. fst x = key) (take n (demo_listing key b)) = min n (count_where (\<lambda>x. fst x = key) (demo_versions b))"
    using none by (simp add: demo_listing_def count_where_def min.commute)
qed

lemma demo_bucket_documented: "s3_documented demo_bucket cfg demo_versions"
proof -
  have removed: "demo_versions (filter (\<lambda>x. x \<notin> set vs) b) = filter (\<lambda>x. x \<notin> set vs) (demo_versions b)" for vs b
    by (simp add: demo_versions_def remdups_filter [symmetric] filter_filter conj_commute)
  show ?thesis
    unfolding s3_documented_def
    using demo_listing_page [where n = 1000] by (simp add: demo_bucket_def demo_listed removed) (auto simp: demo_versions_def)
qed

lemma deletion_purges_versions_witness:
  "\<exists>b'. delete_object (\<lambda>_. Some ''https:'') demo_storage_env demo_bucket ''a''
      [(''a'', ''1''), (''ab'', ''2''), (''a'', ''3'')] = (Inr (), b') \<and> demo_versions b' = [(''ab'', ''2'')]"
proof -
  let ?b = "[(''a'', ''1''), (''ab'', ''2''), (''a'', ''3'')]"
  obtain r b' where d: "delete_object (\<lambda>_. Some ''https:'') demo_storage_env demo_bucket ''a'' ?b = (r, b')" by fastforce
  have rows: "demo_versions ?b = ?b" by (simp add: demo_versions_def)
  from deletion_purges_versions [OF demo_configured _ demo_bucket_documented _ d]
  have res: "r = Inr () \<and> count_where (\<lambda>x. fst x = ''a'') (demo_versions b') = 0 \<and>
    filter (\<lambda>x. fst x \<noteq> ''a'') (demo_versions b') = [(''ab'', ''2'')]"
    by (simp add: demo_configuration_def rows)
  then have "\<forall>x \<in> set (demo_versions b'). fst x \<noteq> ''a''" unfolding count_where_0_iff by blast
  from filter_True [OF this] res d show ?thesis by simp
qed

end
