(* ===== verification/Retention.thy ===== *)
theory Retention
  imports ObjectStorage "HOL-Library.Option_ord"
begin

text \<open>
  apps/api/src/retention/retention.service.ts: the purge of what expired.  Rows without an object
  in the bucket are deleted by one statement per table.  A row that names an object is its
  ledger: the purge claims the row, deletes the object and only then forgets the row, so that a
  failure at any point is repeated by a later batch.  An attachment is identified by its message,
  which its unique index allows.  \<open>del\<close> is the deletion of the object storage on the state of the
  bucket.
\<close>

section \<open>Tables\<close>

record evidence_upload =
  eu_id :: string
  eu_object_key :: string
  eu_expires :: time
  eu_attempts :: nat
  eu_purge_attempt :: "time option"
  eu_purge_error :: "string option"

record retention_db = msg_db +
  evidence_uploads :: "evidence_upload list"

type_synonym 'b deletion = "string \<Rightarrow> 'b \<Rightarrow> (error + unit) \<times> 'b"

abbreviation BATCH_SIZE :: nat where
  "BATCH_SIZE \<equiv> 100"

abbreviation RETRY_DELAY_MS :: time where
  "RETRY_DELAY_MS \<equiv> 60000"

section \<open>Error codes\<close>

fun error_name :: "error \<Rightarrow> string option" where
  "error_name (BadRequest _) = Some ''BadRequestException''"
| "error_name (Unauthorized _) = Some ''UnauthorizedException''"
| "error_name (Forbidden _) = Some ''ForbiddenException''"
| "error_name (NotFound _) = Some ''NotFoundException''"
| "error_name (Conflict _) = Some ''ConflictException''"
| "error_name (TooManyRequests _) = Some ''HttpException''"
| "error_name (InternalError _) = Some ''Error''"
| "error_name (ServiceUnavailable _) = Some ''ServiceUnavailableException''"
| "error_name (ClientError name _) = name"
| "error_name (RangeErr _) = Some ''RangeError''"
| "error_name (UniqueViolation _) = Some ''PrismaClientKnownRequestError''"
| "error_name (RecordMissing _) = Some ''PrismaClientKnownRequestError''"
| "error_name WriteConflict = Some ''PrismaClientKnownRequestError''"
| "error_name (CheckViolation _) = Some ''PrismaClientUnknownRequestError''"
| "error_name (ValidationError _) = Some ''Error''"

fun error_code :: "error \<Rightarrow> string option" where
  "error_code (ClientError _ c) = c"
| "error_code _ = None"

definition storageErrorCode :: "error \<Rightarrow> string" where
  "storageErrorCode e =
     (case error_name e of
        Some n \<Rightarrow> take 64 n
      | None \<Rightarrow> (case error_code e of Some c \<Rightarrow> take 64 c | None \<Rightarrow> ''UNKNOWN_STORAGE_ERROR''))"

section \<open>Rows without an object\<close>

definition has_attachment :: "'x msg_db_scheme \<Rightarrow> message_row \<Rightarrow> bool" where
  "has_attachment s m \<longleftrightarrow> (\<exists>a \<in> set (attachments s). at_message a = m_id m)"

text \<open>DELETE on messages, with the cascades of the schema to envelopes, receipts and notifications.\<close>

definition delete_messages :: "(message_row \<Rightarrow> bool) \<Rightarrow> 'x msg_db_scheme \<Rightarrow> 'x msg_db_scheme" where
  "delete_messages P s =
     (let dead = m_id ` set (filter P (messages s)) in
      s\<lparr>messages := filter (\<lambda>m. \<not> P m) (messages s),
        envelopes := filter (\<lambda>en. en_message en \<notin> dead) (envelopes s),
        receipts := filter (\<lambda>r. re_message r \<notin> dead) (receipts s),
        notifications := filter (\<lambda>n. case n_message n of None \<Rightarrow> True | Some i \<Rightarrow> i \<notin> dead) (notifications s)\<rparr>)"

definition expired :: "time \<Rightarrow> time option \<Rightarrow> bool" where
  "expired now t \<longleftrightarrow> (case t of None \<Rightarrow> False | Some t \<Rightarrow> t \<le> now)"

definition purge_rows :: "time \<Rightarrow> 'x retention_db_scheme \<Rightarrow> 'x retention_db_scheme" where
  "purge_rows now s =
     (let s1 = delete_messages (\<lambda>m. m_expires m \<le> now \<and> \<not> has_attachment s m) s in
      s1\<lparr>notifications := filter (\<lambda>n. \<not> expired now (n_expires n)) (notifications s1),
         td_events := filter (\<lambda>v. \<not> ev_expires v \<le> now) (td_events s1),
         sync_batches := filter (\<lambda>b. \<not> sb_expires b \<le> now) (sync_batches s1),
         registrations := filter (\<lambda>r. \<not> (rg_consumed r = None \<and> rg_expires r \<le> now)) (registrations s1)\<rparr>)"

section \<open>Rows that name an object\<close>

definition retryable :: "time \<Rightarrow> time option \<Rightarrow> bool" where
  "retryable retry attempt \<longleftrightarrow> (case attempt of None \<Rightarrow> True | Some t \<Rightarrow> t \<le> retry)"

text \<open>
  The three purges share their shape: claim the row, delete the object, forget the row; an error of
  either of the last two is noted in the row.
\<close>

definition purge_object ::
    "'b deletion \<Rightarrow> ('s \<Rightarrow> nat \<times> 's) \<Rightarrow> string \<Rightarrow> ('s \<Rightarrow> error + 's) \<Rightarrow> (error \<Rightarrow> 's \<Rightarrow> 's) \<Rightarrow> 's \<times> 'b \<Rightarrow> 's \<times> 'b" where
  "purge_object del claim key forget note_failure = (\<lambda>(s, b).
     (case claim s of (claimed, s1) \<Rightarrow>
        if claimed \<noteq> 1 then (s1, b)
        else (case del key b of
            (Inl e, b') \<Rightarrow> (note_failure e s1, b')
          | (Inr _, b') \<Rightarrow>
              (case forget s1 of
                 Inl e \<Rightarrow> (note_failure e s1, b')
               | Inr s2 \<Rightarrow> (s2, b')))))"

definition message_expired :: "time \<Rightarrow> 'x msg_db_scheme \<Rightarrow> uuid \<Rightarrow> bool" where
  "message_expired now s i \<longleftrightarrow> (\<exists>m \<in> set (messages s). m_id m = i \<and> m_expires m \<le> now)"

definition claim_attachment :: "uuid \<Rightarrow> time \<Rightarrow> time \<Rightarrow> 'x msg_db_scheme \<Rightarrow> nat \<times> 'x msg_db_scheme" where
  "claim_attachment i now retry s =
     (let hit = (\<lambda>a. at_message a = i \<and> message_expired now s i \<and> retryable retry (at_purge_attempt a)) in
      (count_where hit (attachments s), s\<lparr>attachments := upd_where hit
        (\<lambda>a. a\<lparr>at_status := PurgePending, at_attempts := Suc (at_attempts a),
          at_purge_attempt := Some now, at_purge_error := None\<rparr>) (attachments s)\<rparr>))"

definition forget_attachment :: "uuid \<Rightarrow> string \<Rightarrow> time \<Rightarrow> 'x msg_db_scheme \<Rightarrow> error + 'x msg_db_scheme" where
  "forget_attachment i key now s =
     (let hit = (\<lambda>a. at_message a = i \<and> at_object_key a = key \<and> message_expired now s i);
          s1 = s\<lparr>attachments := filter (\<lambda>a. \<not> hit a) (attachments s)\<rparr>;
          dead = (\<lambda>m. m_id m = i \<and> m_expires m \<le> now)
      in if count_where hit (attachments s) \<noteq> 1 then Inr s1
         else if count_where dead (messages s1) \<noteq> 1 then Inl (InternalError ''ATTACHMENT_MESSAGE_PURGE_RACE'')
         else Inr (delete_messages dead s1))"

definition fail_attachment :: "uuid \<Rightarrow> time \<Rightarrow> error \<Rightarrow> 'x msg_db_scheme \<Rightarrow> 'x msg_db_scheme" where
  "fail_attachment i now e s = s\<lparr>attachments := upd_where (\<lambda>a. at_message a = i)
     (\<lambda>a. a\<lparr>at_status := PurgeFailed, at_purge_attempt := Some now,
       at_purge_error := Some (storageErrorCode e)\<rparr>) (attachments s)\<rparr>"

definition purgeAttachment ::
    "'b deletion \<Rightarrow> time \<Rightarrow> time \<Rightarrow> attachment_row \<Rightarrow> 'x retention_db_scheme \<times> 'b \<Rightarrow> 'x retention_db_scheme \<times> 'b" where
  "purgeAttachment del now retry a =
     purge_object del (claim_attachment (at_message a) now retry) (at_object_key a)
       (forget_attachment (at_message a) (at_object_key a) now) (fail_attachment (at_message a) now)"

definition claim_upload :: "string \<Rightarrow> time \<Rightarrow> time \<Rightarrow> 'x msg_db_scheme \<Rightarrow> nat \<times> 'x msg_db_scheme" where
  "claim_upload i now retry s =
     (let hit = (\<lambda>p. pu_id p = i \<and> pu_expires p \<le> now \<and> retryable retry (pu_purge_attempt p)) in
      (count_where hit (pending_uploads s), s\<lparr>pending_uploads := upd_where hit
        (\<lambda>p. p\<lparr>pu_attempts := Suc (pu_attempts p), pu_purge_attempt := Some now, pu_purge_error := None\<rparr>)
        (pending_uploads s)\<rparr>))"

definition forget_upload :: "string \<Rightarrow> 'x msg_db_scheme \<Rightarrow> error + 'x msg_db_scheme" where
  "forget_upload i s = Inr (s\<lparr>pending_uploads := filter (\<lambda>p. pu_id p \<noteq> i) (pending_uploads s)\<rparr>)"

definition fail_upload :: "string \<Rightarrow> time \<Rightarrow> error \<Rightarrow> 'x msg_db_scheme \<Rightarrow> 'x msg_db_scheme" where
  "fail_upload i now e s = s\<lparr>pending_uploads := upd_where (\<lambda>p. pu_id p = i)
     (\<lambda>p. p\<lparr>pu_purge_attempt := Some now, pu_purge_error := Some (storageErrorCode e)\<rparr>) (pending_uploads s)\<rparr>"

definition purgeAbandonedUpload ::
    "'b deletion \<Rightarrow> time \<Rightarrow> time \<Rightarrow> pending_upload \<Rightarrow> 'x retention_db_scheme \<times> 'b \<Rightarrow> 'x retention_db_scheme \<times> 'b" where
  "purgeAbandonedUpload del now retry p =
     purge_object del (claim_upload (pu_id p) now retry) (pu_object_key p) (forget_upload (pu_id p))
       (fail_upload (pu_id p) now)"

definition claim_evidence :: "string \<Rightarrow> time \<Rightarrow> time \<Rightarrow> 'x retention_db_scheme \<Rightarrow> nat \<times> 'x retention_db_scheme" where
  "claim_evidence i now retry s =
     (let hit = (\<lambda>p. eu_id p = i \<and> eu_expires p \<le> now \<and> retryable retry (eu_purge_attempt p)) in
      (count_where hit (evidence_uploads s), s\<lparr>evidence_uploads := upd_where hit
        (\<lambda>p. p\<lparr>eu_attempts := Suc (eu_attempts p), eu_purge_attempt := Some now, eu_purge_error := None\<rparr>)
        (evidence_uploads s)\<rparr>))"

definition forget_evidence :: "string \<Rightarrow> 'x retention_db_scheme \<Rightarrow> error + 'x retention_db_scheme" where
  "forget_evidence i s = Inr (s\<lparr>evidence_uploads := filter (\<lambda>p. eu_id p \<noteq> i) (evidence_uploads s)\<rparr>)"

definition fail_evidence :: "string \<Rightarrow> time \<Rightarrow> error \<Rightarrow> 'x retention_db_scheme \<Rightarrow> 'x retention_db_scheme" where
  "fail_evidence i now e s = s\<lparr>evidence_uploads := upd_where (\<lambda>p. eu_id p = i)
     (\<lambda>p. p\<lparr>eu_purge_attempt := Some now, eu_purge_error := Some (storageErrorCode e)\<rparr>) (evidence_uploads s)\<rparr>"

definition purgeAbandonedEvidence ::
    "'b deletion \<Rightarrow> time \<Rightarrow> time \<Rightarrow> evidence_upload \<Rightarrow> 'x retention_db_scheme \<times> 'b \<Rightarrow> 'x retention_db_scheme \<times> 'b" where
  "purgeAbandonedEvidence del now retry p =
     purge_object del (claim_evidence (eu_id p) now retry) (eu_object_key p) (forget_evidence (eu_id p))
       (fail_evidence (eu_id p) now)"

section \<open>A batch\<close>

text \<open>The rows to purge: those never tried first, then the least recently tried, at most 100.\<close>

definition abandoned_uploads :: "time \<Rightarrow> time \<Rightarrow> 'x msg_db_scheme \<Rightarrow> pending_upload list" where
  "abandoned_uploads now retry s = take BATCH_SIZE (sort_key pu_purge_attempt (sort_key pu_expires
     (filter (\<lambda>p. pu_expires p \<le> now \<and> retryable retry (pu_purge_attempt p)) (pending_uploads s))))"

definition abandoned_evidence :: "time \<Rightarrow> time \<Rightarrow> 'x retention_db_scheme \<Rightarrow> evidence_upload list" where
  "abandoned_evidence now retry s = take BATCH_SIZE (sort_key eu_purge_attempt (sort_key eu_expires
     (filter (\<lambda>p. eu_expires p \<le> now \<and> retryable retry (eu_purge_attempt p)) (evidence_uploads s))))"

definition expired_images :: "time \<Rightarrow> time \<Rightarrow> 'x msg_db_scheme \<Rightarrow> attachment_row list" where
  "expired_images now retry s = take BATCH_SIZE (sort_key at_purge_attempt (sort_key at_created
     (filter (\<lambda>a. message_expired now s (at_message a) \<and> retryable retry (at_purge_attempt a)) (attachments s))))"

text \<open>
  Five workers take the items in their order; this is the run in which each ends before the next
  begins.  The other interleavings are those of the step relation in RetentionSteps.
\<close>

definition runConcurrently :: "('i \<Rightarrow> 'w \<Rightarrow> 'w) \<Rightarrow> 'i list \<Rightarrow> 'w \<Rightarrow> 'w" where
  "runConcurrently operation items = fold operation items"

text \<open>\<open>running\<close> is the flag of a batch that has not ended.\<close>

definition runBatch ::
    "'b deletion \<Rightarrow> time \<Rightarrow> bool \<Rightarrow> 'x retention_db_scheme \<times> 'b \<Rightarrow> 'x retention_db_scheme \<times> 'b" where
  "runBatch del now running w =
     (if running then w
      else
        let retry = now - RETRY_DELAY_MS;
            w1 = (purge_rows now (fst w), snd w);
            w2 = runConcurrently (purgeAbandonedUpload del now retry) (abandoned_uploads now retry (fst w1)) w1;
            w3 = runConcurrently (purgeAbandonedEvidence del now retry) (abandoned_evidence now retry (fst w2)) w2
        in runConcurrently (purgeAttachment del now retry) (expired_images now retry (fst w3)) w3)"

datatype lag_report = NoLag | LagWarning time | LagBreach time

definition reportRetentionLag :: "time \<Rightarrow> 'x retention_db_scheme \<Rightarrow> lag_report" where
  "reportRetentionLag now s =
     (case filter (\<lambda>t. t \<le> now) (map m_expires (messages s) @ map ev_expires (td_events s)) of
        [] \<Rightarrow> NoLag
      | t # ts \<Rightarrow>
          let lag = now - foldl min t ts in
          if 5 * 60000 < lag then LagBreach lag else if 60000 < lag then LagWarning lag else NoLag)"

text \<open>
  The start of the worker: the interval of its timer, or none.  \<open>to_integer\<close> is the coercion of a text
  to an integer, None where the result is no integer.
\<close>

definition onModuleInit ::
    "(string \<Rightarrow> int option) \<Rightarrow> error + unit \<Rightarrow> string option \<Rightarrow> string option \<Rightarrow> string option \<Rightarrow> error + int option" where
  "onModuleInit to_integer storage_check node_env enabled interval =
     (case storage_check of
        Inl e \<Rightarrow> Inl e
      | Inr _ \<Rightarrow>
          if node_env = Some ''test'' then Inr None
          else if enabled = Some ''false''
          then (if node_env = Some ''production''
                then Inl (InternalError ''RETENTION_WORKER_ENABLED no puede desactivarse en produccion.'')
                else Inr None)
          else (case (case interval of None \<Rightarrow> Some 30000 | Some t \<Rightarrow> to_integer t) of
              None \<Rightarrow> Inl (InternalError ''RETENTION_WORKER_INTERVAL_MS debe estar entre 5000 y 60000.'')
            | Some n \<Rightarrow>
                if n < 5000 \<or> 60000 < n
                then Inl (InternalError ''RETENTION_WORKER_INTERVAL_MS debe estar entre 5000 y 60000.'')
                else Inr (Some n)))"

end
