(* ===== verification/RetentionSteps.thy ===== *)
theory RetentionSteps
  imports Retention MessageClaims
begin

text \<open>
  The purges as steps that interleave with each other, with the requests of the message service and
  with the end of the process at any point.  A job is the purge of one row, from its selection by a
  batch to its end.  The invariant says that the object of a job is nobody's photo any more once its
  row is claimed, and that every object a permission was granted for has a row until it is deleted.
\<close>

section \<open>Deleting messages\<close>

lemma delete_messages_simps [simp]:
  "messages (delete_messages P s) = filter (\<lambda>m. \<not> P m) (messages s)"
  "attachments (delete_messages P s) = attachments s" "pending_uploads (delete_messages P s) = pending_uploads s"
  "draws (delete_messages P s) = draws s" "message_sequence (delete_messages P s) = message_sequence s"
  "envelopes (delete_messages P s) = filter (\<lambda>en. en_message en \<notin> m_id ` {m \<in> set (messages s). P m}) (envelopes s)"
  "receipts (delete_messages P s) = filter (\<lambda>r. re_message r \<notin> m_id ` {m \<in> set (messages s). P m}) (receipts s)"
  by (simp_all add: delete_messages_def Let_def)

lemma sorted_wrt_map_filter: "sorted_wrt R (map f xs) \<Longrightarrow> sorted_wrt R (map f (filter P xs))"
  by (induction xs) auto

lemma distinct_map_filtered: "distinct (map f xs) \<Longrightarrow> distinct (map f (filter P xs))"
  by (induction xs) auto

text \<open>Messages go with their envelopes, receipts and attachments.\<close>

lemma drop_messages_inv:
  assumes "message_inv e s" "messages s' = filter (\<lambda>m. \<not> P m) (messages s)"
    "envelopes s' = filter (\<lambda>en. en_message en \<notin> m_id ` {m \<in> set (messages s). P m}) (envelopes s)"
    "receipts s' = filter (\<lambda>r. re_message r \<notin> m_id ` {m \<in> set (messages s). P m}) (receipts s)"
    "attachments s' = filter (\<lambda>a. at_message a \<notin> m_id ` {m \<in> set (messages s). P m}) (attachments s)"
    "draws s' = draws s" "message_sequence s' = message_sequence s"
  shows "message_inv e s'"
proof -
  let ?dead = "m_id ` {m \<in> set (messages s). P m}"
  have ok: "message_keys_ok s" "message_links_ok s" "message_rows_ok s" "supply_ok e (draws s) (message_ids s)"
    using assms(1) by (simp_all add: message_inv_def)
  have live: "m_id m \<notin> ?dead" if "m \<in> set (messages s)" "\<not> P m" for m
    using that distinct_key_eq [of m_id "messages s" m] ok(1) unfolding message_keys_ok_def by blast
  have ids: "message_ids s' = message_ids s - ?dead"
    using live unfolding message_ids_def assms(2) by auto
  have "message_keys_ok s'"
    using ok(1) unfolding message_keys_ok_def assms(2,3,7)
    by (auto intro: sorted_wrt_map_filter distinct_map_filtered)
  moreover have "message_links_ok s'"
    using ok(2) unfolding message_links_ok_def assms(3-5) ids by auto
  moreover have "count_where (\<lambda>a. at_message a = m_id m) (attachments s') = count_where (\<lambda>a. at_message a = m_id m) (attachments s)"
    if "m \<in> set (messages s')" for m
  proof -
    have "m_id m \<notin> ?dead" using that live unfolding assms(2) by simp
    then have "(at_message a \<notin> ?dead \<and> at_message a = m_id m) = (at_message a = m_id m)" for a :: attachment_row by metis
    then show ?thesis unfolding assms(5) count_where_def filter_filter by (simp only:)
  qed
  then have "message_rows_ok s'"
    using ok(3) unfolding message_rows_ok_def assms(2,4) by auto
  moreover have "supply_ok e (draws s') (message_ids s')"
    using ok(4) unfolding assms(6) ids by (rule supply_ok_cong) auto
  ultimately show ?thesis by (simp add: message_inv_def)
qed

lemma one_attachment:
  assumes "message_inv e s"
  shows "count_where (\<lambda>a. at_message a = i) (attachments s) \<le> 1"
proof (cases "i \<in> message_ids s")
  case True
  then obtain m where "m \<in> set (messages s)" "m_id m = i" by (auto simp: message_ids_def)
  moreover have "\<forall>m \<in> set (messages s). count_where (\<lambda>a. at_message a = m_id m) (attachments s) =
      (if m_kind m = IMAGE then 1 else 0)" using assms unfolding message_inv_def message_rows_ok_def by blast
  ultimately show ?thesis by auto
next
  case False
  then have "\<forall>a \<in> set (attachments s). at_message a \<noteq> i"
    using assms unfolding message_inv_def message_links_ok_def by blast
  then show ?thesis by (simp add: count_where_0_iff [THEN iffD2])
qed

lemma attachment_unique:
  assumes "message_inv e s" "a \<in> set (attachments s)" "b \<in> set (attachments s)" "at_message a = at_message b"
  shows "a = b"
  using count_where_unique [OF one_attachment [OF assms(1)] assms(2,3) assms(4) refl] .

lemma purge_rows_inv:
  assumes "message_inv e s"
  shows "message_inv e (purge_rows now s)"
proof -
  let ?P = "\<lambda>m. m_expires m \<le> now \<and> \<not> has_attachment s m"
  have "attachments s = filter (\<lambda>a. at_message a \<notin> m_id ` {m \<in> set (messages s). ?P m}) (attachments s)"
    by (auto simp: has_attachment_def intro!: filter_True [symmetric])
  then show ?thesis
    by (intro drop_messages_inv [OF assms, where P = ?P]) (simp_all add: purge_rows_def Let_def)
qed

lemma forget_attachment_cases:
  assumes "forget_attachment i key now s = Inr s'" "message_inv e s"
  obtains "s' = s" | "message_expired now s i" "messages s' = filter (\<lambda>m. m_id m \<noteq> i) (messages s)"
    "envelopes s' = filter (\<lambda>en. en_message en \<noteq> i) (envelopes s)"
    "receipts s' = filter (\<lambda>r. re_message r \<noteq> i) (receipts s)"
    "attachments s' = filter (\<lambda>a. at_message a \<noteq> i) (attachments s)"
    "\<forall>a \<in> set (attachments s). at_message a = i \<longrightarrow> at_object_key a = key"
    "pending_uploads s' = pending_uploads s" "draws s' = draws s" "message_sequence s' = message_sequence s"
proof -
  let ?hit = "\<lambda>a. at_message a = i \<and> at_object_key a = key \<and> message_expired now s i"
  show thesis
  proof (cases "\<exists>a \<in> set (attachments s). ?hit a")
    case False
    then have "filter (\<lambda>a. \<not> ?hit a) (attachments s) = attachments s" "count_where ?hit (attachments s) \<noteq> 1"
      by (auto simp: count_where_def filter_True filter_empty_conv)
    with assms(1) have "s' = s" by (auto simp: forget_attachment_def Let_def)
    then show thesis by (rule that(1))
  next
    case True
    then obtain a where a: "a \<in> set (attachments s)" "?hit a" by blast
    have same: "?hit b \<longleftrightarrow> at_message b = i" if "b \<in> set (attachments s)" for b
    proof
      assume "at_message b = i"
      then have "b = a" using attachment_unique [OF assms(2) a(1) that] a(2) by simp
      then show "?hit b" using a(2) by simp
    qed simp
    have "count_where ?hit (attachments s) = count_where (\<lambda>b. at_message b = i) (attachments s)"
      using same by (rule count_where_cong)
    moreover have "count_where ?hit (attachments s) \<noteq> 0" using a unfolding count_where_0_iff by blast
    ultimately have one: "count_where ?hit (attachments s) = 1" using one_attachment [OF assms(2), of i] by linarith
    obtain m where m: "m \<in> set (messages s)" "m_id m = i" "m_expires m \<le> now"
      using a(2) by (auto simp: message_expired_def)
    have gone: "filter (\<lambda>b. \<not> ?hit b) (attachments s) = filter (\<lambda>b. at_message b \<noteq> i) (attachments s)"
      using same by (intro filter_cong) auto
    have dead: "m_id n = i \<and> m_expires n \<le> now \<longleftrightarrow> m_id n = i" if "n \<in> set (messages s)" for n
    proof -
      have "distinct (map m_id (messages s))" using assms(2) by (simp add: message_inv_def message_keys_ok_def)
      then have "m_id n = i \<Longrightarrow> n = m" using distinct_key_eq [of m_id, OF _ that m(1)] m(2) by simp
      then show ?thesis using m(3) by blast
    qed
    have ids: "m_id ` {n \<in> set (messages s). m_id n = i \<and> m_expires n \<le> now} = {i}" using dead m by auto
    have "filter (\<lambda>n. \<not> (m_id n = i \<and> m_expires n \<le> now)) (messages s) = filter (\<lambda>n. m_id n \<noteq> i) (messages s)"
      using dead by (intro filter_cong) auto
    note simps = one gone this ids
    have "s' = delete_messages (\<lambda>n. m_id n = i \<and> m_expires n \<le> now)
        (s\<lparr>attachments := filter (\<lambda>b. at_message b \<noteq> i) (attachments s)\<rparr>)"
      using assms(1) one gone unfolding forget_attachment_def Let_def by (simp split: if_splits)
    with simps a(2) same show thesis by (intro that(2)) auto
  qed
qed

section \<open>Jobs and worlds\<close>

datatype purge_target = UploadObject string | EvidenceObject string | PhotoObject uuid
datatype purge_phase = Selected | Claimed | Removed | Failed error

record job =
  jb_target :: purge_target
  jb_key :: string
  jb_now :: time
  jb_retry :: time
  jb_phase :: purge_phase

text \<open>
  The world: the database, the bucket, a lower bound of the clock of PostgreSQL, the jobs, and the
  histories: the keys whose deletion was ever begun, those whose deletion succeeded, those a
  permission to upload was granted for, and these again, each with the end of its reservation.
\<close>

record 'b world =
  w_db :: retention_db
  w_bucket :: 'b
  w_clock :: time
  w_jobs :: "job list"
  w_tried :: "string set"
  w_gone :: "string set"
  w_granted :: "string set"
  w_urls :: "(string \<times> time) set"

fun claim_target :: "job \<Rightarrow> retention_db \<Rightarrow> nat \<times> retention_db" where
  "claim_target j s = (case jb_target j of
     UploadObject i \<Rightarrow> claim_upload i (jb_now j) (jb_retry j) s
   | EvidenceObject i \<Rightarrow> claim_evidence i (jb_now j) (jb_retry j) s
   | PhotoObject m \<Rightarrow> claim_attachment m (jb_now j) (jb_retry j) s)"

fun forget_target :: "job \<Rightarrow> retention_db \<Rightarrow> error + retention_db" where
  "forget_target j s = (case jb_target j of
     UploadObject i \<Rightarrow> forget_upload i s
   | EvidenceObject i \<Rightarrow> forget_evidence i s
   | PhotoObject m \<Rightarrow> forget_attachment m (jb_key j) (jb_now j) s)"

fun fail_target :: "job \<Rightarrow> error \<Rightarrow> retention_db \<Rightarrow> retention_db" where
  "fail_target j e s = (case jb_target j of
     UploadObject i \<Rightarrow> fail_upload i (jb_now j) e s
   | EvidenceObject i \<Rightarrow> fail_evidence i (jb_now j) e s
   | PhotoObject m \<Rightarrow> fail_attachment m (jb_now j) e s)"

text \<open>The row a job is for, when a batch reads it.\<close>

definition selects :: "retention_db \<Rightarrow> job \<Rightarrow> bool" where
  "selects s j \<longleftrightarrow> jb_phase j = Selected \<and> (case jb_target j of
     UploadObject i \<Rightarrow> \<exists>p \<in> set (pending_uploads s). pu_id p = i \<and> pu_object_key p = jb_key j
   | EvidenceObject i \<Rightarrow> \<exists>p \<in> set (evidence_uploads s). eu_id p = i \<and> eu_object_key p = jb_key j
   | PhotoObject m \<Rightarrow> \<exists>a \<in> set (attachments s). at_message a = m \<and> at_object_key a = jb_key j)"

definition photo_prefix :: string where
  "photo_prefix = ''ephemeral/messages/''"

definition photo_name :: "string \<Rightarrow> bool" where
  "photo_name k \<longleftrightarrow> take (length photo_prefix) k = photo_prefix"

text \<open>What other requests may do: nothing to messages, photos and reservations; evidence has other keys.\<close>

definition same_objects :: "retention_db \<Rightarrow> retention_db \<Rightarrow> bool" where
  "same_objects s s' \<longleftrightarrow> same_messages s s' \<and> pending_uploads s' = pending_uploads s \<and>
     (\<forall>u \<in> set (evidence_uploads s'). \<not> photo_name (eu_object_key u))"

definition next_job :: "job \<Rightarrow> purge_phase \<Rightarrow> 'b world \<Rightarrow> 'b world" where
  "next_job j p w = w\<lparr>w_jobs := j\<lparr>jb_phase := p\<rparr> # remove1 j (w_jobs w)\<rparr>"

definition end_job :: "job \<Rightarrow> 'b world \<Rightarrow> 'b world" where
  "end_job j w = w\<lparr>w_jobs := remove1 j (w_jobs w)\<rparr>"

text \<open>A key is live while a message may still be sent with it, or one that has not expired was.\<close>

definition live_key :: "time \<Rightarrow> 'x msg_db_scheme \<Rightarrow> string \<Rightarrow> bool" where
  "live_key now s k \<longleftrightarrow> (\<exists>p \<in> set (pending_uploads s). pu_object_key p = k \<and> pu_purge_attempt p = None) \<or>
     (\<exists>a \<in> set (attachments s). at_object_key a = k \<and> (\<exists>m \<in> set (messages s). m_id m = at_message a \<and> now < m_expires m))"

text \<open>
  An upload lands only with a URL that was handed out and has not run out.  The URL is signed for five
  minutes, its reservation ends ten minutes after the same reading of the clock, and S3 refuses a URL
  that ran out: the clock is still before the end of the reservation, as long as the clocks of API,
  bucket and database differ by less than the other five minutes.  In the same way a message is created
  no two days before the end of an open reservation, which is ten minutes after it was made.
\<close>

definition url_open :: "'b world \<Rightarrow> string \<Rightarrow> bool" where
  "url_open w k \<longleftrightarrow> (\<exists>t. (k, t) \<in> w_urls w \<and> w_clock w < t)"

definition timely :: "('b \<Rightarrow> (string \<times> string) set) \<Rightarrow> 'b world \<Rightarrow> 'b \<Rightarrow> bool" where
  "timely contents w b \<longleftrightarrow> (\<forall>x \<in> contents b - contents (w_bucket w). photo_name (fst x) \<longrightarrow> url_open w (fst x))"

definition reservation_urls :: "retention_db \<Rightarrow> retention_db \<Rightarrow> (string \<times> time) set" where
  "reservation_urls s s' = (\<lambda>p. (pu_object_key p, pu_expires p)) ` (set (pending_uploads s') - set (pending_uploads s))"

inductive purge_step ::
    "env \<Rightarrow> 'b deletion \<Rightarrow> ('b \<Rightarrow> (string \<times> string) set) \<Rightarrow> 'b world \<Rightarrow> 'b world \<Rightarrow> bool"
    for e del contents where
  tick: "w_clock w \<le> t \<Longrightarrow> purge_step e del contents w (w\<lparr>w_clock := t\<rparr>)"
| uploaded: "contents (w_bucket w) \<subseteq> contents b \<Longrightarrow> timely contents w b \<Longrightarrow> purge_step e del contents w (w\<lparr>w_bucket := b\<rparr>)"
| elsewhere: "same_objects (w_db w) s \<Longrightarrow> purge_step e del contents w (w\<lparr>w_db := s\<rparr>)"
| sent: "store_message e at i conv inp grant (w_db w) = Inr (m, s) \<Longrightarrow> (grant = None) = (mi_kind inp = TEXT) \<Longrightarrow>
    \<forall>p \<in> set (pending_uploads (w_db w)). pu_expires p \<le> sk_created at + MESSAGE_TTL_MS \<Longrightarrow>
    purge_step e del contents w (w\<lparr>w_db := s\<rparr>)"
| received: "updateReceipt now now' i message read (w_db w) = Inr (res, s) \<Longrightarrow>
    purge_step e del contents w (w\<lparr>w_db := s\<rparr>)"
| requested: "requestUpload st cfg e at' i conv q (w_db w) = (r, s) \<Longrightarrow>
    purge_step e del contents w (w\<lparr>w_db := s, w_granted := w_granted w \<union> pu_object_key ` set (pending_uploads s),
      w_urls := w_urls w \<union> reservation_urls (w_db w) s\<rparr>)"
| rows: "now \<le> w_clock w \<Longrightarrow> purge_step e del contents w (w\<lparr>w_db := purge_rows now (w_db w)\<rparr>)"
| select: "selects (w_db w) j \<Longrightarrow> jb_now j \<le> w_clock w \<Longrightarrow>
    purge_step e del contents w (w\<lparr>w_jobs := j # w_jobs w\<rparr>)"
| claim: "j \<in> set (w_jobs w) \<Longrightarrow> jb_phase j = Selected \<Longrightarrow> claim_target j (w_db w) = (1, s) \<Longrightarrow>
    purge_step e del contents w (next_job j Claimed (w\<lparr>w_db := s\<rparr>))"
| skip: "j \<in> set (w_jobs w) \<Longrightarrow> jb_phase j = Selected \<Longrightarrow> claim_target j (w_db w) = (n, s) \<Longrightarrow> n \<noteq> 1 \<Longrightarrow>
    purge_step e del contents w (end_job j (w\<lparr>w_db := s\<rparr>))"
| remove: "j \<in> set (w_jobs w) \<Longrightarrow> jb_phase j = Claimed \<Longrightarrow> del (jb_key j) (w_bucket w) = (Inr u, b) \<Longrightarrow>
    purge_step e del contents w (next_job j Removed (w\<lparr>w_bucket := b, w_tried := insert (jb_key j) (w_tried w),
      w_gone := insert (jb_key j) (w_gone w)\<rparr>))"
| remove_failed: "j \<in> set (w_jobs w) \<Longrightarrow> jb_phase j = Claimed \<Longrightarrow> del (jb_key j) (w_bucket w) = (Inl er, b) \<Longrightarrow>
    purge_step e del contents w (next_job j (Failed er) (w\<lparr>w_bucket := b, w_tried := insert (jb_key j) (w_tried w)\<rparr>))"
| forget: "j \<in> set (w_jobs w) \<Longrightarrow> jb_phase j = Removed \<Longrightarrow> forget_target j (w_db w) = Inr s \<Longrightarrow>
    purge_step e del contents w (end_job j (w\<lparr>w_db := s\<rparr>))"
| forget_failed: "j \<in> set (w_jobs w) \<Longrightarrow> jb_phase j = Removed \<Longrightarrow> forget_target j (w_db w) = Inl er \<Longrightarrow>
    purge_step e del contents w (next_job j (Failed er) w)"
| failed: "j \<in> set (w_jobs w) \<Longrightarrow> jb_phase j = Failed er \<Longrightarrow>
    purge_step e del contents w (end_job j (w\<lparr>w_db := fail_target j er (w_db w)\<rparr>))"
| lost: "j \<in> set (w_jobs w) \<Longrightarrow> purge_step e del contents w (end_job j w)"

inductive_cases purge_stepE: "purge_step e del contents w w'"

section \<open>The invariant\<close>

definition photo_key :: "env \<Rightarrow> nat \<Rightarrow> string" where
  "photo_key e i = photo_prefix @ uuid_text (uuid_at e i)"

definition object_keys :: "'x msg_db_scheme \<Rightarrow> string set" where
  "object_keys s = pu_object_key ` set (pending_uploads s) \<union> at_object_key ` set (attachments s)"

definition objects_ok :: "retention_db \<Rightarrow> bool" where
  "objects_ok s \<longleftrightarrow>
     (\<forall>p \<in> set (pending_uploads s). photo_prefix @ pu_id p = pu_object_key p) \<and> distinct (map pu_id (pending_uploads s)) \<and>
     (\<forall>a \<in> set (attachments s). photo_name (at_object_key a)) \<and> distinct (map at_object_key (attachments s)) \<and>
     (\<forall>p \<in> set (pending_uploads s). \<forall>a \<in> set (attachments s). pu_object_key p \<noteq> at_object_key a) \<and>
     (\<forall>u \<in> set (evidence_uploads s). \<not> photo_name (eu_object_key u))"

lemma objects_ok_cong:
  "\<lbrakk>objects_ok s; pending_uploads s' = pending_uploads s; attachments s' = attachments s;
    evidence_uploads s' = evidence_uploads s\<rbrakk> \<Longrightarrow> objects_ok s'"
  unfolding objects_ok_def by simp

lemma objects_ok_names: "objects_ok s \<Longrightarrow> k \<in> object_keys s \<Longrightarrow> photo_name k"
proof -
  assume ok: "objects_ok s" and k: "k \<in> object_keys s"
  have "photo_name (pu_object_key p)" if "p \<in> set (pending_uploads s)" for p
  proof -
    have "pu_object_key p = photo_prefix @ pu_id p" using ok that unfolding objects_ok_def by simp
    then show ?thesis by (simp add: photo_name_def)
  qed
  moreover have "photo_name (at_object_key a)" if "a \<in> set (attachments s)" for a
    using ok that unfolding objects_ok_def by blast
  ultimately show ?thesis using k unfolding object_keys_def by blast
qed

lemma live_keyE:
  assumes "live_key now s k"
  obtains p where "p \<in> set (pending_uploads s)" "pu_object_key p = k" "pu_purge_attempt p = None"
  | a m where "a \<in> set (attachments s)" "at_object_key a = k" "m \<in> set (messages s)" "m_id m = at_message a" "now < m_expires m"
  using assms unfolding live_key_def by blast

lemma live_key_pending:
  "p \<in> set (pending_uploads s) \<Longrightarrow> pu_object_key p = k \<Longrightarrow> pu_purge_attempt p = None \<Longrightarrow> live_key now s k"
  unfolding live_key_def by blast

lemma live_key_object: "live_key now s k \<Longrightarrow> k \<in> object_keys s"
  unfolding live_key_def object_keys_def by (metis UnI1 UnI2 imageI)

definition job_ok :: "env \<Rightarrow> retention_db \<Rightarrow> job \<Rightarrow> bool" where
  "job_ok e s j \<longleftrightarrow> (case jb_target j of
     UploadObject i \<Rightarrow> jb_key j = photo_prefix @ i
   | EvidenceObject i \<Rightarrow> \<not> photo_name (jb_key j)
   | PhotoObject m \<Rightarrow> supply_ok e (draws s) {m} \<and> jb_key j \<notin> pu_object_key ` set (pending_uploads s) \<and>
       (\<forall>a \<in> set (attachments s). at_message a = m \<longleftrightarrow> at_object_key a = jb_key j))"

definition committed_keys :: "'b world \<Rightarrow> string set" where
  "committed_keys w = w_tried w \<union> jb_key ` {j \<in> set (w_jobs w). jb_phase j \<noteq> Selected}"

definition known_keys :: "'b world \<Rightarrow> string set" where
  "known_keys w = object_keys (w_db w) \<union> w_tried w \<union> jb_key ` set (w_jobs w)"

definition purge_inv :: "env \<Rightarrow> nat \<Rightarrow> 'b world \<Rightarrow> bool" where
  "purge_inv e n w \<longleftrightarrow> draws (w_db w) \<le> n \<and> message_inv e (w_db w) \<and> objects_ok (w_db w) \<and>
     (\<forall>i < n. uuid_at e i < 16 ^ 32) \<and> (\<forall>i \<in> {draws (w_db w)..<n}. photo_key e i \<notin> known_keys w) \<and>
     (\<forall>j \<in> set (w_jobs w). job_ok e (w_db w) j \<and> jb_now j \<le> w_clock w) \<and>
     (\<forall>k \<in> committed_keys w. \<not> live_key (w_clock w) (w_db w) k) \<and>
     w_granted w \<subseteq> object_keys (w_db w) \<union> w_gone w \<and>
     (\<forall>j \<in> set (w_jobs w). jb_phase j = Removed \<longrightarrow> jb_key j \<in> w_gone w)"

section \<open>Changes of the tables\<close>

text \<open>
  What a step may do to the objects: new keys and messages take identifiers that were not drawn
  before, a photo is kept or takes the key of a reservation, and no key comes to life again.
\<close>

definition drawn_keys :: "env \<Rightarrow> retention_db \<Rightarrow> retention_db \<Rightarrow> string set" where
  "drawn_keys e s s' = photo_key e ` {draws s..<draws s'}"

definition object_change :: "env \<Rightarrow> retention_db \<Rightarrow> retention_db \<Rightarrow> bool" where
  "object_change e s s' \<longleftrightarrow> draws s \<le> draws s' \<and>
     pu_object_key ` set (pending_uploads s') \<subseteq> pu_object_key ` set (pending_uploads s) \<union> drawn_keys e s s' \<and>
     (\<forall>a' \<in> set (attachments s').
        (\<exists>a \<in> set (attachments s). at_message a = at_message a' \<and> at_object_key a = at_object_key a') \<or>
        at_object_key a' \<in> pu_object_key ` set (pending_uploads s) \<and> at_message a' \<in> uuid_at e ` {draws s..<draws s'}) \<and>
     (\<forall>now k. live_key now s' k \<longrightarrow> live_key now s k \<or> k \<in> drawn_keys e s s')"

lemma photo_key_inj:
  assumes "supply_ok e k X" "\<forall>i < n. uuid_at e i < 16 ^ 32" "photo_key e i = photo_key e j" "i < n" "j < n"
  shows "i = j"
proof -
  have "uuid_text (uuid_at e i) = uuid_text (uuid_at e j)" using assms(3) by (simp add: photo_key_def)
  then have "uuid_at e i = uuid_at e j" using assms(2,4,5) by (intro uuid_text_inj) simp_all
  then show ?thesis using assms(1) by (simp add: supply_ok_def)
qed

lemma change_keeps_job:
  assumes "object_change e s s'" "job_ok e s j" "\<forall>i \<in> {draws s..<n}. photo_key e i \<noteq> jb_key j" "draws s' \<le> n"
  shows "job_ok e s' j"
proof (cases "jb_target j")
  case (PhotoObject m)
  with assms(2) have ok: "supply_ok e (draws s) {m}" "jb_key j \<notin> pu_object_key ` set (pending_uploads s)"
    "\<forall>a \<in> set (attachments s). at_message a = m \<longleftrightarrow> at_object_key a = jb_key j" by (simp_all add: job_ok_def)
  have "jb_key j \<notin> drawn_keys e s s'" using assms(3,4) by (auto simp: drawn_keys_def)
  then have key: "jb_key j \<notin> pu_object_key ` set (pending_uploads s')"
    using assms(1) ok(2) by (auto simp: object_change_def)
  have "at_message a' = m \<longleftrightarrow> at_object_key a' = jb_key j" if "a' \<in> set (attachments s')" for a'
  proof (cases "\<exists>a \<in> set (attachments s). at_message a = at_message a' \<and> at_object_key a = at_object_key a'")
    case True
    then show ?thesis using ok(3) by metis
  next
    case False
    with assms(1) that have "at_object_key a' \<in> pu_object_key ` set (pending_uploads s)"
      "at_message a' \<in> uuid_at e ` {draws s..<draws s'}" unfolding object_change_def by blast+
    moreover from this(2) have "at_message a' \<noteq> m" using supply_ok_fresh [OF ok(1)] by (metis atLeastLessThan_iff imageE insertCI)
    ultimately show ?thesis using ok(2) by metis
  qed
  moreover have "supply_ok e (draws s') {m}" using ok(1) assms(1) by (auto simp: object_change_def intro: supply_ok_mono)
  ultimately show ?thesis using PhotoObject key by (simp add: job_ok_def)
qed (use assms(2) in \<open>simp_all add: job_ok_def\<close>)

lemma known_job: "j \<in> set (w_jobs w) \<Longrightarrow> jb_key j \<in> known_keys w"
  by (simp add: known_keys_def)

text \<open>A change of the tables keeps the invariant of the world.\<close>

lemma change_keeps_inv:
  assumes "purge_inv e n w" "object_change e (w_db w) s" "message_inv e s" "objects_ok s"
    "g \<subseteq> object_keys s \<union> w_gone w" "draws s \<le> n"
  shows "purge_inv e n (w\<lparr>w_db := s, w_granted := g\<rparr>)"
proof -
  have inv: "message_inv e (w_db w)" "\<forall>i < n. uuid_at e i < 16 ^ 32" "\<forall>i \<in> {draws (w_db w)..<n}. photo_key e i \<notin> known_keys w"
    "\<forall>j \<in> set (w_jobs w). job_ok e (w_db w) j \<and> jb_now j \<le> w_clock w"
    "\<forall>k \<in> committed_keys w. \<not> live_key (w_clock w) (w_db w) k"
    "\<forall>j \<in> set (w_jobs w). jb_phase j = Removed \<longrightarrow> jb_key j \<in> w_gone w"
    using assms(1) by (simp_all add: purge_inv_def)
  have sup: "supply_ok e (draws (w_db w)) (message_ids (w_db w))" using inv(1) by (simp add: message_inv_def)
  let ?w = "w\<lparr>w_db := s, w_granted := g\<rparr>"
  have le: "draws (w_db w) \<le> draws s" using assms(2) by (simp add: object_change_def)
  have keys: "object_keys s \<subseteq> object_keys (w_db w) \<union> drawn_keys e (w_db w) s"
  proof -
    have "at_object_key a \<in> object_keys (w_db w)" if a: "a \<in> set (attachments s)" for a
    proof -
      have "(\<exists>b \<in> set (attachments (w_db w)). at_object_key b = at_object_key a) \<or>
          at_object_key a \<in> pu_object_key ` set (pending_uploads (w_db w))"
        using assms(2) a unfolding object_change_def by blast
      then show ?thesis unfolding object_keys_def by (metis UnI1 UnI2 imageI)
    qed
    then show ?thesis using assms(2) unfolding object_change_def object_keys_def by blast
  qed
  have drawn: "photo_key e i \<notin> drawn_keys e (w_db w) s" if "draws s \<le> i" "i < n" for i
  proof
    assume "photo_key e i \<in> drawn_keys e (w_db w) s"
    then obtain j where "j < draws s" "photo_key e i = photo_key e j" by (auto simp: drawn_keys_def)
    with photo_key_inj [OF sup inv(2), of i j] that show False by simp
  qed
  have fresh: "\<forall>i \<in> {draws s..<n}. photo_key e i \<notin> known_keys ?w"
  proof
    fix i assume i: "i \<in> {draws s..<n}"
    then have "photo_key e i \<notin> known_keys w" using inv(3) le by simp
    moreover have "photo_key e i \<notin> drawn_keys e (w_db w) s" using drawn i by simp
    ultimately show "photo_key e i \<notin> known_keys ?w" using keys by (auto simp: known_keys_def)
  qed
  have job: "\<forall>j \<in> set (w_jobs w). job_ok e s j"
  proof
    fix j assume j: "j \<in> set (w_jobs w)"
    have new: "photo_key e i \<noteq> jb_key j" if "i \<in> {draws (w_db w)..<n}" for i
    proof -
      have "photo_key e i \<notin> known_keys w" using inv(3) that by blast
      then show ?thesis using known_job [OF j] by auto
    qed
    have "job_ok e (w_db w) j" using inv(4) j by blast
    then show "job_ok e s j" by (rule change_keeps_job [OF assms(2)]) (use new assms(6) in blast)+
  qed
  have dead: "\<not> live_key (w_clock w) s k" if k: "k \<in> committed_keys w" for k
  proof -
    have "k \<in> known_keys w" using k by (auto simp: committed_keys_def known_keys_def)
    then have "k \<notin> drawn_keys e (w_db w) s" using inv(3) assms(6) by (auto simp: drawn_keys_def)
    then show ?thesis using assms(2) inv(5) k unfolding object_change_def by blast
  qed
  have "committed_keys ?w = committed_keys w" by (simp add: committed_keys_def)
  then show ?thesis using assms(3-6) inv(2,4,6) fresh job dead by (simp add: purge_inv_def)
qed

text \<open>Rows are dropped or marked, but keep their identity.\<close>

lemma shrink_change:
  assumes "pending_uploads s' = map f (filter P (pending_uploads s))"
    "\<And>p. pu_id (f p) = pu_id p \<and> pu_object_key (f p) = pu_object_key p \<and>
      (pu_purge_attempt (f p) = None \<longrightarrow> pu_purge_attempt p = None)"
    "attachments s' = map g (filter Q (attachments s))"
    "\<And>a. at_message (g a) = at_message a \<and> at_object_key (g a) = at_object_key a"
    "set (messages s') \<subseteq> set (messages s)" "draws s' = draws s"
  shows "object_change e s s'"
    and "objects_ok s \<Longrightarrow> \<forall>u \<in> set (evidence_uploads s'). \<not> photo_name (eu_object_key u) \<Longrightarrow> objects_ok s'"
proof -
  have live: "live_key now s' k \<Longrightarrow> live_key now s k" for now k
    using assms(5) unfolding live_key_def assms(1,3) by (force simp: assms(2,4))
  show "object_change e s s'"
    unfolding object_change_def assms(1,3,6) using live by (auto simp: assms(2,4))
  have maps: "map pu_id (pending_uploads s') = map pu_id (filter P (pending_uploads s))"
    "map at_object_key (attachments s') = map at_object_key (filter Q (attachments s))"
    unfolding assms(1,3) by (simp_all add: comp_def assms(2,4))
  show "objects_ok s'" if "objects_ok s" "\<forall>u \<in> set (evidence_uploads s'). \<not> photo_name (eu_object_key u)"
    using that unfolding objects_ok_def maps
    by (auto simp: assms(1-4) distinct_map_filtered)
qed

lemma mark_attachments_inv:
  assumes "message_inv e s" "attachments s' = map g (attachments s)" "\<And>a. at_message (g a) = at_message a"
    "messages s' = messages s" "envelopes s' = envelopes s" "receipts s' = receipts s" "draws s' = draws s"
    "message_sequence s' = message_sequence s"
  shows "message_inv e s'"
proof -
  have "count_where (\<lambda>a. at_message a = i) (attachments s') = count_where (\<lambda>a. at_message a = i) (attachments s)" for i
    unfolding assms(2) count_where_def by (simp add: filter_map comp_def assms(3))
  moreover have "at_message ` set (attachments s') = at_message ` set (attachments s)"
    unfolding assms(2) by (simp add: image_image assms(3))
  ultimately show ?thesis
    using assms(1,4-8) by (simp add: message_inv_def message_keys_ok_def message_links_ok_def message_rows_ok_def message_ids_def)
qed

section \<open>The steps\<close>

text \<open>A claim or a note of a failure marks rows.\<close>

definition marked :: "retention_db \<Rightarrow> retention_db \<Rightarrow> bool" where
  "marked s s' \<longleftrightarrow> (\<exists>f g. pending_uploads s' = map f (pending_uploads s) \<and> attachments s' = map g (attachments s) \<and>
      (\<forall>p. pu_id (f p) = pu_id p \<and> pu_object_key (f p) = pu_object_key p \<and>
        (pu_purge_attempt (f p) = None \<longrightarrow> pu_purge_attempt p = None)) \<and>
      (\<forall>a. at_message (g a) = at_message a \<and> at_object_key (g a) = at_object_key a)) \<and>
     messages s' = messages s \<and> envelopes s' = envelopes s \<and> receipts s' = receipts s \<and> draws s' = draws s \<and>
     message_sequence s' = message_sequence s \<and> eu_object_key ` set (evidence_uploads s') = eu_object_key ` set (evidence_uploads s)"

lemma marked_keeps:
  assumes "marked s s'"
  shows "object_change e s s'" "objects_ok s \<Longrightarrow> objects_ok s'" "message_inv e s \<Longrightarrow> message_inv e s'"
    "object_keys s' = object_keys s"
proof -
  from assms obtain f g where f: "pending_uploads s' = map f (pending_uploads s)"
      "\<And>p. pu_id (f p) = pu_id p \<and> pu_object_key (f p) = pu_object_key p \<and>
        (pu_purge_attempt (f p) = None \<longrightarrow> pu_purge_attempt p = None)"
    and g: "attachments s' = map g (attachments s)"
      "\<And>a. at_message (g a) = at_message a \<and> at_object_key (g a) = at_object_key a"
    and same: "messages s' = messages s" "envelopes s' = envelopes s" "receipts s' = receipts s" "draws s' = draws s"
      "message_sequence s' = message_sequence s" and ev: "eu_object_key ` set (evidence_uploads s') = eu_object_key ` set (evidence_uploads s)"
    unfolding marked_def by blast
  note shrink = shrink_change [of s' f "\<lambda>_. True" s g "\<lambda>_. True"]
  show "object_change e s s'" by (rule shrink(1)) (simp_all add: f g same)
  show "objects_ok s'" if "objects_ok s"
  proof (rule shrink(2))
    show "\<forall>u \<in> set (evidence_uploads s'). \<not> photo_name (eu_object_key u)"
      using that ev unfolding objects_ok_def by (metis (no_types, lifting) imageE imageI)
  qed (simp_all add: f g same that)
  show "message_inv e s'" if "message_inv e s"
    using mark_attachments_inv [OF that g(1)] g(2) same by simp
  show "object_keys s' = object_keys s" unfolding object_keys_def f(1) g(1) by (simp add: image_image f(2) g(2))
qed

lemma marked_uploads:
  "\<lbrakk>\<And>p. pu_id (f p) = pu_id p \<and> pu_object_key (f p) = pu_object_key p; \<And>p. pu_purge_attempt (f p) = Some t\<rbrakk> \<Longrightarrow>
   marked s (s\<lparr>pending_uploads := upd_where P f (pending_uploads s)\<rparr>)"
  unfolding marked_def by (intro conjI exI [of _ "\<lambda>p. if P p then f p else p"] exI [of _ id]) (simp_all add: upd_where_def)

lemma marked_attachments:
  "(\<And>a. at_message (g a) = at_message a \<and> at_object_key (g a) = at_object_key a) \<Longrightarrow>
   marked s (s\<lparr>attachments := upd_where P g (attachments s)\<rparr>)"
  unfolding marked_def by (intro conjI exI [of _ id] exI [of _ "\<lambda>a. if P a then g a else a"]) (simp_all add: upd_where_def)

lemma marked_evidence:
  "(\<And>u. eu_object_key (h u) = eu_object_key u) \<Longrightarrow> marked s (s\<lparr>evidence_uploads := upd_where P h (evidence_uploads s)\<rparr>)"
  unfolding marked_def by (intro conjI exI [of _ id]) (simp_all add: image_upd_where)

lemma claim_marks: "claim_target j s = (n, s') \<Longrightarrow> marked s s'"
  by (auto simp: claim_upload_def claim_evidence_def claim_attachment_def Let_def split: purge_target.splits
      intro!: marked_uploads marked_attachments marked_evidence)

lemma fail_marks: "marked s (fail_target j er s)"
  by (auto simp: fail_upload_def fail_evidence_def fail_attachment_def split: purge_target.splits
      intro!: marked_uploads marked_attachments marked_evidence)

text \<open>A claimed row takes its key out of life.\<close>

lemma claim_commits:
  assumes "claim_target j s = (1, s')" "job_ok e s j" "objects_ok s" "message_inv e s" "jb_now j \<le> now"
  shows "\<not> live_key now s' (jb_key j)"
proof (cases "jb_target j")
  case (UploadObject i)
  let ?hit = "\<lambda>p. pu_id p = i \<and> pu_expires p \<le> jb_now j \<and> retryable (jb_retry j) (pu_purge_attempt p)"
  let ?f = "\<lambda>p. p\<lparr>pu_attempts := Suc (pu_attempts p), pu_purge_attempt := Some (jb_now j), pu_purge_error := None\<rparr>"
  from assms(1) UploadObject have n: "count_where ?hit (pending_uploads s) = 1"
    and s': "s' = s\<lparr>pending_uploads := upd_where ?hit ?f (pending_uploads s)\<rparr>"
    by (simp_all add: claim_upload_def Let_def)
  from n have "count_where ?hit (pending_uploads s) \<noteq> 0" by simp
  then obtain p where p: "p \<in> set (pending_uploads s)" "?hit p" unfolding count_where_0_iff by blast
  have key: "jb_key j = photo_prefix @ i" using assms(2) UploadObject by (simp add: job_ok_def)
  have keys: "\<forall>q \<in> set (pending_uploads s). pu_object_key q = photo_prefix @ pu_id q"
    and ids: "distinct (map pu_id (pending_uploads s))"
    and apart: "\<forall>p \<in> set (pending_uploads s). \<forall>a \<in> set (attachments s). pu_object_key p \<noteq> at_object_key a"
    using assms(3) unfolding objects_ok_def by simp_all
  have "jb_key j = pu_object_key p" using p keys key by simp
  with apart p(1) have "\<forall>a \<in> set (attachments s). at_object_key a \<noteq> jb_key j" by metis
  moreover have "pu_purge_attempt q \<noteq> None" if q: "q \<in> set (upd_where ?hit ?f (pending_uploads s))" "pu_object_key q = jb_key j" for q
  proof -
    from q(1) obtain r where r: "r \<in> set (pending_uploads s)" "q = (if ?hit r then ?f r else r)" by (auto simp: set_upd_where)
    have "pu_id r = i" using r q(2) keys key by (auto split: if_splits)
    then have "r = p" using distinct_key_eq [OF ids r(1) p(1)] p(2) by simp
    then show ?thesis using r(2) p(2) by simp
  qed
  moreover have "pending_uploads s' = upd_where ?hit ?f (pending_uploads s)" unfolding s' by simp
  ultimately have "\<not> (\<exists>q \<in> set (pending_uploads s'). pu_object_key q = jb_key j \<and> pu_purge_attempt q = None)"
    "\<forall>a \<in> set (attachments s). at_object_key a \<noteq> jb_key j" by metis+
  moreover have "attachments s' = attachments s" unfolding s' by simp
  ultimately show ?thesis unfolding live_key_def by metis
next
  case (EvidenceObject i)
  then have "\<not> photo_name (jb_key j)" using assms(2) by (simp add: job_ok_def)
  moreover have "photo_name k" if "k \<in> object_keys s'" for k
    using objects_ok_names [OF marked_keeps(2) [OF claim_marks [OF assms(1)] assms(3)] that] .
  ultimately show ?thesis using live_key_object by metis
next
  case (PhotoObject m)
  let ?hit = "\<lambda>a. at_message a = m \<and> message_expired (jb_now j) s m \<and> retryable (jb_retry j) (at_purge_attempt a)"
  from assms(1) PhotoObject have n: "count_where ?hit (attachments s) = 1" and p': "pending_uploads s' = pending_uploads s"
    "messages s' = messages s" and a': "attachments s' = upd_where ?hit (\<lambda>a. a\<lparr>at_status := PurgePending, at_attempts := Suc (at_attempts a),
          at_purge_attempt := Some (jb_now j), at_purge_error := None\<rparr>) (attachments s)"
    by (auto simp: claim_attachment_def Let_def)
  from n have "count_where ?hit (attachments s) \<noteq> 0" by simp
  then obtain x where x: "x \<in> set (messages s)" "m_id x = m" "m_expires x \<le> jb_now j"
    unfolding count_where_0_iff message_expired_def by blast
  have job: "jb_key j \<notin> pu_object_key ` set (pending_uploads s)"
    "\<forall>a \<in> set (attachments s). at_message a = m \<longleftrightarrow> at_object_key a = jb_key j"
    using assms(2) PhotoObject by (simp_all add: job_ok_def)
  have "\<not> now < m_expires y" if "y \<in> set (messages s)" "m_id y = m" for y
  proof -
    have "distinct (map m_id (messages s))" using assms(4) by (simp add: message_inv_def message_keys_ok_def)
    from distinct_key_eq [of m_id, OF this that(1) x(1)] that(2) x(2) have "y = x" by simp
    then show ?thesis using x(3) assms(5) by simp
  qed
  moreover have "at_message a = m" if "a \<in> set (attachments s')" "at_object_key a = jb_key j" for a
    using that job(2) unfolding a' by (auto simp: set_upd_where split: if_splits)
  moreover have "\<forall>p \<in> set (pending_uploads s). pu_object_key p \<noteq> jb_key j" using job(1) by (metis imageI)
  ultimately show ?thesis unfolding live_key_def p' by metis
qed

lemma change_keeps:
  assumes "purge_inv e n w" "object_change e (w_db w) s" "message_inv e s" "objects_ok s"
    "w_granted w \<subseteq> object_keys s \<union> w_gone w" "draws s \<le> n"
  shows "purge_inv e n (w\<lparr>w_db := s\<rparr>)"
proof -
  have "w\<lparr>w_db := s, w_granted := w_granted w\<rparr> = w\<lparr>w_db := s\<rparr>" by simp
  with change_keeps_inv [OF assms] show ?thesis by simp
qed

lemma mark_keeps_inv:
  assumes "purge_inv e n w" "marked (w_db w) s"
  shows "purge_inv e n (w\<lparr>w_db := s\<rparr>)"
proof -
  have inv: "message_inv e (w_db w)" "objects_ok (w_db w)" "w_granted w \<subseteq> object_keys (w_db w) \<union> w_gone w" "draws (w_db w) \<le> n"
    using assms(1) by (simp_all add: purge_inv_def)
  note m = marked_keeps [OF assms(2)]
  have "draws s = draws (w_db w)" using assms(2) by (simp add: marked_def)
  then show ?thesis using inv(3,4) by (intro change_keeps assms(1) m(1,2,3) inv(1,2)) (simp_all add: m(4))
qed

text \<open>A sent photo takes the key of its reservation, which no purge had claimed.\<close>

lemma reserved_once:
  assumes "count_where (reservation_matches g i conv now) (pending_uploads s) = 1" "objects_ok s"
  obtains p where "p \<in> set (pending_uploads s)" "pu_object_key p = ug_object_key g" "pu_purge_attempt p = None"
    "\<forall>q \<in> set (pending_uploads s). pu_object_key q = ug_object_key g \<longleftrightarrow> reservation_matches g i conv now q"
proof -
  from assms(1) have "count_where (reservation_matches g i conv now) (pending_uploads s) \<noteq> 0" by simp
  then obtain p where p: "p \<in> set (pending_uploads s)" "reservation_matches g i conv now p"
    unfolding count_where_0_iff by blast
  have keys: "\<forall>q \<in> set (pending_uploads s). pu_object_key q = photo_prefix @ pu_id q"
    and ids: "distinct (map pu_id (pending_uploads s))"
    using assms(2) unfolding objects_ok_def by simp_all
  have "q = p" if q: "q \<in> set (pending_uploads s)" "pu_object_key q = pu_object_key p" for q
  proof -
    have "pu_id q = pu_id p" using keys q p(1) by simp
    then show ?thesis using distinct_key_eq [OF ids q(1) p(1)] by simp
  qed
  then have "\<forall>q \<in> set (pending_uploads s). pu_object_key q = ug_object_key g \<longleftrightarrow> reservation_matches g i conv now q"
    using p(2) unfolding reservation_matches_def by metis
  moreover have "pu_object_key p = ug_object_key g" "pu_purge_attempt p = None"
    using p(2) by (simp_all add: reservation_matches_def)
  ultimately show thesis using p(1) by (intro that [of p])
qed

lemma sent_keeps_inv:
  assumes "purge_inv e n w" "store_message e at i conv inp grant (w_db w) = Inr (m, s')" "(grant = None) = (mi_kind inp = TEXT)"
    "draws s' \<le> n"
  shows "purge_inv e n (w\<lparr>w_db := s'\<rparr>)"
proof -
  let ?s = "w_db w"
  have inv: "message_inv e ?s" "objects_ok ?s" "w_granted w \<subseteq> object_keys ?s \<union> w_gone w"
    using assms(1) by (simp_all add: purge_inv_def)
  note new = store_inv [OF assms(2,3) inv(1)]
  have st: "m_id m = uuid_at e (draws ?s)" "messages s' = messages ?s @ [m]" "draws s' = Suc (draws ?s)"
    "attachments s' = attachments ?s @ new_attachment (sk_begin at) (m_id m) grant"
    "pending_uploads s' = (case grant of None \<Rightarrow> pending_uploads ?s
       | Some g \<Rightarrow> filter (\<lambda>p. \<not> reservation_matches g i conv (sk_claim at) p) (pending_uploads ?s))"
    "\<forall>g. grant = Some g \<longrightarrow> count_where (reservation_matches g i conv (sk_claim at)) (pending_uploads ?s) = 1"
    and more: "msg_db.more s' = msg_db.more ?s"
    using assms(2) by (rule store_ok, simp)+
  have ev: "evidence_uploads s' = evidence_uploads ?s" using more by (cases s'; cases "w_db w") simp
  have old: "live_key now ?s k" if a: "a \<in> set (attachments ?s)" "at_object_key a = k" and n: "n \<in> set (messages s')"
    "m_id n = at_message a" "now < m_expires n" for a n now k
  proof -
    have "at_message a \<in> message_ids ?s" using inv(1) a(1) unfolding message_inv_def message_links_ok_def by (metis imageI subsetD)
    then have "n \<in> set (messages ?s)" using n(1,2) new(2) unfolding st(2) by auto
    then show ?thesis using a n unfolding live_key_def by blast
  qed
  show ?thesis
  proof (cases grant)
    case None
    then have same: "pending_uploads s' = pending_uploads ?s" "attachments s' = attachments ?s"
      using st(4,5) by (simp_all add: new_attachment_def)
    have "live_key now s' k \<Longrightarrow> live_key now ?s k" for now k
      using old unfolding live_key_def same by metis
    then have "object_change e ?s s'" unfolding object_change_def same st(3) by auto
    moreover have "objects_ok s'" using inv(2) unfolding objects_ok_def same ev .
    ultimately show ?thesis using inv(3) by (intro change_keeps assms(1,4) new(1)) (simp_all add: object_keys_def same)
  next
    case (Some g)
    with st(6) obtain p where p: "p \<in> set (pending_uploads ?s)" "pu_object_key p = ug_object_key g" "pu_purge_attempt p = None"
      and match: "\<forall>q \<in> set (pending_uploads ?s). pu_object_key q = ug_object_key g \<longleftrightarrow> reservation_matches g i conv (sk_claim at) q"
      using reserved_once [OF _ inv(2)] by metis
    obtain b where b: "attachments s' = attachments ?s @ [b]" "at_object_key b = ug_object_key g" "at_message b = m_id m"
      using st(4) Some by (simp add: new_attachment_def)
    have pend: "pending_uploads s' = filter (\<lambda>q. pu_object_key q \<noteq> ug_object_key g) (pending_uploads ?s)"
      using st(5) match unfolding Some by (auto intro: filter_cong)
    have key: "ug_object_key g \<in> pu_object_key ` set (pending_uploads ?s)" using p by (metis imageI)
    have live: "live_key now ?s k" if l: "live_key now s' k" for now k
    proof (cases "k = ug_object_key g")
      case True
      then show ?thesis using p unfolding live_key_def by blast
    next
      case False
      have "set (pending_uploads s') \<subseteq> set (pending_uploads ?s)" unfolding pend by auto
      moreover have "a \<in> set (attachments ?s)" if "a \<in> set (attachments s')" "at_object_key a = k" for a
        using that b False by auto
      ultimately show ?thesis using l by (elim live_keyE) (blast intro: live_key_pending old)+
    qed
    have "object_change e ?s s'"
      unfolding object_change_def b(1) pend st(3) using live key b(2,3) st(1) by auto
    moreover have "objects_ok s'"
    proof -
      have "pu_object_key p = photo_prefix @ pu_id p" "\<forall>a \<in> set (attachments ?s). at_object_key a \<noteq> pu_object_key p"
        using inv(2) p(1) unfolding objects_ok_def by metis+
      then have "photo_name (ug_object_key g)" "\<forall>a \<in> set (attachments ?s). at_object_key a \<noteq> ug_object_key g"
        using p(2) by (simp_all add: photo_name_def)
      then show ?thesis using inv(2) b(2) unfolding objects_ok_def b(1) pend ev
        by (auto simp: distinct_map_filtered)
    qed
    moreover have "object_keys s' = object_keys ?s"
      unfolding object_keys_def b(1) pend using key by (auto simp: b(2))
    ultimately show ?thesis using inv(3) by (intro change_keeps assms(1,4) new(1)) simp_all
  qed
qed

text \<open>A request reserves at most the key of the identifier it drew.\<close>

lemma requested_keeps_inv:
  assumes "purge_inv e n w" "requestUpload st cfg e at i conv q (w_db w) = (r, s')" "draws s' \<le> n"
  shows "purge_inv e n (w\<lparr>w_db := s', w_granted := w_granted w \<union> pu_object_key ` set (pending_uploads s')\<rparr>)"
proof -
  let ?s = "w_db w"
  have inv: "message_inv e ?s" "objects_ok ?s" "w_granted w \<subseteq> object_keys ?s \<union> w_gone w"
    "\<forall>i \<in> {draws ?s..<n}. photo_key e i \<notin> known_keys w"
    using assms(1) by (simp_all add: purge_inv_def)
  have m: "message_inv e s'" using same_messages_inv [OF inv(1) requestUpload_same_messages [OF assms(2)]] .
  have "object_change e ?s s' \<and> objects_ok s' \<and> object_keys ?s \<subseteq> object_keys s'"
  proof -
    consider "s' = ?s" | "s' = ?s\<lparr>draws := Suc (draws ?s)\<rparr>"
      | g token where "create_grant cfg (uuid_text (uuid_at e (draws ?s))) (uuid_text i) (uuid_text conv) q (uk_now at) = Inr (g, token)"
        "reserve_upload at i conv g (?s\<lparr>draws := Suc (draws ?s)\<rparr>) = Inr ((), s')"
      using requestUpload_states [OF assms(2)] by blast
    then show ?thesis
    proof cases
      case 1
      then show ?thesis using inv(2) by (auto simp: object_change_def)
    next
      case 2
      have "live_key now s' k = live_key now ?s k" for now k by (simp add: 2 live_key_def)
      moreover have "objects_ok s'" by (rule objects_ok_cong [OF inv(2)]) (simp_all add: 2)
      ultimately show ?thesis by (auto simp: object_change_def object_keys_def 2)
    next
      case (3 g token)
      then have g: "ug_object_key g = photo_key e (draws ?s)" "ug_object_key g = photo_prefix @ ug_reservation g"
        by (auto simp: create_grant_def Let_def new_grant_def photo_key_def photo_prefix_def map_sum_def split: sum.splits)
      from reserve_upload_ok [OF 3(2)] obtain p where p: "pending_uploads s' = pending_uploads ?s @ [p]"
        "pu_id p = ug_reservation g" "pu_object_key p = ug_object_key g" "pu_id p \<notin> pu_id ` set (pending_uploads ?s)"
        and same: "messages s' = messages ?s" "attachments s' = attachments ?s" "evidence_uploads s' = evidence_uploads ?s"
          "draws s' = Suc (draws ?s)" by auto
      have drawn: "drawn_keys e ?s s' = {pu_object_key p}" by (auto simp: drawn_keys_def same(4) p(3) g(1))
      have live: "live_key now s' k \<Longrightarrow> live_key now ?s k \<or> k = pu_object_key p" for now k
        unfolding live_key_def p(1) same by auto
      have "photo_key e (draws ?s) \<notin> known_keys w" using inv(4) assms(3) same(4) by simp
      then have new: "pu_object_key p \<notin> object_keys ?s" using p(3) g(1) by (simp add: known_keys_def)
      have "object_change e ?s s'" unfolding object_change_def drawn p(1) same using live by auto
      moreover have "objects_ok s'"
      proof -
        have "pu_object_key p = photo_prefix @ pu_id p" "\<forall>a \<in> set (attachments ?s). pu_object_key p \<noteq> at_object_key a"
          using p(2,3) g(2) new unfolding object_keys_def by auto
        then show ?thesis using inv(2) p(4) unfolding objects_ok_def p(1) same by simp
      qed
      ultimately show ?thesis by (auto simp: object_keys_def p(1) same)
    qed
  qed
  moreover from this have "w_granted w \<union> pu_object_key ` set (pending_uploads s') \<subseteq> object_keys s' \<union> w_gone w"
    using inv(3) unfolding object_keys_def [of s'] by blast
  ultimately show ?thesis by (intro change_keeps_inv assms(1,3) m) simp_all
qed

lemma rows_keep_inv: "purge_inv e n w \<Longrightarrow> purge_inv e n (w\<lparr>w_db := purge_rows now (w_db w)\<rparr>)"
proof -
  assume inv: "purge_inv e n w"
  then have i: "message_inv e (w_db w)" "objects_ok (w_db w)" "w_granted w \<subseteq> object_keys (w_db w) \<union> w_gone w" "draws (w_db w) \<le> n"
    by (simp_all add: purge_inv_def)
  have same: "pending_uploads (purge_rows now (w_db w)) = pending_uploads (w_db w)"
    "attachments (purge_rows now (w_db w)) = attachments (w_db w)" "draws (purge_rows now (w_db w)) = draws (w_db w)"
    "evidence_uploads (purge_rows now (w_db w)) = evidence_uploads (w_db w)"
    "set (messages (purge_rows now (w_db w))) \<subseteq> set (messages (w_db w))"
    by (auto simp: purge_rows_def delete_messages_def Let_def)
  have "objects_ok (purge_rows now (w_db w))" using i(2) unfolding objects_ok_def same .
  moreover have "object_change e (w_db w) (purge_rows now (w_db w))"
    by (rule shrink_change(1) [of _ id "\<lambda>_. True" _ id "\<lambda>_. True"]) (use same in simp_all)
  ultimately show ?thesis using i(3,4) by (intro change_keeps inv purge_rows_inv i(1)) (simp_all add: object_keys_def same)
qed

lemma elsewhere_keeps_inv:
  assumes "purge_inv e n w" "same_objects (w_db w) s" "draws s \<le> n"
  shows "purge_inv e n (w\<lparr>w_db := s\<rparr>)"
proof -
  have i: "message_inv e (w_db w)" "objects_ok (w_db w)" "w_granted w \<subseteq> object_keys (w_db w) \<union> w_gone w"
    using assms(1) by (simp_all add: purge_inv_def)
  have same: "same_messages (w_db w) s" "pending_uploads s = pending_uploads (w_db w)"
    "attachments s = attachments (w_db w)" "messages s = messages (w_db w)" "draws (w_db w) \<le> draws s"
    and ev: "\<forall>u \<in> set (evidence_uploads s). \<not> photo_name (eu_object_key u)"
    using assms(2) by (simp_all add: same_objects_def same_messages_def)
  have "live_key now s k = live_key now (w_db w) k" for now k by (simp add: live_key_def same)
  then have "object_change e (w_db w) s" unfolding object_change_def same(2,3) using same(5) by auto
  moreover have "objects_ok s" using i(2) ev unfolding objects_ok_def same(2,3) by blast
  ultimately show ?thesis
    using i(3) by (intro change_keeps assms(1,3) same_messages_inv [OF i(1) same(1)]) (simp_all add: object_keys_def same)
qed

text \<open>A receipt touches no object.\<close>

lemma received_keeps_inv:
  assumes "purge_inv e n w" "updateReceipt now now' i message read (w_db w) = Inr (res, s)"
  shows "purge_inv e n (w\<lparr>w_db := s\<rparr>)"
proof -
  have i: "message_inv e (w_db w)" "objects_ok (w_db w)" "w_granted w \<subseteq> object_keys (w_db w) \<union> w_gone w" "draws (w_db w) \<le> n"
    using assms(1) by (simp_all add: purge_inv_def)
  have same: "pending_uploads s = pending_uploads (w_db w)" "attachments s = attachments (w_db w)"
    "messages s = messages (w_db w)" "draws s = draws (w_db w)" "evidence_uploads s = evidence_uploads (w_db w)"
    using updateReceipt_state [OF assms(2)] by simp_all
  have "object_change e (w_db w) s"
    by (rule shrink_change(1) [of _ id "\<lambda>_. True" _ id "\<lambda>_. True"]) (use same in simp_all)
  moreover have "objects_ok s" using i(2) by (rule objects_ok_cong) (simp_all add: same)
  ultimately show ?thesis
    using i(3,4) by (intro change_keeps assms(1) receipt_inv [OF assms(2) i(1)]) (simp_all add: object_keys_def same)
qed

lemma purge_inv_urls [simp]: "purge_inv e n (w\<lparr>w_urls := u\<rparr>) = purge_inv e n w"
  by (simp add: purge_inv_def known_keys_def committed_keys_def)

section \<open>The jobs\<close>

lemma live_key_earlier: "live_key t s k \<Longrightarrow> now \<le> t \<Longrightarrow> live_key now s k"
  by (elim live_keyE) (auto simp: live_key_def intro: le_less_trans)

lemma jobs_keep_inv:
  assumes "purge_inv e n w" "w_db w' = w_db w" "w_clock w' = w_clock w" "w_granted w' = w_granted w"
    "w_gone w \<subseteq> w_gone w'" "w_tried w' \<subseteq> w_tried w \<union> committed_keys w"
    "\<forall>j \<in> set (w_jobs w'). job_ok e (w_db w) j \<and> jb_now j \<le> w_clock w \<and>
       (\<forall>i \<in> {draws (w_db w)..<n}. photo_key e i \<noteq> jb_key j) \<and>
       (jb_phase j \<noteq> Selected \<longrightarrow> \<not> live_key (w_clock w) (w_db w) (jb_key j)) \<and>
       (jb_phase j = Removed \<longrightarrow> jb_key j \<in> w_gone w')"
  shows "purge_inv e n w'"
proof -
  have inv: "\<forall>i \<in> {draws (w_db w)..<n}. photo_key e i \<notin> known_keys w" "\<forall>k \<in> committed_keys w. \<not> live_key (w_clock w) (w_db w) k"
    "w_granted w \<subseteq> object_keys (w_db w) \<union> w_gone w"
    using assms(1) by (simp_all add: purge_inv_def)
  have tried: "w_tried w' \<subseteq> committed_keys w"
    using assms(6) unfolding committed_keys_def by blast
  have "committed_keys w \<subseteq> known_keys w" by (auto simp: committed_keys_def known_keys_def)
  with tried have old: "object_keys (w_db w) \<union> w_tried w' \<subseteq> known_keys w" unfolding known_keys_def by blast
  have "photo_key e i \<notin> known_keys w'" if i: "i \<in> {draws (w_db w)..<n}" for i
  proof -
    have "photo_key e i \<notin> object_keys (w_db w) \<union> w_tried w'" using inv(1) i old by blast
    moreover have "\<forall>j \<in> set (w_jobs w'). jb_key j \<noteq> photo_key e i" using assms(7) i by metis
    ultimately show ?thesis unfolding known_keys_def assms(2) by auto
  qed
  moreover have "\<not> live_key (w_clock w) (w_db w) k" if "k \<in> committed_keys w'" for k
    using that tried inv(2) assms(7) unfolding committed_keys_def [of w'] by blast
  moreover have "w_granted w \<subseteq> object_keys (w_db w) \<union> w_gone w'" using inv(3) assms(5) by blast
  ultimately show ?thesis using assms(1,7) unfolding purge_inv_def assms(2-4) by simp
qed

text \<open>What the invariant says of one job.\<close>

lemma job_facts:
  assumes "purge_inv e n w" "j \<in> set (w_jobs w)"
  shows "job_ok e (w_db w) j" "jb_now j \<le> w_clock w" "\<forall>i \<in> {draws (w_db w)..<n}. photo_key e i \<noteq> jb_key j"
    "jb_phase j \<noteq> Selected \<Longrightarrow> jb_key j \<in> committed_keys w"
    "jb_phase j \<noteq> Selected \<Longrightarrow> \<not> live_key (w_clock w) (w_db w) (jb_key j)"
    "jb_phase j = Removed \<Longrightarrow> jb_key j \<in> w_gone w"
proof -
  show "job_ok e (w_db w) j" "jb_now j \<le> w_clock w" "jb_phase j = Removed \<Longrightarrow> jb_key j \<in> w_gone w"
    using assms by (simp_all add: purge_inv_def)
  have "\<forall>i \<in> {draws (w_db w)..<n}. photo_key e i \<notin> known_keys w" using assms(1) by (simp add: purge_inv_def)
  then show "\<forall>i \<in> {draws (w_db w)..<n}. photo_key e i \<noteq> jb_key j" using known_job [OF assms(2)] by metis
  show c: "jb_key j \<in> committed_keys w" if "jb_phase j \<noteq> Selected"
    using assms(2) that by (simp add: committed_keys_def)
  show "\<not> live_key (w_clock w) (w_db w) (jb_key j)" if "jb_phase j \<noteq> Selected"
    using c [OF that] assms(1) by (simp add: purge_inv_def)
qed

lemma end_job_inv: "purge_inv e n w \<Longrightarrow> purge_inv e n (end_job j w)"
proof -
  assume inv: "purge_inv e n w"
  have "i \<in> set (w_jobs w)" if "i \<in> set (remove1 j (w_jobs w))" for i using that notin_set_remove1 by metis
  with job_facts [OF inv] show ?thesis
    by (intro jobs_keep_inv [OF inv]) (simp_all add: end_job_def)
qed

lemma next_job_inv:
  assumes "purge_inv e n w" "j \<in> set (w_jobs w)" "p \<noteq> Selected \<Longrightarrow> \<not> live_key (w_clock w) (w_db w) (jb_key j)"
    "p = Removed \<Longrightarrow> jb_key j \<in> w_gone w"
  shows "purge_inv e n (next_job j p w)"
proof -
  have "i \<in> set (w_jobs w)" if "i \<in> set (remove1 j (w_jobs w))" for i using that notin_set_remove1 by metis
  moreover have "job_ok e (w_db w) (j\<lparr>jb_phase := p\<rparr>)"
    using job_facts(1) [OF assms(1,2)] by (cases "jb_target j") (simp_all add: job_ok_def)
  ultimately show ?thesis using job_facts [OF assms(1)] assms(2-4)
    by (intro jobs_keep_inv [OF assms(1)]) (simp_all add: next_job_def)
qed

lemma select_ok:
  assumes "purge_inv e n w" "selects (w_db w) j"
  shows "job_ok e (w_db w) j \<and> (\<forall>i \<in> {draws (w_db w)..<n}. photo_key e i \<noteq> jb_key j)"
proof -
  have inv: "message_inv e (w_db w)" "objects_ok (w_db w)" "\<forall>i \<in> {draws (w_db w)..<n}. photo_key e i \<notin> known_keys w"
    using assms(1) by (simp_all add: purge_inv_def)
  have known: "\<forall>i \<in> {draws (w_db w)..<n}. photo_key e i \<noteq> k" if "k \<in> object_keys (w_db w)" for k
    using inv(3) that unfolding known_keys_def by blast
  show ?thesis
  proof (cases "jb_target j")
    case (UploadObject i)
    with assms(2) obtain p where p: "p \<in> set (pending_uploads (w_db w))" "pu_id p = i" "pu_object_key p = jb_key j"
      by (auto simp: selects_def)
    have "pu_object_key p = photo_prefix @ pu_id p" using inv(2) p(1) unfolding objects_ok_def by simp
    moreover have "jb_key j \<in> object_keys (w_db w)" using p unfolding object_keys_def by (metis UnI1 imageI)
    ultimately show ?thesis using UploadObject p known by (simp add: job_ok_def)
  next
    case (EvidenceObject i)
    with assms(2) obtain u where u: "u \<in> set (evidence_uploads (w_db w))" "eu_object_key u = jb_key j"
      by (auto simp: selects_def)
    have "\<not> photo_name (jb_key j)" using inv(2) u unfolding objects_ok_def by metis
    moreover have "photo_name (photo_key e n)" for n by (simp add: photo_key_def photo_name_def)
    ultimately show ?thesis using EvidenceObject by (simp add: job_ok_def) metis
  next
    case (PhotoObject m)
    with assms(2) obtain a where a: "a \<in> set (attachments (w_db w))" "at_message a = m" "at_object_key a = jb_key j"
      by (auto simp: selects_def)
    have "\<forall>p \<in> set (pending_uploads (w_db w)). pu_object_key p \<noteq> jb_key j"
      using inv(2) a(1,3) unfolding objects_ok_def by metis
    then have key: "jb_key j \<notin> pu_object_key ` set (pending_uploads (w_db w))" by auto
    have "distinct (map at_object_key (attachments (w_db w)))" using inv(2) unfolding objects_ok_def by simp
    then have "b = a" if "b \<in> set (attachments (w_db w))" "at_object_key b = jb_key j" for b
      using distinct_key_eq [of at_object_key, OF _ that(1) a(1)] that(2) a(3) by simp
    moreover have "b = a" if "b \<in> set (attachments (w_db w))" "at_message b = m" for b
      using attachment_unique [OF inv(1) that(1) a(1)] that(2) a(2) by simp
    ultimately have "\<forall>b \<in> set (attachments (w_db w)). at_message b = m \<longleftrightarrow> at_object_key b = jb_key j" using a(2,3) by metis
    moreover have "m \<in> message_ids (w_db w)"
      using inv(1) a(1,2) unfolding message_inv_def message_links_ok_def by (metis imageI subsetD)
    then have "supply_ok e (draws (w_db w)) {m}" using inv(1) unfolding message_inv_def by (auto intro: supply_ok_cong)
    moreover have "jb_key j \<in> object_keys (w_db w)" using a unfolding object_keys_def by (metis UnI2 imageI)
    ultimately show ?thesis using PhotoObject key known by (simp add: job_ok_def)
  qed
qed

lemma forget_keeps_inv:
  assumes "purge_inv e n w" "j \<in> set (w_jobs w)" "jb_phase j = Removed" "forget_target j (w_db w) = Inr s"
  shows "purge_inv e n (w\<lparr>w_db := s\<rparr>)"
proof -
  have inv: "message_inv e (w_db w)" "objects_ok (w_db w)" "w_granted w \<subseteq> object_keys (w_db w) \<union> w_gone w" "draws (w_db w) \<le> n"
    using assms(1) by (simp_all add: purge_inv_def)
  have gone: "jb_key j \<in> w_gone w" and ok: "job_ok e (w_db w) j" using job_facts [OF assms(1,2)] assms(3) by simp_all
  have ev: "\<forall>u \<in> set (evidence_uploads (w_db w)). \<not> photo_name (eu_object_key u)"
    and keys: "\<forall>p \<in> set (pending_uploads (w_db w)). photo_prefix @ pu_id p = pu_object_key p"
    using inv(2) unfolding objects_ok_def by simp_all
  show ?thesis
  proof (cases "jb_target j")
    case (UploadObject i)
    then have s: "s = (w_db w)\<lparr>pending_uploads := filter (\<lambda>p. pu_id p \<noteq> i) (pending_uploads (w_db w))\<rparr>"
      and key: "jb_key j = photo_prefix @ i" using assms(4) ok by (auto simp: forget_upload_def job_ok_def)
    note change = shrink_change [of s id "\<lambda>p. pu_id p \<noteq> i" "w_db w" id "\<lambda>_. True"]
    have "object_keys (w_db w) \<subseteq> object_keys s \<union> {jb_key j}"
      using keys unfolding object_keys_def s key by auto
    then show ?thesis using inv gone ev
      by (intro change_keeps assms(1) change same_messages_inv [OF inv(1)]) (auto simp: s same_messages_def)
  next
    case (EvidenceObject i)
    then have s: "s = (w_db w)\<lparr>evidence_uploads := filter (\<lambda>p. eu_id p \<noteq> i) (evidence_uploads (w_db w))\<rparr>"
      using assms(4) by (auto simp: forget_evidence_def)
    have "same_objects (w_db w) s" using ev by (simp add: s same_objects_def same_messages_def)
    then show ?thesis by (rule elsewhere_keeps_inv [OF assms(1)]) (use inv(4) in \<open>simp add: s\<close>)
  next
    case (PhotoObject m)
    then have f: "forget_attachment m (jb_key j) (jb_now j) (w_db w) = Inr s" using assms(4) by simp
    then have more: "evidence_uploads s = evidence_uploads (w_db w)"
      by (auto simp: forget_attachment_def delete_messages_def Let_def split: if_splits)
    from f inv(1) show ?thesis
    proof (rule forget_attachment_cases)
      assume "s = w_db w"
      then show ?thesis using assms(1) by simp
    next
      assume dead: "message_expired (jb_now j) (w_db w) m" "messages s = filter (\<lambda>x. m_id x \<noteq> m) (messages (w_db w))"
        "envelopes s = filter (\<lambda>en. en_message en \<noteq> m) (envelopes (w_db w))"
        "receipts s = filter (\<lambda>r. re_message r \<noteq> m) (receipts (w_db w))"
        "attachments s = filter (\<lambda>a. at_message a \<noteq> m) (attachments (w_db w))"
        "\<forall>a \<in> set (attachments (w_db w)). at_message a = m \<longrightarrow> at_object_key a = jb_key j"
        "pending_uploads s = pending_uploads (w_db w)" "draws s = draws (w_db w)" "message_sequence s = message_sequence (w_db w)"
      have "m_id ` {x \<in> set (messages (w_db w)). m_id x = m} = {m}" using dead(1) by (auto simp: message_expired_def)
      then have "message_inv e s"
        using drop_messages_inv [OF inv(1), where P = "\<lambda>x. m_id x = m" and s' = s] dead(2-5,8,9) by simp
      moreover note change = shrink_change [of s id "\<lambda>_. True" "w_db w" id "\<lambda>a. at_message a \<noteq> m"]
      have "object_keys (w_db w) \<subseteq> object_keys s \<union> {jb_key j}"
        using dead(6) unfolding object_keys_def dead(5,7) by auto
      ultimately show ?thesis using inv gone ev more
        by (intro change_keeps assms(1) change) (auto simp: dead(2,5,7,8))
    qed
  qed
qed

lemma step_keeps_inv:
  assumes "purge_step e del contents w w'" "purge_inv e n w" "draws (w_db w') \<le> n"
  shows "purge_inv e n w'"
  using assms(1)
proof cases
  case (tick t)
  then have "\<not> live_key t (w_db w) k" if "\<not> live_key (w_clock w) (w_db w) k" for k
    using that live_key_earlier by metis
  then show ?thesis using assms(2) tick unfolding purge_inv_def
    by (auto simp: committed_keys_def known_keys_def)
next
  case (uploaded b)
  then show ?thesis using assms(2) by (simp add: purge_inv_def committed_keys_def known_keys_def)
next
  case (elsewhere s)
  then show ?thesis using elsewhere_keeps_inv [OF assms(2)] assms(3) by simp
next
  case (sent at i conv inp grant m s)
  then show ?thesis using sent_keeps_inv [OF assms(2) sent(2,3)] assms(3) by simp
next
  case (received now now' i message read res s)
  then show ?thesis using received_keeps_inv [OF assms(2)] by simp
next
  case (requested st cfg at' i conv q r s)
  then show ?thesis using requested_keeps_inv [OF assms(2) requested(2)] assms(3) by simp
next
  case (rows now)
  then show ?thesis using rows_keep_inv [OF assms(2)] by simp
next
  case (select j)
  then have "jb_phase j = Selected" by (simp add: selects_def)
  with select select_ok [OF assms(2)] job_facts [OF assms(2)] show ?thesis
    by (intro jobs_keep_inv [OF assms(2)]) auto
next
  case (claim j s)
  have facts: "job_ok e (w_db w) j" "jb_now j \<le> w_clock w" using job_facts [OF assms(2) claim(2)] by simp_all
  have base: "message_inv e (w_db w)" "objects_ok (w_db w)" using assms(2) by (simp_all add: purge_inv_def)
  have "purge_inv e n (w\<lparr>w_db := s\<rparr>)" using mark_keeps_inv [OF assms(2) claim_marks [OF claim(4)]] .
  moreover have "\<not> live_key (w_clock w) s (jb_key j)"
    using claim_commits [OF claim(4) facts(1) base(2,1) facts(2)] .
  ultimately show ?thesis using claim by (simp only: claim(1)) (rule next_job_inv; simp)
next
  case (skip j n s)
  then show ?thesis using end_job_inv mark_keeps_inv [OF assms(2) claim_marks [OF skip(4)]] by simp
next
  case (remove j u b)
  let ?w = "w\<lparr>w_bucket := b, w_tried := insert (jb_key j) (w_tried w), w_gone := insert (jb_key j) (w_gone w)\<rparr>"
  have "purge_inv e n ?w"
    by (rule jobs_keep_inv [OF assms(2)]) (use job_facts [OF assms(2)] remove in auto)
  moreover have "\<not> live_key (w_clock w) (w_db w) (jb_key j)" using job_facts(5) [OF assms(2) remove(2)] remove(3) by simp
  ultimately show ?thesis using remove by (simp only: remove(1)) (rule next_job_inv; simp)
next
  case (remove_failed j er b)
  let ?w = "w\<lparr>w_bucket := b, w_tried := insert (jb_key j) (w_tried w)\<rparr>"
  have "purge_inv e n ?w"
    by (rule jobs_keep_inv [OF assms(2)]) (use job_facts [OF assms(2)] remove_failed in auto)
  moreover have "\<not> live_key (w_clock w) (w_db w) (jb_key j)" using job_facts(5) [OF assms(2) remove_failed(2)] remove_failed(3) by simp
  ultimately show ?thesis using remove_failed by (simp only: remove_failed(1)) (rule next_job_inv; simp)
next
  case (forget j s)
  then show ?thesis using end_job_inv [OF forget_keeps_inv [OF assms(2) forget(2-4)]] by simp
next
  case (forget_failed j er)
  then show ?thesis using job_facts(5) [OF assms(2) forget_failed(2)] by (simp only: forget_failed(1)) (rule next_job_inv [OF assms(2)]; simp)
next
  case (failed j er)
  then show ?thesis using end_job_inv [OF mark_keeps_inv [OF assms(2) fail_marks]] by simp
next
  case (lost j)
  then show ?thesis using end_job_inv [OF assms(2)] by simp
qed

lemma step_draws: "purge_step e del contents w w' \<Longrightarrow> draws (w_db w) \<le> draws (w_db w')"
proof (induction rule: purge_step.induct)
  case (elsewhere w s)
  then show ?case by (simp add: same_objects_def same_messages_def)
next
  case (sent at i conv inp grant w m s)
  then have "draws s = Suc (draws (w_db w))" by (elim store_ok)
  then show ?case by simp
next
  case (received now now' i message read w res s)
  then show ?case using updateReceipt_state [OF received] by simp
next
  case (requested st cfg at' i conv q w r s)
  then show ?case using requestUpload_same_messages [OF requested] by (simp add: same_messages_def)
next
  case (claim j w s)
  then show ?case using claim_marks [OF claim(3)] by (simp add: next_job_def marked_def)
next
  case (skip j w k s)
  then show ?case using claim_marks [OF skip(3)] by (simp add: end_job_def marked_def)
next
  case (forget j w s)
  then show ?case
    by (auto simp: end_job_def forget_upload_def forget_evidence_def forget_attachment_def Let_def
        split: purge_target.splits if_splits)
next
  case (failed j w er)
  then show ?case using fail_marks [of "w_db w" j er] by (simp add: end_job_def marked_def)
qed (simp_all add: next_job_def end_job_def purge_rows_def Let_def)

lemma steps_keep_inv:
  assumes "(purge_step e del contents)\<^sup>*\<^sup>* w w'" "purge_inv e n w" "draws (w_db w') \<le> n"
  shows "purge_inv e n w'"
  using assms
proof (induction rule: rtranclp_induct)
  case (step u v)
  then have "draws (w_db u) \<le> n" using step_draws by (metis order_trans)
  with step show ?case by (blast intro: step_keeps_inv)
qed

end
