(* ===== verification/RetentionBatch.thy ===== *)
theory RetentionBatch
  imports RetentionSteps
begin

text \<open>
  What one batch does when the storage answers every deletion and the batch has room for every row:
  the tables lose exactly the rows that are due, the bucket exactly their objects.
\<close>

section \<open>One row\<close>

lemma count_keyed:
  assumes "distinct (map f xs)" "x \<in> set xs" "Q x"
  shows "count_where (\<lambda>y. f y = f x \<and> Q y) xs = 1"
proof -
  have "count_where (\<lambda>y. f y = f x \<and> Q y) xs = count_where (\<lambda>y. f y = f x) xs"
    using assms distinct_key_eq [OF assms(1)] by (intro count_where_cong) metis
  moreover have "count_where (\<lambda>y. f y = f x) xs \<le> 1" using assms(1) by (rule count_where_key_le)
  moreover have "count_where (\<lambda>y. f y = f x) xs \<noteq> 0" using assms(2) unfolding count_where_0_iff by blast
  ultimately show ?thesis by linarith
qed

lemma drop_marked:
  "(\<And>y. f (g y) = f y) \<Longrightarrow>
   filter (\<lambda>y. f y \<noteq> k) (upd_where (\<lambda>y. f y = k \<and> Q y) g xs) = filter (\<lambda>y. f y \<noteq> k) xs"
  by (induction xs) auto

definition due_upload :: "time \<Rightarrow> pending_upload \<Rightarrow> bool" where
  "due_upload now p \<longleftrightarrow> pu_expires p \<le> now \<and> retryable (now - RETRY_DELAY_MS) (pu_purge_attempt p)"

definition due_evidence :: "time \<Rightarrow> evidence_upload \<Rightarrow> bool" where
  "due_evidence now p \<longleftrightarrow> eu_expires p \<le> now \<and> retryable (now - RETRY_DELAY_MS) (eu_purge_attempt p)"

definition due_photo :: "time \<Rightarrow> 'x msg_db_scheme \<Rightarrow> attachment_row \<Rightarrow> bool" where
  "due_photo now s a \<longleftrightarrow> message_expired now s (at_message a) \<and> retryable (now - RETRY_DELAY_MS) (at_purge_attempt a)"

lemma purge_upload_ok:
  assumes "p \<in> set (pending_uploads s)" "distinct (map pu_id (pending_uploads s))" "due_upload now p"
    "del (pu_object_key p) b = (Inr u, b')"
  shows "purgeAbandonedUpload del now (now - RETRY_DELAY_MS) p (s, b) =
    (s\<lparr>pending_uploads := filter (\<lambda>q. pu_id q \<noteq> pu_id p) (pending_uploads s)\<rparr>, b')"
proof -
  let ?Q = "due_upload now"
  have one: "count_where (\<lambda>q. pu_id q = pu_id p \<and> ?Q q) (pending_uploads s) = 1"
    by (rule count_keyed [where Q = ?Q, OF assms(2,1,3)])
  show ?thesis
    using one assms(4) by (simp add: purgeAbandonedUpload_def purge_object_def claim_upload_def forget_upload_def Let_def
        due_upload_def drop_marked)
qed

lemma purge_evidence_ok:
  assumes "p \<in> set (evidence_uploads s)" "distinct (map eu_id (evidence_uploads s))" "due_evidence now p"
    "del (eu_object_key p) b = (Inr u, b')"
  shows "purgeAbandonedEvidence del now (now - RETRY_DELAY_MS) p (s, b) =
    (s\<lparr>evidence_uploads := filter (\<lambda>q. eu_id q \<noteq> eu_id p) (evidence_uploads s)\<rparr>, b')"
proof -
  let ?Q = "due_evidence now"
  have one: "count_where (\<lambda>q. eu_id q = eu_id p \<and> ?Q q) (evidence_uploads s) = 1"
    by (rule count_keyed [where Q = ?Q, OF assms(2,1,3)])
  show ?thesis
    using one assms(4) by (simp add: purgeAbandonedEvidence_def purge_object_def claim_evidence_def forget_evidence_def Let_def
        due_evidence_def drop_marked)
qed

text \<open>The attachment case removes the message and all that hangs on it.\<close>

definition photo_dropped :: "uuid set \<Rightarrow> 'x msg_db_scheme \<Rightarrow> 'x msg_db_scheme \<Rightarrow> bool" where
  "photo_dropped I s s' \<longleftrightarrow> messages s' = filter (\<lambda>m. m_id m \<notin> I) (messages s) \<and>
     envelopes s' = filter (\<lambda>en. en_message en \<notin> I) (envelopes s) \<and>
     receipts s' = filter (\<lambda>r. re_message r \<notin> I) (receipts s) \<and>
     attachments s' = filter (\<lambda>a. at_message a \<notin> I) (attachments s) \<and>
     pending_uploads s' = pending_uploads s \<and> draws s' = draws s \<and> message_sequence s' = message_sequence s \<and>
     msg_db.more s' = msg_db.more s"

lemma photo_dropped_inv:
  assumes "photo_dropped I s s'" "message_inv e s" "I \<subseteq> message_ids s"
  shows "message_inv e s'"
proof -
  have "m_id ` {m \<in> set (messages s). m_id m \<in> I} = I" using assms(3) by (auto simp: message_ids_def)
  then show ?thesis using assms(1) unfolding photo_dropped_def
    by (intro drop_messages_inv [OF assms(2), where P = "\<lambda>m. m_id m \<in> I"]) simp_all
qed

lemma forget_photo_ok:
  assumes "message_inv e s" "a \<in> set (attachments s)" "message_expired now s (at_message a)"
  obtains s' where "forget_attachment (at_message a) (at_object_key a) now s = Inr s'" "photo_dropped {at_message a} s s'"
proof -
  let ?i = "at_message a" and ?dead = "\<lambda>m. m_id m = at_message a \<and> m_expires m \<le> now"
  let ?hit = "\<lambda>x. at_message x = ?i \<and> at_object_key x = at_object_key a \<and> message_expired now s ?i"
  have hit: "?hit x = (at_message x = ?i)" if "x \<in> set (attachments s)" for x
    using attachment_unique [OF assms(1) that assms(2)] assms(3) by metis
  have kept: "filter (\<lambda>x. \<not> ?hit x) (attachments s) = filter (\<lambda>x. at_message x \<noteq> ?i) (attachments s)"
    using hit by (intro filter_cong) simp_all
  have "count_where ?hit (attachments s) = count_where (\<lambda>x. at_message x = ?i) (attachments s)"
    using hit by (rule count_where_cong)
  moreover have "count_where (\<lambda>x. at_message x = ?i) (attachments s) \<noteq> 0" using assms(2) unfolding count_where_0_iff by blast
  ultimately have one: "count_where ?hit (attachments s) = 1" using one_attachment [OF assms(1), of ?i] by linarith
  obtain m where m: "m \<in> set (messages s)" "m_id m = ?i" "m_expires m \<le> now"
    using assms(3) by (auto simp: message_expired_def)
  have ids: "distinct (map m_id (messages s))" using assms(1) by (simp add: message_inv_def message_keys_ok_def)
  have dead: "?dead x = (m_id x = ?i)" if "x \<in> set (messages s)" for x
    using distinct_key_eq [OF ids that m(1)] m(2,3) by metis
  have "count_where (\<lambda>x. m_id x = m_id m \<and> m_expires x \<le> now) (messages s) = 1"
    by (rule count_keyed [where Q = "\<lambda>x. m_expires x \<le> now", OF ids m(1,3)])
  then have gone: "count_where ?dead (messages s) = 1" by (simp add: m(2))
  have rows: "filter (\<lambda>x. \<not> ?dead x) (messages s) = filter (\<lambda>x. m_id x \<noteq> ?i) (messages s)"
    using dead by (intro filter_cong) simp_all
  have "{x \<in> set (messages s). ?dead x} = {x \<in> set (messages s). m_id x = ?i}" using dead by blast
  then have "m_id ` {x \<in> set (messages s). ?dead x} = {?i}" using m(1,2) by auto
  note simps = one kept gone rows this
  let ?s = "delete_messages ?dead (s\<lparr>attachments := filter (\<lambda>x. at_message x \<noteq> ?i) (attachments s)\<rparr>)"
  have "forget_attachment ?i (at_object_key a) now s = Inr ?s"
    unfolding forget_attachment_def Let_def kept using one gone by simp
  moreover have "photo_dropped {?i} s ?s"
    using simps by (simp add: photo_dropped_def delete_messages_def Let_def)
  ultimately show thesis by (rule that)
qed

definition photo_marked :: "uuid \<Rightarrow> time \<Rightarrow> 'x msg_db_scheme \<Rightarrow> 'x msg_db_scheme" where
  "photo_marked i now s = s\<lparr>attachments := map (\<lambda>x. if at_message x = i
     then x\<lparr>at_status := PurgePending, at_attempts := Suc (at_attempts x), at_purge_attempt := Some now, at_purge_error := None\<rparr>
     else x) (attachments s)\<rparr>"

lemma claim_photo_ok:
  assumes "message_inv e s" "a \<in> set (attachments s)" "due_photo now s a"
  shows "claim_attachment (at_message a) now (now - RETRY_DELAY_MS) s = (1, photo_marked (at_message a) now s)"
proof -
  let ?i = "at_message a"
  let ?hit = "\<lambda>x. at_message x = ?i \<and> message_expired now s ?i \<and> retryable (now - RETRY_DELAY_MS) (at_purge_attempt x)"
  have hit: "?hit x = (at_message x = ?i)" if "x \<in> set (attachments s)" for x
    using attachment_unique [OF assms(1) that assms(2)] assms(3) unfolding due_photo_def by metis
  have "count_where ?hit (attachments s) = count_where (\<lambda>x. at_message x = ?i) (attachments s)"
    using hit by (rule count_where_cong)
  moreover have "count_where (\<lambda>x. at_message x = ?i) (attachments s) \<noteq> 0" using assms(2) unfolding count_where_0_iff by blast
  ultimately have one: "count_where ?hit (attachments s) = 1" using one_attachment [OF assms(1), of ?i] by linarith
  have "upd_where ?hit g (attachments s) = map (\<lambda>x. if at_message x = ?i then g x else x) (attachments s)" for g
    unfolding upd_where_def using hit by (intro map_cong) simp_all
  with one show ?thesis by (simp add: claim_attachment_def photo_marked_def Let_def)
qed

lemma filter_marked:
  "(\<And>x. f (g x) = f x) \<Longrightarrow> filter (\<lambda>y. f y \<noteq> k) (map (\<lambda>x. if f x = k then g x else x) xs) = filter (\<lambda>y. f y \<noteq> k) xs"
  by (induction xs) auto

lemma purge_attachment_ok:
  assumes "message_inv e s" "a \<in> set (attachments s)" "due_photo now s a" "del (at_object_key a) b = (Inr u, b')"
  obtains s' where "purgeAttachment del now (now - RETRY_DELAY_MS) a (s, b) = (s', b')" "photo_dropped {at_message a} s s'"
proof -
  let ?i = "at_message a" and ?s = "photo_marked (at_message a) now s"
  obtain x where x: "x \<in> set (attachments ?s)" "at_message x = ?i" "at_object_key x = at_object_key a"
    using assms(2) by (force simp: photo_marked_def)
  have "message_inv e ?s"
    by (rule mark_attachments_inv [OF assms(1), where g = "\<lambda>x. if at_message x = ?i then x\<lparr>at_status := PurgePending,
        at_attempts := Suc (at_attempts x), at_purge_attempt := Some now, at_purge_error := None\<rparr> else x"])
      (simp_all add: photo_marked_def)
  moreover have "message_expired now ?s (at_message x)"
    using assms(3) x(2) by (simp add: due_photo_def message_expired_def photo_marked_def)
  ultimately obtain s' where s': "forget_attachment ?i (at_object_key a) now ?s = Inr s'" "photo_dropped {?i} ?s s'"
    using forget_photo_ok [of e ?s x now] x by metis
  have "filter (\<lambda>y. at_message y \<noteq> ?i) (attachments ?s) = filter (\<lambda>y. at_message y \<noteq> ?i) (attachments s)"
    unfolding photo_marked_def by (simp add: filter_marked)
  with s'(2) have "photo_dropped {?i} s s'" by (simp add: photo_dropped_def photo_marked_def)
  moreover have "purgeAttachment del now (now - RETRY_DELAY_MS) a (s, b) = (s', b')"
    using claim_photo_ok [OF assms(1-3)] assms(4) s'(1) by (simp add: purgeAttachment_def purge_object_def)
  ultimately show thesis by (intro that)
qed

section \<open>The loops\<close>

definition delete_all :: "'b deletion \<Rightarrow> string list \<Rightarrow> 'b \<Rightarrow> 'b" where
  "delete_all del keys b = fold (\<lambda>k b. snd (del k b)) keys b"

fun answers :: "'b deletion \<Rightarrow> string list \<Rightarrow> 'b \<Rightarrow> bool" where
  "answers del [] b \<longleftrightarrow> True"
| "answers del (k # keys) b \<longleftrightarrow> fst (del k b) = Inr () \<and> answers del keys (snd (del k b))"

lemma answersD: "fst (del k b) = Inr () \<Longrightarrow> del k b = (Inr (), snd (del k b))"
  by (simp add: prod_eq_iff)

lemma filter_insert: "filter (\<lambda>q. f q \<notin> insert k K) xs = filter (\<lambda>q. f q \<notin> K) (filter (\<lambda>q. f q \<noteq> k) xs)"
  by (auto intro: filter_cong)

lemma upload_loop:
  assumes "answers del (map pu_object_key ps) b" "set ps \<subseteq> set (pending_uploads s)" "distinct (map pu_id ps)"
    "distinct (map pu_id (pending_uploads s))" "\<forall>p \<in> set ps. due_upload now p"
  shows "runConcurrently (purgeAbandonedUpload del now (now - RETRY_DELAY_MS)) ps (s, b) =
    (s\<lparr>pending_uploads := filter (\<lambda>q. pu_id q \<notin> pu_id ` set ps) (pending_uploads s)\<rparr>, delete_all del (map pu_object_key ps) b)"
  using assms unfolding runConcurrently_def
proof (induction ps arbitrary: s b)
  case (Cons p ps)
  let ?s = "s\<lparr>pending_uploads := filter (\<lambda>q. pu_id q \<noteq> pu_id p) (pending_uploads s)\<rparr>"
  have "purgeAbandonedUpload del now (now - RETRY_DELAY_MS) p (s, b) = (?s, snd (del (pu_object_key p) b))"
    using Cons.prems by (intro purge_upload_ok [OF _ _ _ answersD]) simp_all
  moreover have "\<forall>q \<in> set ps. pu_id q \<noteq> pu_id p" using Cons.prems(3) by (auto dest: sym)
  then have "set ps \<subseteq> set (pending_uploads ?s)" using Cons.prems(2) by auto
  moreover have "distinct (map pu_id (pending_uploads ?s))" using Cons.prems(4) by (simp add: distinct_map_filtered)
  ultimately show ?case using Cons.IH [of _ ?s] Cons.prems(1,3,5) by (simp add: delete_all_def filter_insert)
qed (simp add: delete_all_def)

lemma evidence_loop:
  assumes "answers del (map eu_object_key ps) b" "set ps \<subseteq> set (evidence_uploads s)" "distinct (map eu_id ps)"
    "distinct (map eu_id (evidence_uploads s))" "\<forall>p \<in> set ps. due_evidence now p"
  shows "runConcurrently (purgeAbandonedEvidence del now (now - RETRY_DELAY_MS)) ps (s, b) =
    (s\<lparr>evidence_uploads := filter (\<lambda>q. eu_id q \<notin> eu_id ` set ps) (evidence_uploads s)\<rparr>, delete_all del (map eu_object_key ps) b)"
  using assms unfolding runConcurrently_def
proof (induction ps arbitrary: s b)
  case (Cons p ps)
  let ?s = "s\<lparr>evidence_uploads := filter (\<lambda>q. eu_id q \<noteq> eu_id p) (evidence_uploads s)\<rparr>"
  have "purgeAbandonedEvidence del now (now - RETRY_DELAY_MS) p (s, b) = (?s, snd (del (eu_object_key p) b))"
    using Cons.prems by (intro purge_evidence_ok [OF _ _ _ answersD]) simp_all
  moreover have "\<forall>q \<in> set ps. eu_id q \<noteq> eu_id p" using Cons.prems(3) by (auto dest: sym)
  then have "set ps \<subseteq> set (evidence_uploads ?s)" using Cons.prems(2) by auto
  moreover have "distinct (map eu_id (evidence_uploads ?s))" using Cons.prems(4) by (simp add: distinct_map_filtered)
  ultimately show ?case using Cons.IH [of _ ?s] Cons.prems(1,3,5) by (simp add: delete_all_def filter_insert)
qed (simp add: delete_all_def)

lemma photo_dropped_join:
  "photo_dropped {i} s s1 \<Longrightarrow> photo_dropped I s1 s2 \<Longrightarrow> photo_dropped (insert i I) s s2"
  by (simp add: photo_dropped_def)

lemma dropped_due:
  assumes "photo_dropped I s s'" "at_message x \<notin> I" "due_photo now s x"
  shows "due_photo now s' x"
proof -
  obtain m where "m \<in> set (messages s)" "m_id m = at_message x" "m_expires m \<le> now"
    using assms(3) by (auto simp: due_photo_def message_expired_def)
  then have "message_expired now s' (at_message x)"
    using assms(1,2) unfolding photo_dropped_def message_expired_def by (intro bexI [of _ m]) simp_all
  then show ?thesis using assms(3) by (simp add: due_photo_def)
qed

lemma photo_loop:
  assumes "answers del (map at_object_key as) b" "message_inv e s" "set as \<subseteq> set (attachments s)" "distinct (map at_message as)"
    "\<forall>a \<in> set as. due_photo now s a"
  shows "\<exists>s'. runConcurrently (purgeAttachment del now (now - RETRY_DELAY_MS)) as (s, b) =
      (s', delete_all del (map at_object_key as) b) \<and> photo_dropped (at_message ` set as) s s'"
  using assms unfolding runConcurrently_def
proof (induction as arbitrary: s b)
  case Nil
  then show ?case by (simp add: delete_all_def photo_dropped_def)
next
  case (Cons a as)
  have a: "a \<in> set (attachments s)" "due_photo now s a" using Cons.prems(3,5) by simp_all
  have del: "del (at_object_key a) b = (Inr (), snd (del (at_object_key a) b))"
    using Cons.prems(1) by (intro answersD) simp
  obtain s1 where s1: "purgeAttachment del now (now - RETRY_DELAY_MS) a (s, b) = (s1, snd (del (at_object_key a) b))"
    "photo_dropped {at_message a} s s1"
    by (rule purge_attachment_ok [where del = del and b = b and u = "()", OF Cons.prems(2) a del])
  have "at_message a \<in> message_ids s"
    using Cons.prems(2) a(1) unfolding message_inv_def message_links_ok_def by (metis imageI subsetD)
  then have "{at_message a} \<subseteq> message_ids s" by simp
  with s1(2) Cons.prems(2) have inv: "message_inv e s1" by (rule photo_dropped_inv)
  have other: "\<forall>x \<in> set as. at_message x \<noteq> at_message a" using Cons.prems(4) by (auto dest: sym)
  then have "set as \<subseteq> set (attachments s1)" using Cons.prems(3) s1(2) by (auto simp: photo_dropped_def)
  moreover have "\<forall>x \<in> set as. due_photo now s1 x"
    using Cons.prems(5) other dropped_due [OF s1(2)] by simp
  ultimately obtain s2 where s2: "fold (purgeAttachment del now (now - RETRY_DELAY_MS)) as (s1, snd (del (at_object_key a) b)) =
      (s2, delete_all del (map at_object_key as) (snd (del (at_object_key a) b)))" "photo_dropped (at_message ` set as) s1 s2"
    using Cons.IH [OF _ inv, of "snd (del (at_object_key a) b)"] Cons.prems(1,4) by auto
  then show ?case using s1 photo_dropped_join [OF s1(2) s2(2)] by (simp add: delete_all_def)
qed

section \<open>The batch\<close>

context object_deletion
begin

lemma delete_all_contents:
  assumes "trusted" "answers del keys b"
  shows "contents (delete_all del keys b) = {x \<in> contents b. fst x \<notin> set keys}"
  using assms(2) unfolding delete_all_def
proof (induction keys arbitrary: b)
  case (Cons k keys)
  have del: "del k b = (Inr (), snd (del k b))" using Cons.prems by (simp add: prod_eq_iff)
  have "k \<notin> fst ` contents (snd (del k b))" by (rule deleted_gone [OF assms(1) del])
  moreover have "contents (snd (del k b)) \<subseteq> contents b" by (rule nothing_added [OF assms(1) del])
  moreover have "x \<in> contents (snd (del k b))" if "x \<in> contents b" "fst x \<noteq> k" for x
    by (rule others_kept [OF assms(1) del that])
  ultimately have "contents (snd (del k b)) = {x \<in> contents b. fst x \<noteq> k}" by force
  then show ?case using Cons by auto
qed simp

lemma answersI:
  assumes "trusted" "\<And>k b'. k \<in> set keys \<Longrightarrow> contents b' \<subseteq> contents b \<Longrightarrow> fst (del k b') = Inr ()"
  shows "answers del keys b"
  using assms(2)
proof (induction keys arbitrary: b)
  case (Cons k keys)
  have "contents (snd (del k b)) \<subseteq> contents b" using nothing_added [OF assms(1)] by (metis prod.collapse)
  with Cons show ?case by simp
qed simp

end

text \<open>A batch takes at most 100 rows of a kind, each once.\<close>

lemma batch_rows:
  assumes "length (filter P xs) \<le> BATCH_SIZE"
  shows "set (take BATCH_SIZE (sort_key f (sort_key g (filter P xs)))) = set (filter P xs)"
    and "distinct (map h xs) \<Longrightarrow> distinct (map h (take BATCH_SIZE (sort_key f (sort_key g (filter P xs)))))"
proof -
  have all: "take BATCH_SIZE (sort_key f (sort_key g (filter P xs))) = sort_key f (sort_key g (filter P xs))"
    using assms by (intro take_all) simp
  show "set (take BATCH_SIZE (sort_key f (sort_key g (filter P xs)))) = set (filter P xs)" unfolding all by simp
  show "distinct (map h (take BATCH_SIZE (sort_key f (sort_key g (filter P xs)))))" if "distinct (map h xs)"
  proof -
    have "distinct (map h (filter P xs))" using that by (rule distinct_map_filtered)
    then show ?thesis unfolding all by (simp add: distinct_map)
  qed
qed

lemma filter_out: "distinct (map f xs) \<Longrightarrow> filter (\<lambda>x. f x \<notin> f ` set (filter P xs)) xs = filter (\<lambda>x. \<not> P x) xs"
proof (intro filter_cong refl)
  fix x assume d: "distinct (map f xs)" and x: "x \<in> set xs"
  have "y = x" if "y \<in> set xs" "f y = f x" for y using distinct_key_eq [OF d that(1) x that(2)] .
  then show "(f x \<notin> f ` set (filter P xs)) = (\<not> P x)" using x by auto
qed

lemma distinct_attachments: "message_inv e s \<Longrightarrow> distinct (map at_message (attachments s))"
proof -
  assume "message_inv e s"
  then have "\<forall>i. count_where (\<lambda>a. at_message a = i) (attachments s) \<le> 1" using one_attachment by blast
  moreover have "\<forall>i. count_where (\<lambda>x. f x = i) xs \<le> 1 \<Longrightarrow> distinct (map f xs)" for f :: "attachment_row \<Rightarrow> uuid" and xs
  proof (induction xs)
    case (Cons x xs)
    have "count_where (\<lambda>y. f y = i) xs \<le> 1" for i using Cons.prems [rule_format, of i] by (simp split: if_splits)
    moreover have "count_where (\<lambda>y. f y = f x) xs = 0" using Cons.prems [rule_format, of "f x"] by simp
    ultimately show ?case using Cons.IH unfolding count_where_0_iff by auto
  qed simp
  ultimately show ?thesis by blast
qed

definition due_keys :: "time \<Rightarrow> retention_db \<Rightarrow> string set" where
  "due_keys now s = pu_object_key ` set (filter (due_upload now) (pending_uploads s)) \<union>
     eu_object_key ` set (filter (due_evidence now) (evidence_uploads s)) \<union>
     at_object_key ` set (filter (due_photo now s) (attachments s))"

definition batch_fits :: "time \<Rightarrow> retention_db \<Rightarrow> bool" where
  "batch_fits now s \<longleftrightarrow> length (filter (due_upload now) (pending_uploads s)) \<le> BATCH_SIZE \<and>
     length (filter (due_evidence now) (evidence_uploads s)) \<le> BATCH_SIZE \<and>
     length (filter (due_photo now s) (attachments s)) \<le> BATCH_SIZE"

definition row_ids_ok :: "retention_db \<Rightarrow> bool" where
  "row_ids_ok s \<longleftrightarrow> distinct (map pu_id (pending_uploads s)) \<and> distinct (map eu_id (evidence_uploads s))"

lemma purge_rows_tables:
  "messages (purge_rows now s) = filter (\<lambda>m. \<not> (m_expires m \<le> now \<and> \<not> has_attachment s m)) (messages s)"
  "attachments (purge_rows now s) = attachments s" "pending_uploads (purge_rows now s) = pending_uploads s"
  "evidence_uploads (purge_rows now s) = evidence_uploads s"
  by (simp_all add: purge_rows_def delete_messages_def Let_def)

lemma due_photo_rows:
  "a \<in> set (attachments s) \<Longrightarrow> messages s' = messages (purge_rows now s) \<Longrightarrow> due_photo now s' a = due_photo now s a"
proof -
  assume a: "a \<in> set (attachments s)" and s': "messages s' = messages (purge_rows now s)"
  have "has_attachment s m" if "m_id m = at_message a" for m using a that unfolding has_attachment_def by metis
  then have "message_expired now s' (at_message a) = message_expired now s (at_message a)"
    unfolding message_expired_def s' purge_rows_tables by auto
  then show "due_photo now s' a = due_photo now s a" by (simp add: due_photo_def)
qed

lemma batch_sets:
  "length (filter (due_upload now) (pending_uploads s)) \<le> BATCH_SIZE \<Longrightarrow>
     set (abandoned_uploads now (now - RETRY_DELAY_MS) s) = set (filter (due_upload now) (pending_uploads s))"
  "length (filter (due_evidence now) (evidence_uploads s)) \<le> BATCH_SIZE \<Longrightarrow>
     set (abandoned_evidence now (now - RETRY_DELAY_MS) s) = set (filter (due_evidence now) (evidence_uploads s))"
  "length (filter (due_photo now s) (attachments s)) \<le> BATCH_SIZE \<Longrightarrow>
     set (expired_images now (now - RETRY_DELAY_MS) s) = set (filter (due_photo now s) (attachments s))"
  unfolding abandoned_uploads_def abandoned_evidence_def expired_images_def due_upload_def due_evidence_def due_photo_def
  by (rule batch_rows(1), assumption)+

lemma uploads_purged:
  assumes "answers del (map pu_object_key (abandoned_uploads now (now - RETRY_DELAY_MS) s)) b" "distinct (map pu_id (pending_uploads s))" "length (filter (due_upload now) (pending_uploads s)) \<le> BATCH_SIZE"
  shows "runConcurrently (purgeAbandonedUpload del now (now - RETRY_DELAY_MS)) (abandoned_uploads now (now - RETRY_DELAY_MS) s) (s, b) =
      (s\<lparr>pending_uploads := filter (\<lambda>p. \<not> due_upload now p) (pending_uploads s)\<rparr>,
       delete_all del (map pu_object_key (abandoned_uploads now (now - RETRY_DELAY_MS) s)) b)"
proof -
  let ?ps = "abandoned_uploads now (now - RETRY_DELAY_MS) s"
  have rows: "?ps = take BATCH_SIZE (sort_key pu_purge_attempt (sort_key pu_expires (filter (due_upload now) (pending_uploads s))))"
    by (simp only: abandoned_uploads_def due_upload_def [abs_def])
  have all: "set ?ps = set (filter (due_upload now) (pending_uploads s))" by (rule batch_sets(1) [OF assms(3)])
  have ids: "distinct (map pu_id ?ps)" unfolding rows by (rule batch_rows(2) [OF assms(3,2)])
  have "set ?ps \<subseteq> set (pending_uploads s)" "\<forall>p \<in> set ?ps. due_upload now p" by (simp_all add: all)
  from upload_loop [OF assms(1) this(1) ids assms(2) this(2)]
  show "runConcurrently (purgeAbandonedUpload del now (now - RETRY_DELAY_MS)) ?ps (s, b) =
      (s\<lparr>pending_uploads := filter (\<lambda>p. \<not> due_upload now p) (pending_uploads s)\<rparr>, delete_all del (map pu_object_key ?ps) b)"
    by (simp only: all filter_out [OF assms(2)])
qed

lemma evidence_purged:
  assumes "answers del (map eu_object_key (abandoned_evidence now (now - RETRY_DELAY_MS) s)) b" "distinct (map eu_id (evidence_uploads s))" "length (filter (due_evidence now) (evidence_uploads s)) \<le> BATCH_SIZE"
  shows "runConcurrently (purgeAbandonedEvidence del now (now - RETRY_DELAY_MS)) (abandoned_evidence now (now - RETRY_DELAY_MS) s) (s, b) =
      (s\<lparr>evidence_uploads := filter (\<lambda>p. \<not> due_evidence now p) (evidence_uploads s)\<rparr>,
       delete_all del (map eu_object_key (abandoned_evidence now (now - RETRY_DELAY_MS) s)) b)"
proof -
  let ?ps = "abandoned_evidence now (now - RETRY_DELAY_MS) s"
  have rows: "?ps = take BATCH_SIZE (sort_key eu_purge_attempt (sort_key eu_expires (filter (due_evidence now) (evidence_uploads s))))"
    by (simp only: abandoned_evidence_def due_evidence_def [abs_def])
  have all: "set ?ps = set (filter (due_evidence now) (evidence_uploads s))" by (rule batch_sets(2) [OF assms(3)])
  have ids: "distinct (map eu_id ?ps)" unfolding rows by (rule batch_rows(2) [OF assms(3,2)])
  have "set ?ps \<subseteq> set (evidence_uploads s)" "\<forall>p \<in> set ?ps. due_evidence now p" by (simp_all add: all)
  from evidence_loop [OF assms(1) this(1) ids assms(2) this(2)]
  show "runConcurrently (purgeAbandonedEvidence del now (now - RETRY_DELAY_MS)) ?ps (s, b) =
      (s\<lparr>evidence_uploads := filter (\<lambda>p. \<not> due_evidence now p) (evidence_uploads s)\<rparr>, delete_all del (map eu_object_key ?ps) b)"
    by (simp only: all filter_out [OF assms(2)])
qed

lemma images_purged:
  assumes "answers del (map at_object_key (expired_images now (now - RETRY_DELAY_MS) s)) b" "message_inv e s" "length (filter (due_photo now s) (attachments s)) \<le> BATCH_SIZE"
  obtains s' where "runConcurrently (purgeAttachment del now (now - RETRY_DELAY_MS)) (expired_images now (now - RETRY_DELAY_MS) s) (s, b) =
      (s', delete_all del (map at_object_key (expired_images now (now - RETRY_DELAY_MS) s)) b)"
    "photo_dropped (at_message ` set (filter (due_photo now s) (attachments s))) s s'"
proof -
  let ?as = "expired_images now (now - RETRY_DELAY_MS) s"
  have rows: "?as = take BATCH_SIZE (sort_key at_purge_attempt (sort_key at_created (filter (due_photo now s) (attachments s))))"
    by (simp only: expired_images_def due_photo_def [abs_def])
  have all: "set ?as = set (filter (due_photo now s) (attachments s))" by (rule batch_sets(3) [OF assms(3)])
  have ids: "distinct (map at_message ?as)"
    unfolding rows by (rule batch_rows(2) [OF assms(3) distinct_attachments [OF assms(2)]])
  have "set ?as \<subseteq> set (attachments s)" "\<forall>a \<in> set ?as. due_photo now s a" by (simp_all add: all)
  from photo_loop [OF assms(1,2) this(1) ids this(2)]
  obtain s' where "runConcurrently (purgeAttachment del now (now - RETRY_DELAY_MS)) ?as (s, b) =
      (s', delete_all del (map at_object_key ?as) b)" "photo_dropped (at_message ` set ?as) s s'" by blast
  then show thesis by (intro that) (simp_all only: all)
qed

text \<open>A message goes when it has expired and has no photo, or one that is due.\<close>

lemma batch_messages:
  assumes "message_inv e s"
  shows "filter (\<lambda>m. m_id m \<notin> at_message ` set (filter (due_photo now s) (attachments s))) (messages (purge_rows now s)) =
    filter (\<lambda>m. \<not> (m_expires m \<le> now \<and>
      (\<forall>a \<in> set (attachments s). at_message a = m_id m \<longrightarrow> due_photo now s a))) (messages s)"
  unfolding purge_rows_tables filter_filter
proof (rule filter_cong [OF refl])
  fix m assume m: "m \<in> set (messages s)"
  have ids: "distinct (map m_id (messages s))" using assms by (simp add: message_inv_def message_keys_ok_def)
  have exp: "m_expires m \<le> now" if "due_photo now s a" "at_message a = m_id m" for a :: attachment_row
  proof -
    from that obtain n where n: "n \<in> set (messages s)" "m_id n = m_id m" "m_expires n \<le> now"
      by (auto simp: due_photo_def message_expired_def)
    have "n = m" by (rule distinct_key_eq [OF ids n(1) m n(2)])
    then show ?thesis using n(3) by simp
  qed
  show "(\<not> (m_expires m \<le> now \<and> \<not> has_attachment s m) \<and> m_id m \<notin> at_message ` set (filter (due_photo now s) (attachments s))) =
    (\<not> (m_expires m \<le> now \<and> (\<forall>a \<in> set (attachments s). at_message a = m_id m \<longrightarrow> due_photo now s a)))"
  proof (cases "has_attachment s m")
    case True
    then obtain a where a: "a \<in> set (attachments s)" "at_message a = m_id m" by (auto simp: has_attachment_def)
    have only: "x = a" if "x \<in> set (attachments s)" "at_message x = m_id m" for x
      using attachment_unique [OF assms that(1) a(1)] that(2) a(2) by simp
    have "(m_id m \<in> at_message ` set (filter (due_photo now s) (attachments s))) = due_photo now s a"
    proof
      assume "m_id m \<in> at_message ` set (filter (due_photo now s) (attachments s))"
      then obtain x where "x \<in> set (attachments s)" "due_photo now s x" "at_message x = m_id m" by auto
      with only show "due_photo now s a" by metis
    next
      assume "due_photo now s a"
      then have "a \<in> set (filter (due_photo now s) (attachments s))" using a(1) by simp
      then show "m_id m \<in> at_message ` set (filter (due_photo now s) (attachments s))" using a(2) by (metis imageI)
    qed
    moreover have "(\<forall>x \<in> set (attachments s). at_message x = m_id m \<longrightarrow> due_photo now s x) = due_photo now s a"
      using only a by metis
    ultimately show ?thesis using True exp a(2) by blast
  next
    case False
    then have none: "\<forall>a \<in> set (attachments s). at_message a \<noteq> m_id m" by (simp add: has_attachment_def)
    then have "m_id m \<notin> at_message ` set (filter (due_photo now s) (attachments s))" by auto
    with none False show ?thesis by metis
  qed
qed

text \<open>The database when only the photos are left to purge.\<close>

definition photos_left :: "time \<Rightarrow> retention_db \<Rightarrow> retention_db" where
  "photos_left now s = (purge_rows now s)\<lparr>pending_uploads := filter (\<lambda>p. \<not> due_upload now p) (pending_uploads s),
     evidence_uploads := filter (\<lambda>p. \<not> due_evidence now p) (evidence_uploads s)\<rparr>"

lemma photos_left_tables:
  "messages (photos_left now s) = messages (purge_rows now s)" "attachments (photos_left now s) = attachments s"
  "pending_uploads (photos_left now s) = filter (\<lambda>p. \<not> due_upload now p) (pending_uploads s)"
  "evidence_uploads (photos_left now s) = filter (\<lambda>p. \<not> due_evidence now p) (evidence_uploads s)"
  by (simp_all add: photos_left_def purge_rows_tables)

lemma photos_left_inv: "message_inv e s \<Longrightarrow> message_inv e (photos_left now s)"
proof -
  assume "message_inv e s"
  then have "message_inv e (purge_rows now s)" by (rule purge_rows_inv)
  moreover have "same_messages (purge_rows now s) (photos_left now s)" by (simp add: photos_left_def same_messages_def)
  ultimately show "message_inv e (photos_left now s)" by (rule same_messages_inv)
qed

text \<open>The batch, loop by loop.\<close>

lemma batch_result:
  assumes "storage_sound protocol env c contents"
    "\<forall>k \<in> due_keys now s. \<forall>b0. contents b0 \<subseteq> contents b \<longrightarrow> fst (delete_object protocol env c k b0) = Inr ()"
    "message_inv e s" "row_ids_ok s" "batch_fits now s"
  obtains s' b' where "runBatch (delete_object protocol env c) now False (s, b) = (s', b')"
    "photo_dropped (at_message ` set (filter (due_photo now s) (attachments s))) (photos_left now s) s'"
    "contents b' = {x \<in> contents b. fst x \<notin> due_keys now s}"
proof -
  let ?del = "delete_object protocol env c" and ?retry = "now - RETRY_DELAY_MS" and ?due = "due_photo now s"
  let ?s1 = "purge_rows now s"
  let ?s2 = "?s1\<lparr>pending_uploads := filter (\<lambda>p. \<not> due_upload now p) (pending_uploads s)\<rparr>"
  let ?s3 = "photos_left now s"
  have inv: "message_inv e ?s3"
    by (rule photos_left_inv [OF assms(3)])
  have photos: "filter (due_photo now ?s3) (attachments ?s3) = filter ?due (attachments s)"
    unfolding photos_left_tables by (intro filter_cong refl due_photo_rows) (simp_all add: photos_left_tables)
  have fits: "length (filter (due_upload now) (pending_uploads ?s1)) \<le> BATCH_SIZE"
    "length (filter (due_evidence now) (evidence_uploads ?s2)) \<le> BATCH_SIZE"
    "length (filter (due_photo now ?s3) (attachments ?s3)) \<le> BATCH_SIZE"
    and ids: "distinct (map pu_id (pending_uploads ?s1))" "distinct (map eu_id (evidence_uploads ?s2))"
    using assms(4,5) unfolding photos by (simp_all add: batch_fits_def row_ids_ok_def purge_rows_tables)
  let ?U = "map pu_object_key (abandoned_uploads now ?retry ?s1)" and ?E = "map eu_object_key (abandoned_evidence now ?retry ?s2)"
    and ?A = "map at_object_key (expired_images now ?retry ?s3)"
  let ?b2 = "delete_all ?del ?U b"
  let ?b3 = "delete_all ?del ?E ?b2"
  have images: "set (expired_images now ?retry ?s3) = set (filter ?due (attachments s))"
    using batch_sets(3) [OF fits(3)] unfolding photos .
  have sets: "set ?U = pu_object_key ` set (filter (due_upload now) (pending_uploads s))"
    "set ?E = eu_object_key ` set (filter (due_evidence now) (evidence_uploads s))"
    "set ?A = at_object_key ` set (filter ?due (attachments s))"
    using batch_sets(1) [OF fits(1)] batch_sets(2) [OF fits(2)]
    by (simp_all add: purge_rows_tables images del: set_filter)
  then have keys: "set ?U \<union> set ?E \<union> set ?A = due_keys now s" by (simp only: due_keys_def)
  have ok: "answers ?del ks c" if "set ks \<subseteq> due_keys now s" "contents c \<subseteq> contents b" for ks c
    using that assms(2) by (intro deletion.answersI [OF assms(1)]) blast
  have okU: "answers ?del ?U b" using keys by (intro ok) auto
  note b2 = deletion.delete_all_contents [OF assms(1) okU]
  have okE: "answers ?del ?E ?b2" using keys b2 by (intro ok) auto
  note b3 = deletion.delete_all_contents [OF assms(1) okE]
  have okA: "answers ?del ?A ?b3" using keys b2 b3 by (intro ok) auto
  note b4 = deletion.delete_all_contents [OF assms(1) okA]
  obtain s4 where s4: "runConcurrently (purgeAttachment ?del now ?retry) (expired_images now ?retry ?s3) (?s3, ?b3) =
      (s4, delete_all ?del ?A ?b3)" "photo_dropped (at_message ` set (filter ?due (attachments s))) ?s3 s4"
    using images_purged [OF okA inv fits(3)] unfolding photos by blast
  have "runBatch ?del now False (s, b) = (s4, delete_all ?del ?A ?b3)"
    using uploads_purged [OF okU ids(1) fits(1)] evidence_purged [OF okE ids(2) fits(2)] s4(1)
    by (simp add: runBatch_def Let_def purge_rows_tables photos_left_def)
  moreover have "contents (delete_all ?del ?A ?b3) = {x \<in> contents b. fst x \<notin> due_keys now s}"
    unfolding b4 b3 b2 keys [symmetric] by auto
  ultimately show thesis using s4(2) by (intro that)
qed

text \<open>C37: when the storage answers the deletions of a batch and no kind has more than 100 rows due, one batch
  removes exactly what is due: the expired reservations, evidence uploads and messages (a message with a photo
  goes with it, unless the photo was tried in the last minute), with all that hangs on the messages, and from
  the bucket exactly the objects of the removed rows; the tables stay well formed.\<close>

theorem batch_purges_what_is_due:
  assumes "storage_sound protocol env c contents"
    "\<forall>k \<in> due_keys now s. \<forall>b0. contents b0 \<subseteq> contents b \<longrightarrow> fst (delete_object protocol env c k b0) = Inr ()"
    "message_inv e s" "row_ids_ok s" "batch_fits now s"
    "runBatch (delete_object protocol env c) now False (s, b) = (s', b')"
  shows "pending_uploads s' = filter (\<lambda>p. \<not> due_upload now p) (pending_uploads s) \<and>
    evidence_uploads s' = filter (\<lambda>p. \<not> due_evidence now p) (evidence_uploads s) \<and>
    attachments s' = filter (\<lambda>a. \<not> due_photo now s a) (attachments s) \<and>
    messages s' = filter (\<lambda>m. \<not> (m_expires m \<le> now \<and>
      (\<forall>a \<in> set (attachments s). at_message a = m_id m \<longrightarrow> due_photo now s a))) (messages s) \<and>
    contents b' = {x \<in> contents b. fst x \<notin> due_keys now s} \<and> message_inv e s'"
proof -
  let ?due = "due_photo now s"
  obtain s4 b4 where run: "runBatch (delete_object protocol env c) now False (s, b) = (s4, b4)"
    "photo_dropped (at_message ` set (filter ?due (attachments s))) (photos_left now s) s4"
    "contents b4 = {x \<in> contents b. fst x \<notin> due_keys now s}"
    by (rule batch_result [OF assms(1-5)])
  then have res: "s' = s4" "b' = b4" using assms(6) by simp_all
  have inv: "message_inv e (photos_left now s)" by (rule photos_left_inv [OF assms(3)])
  have at: "filter (\<lambda>a. at_message a \<notin> at_message ` set (filter ?due (attachments s))) (attachments s) =
      filter (\<lambda>a. \<not> ?due a) (attachments s)" by (rule filter_out [OF distinct_attachments [OF assms(3)]])
  have "at_message ` set (filter ?due (attachments s)) \<subseteq> message_ids (photos_left now s)"
    using inv unfolding message_inv_def message_links_ok_def by (auto simp: photos_left_tables)
  with run(2) inv have "message_inv e s4" by (rule photo_dropped_inv)
  moreover have "evidence_uploads s4 = evidence_uploads (photos_left now s)"
    using run(2) unfolding photo_dropped_def by (cases s4; cases "photos_left now s") simp
  moreover have "messages s4 = filter (\<lambda>m. \<not> (m_expires m \<le> now \<and>
      (\<forall>a \<in> set (attachments s). at_message a = m_id m \<longrightarrow> ?due a))) (messages s)"
    using run(2) unfolding batch_messages [OF assms(3), symmetric] by (simp add: photo_dropped_def photos_left_tables)
  ultimately show ?thesis using run(2,3) at by (simp add: res photo_dropped_def photos_left_tables)
qed

section \<open>Witnesses\<close>

text \<open>A sent photo that lives, the expired reservation of another, and their objects in the bucket.\<close>

definition demo_retention_env :: storage_env where
  "demo_retention_env = demo_storage_env\<lparr>se_versioning := None, se_node_env := None\<rparr>"

definition demo_abandoned :: pending_upload where
  "demo_abandoned = demo_pending\<lparr>pu_id := uuid_text 99, pu_object_key := photo_prefix @ uuid_text 99\<rparr>"

definition demo_retention :: retention_db where
  "demo_retention = msg_db.extend (demo_chat_sent\<lparr>pending_uploads := [demo_abandoned]\<rparr>) \<lparr>evidence_uploads = []\<rparr>"

definition demo_objects :: "(string \<times> string) list" where
  "demo_objects = [(ug_object_key demo_photo_grant, ''1''), (photo_prefix @ uuid_text 99, ''2'')]"

lemma demo_retention_tables:
  "messages demo_retention = [demo_message]" "envelopes demo_retention = new_envelopes 7 demo_photo"
  "receipts demo_retention = receipts demo_chat_sent" "attachments demo_retention = new_attachment 10 7 (Some demo_photo_grant)"
  "pending_uploads demo_retention = [demo_abandoned]" "evidence_uploads demo_retention = []" "draws demo_retention = 1"
  "message_sequence demo_retention = 2"
  by (simp_all add: demo_retention_def msg_db.extend_def demo_chat_sent_def)

lemma small_uuid_text: "n < 100 \<Longrightarrow> photo_prefix @ uuid_text n \<noteq> ug_object_key demo_photo_grant"
  using small_uuid_fresh [of n] by (simp add: demo_photo_grant_def new_grant_def photo_prefix_def)

lemma demo_retention_inv: "message_inv demo_msg_ids demo_retention"
proof -
  have "(Some demo_photo_grant = None) = (mi_kind demo_photo = TEXT)" by (simp add: demo_photo_def)
  from store_inv(1) [OF demo_store this demo_inv] have inv: "message_inv demo_msg_ids demo_chat_sent" .
  have same: "messages demo_retention = messages demo_chat_sent" "envelopes demo_retention = envelopes demo_chat_sent"
    "receipts demo_retention = receipts demo_chat_sent" "attachments demo_retention = attachments demo_chat_sent"
    "draws demo_retention = draws demo_chat_sent" "message_sequence demo_retention = message_sequence demo_chat_sent"
    unfolding demo_retention_tables by (simp_all add: demo_chat_sent_def)
  show ?thesis using inv unfolding message_inv_def message_keys_ok_def message_links_ok_def message_rows_ok_def message_ids_def same .
qed

lemma demo_sound: "s3_sound demo_bucket cfg (\<lambda>b. set (demo_versions b))"
  unfolding s3_sound_def
proof (intro conjI allI impI)
  fix b key page
  assume list: "s3_list_versions demo_bucket (sc_bucket cfg) key 1000 b = Inr page"
    "\<forall>i. (key, i) \<in> set (listed_versions page) \<longrightarrow> i = []"
  then have "listed_versions page = take 1000 (demo_listing key b)" by (auto simp: demo_bucket_def demo_listed)
  moreover have "snd x \<noteq> []" if "x \<in> set (demo_versions b)" for x using that by (simp add: demo_versions_def)
  ultimately have "\<forall>x \<in> set (take 1000 (demo_listing key b)). fst x \<noteq> key"
    using list(2) demo_listing_page(2) [where n = 1000 and key = key and b = b] by (metis prod.collapse subsetD)
  then have "count_where (\<lambda>x. fst x = key) (take 1000 (demo_listing key b)) = 0" by (simp add: count_where_0_iff)
  then have "\<forall>x \<in> set (demo_versions b). fst x \<noteq> key" unfolding demo_listing_page(3) by (simp add: min_def count_where_0_iff split: if_splits)
  then show "key \<notin> fst ` set (demo_versions b)" by auto
qed (auto simp: demo_bucket_def demo_versions_def)

lemma demo_retention_sound: "storage_sound (\<lambda>_. Some ''https:'') demo_retention_env demo_bucket (\<lambda>b. set (demo_versions b))"
  using demo_sound by (simp add: storage_sound_def)

lemma demo_deletes: "fst (delete_object (\<lambda>_. Some ''https:'') demo_retention_env demo_bucket k b) = Inr ()"
proof -
  have "getConfiguration (\<lambda>_. Some ''https:'') demo_retention_env =
    Inr (demo_configuration\<lparr>sc_mode := VersioningDisabled\<rparr>)" by code_simp
  then show ?thesis by (simp add: delete_object_def demo_configuration_def demo_bucket_def)
qed

lemma demo_due: "due_upload 700000 demo_abandoned" "\<not> due_photo 700000 demo_retention a"
  by (simp_all add: due_upload_def demo_abandoned_def demo_pending_def retryable_def due_photo_def message_expired_def
      demo_retention_tables demo_message_def)

lemma demo_fits: "batch_fits 700000 demo_retention" "row_ids_ok demo_retention"
  using demo_due by (simp_all add: batch_fits_def row_ids_ok_def demo_retention_tables)

lemma demo_answers: "\<forall>k \<in> due_keys 700000 demo_retention. \<forall>b0. set (demo_versions b0) \<subseteq> set (demo_versions demo_objects) \<longrightarrow>
    fst (delete_object (\<lambda>_. Some ''https:'') demo_retention_env demo_bucket k b0) = Inr ()"
  by (simp only: demo_deletes) simp

theorem batch_purges_what_is_due_witness:
  "\<exists>s b. runBatch (delete_object (\<lambda>_. Some ''https:'') demo_retention_env demo_bucket) 700000 False (demo_retention, demo_objects) = (s, b) \<and>
    pending_uploads s = [] \<and> messages s = [demo_message] \<and> set (demo_versions b) = {(ug_object_key demo_photo_grant, ''1'')}"
proof -
  obtain s b where run: "runBatch (delete_object (\<lambda>_. Some ''https:'') demo_retention_env demo_bucket) 700000 False
    (demo_retention, demo_objects) = (s, b)" by fastforce
  have keys: "due_keys 700000 demo_retention = {photo_prefix @ uuid_text 99}"
    using demo_due by (simp add: due_keys_def demo_retention_tables demo_abandoned_def)
  have objects: "set (demo_versions demo_objects) = set demo_objects" by (auto simp: demo_versions_def demo_objects_def)
  have other: "ug_object_key demo_photo_grant \<noteq> photo_prefix @ uuid_text 99" using small_uuid_text [of 99] by simp
  note result = batch_purges_what_is_due [OF demo_retention_sound demo_answers demo_retention_inv demo_fits(2,1) run]
  note res = result [THEN conjunct1] result [THEN conjunct2, THEN conjunct2, THEN conjunct2, THEN conjunct1]
    result [THEN conjunct2, THEN conjunct2, THEN conjunct2, THEN conjunct2, THEN conjunct1]
  have "pending_uploads s = []" using res(1) demo_due by (simp add: demo_retention_tables)
  moreover have "messages s = [demo_message]" using res(2) by (simp add: demo_retention_tables demo_message_def)
  moreover have "set (demo_versions b) = {(ug_object_key demo_photo_grant, ''1'')}"
    unfolding res(3) keys objects using other by (auto simp: demo_objects_def)
  ultimately show ?thesis using run by blast
qed

end
