(* ===== verification/RetentionClaims.thy ===== *)
theory RetentionClaims
  imports RetentionBatch
begin

text \<open>
  What the retention worker guarantees: photos of unexpired messages stay, no photo outlives its rows,
  a batch is a run of the steps, and with a storage that answers it removes exactly what has expired.
\<close>

section \<open>The keys that may still be uploaded to\<close>

text \<open>
  A key is held up to an instant by an unclaimed reservation that ends then, or by the photo of a message
  that expires no earlier.  The row of every URL that has not run out is there.
\<close>

definition held_key :: "time \<Rightarrow> retention_db \<Rightarrow> string \<Rightarrow> bool" where
  "held_key t s k \<longleftrightarrow>
     (\<exists>p \<in> set (pending_uploads s). pu_object_key p = k \<and> pu_expires p = t \<and> pu_purge_attempt p = None) \<or>
     (\<exists>a \<in> set (attachments s). at_object_key a = k \<and> (\<exists>m \<in> set (messages s). m_id m = at_message a \<and> t \<le> m_expires m))"

definition urls_ok :: "'b world \<Rightarrow> bool" where
  "urls_ok w \<longleftrightarrow> fst ` w_urls w \<subseteq> w_granted w \<and>
     (\<forall>(k, t) \<in> w_urls w. w_clock w < t \<longrightarrow> held_key t (w_db w) k)"

lemma held_live: "held_key t s k \<Longrightarrow> now < t \<Longrightarrow> live_key now s k"
  unfolding held_key_def live_key_def by (meson less_le_trans)

lemma held_keyE:
  assumes "held_key t s k"
  obtains p where "p \<in> set (pending_uploads s)" "pu_object_key p = k" "pu_expires p = t" "pu_purge_attempt p = None"
  | a m where "a \<in> set (attachments s)" "at_object_key a = k" "m \<in> set (messages s)" "m_id m = at_message a" "t \<le> m_expires m"
  using assms unfolding held_key_def by blast

lemma held_upload:
  "p \<in> set (pending_uploads s) \<Longrightarrow> pu_object_key p = k \<Longrightarrow> pu_expires p = t \<Longrightarrow> pu_purge_attempt p = None \<Longrightarrow> held_key t s k"
  unfolding held_key_def by blast

lemma held_photo:
  "a \<in> set (attachments s) \<Longrightarrow> at_object_key a = k \<Longrightarrow> m \<in> set (messages s) \<Longrightarrow> m_id m = at_message a \<Longrightarrow>
     t \<le> m_expires m \<Longrightarrow> held_key t s k"
  unfolding held_key_def by blast

text \<open>What keeps the rows keeps the keys held.\<close>

lemma held_mono:
  assumes "held_key t s k" "set (messages s) \<subseteq> set (messages s')"
    "\<And>p. p \<in> set (pending_uploads s) \<Longrightarrow> pu_object_key p = k \<Longrightarrow> pu_expires p = t \<Longrightarrow> pu_purge_attempt p = None \<Longrightarrow>
       p \<in> set (pending_uploads s')"
    "\<And>a. a \<in> set (attachments s) \<Longrightarrow> \<exists>a' \<in> set (attachments s'). at_object_key a' = at_object_key a \<and> at_message a' = at_message a"
  shows "held_key t s' k"
  using assms(1)
proof (rule held_keyE)
  fix p assume "p \<in> set (pending_uploads s)" "pu_object_key p = k" "pu_expires p = t" "pu_purge_attempt p = None"
  with assms(3) show ?thesis by (intro held_upload)
next
  fix a m assume a: "a \<in> set (attachments s)" "at_object_key a = k" "m \<in> set (messages s)" "m_id m = at_message a" "t \<le> m_expires m"
  from assms(4) [OF a(1)] obtain a' where "a' \<in> set (attachments s')" "at_object_key a' = at_object_key a" "at_message a' = at_message a"
    by blast
  with a assms(2) show ?thesis by (intro held_photo [of a' _ _ m]) auto
qed

lemma marked_photo:
  assumes "a \<in> set as" "\<And>b. at_object_key (f b) = at_object_key b \<and> at_message (f b) = at_message b"
  shows "\<exists>b \<in> set (upd_where P f as). at_object_key b = at_object_key a \<and> at_message b = at_message a"
proof -
  have "(if P a then f a else a) \<in> set (upd_where P f as)" using assms(1) by (auto simp: set_upd_where)
  then show ?thesis by (rule bexI [rotated]) (simp add: assms(2))
qed

lemma held_claim:
  assumes "held_key t s k" "claim_target j s = (n, s')" "jb_now j < t"
  shows "held_key t s' k"
proof (cases "jb_target j")
  case (UploadObject i)
  then have s': "pending_uploads s' = upd_where (\<lambda>p. pu_id p = i \<and> pu_expires p \<le> jb_now j \<and> retryable (jb_retry j) (pu_purge_attempt p))
      (\<lambda>p. p\<lparr>pu_attempts := Suc (pu_attempts p), pu_purge_attempt := Some (jb_now j), pu_purge_error := None\<rparr>) (pending_uploads s)"
    "attachments s' = attachments s" "messages s' = messages s"
    using assms(2) by (auto simp: claim_upload_def Let_def)
  show ?thesis
  proof (rule held_mono [OF assms(1)])
    fix p assume "p \<in> set (pending_uploads s)" "pu_expires p = t"
    then show "p \<in> set (pending_uploads s')" using assms(3) unfolding s'(1) set_upd_where by (force simp: image_iff)
  qed (auto simp: s')
next
  case (EvidenceObject i)
  then have "pending_uploads s' = pending_uploads s" "attachments s' = attachments s" "messages s' = messages s"
    using assms(2) by (auto simp: claim_evidence_def Let_def)
  then show ?thesis by (intro held_mono [OF assms(1)]) auto
next
  case (PhotoObject i)
  then obtain P f where s': "attachments s' = upd_where P f (attachments s)"
      "\<forall>a. at_object_key (f a) = at_object_key a \<and> at_message (f a) = at_message a"
    and same: "pending_uploads s' = pending_uploads s" "messages s' = messages s"
    using assms(2) by (auto simp: claim_attachment_def Let_def)
  show ?thesis
    by (rule held_mono [OF assms(1)]) (use s'(2) in \<open>simp_all add: same s'(1) marked_photo\<close>)
qed

text \<open>A job that failed or removed its object is not for a key that is held.\<close>

lemma held_other_id:
  assumes "jb_target j = UploadObject i" "job_ok e s j" "objects_ok s" "\<not> live_key now s (jb_key j)"
    "p \<in> set (pending_uploads s)" "pu_purge_attempt p = None"
  shows "pu_id p \<noteq> i"
proof
  assume "pu_id p = i"
  moreover have "pu_object_key p = photo_prefix @ pu_id p" using assms(3,5) unfolding objects_ok_def by simp
  moreover have "jb_key j = photo_prefix @ i" using assms(1,2) by (simp add: job_ok_def)
  ultimately have "live_key now s (jb_key j)" using assms(5,6) by (intro live_key_pending) simp_all
  with assms(4) show False ..
qed

lemma held_fail:
  assumes "held_key t s k" "job_ok e s j" "objects_ok s" "\<not> live_key now s (jb_key j)"
  shows "held_key t (fail_target j er s) k"
proof (cases "jb_target j")
  case (UploadObject i)
  then have s': "pending_uploads (fail_target j er s) = upd_where (\<lambda>p. pu_id p = i)
      (\<lambda>p. p\<lparr>pu_purge_attempt := Some (jb_now j), pu_purge_error := Some (storageErrorCode er)\<rparr>) (pending_uploads s)"
    "attachments (fail_target j er s) = attachments s" "messages (fail_target j er s) = messages s"
    by (simp_all add: fail_upload_def)
  show ?thesis
  proof (rule held_mono [OF assms(1)])
    fix p assume p: "p \<in> set (pending_uploads s)" "pu_purge_attempt p = None"
    then show "p \<in> set (pending_uploads (fail_target j er s))"
      using held_other_id [OF UploadObject assms(2-4) p] unfolding s'(1) set_upd_where by (force simp: image_iff)
  qed (simp_all only: s', auto)
next
  case (EvidenceObject i)
  then show ?thesis by (intro held_mono [OF assms(1)]) (auto simp: fail_evidence_def)
next
  case (PhotoObject i)
  then have s': "attachments (fail_target j er s) = upd_where (\<lambda>a. at_message a = i)
      (\<lambda>a. a\<lparr>at_status := PurgeFailed, at_purge_attempt := Some (jb_now j), at_purge_error := Some (storageErrorCode er)\<rparr>) (attachments s)"
    "pending_uploads (fail_target j er s) = pending_uploads s" "messages (fail_target j er s) = messages s"
    by (simp_all add: fail_attachment_def)
  show ?thesis by (rule held_mono [OF assms(1)]; unfold s') (simp_all add: marked_photo)
qed

lemma held_forget:
  assumes "held_key t s k" "forget_target j s = Inr s'" "job_ok e s j" "objects_ok s" "message_inv e s"
    "\<not> live_key now s (jb_key j)" "jb_now j < t"
  shows "held_key t s' k"
proof (cases "jb_target j")
  case (UploadObject i)
  then have s': "s' = s\<lparr>pending_uploads := filter (\<lambda>p. pu_id p \<noteq> i) (pending_uploads s)\<rparr>"
    using assms(2) by (simp add: forget_upload_def)
  show ?thesis
    by (rule held_mono [OF assms(1)]) (use held_other_id [OF UploadObject assms(3,4,6)] in \<open>auto simp: s'\<close>)
next
  case (EvidenceObject i)
  then have s': "s' = s\<lparr>evidence_uploads := filter (\<lambda>p. eu_id p \<noteq> i) (evidence_uploads s)\<rparr>"
    using assms(2) by (simp add: forget_evidence_def)
  show ?thesis by (rule held_mono [OF assms(1)]) (auto simp: s')
next
  case (PhotoObject i)
  then have f: "forget_attachment i (jb_key j) (jb_now j) s = Inr s'" using assms(2) by simp
  from f assms(5) show ?thesis
  proof (rule forget_attachment_cases)
    assume "s' = s"
    then show ?thesis using assms(1) by simp
  next
    assume dead: "message_expired (jb_now j) s i" and m': "messages s' = filter (\<lambda>m. m_id m \<noteq> i) (messages s)"
      and a': "attachments s' = filter (\<lambda>a. at_message a \<noteq> i) (attachments s)" and p': "pending_uploads s' = pending_uploads s"
    from dead obtain x where x: "x \<in> set (messages s)" "m_id x = i" "m_expires x \<le> jb_now j" by (auto simp: message_expired_def)
    have ids: "distinct (map m_id (messages s))" using assms(5) by (simp add: message_inv_def message_keys_ok_def)
    from assms(1) show ?thesis
    proof (rule held_keyE)
      fix p assume "p \<in> set (pending_uploads s)" "pu_object_key p = k" "pu_expires p = t" "pu_purge_attempt p = None"
      then show ?thesis by (intro held_upload) (simp_all add: p')
    next
      fix a m assume a: "a \<in> set (attachments s)" "at_object_key a = k" "m \<in> set (messages s)" "m_id m = at_message a" "t \<le> m_expires m"
      have "m_id m \<noteq> i"
      proof
        assume "m_id m = i"
        then have "m = x" using distinct_key_eq [of m_id, OF ids a(3) x(1)] x(2) by simp
        then show False using a(5) x(3) assms(7) by simp
      qed
      then show ?thesis using a by (intro held_photo [of a _ _ m]) (simp_all add: a' m')
    qed
  qed
qed

lemma held_sent:
  assumes "held_key t s k" "store_message e at i conv inp grant s = Inr (m, s')" "objects_ok s"
    "\<forall>p \<in> set (pending_uploads s). pu_expires p \<le> sk_created at + MESSAGE_TTL_MS"
  shows "held_key t s' k"
proof -
  have st: "messages s' = messages s @ [m]" "m_expires m = sk_created at + MESSAGE_TTL_MS"
    "attachments s' = attachments s @ new_attachment (sk_begin at) (m_id m) grant"
    "pending_uploads s' = (case grant of None \<Rightarrow> pending_uploads s
       | Some g \<Rightarrow> filter (\<lambda>p. \<not> reservation_matches g i conv (sk_claim at) p) (pending_uploads s))"
    using assms(2) by (rule store_ok, simp)+
  from assms(1) show ?thesis
  proof (rule held_keyE)
    fix p assume p: "p \<in> set (pending_uploads s)" "pu_object_key p = k" "pu_expires p = t" "pu_purge_attempt p = None"
    show ?thesis
    proof (cases "\<exists>g. grant = Some g \<and> reservation_matches g i conv (sk_claim at) p")
      case True
      then obtain g where g: "grant = Some g" "ug_object_key g = k" using p(2) by (auto simp: reservation_matches_def)
      have "\<exists>b \<in> set (attachments s'). at_object_key b = k \<and> at_message b = m_id m"
        using st(3) g by (simp add: new_attachment_def)
      then obtain b where "b \<in> set (attachments s')" "at_object_key b = k" "at_message b = m_id m" by blast
      then show ?thesis using assms(4) p(1,3) st(1,2) by (intro held_photo [of b _ _ m]) auto
    next
      case False
      then show ?thesis using p by (intro held_upload) (auto simp: st(4) split: option.splits)
    qed
  next
    fix a n assume "a \<in> set (attachments s)" "at_object_key a = k" "n \<in> set (messages s)" "m_id n = at_message a" "t \<le> m_expires n"
    then show ?thesis by (intro held_photo [of a _ _ n]) (simp_all add: st(1,3))
  qed
qed

lemma held_requested:
  assumes "requestUpload st cfg e at i conv q s = (r, s')"
  shows "held_key t s k \<Longrightarrow> held_key t s' k" and "(k, t) \<in> reservation_urls s s' \<Longrightarrow> held_key t s' k"
proof -
  have grows: "attachments s' = attachments s \<and> messages s' = messages s \<and> set (pending_uploads s) \<subseteq> set (pending_uploads s') \<and>
    (\<forall>p \<in> set (pending_uploads s') - set (pending_uploads s). pu_purge_attempt p = None)"
    using requestUpload_states [OF assms] by (auto dest!: reserve_upload_ok)
  show "held_key t s' k" if "held_key t s k"
    by (rule held_mono [OF that]) (use grows in auto)
  show "held_key t s' k" if "(k, t) \<in> reservation_urls s s'"
    using that grows unfolding reservation_urls_def by (auto intro: held_upload)
qed

lemma urls_keep:
  assumes "urls_ok w" "w_urls w' = w_urls w" "w_granted w \<subseteq> w_granted w'" "w_clock w \<le> w_clock w'"
    "\<And>t k. w_clock w < t \<Longrightarrow> held_key t (w_db w) k \<Longrightarrow> held_key t (w_db w') k"
  shows "urls_ok w'"
  using assms unfolding urls_ok_def by fastforce

lemma step_keeps_urls:
  assumes "purge_step e del contents w w'" "purge_inv e n w" "urls_ok w"
  shows "urls_ok w'"
proof -
  have base: "message_inv e (w_db w)" "objects_ok (w_db w)" using assms(2) by (simp_all add: purge_inv_def)
  note job = job_facts [OF assms(2)]
  show ?thesis using assms(1)
  proof cases
    case (elsewhere s)
    then have "held_key t s k = held_key t (w_db w) k" for t k
      by (simp add: same_objects_def same_messages_def held_key_def)
    with elsewhere show ?thesis by (intro urls_keep [OF assms(3)]) simp_all
  next
    case (sent at i conv inp grant m s)
    then show ?thesis using held_sent [OF _ sent(2) base(2) sent(4)] by (intro urls_keep [OF assms(3)]) simp_all
  next
    case (received now now' i message read res s)
    have "held_key t s k = held_key t (w_db w) k" for t k
      using updateReceipt_state [OF received(2)] by (simp add: held_key_def)
    with received show ?thesis by (intro urls_keep [OF assms(3)]) simp_all
  next
    case (requested st cfg at' i conv q r s)
    have "fst ` reservation_urls (w_db w) s \<subseteq> pu_object_key ` set (pending_uploads s)" by (auto simp: reservation_urls_def)
    then have "fst ` w_urls w' \<subseteq> w_granted w'" using assms(3) requested(1) by (auto simp: urls_ok_def image_Un)
    moreover have "held_key t s k" if "(k, t) \<in> w_urls w'" "w_clock w < t" for k t
    proof (cases "(k, t) \<in> w_urls w")
      case True
      then have "held_key t (w_db w) k" using assms(3) that(2) by (auto simp: urls_ok_def)
      then show ?thesis by (rule held_requested(1) [OF requested(2)])
    next
      case False
      then have "(k, t) \<in> reservation_urls (w_db w) s" using that(1) requested(1) by simp
      then show ?thesis by (rule held_requested(2) [OF requested(2)])
    qed
    ultimately show ?thesis using requested(1) by (auto simp: urls_ok_def)
  next
    case (rows now)
    have "held_key t (purge_rows now (w_db w)) k" if "held_key t (w_db w) k" for t k
    proof (rule held_keyE [OF that])
      fix a m assume a: "a \<in> set (attachments (w_db w))" "at_object_key a = k" "m \<in> set (messages (w_db w))"
        "m_id m = at_message a" "t \<le> m_expires m"
      have "has_attachment (w_db w) m" using a(1,4) unfolding has_attachment_def by metis
      then show ?thesis using a by (intro held_photo [of a _ _ m]) (simp_all add: purge_rows_tables)
    qed (auto simp: purge_rows_tables intro: held_upload)
    with rows show ?thesis by (intro urls_keep [OF assms(3)]) simp_all
  next
    case (claim j s)
    have "held_key t s k" if "w_clock w < t" "held_key t (w_db w) k" for t k
      using held_claim [OF that(2) claim(4)] job(2) [OF claim(2)] that(1) by simp
    with claim show ?thesis by (intro urls_keep [OF assms(3)]) (simp_all add: next_job_def)
  next
    case (skip j n s)
    have "held_key t s k" if "w_clock w < t" "held_key t (w_db w) k" for t k
      using held_claim [OF that(2) skip(4)] job(2) [OF skip(2)] that(1) by simp
    with skip show ?thesis by (intro urls_keep [OF assms(3)]) (simp_all add: end_job_def)
  next
    case (forget j s)
    have "held_key t s k" if "w_clock w < t" "held_key t (w_db w) k" for t k
      using held_forget [OF that(2) forget(4) job(1) [OF forget(2)] base(2,1) job(5) [OF forget(2)]] job(2) [OF forget(2)] that(1) forget(3) by simp
    with forget show ?thesis by (intro urls_keep [OF assms(3)]) (simp_all add: end_job_def)
  next
    case (failed j er)
    have "held_key t (fail_target j er (w_db w)) k" if "held_key t (w_db w) k" for t k
      using held_fail [OF that job(1) [OF failed(2)] base(2) job(5) [OF failed(2)]] failed(3) by simp
    with failed show ?thesis by (intro urls_keep [OF assms(3)]) (simp_all add: end_job_def)
  qed (auto intro!: urls_keep [OF assms(3)] simp: next_job_def end_job_def)
qed

lemma steps_keep_urls:
  assumes "(purge_step e del contents)\<^sup>*\<^sup>* w w'" "purge_inv e n w" "draws (w_db w') \<le> n" "urls_ok w"
  shows "urls_ok w'"
  using assms(1,3)
proof (induction rule: rtranclp_induct)
  case (step u v)
  then have n: "draws (w_db u) \<le> n" using step_draws by (metis order_trans)
  then show ?case using step steps_keep_inv [OF step(1) assms(2)] step_keeps_urls by blast
qed (use assms(4) in simp)

section \<open>The bucket along a run\<close>

lemma tried_grows: "purge_step e del contents w w' \<Longrightarrow> w_tried w \<subseteq> w_tried w'"
  by (induction rule: purge_step.induct) (auto simp: next_job_def end_job_def)

text \<open>Photo objects lie under granted keys, and a key whose deletion succeeded has none.\<close>

definition bucket_ok :: "('b \<Rightarrow> (string \<times> string) set) \<Rightarrow> 'b world \<Rightarrow> bool" where
  "bucket_ok contents w \<longleftrightarrow> w_gone w \<subseteq> w_tried w \<and>
     (\<forall>x \<in> contents (w_bucket w). photo_name (fst x) \<longrightarrow> fst x \<in> w_granted w \<and> fst x \<notin> w_gone w)"

context object_deletion
begin

lemma step_keeps_object:
  assumes "trusted" "purge_step e del contents w w'" "x \<in> contents (w_bucket w)" "fst x \<notin> w_tried w'"
  shows "x \<in> contents (w_bucket w')"
  using assms(2)
proof cases
  case (uploaded b)
  then show ?thesis using assms(3) by auto
next
  case (remove j u b)
  then have "fst x \<noteq> jb_key j" using assms(4) by (auto simp: next_job_def)
  then show ?thesis using others_kept [OF assms(1) remove(4) assms(3)] remove(1) by (simp add: next_job_def)
next
  case (remove_failed j er b)
  then have "fst x \<noteq> jb_key j" using assms(4) by (auto simp: next_job_def)
  then show ?thesis using others_kept [OF assms(1) remove_failed(4) assms(3)] remove_failed(1) by (simp add: next_job_def)
qed (use assms(3) in \<open>simp_all add: next_job_def end_job_def\<close>)

lemma run_keeps_object:
  assumes "trusted" "(purge_step e del contents)\<^sup>*\<^sup>* w w'" "x \<in> contents (w_bucket w)" "fst x \<notin> w_tried w'"
  shows "x \<in> contents (w_bucket w')"
  using assms(2,4)
proof (induction rule: rtranclp_induct)
  case (step u v)
  then have "fst x \<notin> w_tried u" using tried_grows by blast
  with step show ?case using step_keeps_object [OF assms(1) step(2)] by simp
qed (use assms(3) in simp)

lemma step_keeps_bucket:
  assumes "trusted" "purge_step e del contents w w'" "purge_inv e n w" "bucket_ok contents w" "urls_ok w"
  shows "bucket_ok contents w'"
proof -
  have base: "w_gone w \<subseteq> w_tried w" "w_tried w \<subseteq> committed_keys w"
    using assms(4) by (auto simp: bucket_ok_def committed_keys_def)
  have dead: "\<not> live_key (w_clock w) (w_db w) k" if "k \<in> w_gone w" for k
    using that base assms(3) unfolding purge_inv_def by blast
  show ?thesis using assms(2)
  proof cases
    case (uploaded b)
    have "fst x \<in> w_granted w \<and> fst x \<notin> w_gone w" if x: "x \<in> contents b" "photo_name (fst x)" for x
    proof (cases "x \<in> contents (w_bucket w)")
      case True
      then show ?thesis using assms(4) x by (simp add: bucket_ok_def)
    next
      case False
      then obtain t where t: "(fst x, t) \<in> w_urls w" "w_clock w < t"
        using uploaded(3) x unfolding timely_def url_open_def by blast
      have "fst x \<in> w_granted w" using assms(5) t(1) unfolding urls_ok_def by force
      moreover have "held_key t (w_db w) (fst x)" using assms(5) t unfolding urls_ok_def by blast
      then have "live_key (w_clock w) (w_db w) (fst x)" using t(2) by (rule held_live)
      ultimately show ?thesis using dead by blast
    qed
    then show ?thesis using uploaded(1) assms(4) by (simp add: bucket_ok_def)
  next
    case (remove j u b)
    have del: "del (jb_key j) (w_bucket w) = (Inr (), b)" using remove(4) by simp
    have "fst x \<noteq> jb_key j" if "x \<in> contents b" for x
      using deleted_gone [OF assms(1) del] that by (metis imageI)
    moreover have "contents b \<subseteq> contents (w_bucket w)" using nothing_added [OF assms(1) del] .
    ultimately show ?thesis using remove(1) assms(4) by (auto simp: bucket_ok_def next_job_def)
  next
    case (remove_failed j er b)
    have "contents b \<subseteq> contents (w_bucket w)" using nothing_added [OF assms(1) remove_failed(4)] .
    then show ?thesis using remove_failed(1) assms(4) by (auto simp: bucket_ok_def next_job_def)
  qed (use assms(4) in \<open>simp_all add: bucket_ok_def next_job_def end_job_def\<close>)
qed

lemma run_keeps_bucket:
  assumes "trusted" "(purge_step e del contents)\<^sup>*\<^sup>* w w'" "purge_inv e n w" "draws (w_db w') \<le> n" "bucket_ok contents w"
    "urls_ok w"
  shows "bucket_ok contents w'"
  using assms(2,4)
proof (induction rule: rtranclp_induct)
  case (step u v)
  then have n: "draws (w_db u) \<le> n" using step_draws by (metis order_trans)
  then have "purge_inv e n u" using steps_keep_inv [OF step(1) assms(3)] by simp
  moreover have "urls_ok u" by (rule steps_keep_urls [OF step(1) assms(3) n assms(6)])
  ultimately show ?case using step(3) n step_keeps_bucket [OF assms(1) step(2)] by simp
qed (use assms(5) in simp)

end

section \<open>Photos\<close>

text \<open>C35: whatever requests run between the purges of any number of workers (sends, requests for uploads, receipts,
  and any that leave messages, receipts, photos and reservations as they are), and whatever purge stops
  half way, no deletion is ever begun for the photo of a message that has not expired, and its object stays
  in the bucket.  The clocks are as the steps say: a message is created no two days before the end of an
  open reservation.\<close>

theorem live_photos_stay:
  assumes "storage_sound protocol env c contents" "purge_inv e n w"
    "(purge_step e (delete_object protocol env c) contents)\<^sup>*\<^sup>* w w'" "draws (w_db w') \<le> n"
    "a \<in> set (attachments (w_db w'))" "m \<in> set (messages (w_db w'))" "m_id m = at_message a" "w_clock w' < m_expires m"
  shows "at_object_key a \<notin> w_tried w' \<and>
    (\<forall>x \<in> contents (w_bucket w). fst x = at_object_key a \<longrightarrow> x \<in> contents (w_bucket w'))"
proof -
  have inv: "purge_inv e n w'" by (rule steps_keep_inv [OF assms(3,2,4)])
  have "live_key (w_clock w') (w_db w') (at_object_key a)" unfolding live_key_def using assms(5-8) by blast
  then have new: "at_object_key a \<notin> w_tried w'"
    using inv unfolding purge_inv_def committed_keys_def by blast
  then show ?thesis using deletion.run_keeps_object [OF assms(1,3)] by metis
qed

text \<open>What a batch leaves of the photos.\<close>

lemma batch_leaves:
  assumes "storage_sound protocol env c contents"
    "\<forall>k \<in> due_keys now s. \<forall>b0. contents b0 \<subseteq> contents b \<longrightarrow> fst (delete_object protocol env c k b0) = Inr ()"
    "message_inv e s" "row_ids_ok s" "batch_fits now s"
    "runBatch (delete_object protocol env c) now False (s, b) = (s', b')" "x \<in> contents b'" "fst x \<in> object_keys s"
  shows "(\<exists>p \<in> set (pending_uploads s'). pu_object_key p = fst x \<and> \<not> due_upload now p) \<or>
    (\<exists>a \<in> set (attachments s'). at_object_key a = fst x \<and> \<not> due_photo now s a \<and> at_message a \<in> message_ids s \<and>
       (\<forall>m \<in> set (messages s). m_id m = at_message a \<longrightarrow> m \<in> set (messages s')))"
proof -
  let ?due = "due_photo now s"
  obtain s4 b4 where run: "runBatch (delete_object protocol env c) now False (s, b) = (s4, b4)"
    "photo_dropped (at_message ` set (filter ?due (attachments s))) (photos_left now s) s4"
    "contents b4 = {x \<in> contents b. fst x \<notin> due_keys now s}"
    by (rule batch_result [OF assms(1-5)])
  have res: "s4 = s'" "b4 = b'" using run(1) assms(6) by simp_all
  have left: "fst x \<notin> due_keys now s" using assms(7) run(3) res(2) by blast
  note tables = run(2) [unfolded res photo_dropped_def photos_left_tables batch_messages [OF assms(3)] filter_out [OF distinct_attachments [OF assms(3)]]]
  show ?thesis
  proof (cases "fst x \<in> pu_object_key ` set (pending_uploads s)")
    case True
    then obtain p where p: "p \<in> set (pending_uploads s)" "pu_object_key p = fst x" by auto
    have "\<not> due_upload now p" using left p unfolding due_keys_def by force
    then show ?thesis using p tables by auto
  next
    case False
    then obtain a where a: "a \<in> set (attachments s)" "at_object_key a = fst x" using assms(8) unfolding object_keys_def by auto
    have keep: "\<not> ?due a" using left a unfolding due_keys_def by force
    have "at_message a \<in> message_ids s" using assms(3) a(1) unfolding message_inv_def message_links_ok_def by (metis imageI subsetD)
    moreover have "a \<in> set (attachments s')" using a(1) keep tables by simp
    moreover have "m \<in> set (messages s')" if "m \<in> set (messages s)" "m_id m = at_message a" for m
    proof -
      have "\<not> (\<forall>a \<in> set (attachments s). at_message a = m_id m \<longrightarrow> ?due a)" using a(1) keep that(2) by metis
      then show ?thesis using that(1) tables by simp
    qed
    ultimately show ?thesis using a(2) keep by blast
  qed
qed

text \<open>C36: no encrypted photo outlives what the database knows of it: at any moment, every photo object in the
  bucket has a reservation or an attachment naming its key; and a batch at any later clock reading, when
  the storage answers its deletions and no kind has more than 100 rows due, leaves only photo objects of
  reservations and messages that have not expired, and those tried in the last minute.  Uploads land
  while their URL is open, as the steps say.\<close>

theorem no_orphan_photos:
  assumes "storage_sound protocol env c contents" "purge_inv e n w" "bucket_ok contents w" "urls_ok w"
    "(purge_step e (delete_object protocol env c) contents)\<^sup>*\<^sup>* w w'" "draws (w_db w') \<le> n"
  shows "(\<forall>x \<in> contents (w_bucket w'). photo_name (fst x) \<longrightarrow>
      (\<exists>p \<in> set (pending_uploads (w_db w')). pu_object_key p = fst x) \<or>
      (\<exists>a \<in> set (attachments (w_db w')). at_object_key a = fst x)) \<and>
    (\<forall>now s b. (\<forall>k \<in> due_keys now (w_db w'). \<forall>b0. contents b0 \<subseteq> contents (w_bucket w') \<longrightarrow>
        fst (delete_object protocol env c k b0) = Inr ()) \<longrightarrow> row_ids_ok (w_db w') \<longrightarrow> batch_fits now (w_db w') \<longrightarrow>
      runBatch (delete_object protocol env c) now False (w_db w', w_bucket w') = (s, b) \<longrightarrow>
      (\<forall>x \<in> contents b. photo_name (fst x) \<longrightarrow>
        (\<exists>p \<in> set (pending_uploads s). pu_object_key p = fst x \<and>
           (now < pu_expires p \<or> \<not> retryable (now - RETRY_DELAY_MS) (pu_purge_attempt p))) \<or>
        (\<exists>a \<in> set (attachments s). at_object_key a = fst x \<and> (\<exists>m \<in> set (messages s). m_id m = at_message a \<and>
           (now < m_expires m \<or> \<not> retryable (now - RETRY_DELAY_MS) (at_purge_attempt a))))))"
proof -
  have bucket: "bucket_ok contents w'" by (rule deletion.run_keeps_bucket [OF assms(1,5,2,6,3,4)])
  have inv: "purge_inv e n w'" by (rule steps_keep_inv [OF assms(5,2,6)])
  then have m: "message_inv e (w_db w')" by (simp add: purge_inv_def)
  have keys: "fst x \<in> object_keys (w_db w')" if "x \<in> contents (w_bucket w')" "photo_name (fst x)" for x
    using bucket inv that unfolding purge_inv_def bucket_ok_def by blast
  have "(\<exists>p \<in> set (pending_uploads s). pu_object_key p = fst x \<and>
       (now < pu_expires p \<or> \<not> retryable (now - RETRY_DELAY_MS) (pu_purge_attempt p))) \<or>
    (\<exists>a \<in> set (attachments s). at_object_key a = fst x \<and> (\<exists>m \<in> set (messages s). m_id m = at_message a \<and>
       (now < m_expires m \<or> \<not> retryable (now - RETRY_DELAY_MS) (at_purge_attempt a))))"
    if "\<forall>k \<in> due_keys now (w_db w'). \<forall>b0. contents b0 \<subseteq> contents (w_bucket w') \<longrightarrow> fst (delete_object protocol env c k b0) = Inr ()"
      "row_ids_ok (w_db w')" "batch_fits now (w_db w')"
      "runBatch (delete_object protocol env c) now False (w_db w', w_bucket w') = (s, b)" "x \<in> contents b" "photo_name (fst x)"
    for now s b x
  proof -
    note given = that
    obtain s4 b4 where "runBatch (delete_object protocol env c) now False (w_db w', w_bucket w') = (s4, b4)"
      "contents b4 = {x \<in> contents (w_bucket w'). fst x \<notin> due_keys now (w_db w')}"
      by (rule batch_result [OF assms(1) given(1) m given(2,3)])
    then have "x \<in> contents (w_bucket w')" using that(4,5) by simp
    then have known: "fst x \<in> object_keys (w_db w')" using that(6) by (rule keys)
    from batch_leaves [OF assms(1) that(1) m that(2,3,4,5) known] show ?thesis
    proof (elim disjE bexE conjE)
      fix p assume "p \<in> set (pending_uploads s)" "pu_object_key p = fst x" "\<not> due_upload now p"
      then show ?thesis by (intro disjI1 bexI [of _ p]) (auto simp: due_upload_def)
    next
      fix a assume a: "a \<in> set (attachments s)" "at_object_key a = fst x" "\<not> due_photo now (w_db w') a"
        and "at_message a \<in> message_ids (w_db w')"
        and kept: "\<forall>m \<in> set (messages (w_db w')). m_id m = at_message a \<longrightarrow> m \<in> set (messages s)"
      then obtain m where m: "m \<in> set (messages (w_db w'))" "m_id m = at_message a" by (auto simp: message_ids_def)
      then have "now < m_expires m \<or> \<not> retryable (now - RETRY_DELAY_MS) (at_purge_attempt a)"
        using a(3) unfolding due_photo_def message_expired_def by force
      moreover have "m \<in> set (messages s)" using m kept by simp
      ultimately show ?thesis using a(1,2) m(2) by blast
    qed
  qed
  moreover have "(\<exists>p \<in> set (pending_uploads (w_db w')). pu_object_key p = fst x) \<or>
      (\<exists>a \<in> set (attachments (w_db w')). at_object_key a = fst x)"
    if "x \<in> contents (w_bucket w')" "photo_name (fst x)" for x
    using keys [OF that] unfolding object_keys_def by auto
  ultimately show ?thesis by blast
qed

section \<open>A batch as a run\<close>

definition purge_job :: "'b deletion \<Rightarrow> job \<Rightarrow> retention_db \<times> 'b \<Rightarrow> retention_db \<times> 'b" where
  "purge_job del j = purge_object del (claim_target j) (jb_key j) (forget_target j) (fail_target j)"

lemma target_phase [simp]:
  "forget_target (j\<lparr>jb_phase := p\<rparr>) = forget_target j" "fail_target (j\<lparr>jb_phase := p\<rparr>) = fail_target j"
  by (simp_all add: fun_eq_iff split: purge_target.split)

declare claim_target.simps [simp del] forget_target.simps [simp del] fail_target.simps [simp del]

text \<open>Some run leads to a database, a bucket and the jobs left, at the same instant.\<close>

definition finishes ::
    "env \<Rightarrow> 'b deletion \<Rightarrow> ('b \<Rightarrow> (string \<times> string) set) \<Rightarrow> 'b world \<Rightarrow> retention_db \<times> 'b \<Rightarrow> job list \<Rightarrow> bool" where
  "finishes e del contents w sb js \<longleftrightarrow> (\<exists>w'. (purge_step e del contents)\<^sup>*\<^sup>* w w' \<and>
     (w_db w', w_bucket w') = sb \<and> w_jobs w' = js \<and> w_clock w' = w_clock w)"

lemma finishes_refl: "finishes e del contents w (w_db w, w_bucket w) (w_jobs w)"
  unfolding finishes_def by blast

lemma finishes_step:
  assumes "purge_step e del contents w w1" "w_clock w1 = w_clock w" "finishes e del contents w1 sb js"
  shows "finishes e del contents w sb js"
  using assms unfolding finishes_def by (metis converse_rtranclp_into_rtranclp)

lemma finish_failed:
  assumes "w_jobs w = j\<lparr>jb_phase := Failed er\<rparr> # js" "w_db w = s" "w_bucket w = b"
  shows "finishes e del contents w (fail_target j er s, b) js"
proof -
  let ?j = "j\<lparr>jb_phase := Failed er\<rparr>"
  let ?w = "end_job ?j (w\<lparr>w_db := fail_target ?j er (w_db w)\<rparr>)"
  have step: "purge_step e del contents w ?w" using assms(1) by (intro failed) simp_all
  have "finishes e del contents ?w (fail_target j er s, b) js"
    using finishes_refl [of e del contents ?w] assms by (simp add: end_job_def)
  then show ?thesis by (intro finishes_step [OF step]) (simp_all add: end_job_def)
qed

definition forgotten :: "job \<Rightarrow> retention_db \<Rightarrow> retention_db" where
  "forgotten j s = (case forget_target j s of Inl er \<Rightarrow> fail_target j er s | Inr s' \<Rightarrow> s')"

lemma finish_removed:
  assumes "w_jobs w = j\<lparr>jb_phase := Removed\<rparr> # js" "w_db w = s" "w_bucket w = b"
  shows "finishes e del contents w (forgotten j s, b) js"
proof (cases "forget_target j s")
  case (Inl er)
  let ?w = "next_job (j\<lparr>jb_phase := Removed\<rparr>) (Failed er) w"
  have step: "purge_step e del contents w ?w" using assms Inl by (intro forget_failed) simp_all
  have "finishes e del contents ?w (fail_target j er s, b) js"
    by (rule finish_failed) (use assms in \<open>simp_all add: next_job_def\<close>)
  then show ?thesis using Inl by (intro finishes_step [OF step]) (simp_all add: next_job_def forgotten_def)
next
  case (Inr s')
  let ?w = "end_job (j\<lparr>jb_phase := Removed\<rparr>) (w\<lparr>w_db := s'\<rparr>)"
  have step: "purge_step e del contents w ?w" using assms Inr by (intro forget) simp_all
  have "finishes e del contents ?w (s', b) js"
    using finishes_refl [of e del contents ?w] assms by (simp add: end_job_def)
  then show ?thesis using Inr by (intro finishes_step [OF step]) (simp_all add: end_job_def forgotten_def)
qed

definition removed_result :: "'b deletion \<Rightarrow> job \<Rightarrow> retention_db \<times> 'b \<Rightarrow> retention_db \<times> 'b" where
  "removed_result del j = (\<lambda>(s, b). case del (jb_key j) b of
     (Inl er, b') \<Rightarrow> (fail_target j er s, b') | (Inr _, b') \<Rightarrow> (forgotten j s, b'))"

lemma finish_claimed:
  assumes "w_jobs w = j\<lparr>jb_phase := Claimed\<rparr> # js" "w_db w = s" "w_bucket w = b"
  shows "finishes e del contents w (removed_result del j (s, b)) js"
proof -
  let ?j = "j\<lparr>jb_phase := Claimed\<rparr>"
  obtain r b' where d: "del (jb_key ?j) (w_bucket w) = (r, b')" by fastforce
  then have d': "del (jb_key j) b = (r, b')" using assms(3) by simp
  show ?thesis
  proof (cases r)
    case (Inl er)
    let ?w = "next_job ?j (Failed er) (w\<lparr>w_bucket := b', w_tried := insert (jb_key ?j) (w_tried w)\<rparr>)"
    have step: "purge_step e del contents w ?w" using assms(1) d Inl by (intro remove_failed) simp_all
    have "finishes e del contents ?w (fail_target j er s, b') js"
      by (rule finish_failed) (use assms in \<open>simp_all add: next_job_def\<close>)
    then show ?thesis using d' Inl by (intro finishes_step [OF step]) (simp_all add: next_job_def removed_result_def)
  next
    case (Inr u)
    let ?w = "next_job ?j Removed (w\<lparr>w_bucket := b', w_tried := insert (jb_key ?j) (w_tried w),
      w_gone := insert (jb_key ?j) (w_gone w)\<rparr>)"
    have step: "purge_step e del contents w ?w" using assms(1) d Inr by (intro remove) simp_all
    have "finishes e del contents ?w (forgotten j s, b') js"
      by (rule finish_removed) (use assms in \<open>simp_all add: next_job_def\<close>)
    then show ?thesis using d' Inr by (intro finishes_step [OF step]) (simp_all add: next_job_def removed_result_def)
  qed
qed

lemma purge_job_alt:
  "purge_job del j (s, b) = (case claim_target j s of
     (k, s1) \<Rightarrow> if k \<noteq> 1 then (s1, b) else removed_result del j (s1, b))"
  by (simp add: purge_job_def purge_object_def removed_result_def forgotten_def split: prod.split sum.split)

text \<open>The purge of one row is the claim, the deletion and the end of its job, with no step in between.\<close>

lemma finish_selected:
  assumes "w_jobs w = j # js" "jb_phase j = Selected"
  shows "finishes e del contents w (purge_job del j (w_db w, w_bucket w)) js"
proof -
  obtain k s where c: "claim_target j (w_db w) = (k, s)" by fastforce
  show ?thesis
  proof (cases "k = 1")
    case False
    let ?w = "end_job j (w\<lparr>w_db := s\<rparr>)"
    have step: "purge_step e del contents w ?w" using assms c False by (intro skip) simp_all
    have "finishes e del contents ?w (s, w_bucket w) js"
      using finishes_refl [of e del contents ?w] assms(1) by (simp add: end_job_def)
    then show ?thesis using c False
      by (intro finishes_step [OF step]) (simp_all add: end_job_def purge_job_alt)
  next
    case True
    let ?w = "next_job j Claimed (w\<lparr>w_db := s\<rparr>)"
    have step: "purge_step e del contents w ?w" using assms c True by (intro claim) simp_all
    have "finishes e del contents ?w (removed_result del j (s, w_bucket w)) js"
      by (rule finish_claimed) (use assms in \<open>simp_all add: next_job_def\<close>)
    then show ?thesis using c True by (intro finishes_step [OF step]) (simp_all add: next_job_def purge_job_alt)
  qed
qed

lemma finishes_trans:
  assumes "finishes e del contents w (s, b) js"
    "\<And>w1. \<lbrakk>w_db w1 = s; w_bucket w1 = b; w_jobs w1 = js; w_clock w1 = w_clock w\<rbrakk> \<Longrightarrow> finishes e del contents w1 sb' js'"
  shows "finishes e del contents w sb' js'"
proof -
  from assms(1) obtain w1 where w1: "(purge_step e del contents)\<^sup>*\<^sup>* w w1" "w_db w1 = s" "w_bucket w1 = b"
    "w_jobs w1 = js" "w_clock w1 = w_clock w" unfolding finishes_def by auto
  from assms(2) [OF w1(2-5)] obtain w2 where w2: "(purge_step e del contents)\<^sup>*\<^sup>* w1 w2"
    "(w_db w2, w_bucket w2) = sb'" "w_jobs w2 = js'" "w_clock w2 = w_clock w1" unfolding finishes_def by blast
  have "(purge_step e del contents)\<^sup>*\<^sup>* w w2" using w1(1) w2(1) by (rule rtranclp_trans)
  moreover have "w_clock w2 = w_clock w" using w1(5) w2(4) by simp
  ultimately show ?thesis using w2(2,3) unfolding finishes_def by blast
qed

text \<open>A batch reads the rows of a loop first, and then purges them one by one.\<close>

lemma select_jobs:
  fixes w :: "'b world"
  assumes "\<forall>j \<in> set js. selects (w_db w) j \<and> jb_now j \<le> w_clock w"
  shows "finishes e del contents w (w_db w, w_bucket w) (js @ w_jobs w)"
  using assms
proof (induction js)
  case Nil
  then show ?case using finishes_refl by simp
next
  case (Cons j js)
  then have "finishes e del contents w (w_db w, w_bucket w) (js @ w_jobs w)" by simp
  then show ?case
  proof (rule finishes_trans)
    fix w1 :: "'b world" assume w1: "w_db w1 = w_db w" "w_bucket w1 = w_bucket w" "w_jobs w1 = js @ w_jobs w" "w_clock w1 = w_clock w"
    let ?w = "w1\<lparr>w_jobs := j # w_jobs w1\<rparr>"
    have step: "purge_step e del contents w1 ?w" using Cons.prems w1 by (intro select) simp_all
    have "finishes e del contents ?w (w_db w, w_bucket w) ((j # js) @ w_jobs w)"
      using finishes_refl [of e del contents ?w] w1 by simp
    then show "finishes e del contents w1 (w_db w, w_bucket w) ((j # js) @ w_jobs w)"
      by (intro finishes_step [OF step]) simp_all
  qed
qed

lemma purge_jobs:
  fixes w :: "'b world"
  assumes "\<forall>j \<in> set js. jb_phase j = Selected" "w_jobs w = js @ rest"
  shows "finishes e del contents w (fold (purge_job del) js (w_db w, w_bucket w)) rest"
  using assms
proof (induction js arbitrary: w)
  case Nil
  then show ?case using finishes_refl [of e del contents w] by simp
next
  case (Cons j js)
  obtain s b where sb: "purge_job del j (w_db w, w_bucket w) = (s, b)" by fastforce
  have "finishes e del contents w (s, b) (js @ rest)"
    using finish_selected [of w j "js @ rest" e del contents] Cons.prems sb by simp
  then show ?case
  proof (rule finishes_trans)
    fix w1 :: "'b world" assume w1: "w_db w1 = s" "w_bucket w1 = b" "w_jobs w1 = js @ rest" "w_clock w1 = w_clock w"
    have "finishes e del contents w1 (fold (purge_job del) js (w_db w1, w_bucket w1)) rest"
      using Cons.IH [of w1] Cons.prems(1) w1(3) by simp
    then show "finishes e del contents w1 (fold (purge_job del) (j # js) (w_db w, w_bucket w)) rest"
      using w1(1,2) sb by simp
  qed
qed

lemma loop_run:
  fixes w :: "'b world"
  assumes "\<forall>j \<in> set js. selects s j \<and> jb_now j = now" "fold (purge_job del) js (s, b) = sb"
    "now \<le> w_clock w" "w_db w = s" "w_bucket w = b"
  shows "finishes e del contents w sb (w_jobs w)"
proof -
  have ok: "\<forall>j \<in> set js. selects (w_db w) j \<and> jb_now j \<le> w_clock w" using assms(1,3,4) by simp
  show ?thesis using select_jobs [OF ok]
  proof (rule finishes_trans)
    fix w1 :: "'b world" assume w1: "w_db w1 = w_db w" "w_bucket w1 = w_bucket w" "w_jobs w1 = js @ w_jobs w" "w_clock w1 = w_clock w"
    have "\<forall>j \<in> set js. jb_phase j = Selected" using ok by (simp add: selects_def)
    from purge_jobs [OF this w1(3), of e del contents] w1(1,2) assms(2,4,5)
    show "finishes e del contents w1 sb (w_jobs w)" by simp
  qed
qed

text \<open>The jobs of the three loops.\<close>

definition upload_job :: "time \<Rightarrow> time \<Rightarrow> pending_upload \<Rightarrow> job" where
  "upload_job now retry p = \<lparr>jb_target = UploadObject (pu_id p), jb_key = pu_object_key p, jb_now = now,
     jb_retry = retry, jb_phase = Selected\<rparr>"

definition evidence_job :: "time \<Rightarrow> time \<Rightarrow> evidence_upload \<Rightarrow> job" where
  "evidence_job now retry p = \<lparr>jb_target = EvidenceObject (eu_id p), jb_key = eu_object_key p, jb_now = now,
     jb_retry = retry, jb_phase = Selected\<rparr>"

definition photo_job :: "time \<Rightarrow> time \<Rightarrow> attachment_row \<Rightarrow> job" where
  "photo_job now retry a = \<lparr>jb_target = PhotoObject (at_message a), jb_key = at_object_key a, jb_now = now,
     jb_retry = retry, jb_phase = Selected\<rparr>"

lemma loops_purge_jobs:
  "runConcurrently (purgeAbandonedUpload del now retry) ps = fold (purge_job del) (map (upload_job now retry) ps)"
  "runConcurrently (purgeAbandonedEvidence del now retry) us = fold (purge_job del) (map (evidence_job now retry) us)"
  "runConcurrently (purgeAttachment del now retry) as = fold (purge_job del) (map (photo_job now retry) as)"
proof -
  note defs = purge_job_def claim_target.simps [abs_def] forget_target.simps [abs_def] fail_target.simps [abs_def]
  have "purgeAbandonedUpload del now retry = purge_job del \<circ> upload_job now retry"
    "purgeAbandonedEvidence del now retry = purge_job del \<circ> evidence_job now retry"
    "purgeAttachment del now retry = purge_job del \<circ> photo_job now retry"
    by (simp_all add: fun_eq_iff defs purgeAbandonedUpload_def upload_job_def purgeAbandonedEvidence_def evidence_job_def
        purgeAttachment_def photo_job_def)
  then show "runConcurrently (purgeAbandonedUpload del now retry) ps = fold (purge_job del) (map (upload_job now retry) ps)"
    "runConcurrently (purgeAbandonedEvidence del now retry) us = fold (purge_job del) (map (evidence_job now retry) us)"
    "runConcurrently (purgeAttachment del now retry) as = fold (purge_job del) (map (photo_job now retry) as)"
    by (simp_all add: runConcurrently_def fold_map)
qed

lemma batch_selects:
  "\<forall>j \<in> set (map (upload_job now retry) (abandoned_uploads now' retry' s)). selects s j \<and> jb_now j = now"
  "\<forall>j \<in> set (map (evidence_job now retry) (abandoned_evidence now' retry' s)). selects s j \<and> jb_now j = now"
  "\<forall>j \<in> set (map (photo_job now retry) (expired_images now' retry' s)). selects s j \<and> jb_now j = now"
  by (auto simp: selects_def upload_job_def evidence_job_def photo_job_def abandoned_uploads_def abandoned_evidence_def
      expired_images_def dest!: in_set_takeD)

lemma finish_batch:
  fixes w :: "'b world"
  assumes "now \<le> w_clock w"
  shows "finishes e del contents w (runBatch del now False (w_db w, w_bucket w)) (w_jobs w)"
proof -
  let ?retry = "now - RETRY_DELAY_MS"
  let ?w1 = "w\<lparr>w_db := purge_rows now (w_db w)\<rparr>"
  obtain s2 b2 where w2: "runConcurrently (purgeAbandonedUpload del now ?retry)
      (abandoned_uploads now ?retry (w_db ?w1)) (w_db ?w1, w_bucket ?w1) = (s2, b2)" by fastforce
  obtain s3 b3 where w3: "runConcurrently (purgeAbandonedEvidence del now ?retry)
      (abandoned_evidence now ?retry s2) (s2, b2) = (s3, b3)" by fastforce
  obtain s4 b4 where w4: "runConcurrently (purgeAttachment del now ?retry)
      (expired_images now ?retry s3) (s3, b3) = (s4, b4)" by fastforce
  have batch: "runBatch del now False (w_db w, w_bucket w) = (s4, b4)"
    using w2 w3 w4 by (simp add: runBatch_def Let_def)
  have step: "purge_step e del contents w ?w1" using assms by (rule rows)
  have "finishes e del contents ?w1 (s2, b2) (w_jobs w)"
    using loop_run [OF batch_selects(1) w2 [unfolded loops_purge_jobs], of ?w1] assms by simp
  then have "finishes e del contents ?w1 (s4, b4) (w_jobs w)"
  proof (rule finishes_trans)
    fix u :: "'b world" assume u: "w_db u = s2" "w_bucket u = b2" "w_jobs u = w_jobs w" "w_clock u = w_clock ?w1"
    have "finishes e del contents u (s3, b3) (w_jobs w)"
      using loop_run [OF batch_selects(2) w3 [unfolded loops_purge_jobs], of u] assms u by simp
    then show "finishes e del contents u (s4, b4) (w_jobs w)"
    proof (rule finishes_trans)
      fix v :: "'b world" assume v: "w_db v = s3" "w_bucket v = b3" "w_jobs v = w_jobs w" "w_clock v = w_clock u"
      show "finishes e del contents v (s4, b4) (w_jobs w)"
        using loop_run [OF batch_selects(3) w4 [unfolded loops_purge_jobs], of v] assms u v by simp
    qed
  qed
  then show ?thesis unfolding batch by (intro finishes_step [OF step]) simp_all
qed

text \<open>C38: a retention batch is a run of the interleaving model: from any state of the purges, what runBatch
  does to the database and the bucket at a clock reading is what some steps do, and it leaves the jobs of
  other workers as they were.\<close>

theorem batch_is_a_run:
  fixes w :: "'b world"
  assumes "now \<le> w_clock w"
  shows "\<exists>w'. (purge_step e del contents)\<^sup>*\<^sup>* w w' \<and>
    (w_db w', w_bucket w') = runBatch del now running (w_db w, w_bucket w) \<and> w_jobs w' = w_jobs w \<and> w_clock w' = w_clock w"
proof (cases running)
  case True
  then show ?thesis by (intro exI [of _ w]) (simp add: runBatch_def)
next
  case False
  have "finishes e del contents w (runBatch del now False (w_db w, w_bucket w)) (w_jobs w)"
    using assms by (rule finish_batch)
  then show ?thesis using False unfolding finishes_def by simp
qed

section \<open>Witnesses\<close>

definition demo_purge_world :: "(string \<times> string) list world" where
  "demo_purge_world = \<lparr>w_db = demo_retention, w_bucket = demo_objects, w_clock = 700000, w_jobs = [], w_tried = {}, w_gone = {},
     w_granted = {ug_object_key demo_photo_grant, photo_prefix @ uuid_text 99},
     w_urls = {(ug_object_key demo_photo_grant, 601000), (photo_prefix @ uuid_text 99, 601000)}\<rparr>"

lemma demo_urls_ok: "urls_ok demo_purge_world"
  by (simp add: urls_ok_def demo_purge_world_def)

lemma demo_object_keys: "object_keys demo_retention = {ug_object_key demo_photo_grant, photo_prefix @ uuid_text 99}"
  by (auto simp: object_keys_def demo_retention_tables demo_abandoned_def new_attachment_def)

lemma demo_photo_name: "photo_name (ug_object_key demo_photo_grant)" "photo_name (photo_prefix @ x)"
  by (simp_all add: photo_name_def demo_photo_grant_def new_grant_def photo_prefix_def)

lemma demo_purge_inv: "purge_inv demo_msg_ids 3 demo_purge_world"
proof -
  have apart: "ug_object_key demo_photo_grant \<noteq> photo_prefix @ uuid_text 99" using small_uuid_text [of 99] by simp
  have "objects_ok demo_retention"
    using apart demo_photo_name
    by (simp add: objects_ok_def demo_retention_tables demo_abandoned_def new_attachment_def)
  moreover have "photo_key demo_msg_ids i \<notin> object_keys demo_retention" if "i < 3" for i
  proof -
    have "uuid_text (i + 7) \<noteq> uuid_text 99" using uuid_text_inj [of "i + 7" 99] that by auto
    then show ?thesis using small_uuid_text [of "i + 7"] that
      by (simp add: demo_object_keys photo_key_def demo_msg_ids_def)
  qed
  moreover have "uuid_at demo_msg_ids i < 16 ^ 32" if "i < 3" for i using that by (simp add: demo_msg_ids_def)
  ultimately show ?thesis using demo_retention_inv
    by (simp add: purge_inv_def demo_purge_world_def known_keys_def committed_keys_def demo_object_keys demo_retention_tables)
qed

lemma demo_bucket_ok: "bucket_ok (\<lambda>b. set (demo_versions b)) demo_purge_world"
  by (auto simp: bucket_ok_def demo_purge_world_def demo_versions_def demo_objects_def)

text \<open>The run of one batch from there.\<close>

abbreviation demo_delete :: "(string \<times> string) list deletion" where
  "demo_delete \<equiv> delete_object (\<lambda>_. Some ''https:'') demo_retention_env demo_bucket"

lemma demo_run:
  obtains w where "(purge_step demo_msg_ids demo_delete (\<lambda>b. set (demo_versions b)))\<^sup>*\<^sup>* demo_purge_world w"
    "draws (w_db w) \<le> 3" "attachments (w_db w) = new_attachment 10 7 (Some demo_photo_grant)"
    "messages (w_db w) = [demo_message]" "w_clock w = 700000"
proof -
  obtain s b where run: "runBatch demo_delete 700000 False (demo_retention, demo_objects) = (s, b)"
    "photo_dropped (at_message ` set (filter (due_photo 700000 demo_retention) (attachments demo_retention)))
       (photos_left 700000 demo_retention) s"
    by (rule batch_result [OF demo_retention_sound demo_answers demo_retention_inv demo_fits(2,1)])
  have "finishes demo_msg_ids demo_delete (\<lambda>b. set (demo_versions b)) demo_purge_world (s, b) []"
    using finish_batch [of 700000 demo_purge_world demo_msg_ids demo_delete] run(1)
    by (simp add: demo_purge_world_def)
  then obtain w where w: "(purge_step demo_msg_ids demo_delete (\<lambda>b. set (demo_versions b)))\<^sup>*\<^sup>* demo_purge_world w"
    "w_db w = s" "w_clock w = 700000" unfolding finishes_def by (auto simp: demo_purge_world_def)
  have "filter (due_photo 700000 demo_retention) (attachments demo_retention) = []" using demo_due(2) by simp
  with run(2) have "draws s = draws (photos_left 700000 demo_retention)"
    "attachments s = attachments demo_retention" "messages s = messages (photos_left 700000 demo_retention)"
    by (simp_all add: photo_dropped_def photos_left_tables)
  moreover have "draws (photos_left 700000 demo_retention) = 1"
    by (simp add: photos_left_def purge_rows_def Let_def demo_retention_tables)
  moreover have "messages (photos_left 700000 demo_retention) = [demo_message]"
    by (simp add: photos_left_tables purge_rows_tables demo_retention_tables demo_message_def)
  ultimately show thesis using w by (intro that) (simp_all add: demo_retention_tables)
qed

theorem live_photos_stay_witness:
  "\<exists>w. (purge_step demo_msg_ids demo_delete (\<lambda>b. set (demo_versions b)))\<^sup>*\<^sup>* demo_purge_world w \<and>
     ug_object_key demo_photo_grant \<notin> w_tried w \<and> (ug_object_key demo_photo_grant, ''1'') \<in> set (demo_versions (w_bucket w))"
proof -
  obtain w where w: "(purge_step demo_msg_ids demo_delete (\<lambda>b. set (demo_versions b)))\<^sup>*\<^sup>* demo_purge_world w"
    "draws (w_db w) \<le> 3" "attachments (w_db w) = new_attachment 10 7 (Some demo_photo_grant)"
    "messages (w_db w) = [demo_message]" "w_clock w = 700000" by (rule demo_run)
  obtain a where a: "a \<in> set (attachments (w_db w))" "at_message a = 7" "at_object_key a = ug_object_key demo_photo_grant"
    unfolding w(3) by (simp add: new_attachment_def)
  have m: "demo_message \<in> set (messages (w_db w))" "m_id demo_message = at_message a" "w_clock w < m_expires demo_message"
    using w(4,5) a(2) by (simp_all add: demo_message_def)
  have "(ug_object_key demo_photo_grant, ''1'') \<in> set (demo_versions (w_bucket demo_purge_world))"
    by (simp add: demo_purge_world_def demo_versions_def demo_objects_def)
  with live_photos_stay [OF demo_retention_sound demo_purge_inv w(1,2) a(1) m] w(1) a(3) show ?thesis by auto
qed

theorem no_orphan_photos_witness:
  "(\<exists>w. (purge_step demo_msg_ids demo_delete (\<lambda>b. set (demo_versions b)))\<^sup>*\<^sup>* demo_purge_world w \<and> w_clock w = 700000 \<and>
     (\<forall>x \<in> set (demo_versions (w_bucket w)). photo_name (fst x) \<longrightarrow>
        (\<exists>p \<in> set (pending_uploads (w_db w)). pu_object_key p = fst x) \<or> (\<exists>a \<in> set (attachments (w_db w)). at_object_key a = fst x))) \<and>
   (\<exists>s b. runBatch demo_delete 700000 False (demo_retention, demo_objects) = (s, b) \<and>
     (\<forall>x \<in> set (demo_versions b). photo_name (fst x) \<longrightarrow>
        (\<exists>p \<in> set (pending_uploads s). pu_object_key p = fst x \<and>
           (700000 < pu_expires p \<or> \<not> retryable (700000 - RETRY_DELAY_MS) (pu_purge_attempt p))) \<or>
        (\<exists>a \<in> set (attachments s). at_object_key a = fst x \<and> (\<exists>m \<in> set (messages s). m_id m = at_message a \<and>
           (700000 < m_expires m \<or> \<not> retryable (700000 - RETRY_DELAY_MS) (at_purge_attempt a))))))"
proof -
  obtain w where w: "(purge_step demo_msg_ids demo_delete (\<lambda>b. set (demo_versions b)))\<^sup>*\<^sup>* demo_purge_world w"
    "draws (w_db w) \<le> 3" "w_clock w = 700000" by (rule demo_run)
  note later = no_orphan_photos [OF demo_retention_sound demo_purge_inv demo_bucket_ok demo_urls_ok w(1,2), THEN conjunct1]
  obtain s b where run: "runBatch demo_delete 700000 False (demo_retention, demo_objects) = (s, b)" by fastforce
  have start: "w_db demo_purge_world = demo_retention" "w_bucket demo_purge_world = demo_objects" by (simp_all add: demo_purge_world_def)
  have "draws (w_db demo_purge_world) \<le> 3" by (simp add: start demo_retention_tables)
  note now = no_orphan_photos [OF demo_retention_sound demo_purge_inv demo_bucket_ok demo_urls_ok rtranclp.rtrancl_refl this,
      THEN conjunct2, rule_format, unfolded start, OF _ demo_fits(2,1) run]
  show ?thesis
  proof (intro conjI exI [of _ w] exI [of _ s] exI [of _ b] ballI impI w(1,3) run)
    fix x assume "x \<in> set (demo_versions (w_bucket w))" "photo_name (fst x)"
    then show "(\<exists>p \<in> set (pending_uploads (w_db w)). pu_object_key p = fst x) \<or> (\<exists>a \<in> set (attachments (w_db w)). at_object_key a = fst x)"
      using later by blast
  next
    fix x assume "x \<in> set (demo_versions b)" "photo_name (fst x)"
    then show "(\<exists>p \<in> set (pending_uploads s). pu_object_key p = fst x \<and>
         (700000 < pu_expires p \<or> \<not> retryable (700000 - RETRY_DELAY_MS) (pu_purge_attempt p))) \<or>
      (\<exists>a \<in> set (attachments s). at_object_key a = fst x \<and> (\<exists>m \<in> set (messages s). m_id m = at_message a \<and>
         (700000 < m_expires m \<or> \<not> retryable (700000 - RETRY_DELAY_MS) (at_purge_attempt a))))"
      using demo_answers by (intro now) blast+
  qed
qed

theorem batch_is_a_run_witness:
  "\<exists>w. (purge_step demo_msg_ids demo_delete (\<lambda>b. set (demo_versions b)))\<^sup>*\<^sup>* demo_purge_world w \<and>
     (w_db w, w_bucket w) = runBatch demo_delete 700000 False (demo_retention, demo_objects)"
  using batch_is_a_run [of 700000 demo_purge_world demo_msg_ids demo_delete "\<lambda>b. set (demo_versions b)" False]
  by (auto simp: demo_purge_world_def)

end
