(* ===== verification/KeyRequests.thy ===== *)
theory KeyRequests
  imports KeyUpload
begin

text \<open>
  apps/api/src/e2ee/matrix-key-requests.ts: the validation of the two requests to the directory of
  public keys, keys/query and keys/claim, and what of them is hashed to recognise a repeated claim.
\<close>

definition request_id :: "string \<Rightarrow> bool" where
  "request_id s \<longleftrightarrow> 1 \<le> length s \<and> length s \<le> 64 \<and>
     list_all (\<lambda>c. alphanumeric c \<or> c \<in> set ''._~-'') s"

abbreviation MAX_USERS_PER_REQUEST :: nat where
  "MAX_USERS_PER_REQUEST \<equiv> 20"

abbreviation MAX_DEVICES_PER_USER :: nat where
  "MAX_DEVICES_PER_USER \<equiv> 10"

record keys_query =
  kq_device_keys :: "(string \<times> string list) list"
  kq_timeout :: "json_number option"

record keys_claim =
  kc_one_time_keys :: "(string \<times> (string \<times> string) list) list"
  kc_timeout :: "json_number option"

definition exactOptionalKeys ::
    "(string \<times> json) list \<Rightarrow> string list \<Rightarrow> string list \<Rightarrow> string \<Rightarrow> error + unit" where
  "exactOptionalKeys kvs required optional err =
     guardE ((\<forall>k \<in> set required. k \<in> set (map fst kvs)) \<and>
         (\<forall>k \<in> set (map fst kvs). k \<in> set required \<or> k \<in> set optional)) (ValidationError err)"

text \<open>Minus zero is a safe integer that is neither below 0 nor above the maximum.\<close>

definition optionalTimeout :: "json option \<Rightarrow> error + json_number option" where
  "optionalTimeout v =
     (case v of
        None \<Rightarrow> Inr None
      | Some (JNum (IntNum n)) \<Rightarrow>
          if \<not> safe_integer n \<or> n < 0 \<or> 30000 < n then Inl (ValidationError ''MATRIX_REQUEST_TIMEOUT_INVALID'')
          else Inr (Some (IntNum n))
      | Some (JNum MinusZero) \<Rightarrow> Inr (Some MinusZero)
      | Some _ \<Rightarrow> Inl (ValidationError ''MATRIX_REQUEST_TIMEOUT_INVALID''))"

section \<open>keys/query\<close>

fun parse_query_devices :: "json list \<Rightarrow> error + string list" where
  "parse_query_devices [] = Inr []"
| "parse_query_devices (v # rest) =
     (case v of
        JStr d \<Rightarrow>
          bindE (guardE (matrix_device_id d) (ValidationError ''MATRIX_DEVICE_ID_INVALID'')) (\<lambda>_.
          bindE (parse_query_devices rest) (\<lambda>ds. Inr (d # ds)))
      | _ \<Rightarrow> Inl (ValidationError ''MATRIX_KEYS_QUERY_DEVICES_INVALID''))"

fun parse_query_users :: "(string \<times> json) list \<Rightarrow> error + (string \<times> string list) list" where
  "parse_query_users [] = Inr []"
| "parse_query_users ((u, raw) # rest) =
     bindE (guardE (matrix_user_id u) (ValidationError ''MATRIX_USER_ID_INVALID'')) (\<lambda>_.
     bindE (case raw of
         JArr vs \<Rightarrow> if MAX_DEVICES_PER_USER < length vs then Inl (ValidationError ''MATRIX_KEYS_QUERY_DEVICES_INVALID'')
           else Inr vs
       | _ \<Rightarrow> Inl (ValidationError ''MATRIX_KEYS_QUERY_DEVICES_INVALID'')) (\<lambda>vs.
     bindE (parse_query_devices vs) (\<lambda>ds.
     bindE (guardE (distinct ds) (ValidationError ''MATRIX_KEYS_QUERY_DEVICES_INVALID'')) (\<lambda>_.
     bindE (parse_query_users rest) (\<lambda>us. Inr ((u, ds) # us))))))"

definition parseMatrixKeysQuery :: "json \<Rightarrow> error + keys_query" where
  "parseMatrixKeysQuery v =
     bindE (as_record ''MATRIX_KEYS_QUERY_NOT_OBJECT'' v) (\<lambda>body.
     bindE (exactOptionalKeys body [''device_keys''] [''timeout''] ''MATRIX_KEYS_QUERY_FIELDS_INVALID'') (\<lambda>_.
     bindE (record_of (field body ''device_keys'') ''MATRIX_KEYS_QUERY_DEVICE_KEYS_INVALID'') (\<lambda>users.
     bindE (guardE (1 \<le> length users \<and> length users \<le> MAX_USERS_PER_REQUEST)
       (ValidationError ''MATRIX_KEYS_QUERY_USER_LIMIT_INVALID'')) (\<lambda>_.
     bindE (parse_query_users users) (\<lambda>parsed.
     bindE (optionalTimeout (field body ''timeout'')) (\<lambda>timeout.
     Inr \<lparr>kq_device_keys = parsed, kq_timeout = timeout\<rparr>))))))"

section \<open>keys/claim\<close>

fun parse_claim_devices :: "(string \<times> json) list \<Rightarrow> error + (string \<times> string) list" where
  "parse_claim_devices [] = Inr []"
| "parse_claim_devices ((d, algorithm) # rest) =
     bindE (guardE (matrix_device_id d) (ValidationError ''MATRIX_DEVICE_ID_INVALID'')) (\<lambda>_.
     bindE (guardE (algorithm = JStr signed_curve) (ValidationError ''MATRIX_KEYS_CLAIM_ALGORITHM_INVALID'')) (\<lambda>_.
     bindE (parse_claim_devices rest) (\<lambda>ds. Inr ((d, signed_curve) # ds))))"

fun parse_claim_users :: "(string \<times> json) list \<Rightarrow> error + (string \<times> (string \<times> string) list) list" where
  "parse_claim_users [] = Inr []"
| "parse_claim_users ((u, raw) # rest) =
     bindE (guardE (matrix_user_id u) (ValidationError ''MATRIX_USER_ID_INVALID'')) (\<lambda>_.
     bindE (as_record ''MATRIX_KEYS_CLAIM_DEVICES_INVALID'' raw) (\<lambda>entries.
     bindE (guardE (1 \<le> length entries \<and> length entries \<le> MAX_DEVICES_PER_USER)
       (ValidationError ''MATRIX_KEYS_CLAIM_DEVICE_LIMIT_INVALID'')) (\<lambda>_.
     bindE (parse_claim_devices entries) (\<lambda>ds.
     bindE (parse_claim_users rest) (\<lambda>us. Inr ((u, ds) # us))))))"

text \<open>The counter \<open>targets\<close> of the code.\<close>

definition claim_targets :: "(string \<times> (string \<times> string) list) list \<Rightarrow> nat" where
  "claim_targets us = sum_list (map (\<lambda>(u, ds). length ds) us)"

definition parseMatrixKeysClaim :: "json \<Rightarrow> error + keys_claim" where
  "parseMatrixKeysClaim v =
     bindE (as_record ''MATRIX_KEYS_CLAIM_NOT_OBJECT'' v) (\<lambda>body.
     bindE (exactOptionalKeys body [''one_time_keys''] [''timeout''] ''MATRIX_KEYS_CLAIM_FIELDS_INVALID'') (\<lambda>_.
     bindE (record_of (field body ''one_time_keys'') ''MATRIX_KEYS_CLAIM_KEYS_INVALID'') (\<lambda>users.
     bindE (guardE (1 \<le> length users \<and> length users \<le> MAX_USERS_PER_REQUEST)
       (ValidationError ''MATRIX_KEYS_CLAIM_USER_LIMIT_INVALID'')) (\<lambda>_.
     bindE (parse_claim_users users) (\<lambda>parsed.
     bindE (guardE (claim_targets parsed \<le> MAX_DEVICES_PER_USER)
       (ValidationError ''MATRIX_KEYS_CLAIM_DEVICE_LIMIT_INVALID'')) (\<lambda>_.
     bindE (optionalTimeout (field body ''timeout'')) (\<lambda>timeout.
     Inr \<lparr>kc_one_time_keys = parsed, kc_timeout = timeout\<rparr>)))))))"

definition parseMatrixClaimRequestId :: "string \<Rightarrow> error + string" where
  "parseMatrixClaimRequestId s =
     (if request_id s then Inr s else Inl (ValidationError ''MATRIX_KEYS_CLAIM_REQUEST_ID_INVALID''))"

section \<open>Back to JSON\<close>

definition with_timeout :: "(string \<times> json) list \<Rightarrow> json_number option \<Rightarrow> json" where
  "with_timeout kvs timeout = JObj (kvs @ (case timeout of None \<Rightarrow> [] | Some n \<Rightarrow> [(''timeout'', JNum n)]))"

definition matrixQueryHashInput :: "keys_query \<Rightarrow> json" where
  "matrixQueryHashInput q =
     with_timeout [(''device_keys'', JObj (map (\<lambda>(u, ds). (u, JArr (map JStr ds))) (kq_device_keys q)))]
       (kq_timeout q)"

definition matrixClaimHashInput :: "keys_claim \<Rightarrow> json" where
  "matrixClaimHashInput c =
     with_timeout [(''one_time_keys'', JObj (map (\<lambda>(u, ds). (u, strings_json ds)) (kc_one_time_keys c)))]
       (kc_timeout c)"

section \<open>What is accepted\<close>

definition timeout_ok :: "json_number option \<Rightarrow> bool" where
  "timeout_ok t \<longleftrightarrow> t = None \<or> t = Some MinusZero \<or> (\<exists>n. t = Some (IntNum n) \<and> 0 \<le> n \<and> n \<le> 30000)"

definition query_ok :: "keys_query \<Rightarrow> bool" where
  "query_ok q \<longleftrightarrow> 1 \<le> length (kq_device_keys q) \<and> length (kq_device_keys q) \<le> MAX_USERS_PER_REQUEST \<and>
     (\<forall>(u, ds) \<in> set (kq_device_keys q). matrix_user_id u \<and> distinct ds \<and>
        length ds \<le> MAX_DEVICES_PER_USER \<and> (\<forall>d \<in> set ds. matrix_device_id d)) \<and>
     timeout_ok (kq_timeout q)"

definition claim_ok :: "keys_claim \<Rightarrow> bool" where
  "claim_ok c \<longleftrightarrow> 1 \<le> length (kc_one_time_keys c) \<and> length (kc_one_time_keys c) \<le> MAX_USERS_PER_REQUEST \<and>
     (\<forall>(u, ds) \<in> set (kc_one_time_keys c). matrix_user_id u \<and> ds \<noteq> [] \<and>
        (\<forall>(d, algorithm) \<in> set ds. matrix_device_id d \<and> algorithm = signed_curve)) \<and>
     claim_targets (kc_one_time_keys c) \<le> MAX_DEVICES_PER_USER \<and> timeout_ok (kc_timeout c)"

lemma optionalTimeout_iff: "optionalTimeout v = Inr t \<longleftrightarrow> v = map_option JNum t \<and> timeout_ok t"
proof (cases t)
  case None
  then show ?thesis
    by (auto simp: optionalTimeout_def timeout_ok_def split: option.splits json.splits json_number.splits if_splits)
next
  case (Some n)
  then show ?thesis
    by (cases n)
      (auto simp: optionalTimeout_def timeout_ok_def safe_integer_def
        split: option.splits json.splits json_number.splits if_splits)
qed

lemma parse_query_devices_iff:
  "parse_query_devices vs = Inr ds \<longleftrightarrow> vs = map JStr ds \<and> (\<forall>d \<in> set ds. matrix_device_id d)"
  by (induction vs arbitrary: ds) (auto simp: check_iffs split: json.splits)

lemma parse_query_users_iff:
  "parse_query_users us = Inr qs \<longleftrightarrow> us = map (\<lambda>(u, ds). (u, JArr (map JStr ds))) qs \<and>
     (\<forall>(u, ds) \<in> set qs. matrix_user_id u \<and> distinct ds \<and> length ds \<le> MAX_DEVICES_PER_USER \<and>
        (\<forall>d \<in> set ds. matrix_device_id d))"
proof (induction us arbitrary: qs rule: parse_query_users.induct)
  case (2 u raw rest)
  then show ?case
    by (cases qs; cases raw) (auto simp: check_iffs parse_query_devices_iff split: if_splits)
qed auto

lemma parse_claim_devices_iff:
  "parse_claim_devices es = Inr ds \<longleftrightarrow> es = map (\<lambda>(d, a). (d, JStr a)) ds \<and>
     (\<forall>(d, a) \<in> set ds. matrix_device_id d \<and> a = signed_curve)"
  by (induction es arbitrary: ds rule: parse_claim_devices.induct) (auto simp: check_iffs)

lemma parse_claim_users_iff:
  "parse_claim_users us = Inr cs \<longleftrightarrow> us = map (\<lambda>(u, ds). (u, strings_json ds)) cs \<and>
     (\<forall>(u, ds) \<in> set cs. matrix_user_id u \<and> ds \<noteq> [] \<and> length ds \<le> MAX_DEVICES_PER_USER \<and>
        (\<forall>(d, a) \<in> set ds. matrix_device_id d \<and> a = signed_curve))"
proof (induction us arbitrary: cs rule: parse_claim_users.induct)
  case (2 u raw rest)
  then show ?case
    by (cases cs) (auto simp: check_iffs as_record_Inr_iff parse_claim_devices_iff strings_json_def Suc_le_eq)
qed auto

lemma targets_member: "(u, ds) \<in> set cs \<Longrightarrow> length ds \<le> claim_targets cs"
  by (induction cs) (auto simp: claim_targets_def)

section \<open>Properties\<close>

lemma with_timeout_fields:
  "with_timeout [(k, x)] t = JObj kvs \<Longrightarrow> k \<noteq> ''timeout'' \<Longrightarrow>
     field kvs k = Some x \<and> field kvs ''timeout'' = map_option JNum t \<and>
     set (map fst kvs) \<subseteq> {k, ''timeout''} \<and> k \<in> set (map fst kvs)"
  by (cases t) (auto simp: with_timeout_def field_def)

lemma claim_ok_users:
  "claim_ok c \<Longrightarrow> (u, ds) \<in> set (kc_one_time_keys c) \<Longrightarrow> length ds \<le> MAX_DEVICES_PER_USER"
  using targets_member by (fastforce simp: claim_ok_def)

lemma claim_parsed:
  assumes "claim_ok c"
  shows "parseMatrixKeysClaim (matrixClaimHashInput c) = Inr c"
proof -
  obtain kvs where kvs: "matrixClaimHashInput c = JObj kvs"
    by (auto simp: matrixClaimHashInput_def with_timeout_def)
  note fields = with_timeout_fields [OF kvs [unfolded matrixClaimHashInput_def]]
  have users: "parse_claim_users (map (\<lambda>(u, ds). (u, strings_json ds)) (kc_one_time_keys c)) = Inr (kc_one_time_keys c)"
    using assms claim_ok_users [OF assms] unfolding parse_claim_users_iff claim_ok_def by fastforce
  have time: "optionalTimeout (map_option JNum (kc_timeout c)) = Inr (kc_timeout c)"
    using assms by (simp add: optionalTimeout_iff claim_ok_def)
  from assms fields users time show ?thesis
    unfolding kvs parseMatrixKeysClaim_def
    by (auto simp: check_iffs as_record_Inr_iff record_of_Inr_iff exactOptionalKeys_def claim_ok_def guardE_def
        as_record_def record_of_def)
qed

lemma claim_accepted:
  assumes "parseMatrixKeysClaim v = Inr c"
  shows "claim_ok c"
proof -
  from assms obtain users where
    users: "parse_claim_users users = Inr (kc_one_time_keys c)" and "1 \<le> length users"
      "length users \<le> MAX_USERS_PER_REQUEST" "claim_targets (kc_one_time_keys c) \<le> MAX_DEVICES_PER_USER"
      "timeout_ok (kc_timeout c)"
    by (auto simp: parseMatrixKeysClaim_def check_iffs optionalTimeout_iff)
  moreover from users have "length (kc_one_time_keys c) = length users"
    by (auto simp: parse_claim_users_iff)
  moreover have "\<forall>(u, ds) \<in> set (kc_one_time_keys c). matrix_user_id u \<and> ds \<noteq> [] \<and>
      (\<forall>(d, a) \<in> set ds. matrix_device_id d \<and> a = signed_curve)"
    using users unfolding parse_claim_users_iff by blast
  ultimately show ?thesis by (simp add: claim_ok_def)
qed

text \<open>Keys/claim accepts only requests within its limits (1 to 20 users, 1 to 10 devices in all, well-formed
  identifiers, the one algorithm, a timeout of at most 30 seconds), every such request is accepted, and
  what is hashed of it to recognise a repetition is the whole request: parsing it gives the request again.\<close>

theorem claim_requests_roundtrip:
  "((\<exists>v. parseMatrixKeysClaim v = Inr c) \<longleftrightarrow> claim_ok c) \<and>
   (parseMatrixKeysClaim (matrixClaimHashInput c) = Inr c \<longleftrightarrow> claim_ok c)"
  using claim_accepted claim_parsed by blast

end
