(* ===== verification/KeyDirectory.thy ===== *)
theory KeyDirectory
  imports ToDevice KeyRequests DeviceLists
begin

text \<open>
  apps/api/src/e2ee/matrix-key-directory.service.ts: the directory of the public keys of devices.  A
  session reserves a device and publishes its keys, which binds the session to the device; the
  device replenishes its one-time keys and rotates its fallback key; the counterpart of a current
  conversation, or another device of the same account, queries the keys and claims one-time keys.
  With it the identifiers of packages/contracts/src/index.ts and the bearer secret of
  apps/api/src/devices/device-binding-secret.ts.
\<close>

section \<open>Tables\<close>

record claim_request_row =
  cq_id :: uuid
  cq_device :: uuid
  cq_conversation :: "uuid option"
  cq_request :: string
  cq_hash :: string
  cq_created :: time

record claim_result_row =
  cl_id :: uuid
  cl_request :: uuid
  cl_recipient :: uuid
  cl_algorithm :: string
  cl_one_time :: "uuid option"
  cl_fallback :: "uuid option"
  cl_claimed :: time

text \<open>The three keys of the stored signing keys, and the certificate of a device.\<close>

record identity_row =
  ci_user :: uuid
  ci_matrix_user :: string
  ci_master_key :: json
  ci_self_signing_key :: json
  ci_user_signing_key :: json

record certificate_row =
  ct_device :: uuid
  ct_signed :: json

record key_db = e2e_db +
  claim_requests :: "claim_request_row list"
  claim_results :: "claim_result_row list"
  identities :: "identity_row list"
  certificates :: "certificate_row list"

record key_service =
  ks_server :: string                            \<comment> \<open>readMatrixServerName, normalised\<close>
  ks_sha :: "string \<Rightarrow> string"
  ks_hmac :: "nat list \<Rightarrow> nat list"               \<comment> \<open>HMAC-SHA-256 under the device binding secret\<close>
  ks_ed :: ed25519

abbreviation REGISTRATION_TTL_MS :: time where
  "REGISTRATION_TTL_MS \<equiv> 600000"

abbreviation MATRIX_PROTOCOL_VERSION :: string where
  "MATRIX_PROTOCOL_VERSION \<equiv> ''matrix-olm-v1''"

section \<open>Identifiers\<close>

definition uuidHex :: "uuid \<Rightarrow> string" where
  "uuidHex i = filter (\<lambda>c. c \<noteq> CHR ''-'') (uuid_text i)"

definition upper_ascii :: "char \<Rightarrow> char" where
  "upper_ascii c = (if 97 \<le> code c \<and> code c \<le> 122 then byte (code c - 32) else c)"

definition lower_ascii :: "char \<Rightarrow> char" where
  "lower_ascii c = (if 65 \<le> code c \<and> code c \<le> 90 then byte (code c + 32) else c)"

definition matrixUserIdFromUuid :: "uuid \<Rightarrow> string \<Rightarrow> string" where
  "matrixUserIdFromUuid i server = ''@u'' @ uuidHex i @ '':'' @ server"

definition matrixDeviceIdFromUuid :: "uuid \<Rightarrow> string" where
  "matrixDeviceIdFromUuid i = CHR ''D'' # map upper_ascii (uuidHex i)"

definition hex_number :: "string \<Rightarrow> nat" where
  "hex_number s = foldl (\<lambda>n c. n * 16 + (if code c \<le> 57 then code c - 48 else code c - 87)) 0 s"

text \<open>The identifier is read without regard to case, and must be of this server.\<close>

definition sinochatUserIdFromMatrixUserId :: "string \<Rightarrow> string \<Rightarrow> uuid option" where
  "sinochatUserIdFromMatrixUserId u server =
     (let l = map lower_ascii u in
      if take 2 l = ''@u'' \<and> length (drop 2 l) \<ge> 34 \<and> list_all lower_hex (take 32 (drop 2 l)) \<and>
         l ! 34 = CHR '':'' \<and> drop 35 l = server
      then Some (hex_number (take 32 (drop 2 l))) else None)"

section \<open>The binding secret\<close>

record issued_binding =
  ib_secret :: string
  ib_hash :: string

definition hex_bytes :: "nat list \<Rightarrow> string" where
  "hex_bytes bs = concat (map (\<lambda>b. [hex_digit (b div 16), hex_digit (b mod 16)]) bs)"

definition hashDeviceBindingSecret :: "key_service \<Rightarrow> string \<Rightarrow> string" where
  "hashDeviceBindingSecret k secret = hex_bytes (ks_hmac k (utf8_encode secret))"

definition uuid_v4 :: "string \<Rightarrow> bool" where
  "uuid_v4 s \<longleftrightarrow> uuid_shape s \<and> s ! 14 = CHR ''4'' \<and> s ! 19 \<in> set ''89ab''"

definition deriveMatrixDeviceBindingSecret :: "key_service \<Rightarrow> uuid \<Rightarrow> error + issued_binding" where
  "deriveMatrixDeviceBindingSecret k device =
     (if \<not> uuid_v4 (uuid_text device)
      then Inl (InternalError ''El deviceId Matrix debe ser un UUID v4 canonico.'')
      else let secret = base64url_encode (ks_hmac k
            (utf8_encode (''sinochat:matrix-device-binding:v1:'' @ uuid_text device)))
        in Inr \<lparr>ib_secret = secret, ib_hash = hashDeviceBindingSecret k secret\<rparr>)"

definition verifyDeviceBindingSecret :: "key_service \<Rightarrow> string \<Rightarrow> string \<Rightarrow> bool" where
  "verifyDeviceBindingSecret k secret expected \<longleftrightarrow>
     length expected = 64 \<and> list_all lower_hex expected \<and> hashDeviceBindingSecret k secret = expected"

section \<open>Sessions\<close>

text \<open>The rethrow functions: a validation error becomes a bad request with its code.\<close>

definition rethrowValidation :: "error + 'a \<Rightarrow> error + 'a" where
  "rethrowValidation r = (case r of Inl (ValidationError err) \<Rightarrow> Inl (BadRequest err) | _ \<Rightarrow> r)"

definition requireBoundKeyDevice :: "principal \<Rightarrow> error + uuid" where
  "requireBoundKeyDevice p =
     (if pn_role p \<noteq> CLIENT \<and> pn_role p \<noteq> CASHIER
      then Inl (Forbidden ''El rol no puede consultar identidades de chat.'')
      else case pn_device p of
        None \<Rightarrow> Inl (Forbidden ''La sesion no esta vinculada a un dispositivo.'')
      | Some d \<Rightarrow> Inr d)"

definition requireCurrentSession ::
    "principal \<Rightarrow> time \<Rightarrow> uuid option \<Rightarrow> ('x e2e_db_scheme, nat) tx" where
  "requireCurrentSession p now expected s =
     (case find (\<lambda>se. se_id se = pn_session p) (sessions s) of
        None \<Rightarrow> Inl (Unauthorized ''La sesion ya no esta vigente.'')
      | Some se \<Rightarrow>
          (case find (\<lambda>u. u_id u = se_user se) (users s) of
             None \<Rightarrow> Inl (Unauthorized ''La sesion ya no esta vigente.'')
           | Some u \<Rightarrow>
               if se_user se \<noteq> pn_id p \<or> se_device se \<noteq> expected \<or> se_revoked se \<noteq> None \<or>
                  se_expires se \<le> now \<or> se_version se \<noteq> u_session_version u \<or>
                  u_status u \<noteq> AccActive \<or> u_reset_required u
               then Inl (Unauthorized ''La sesion ya no esta vigente.'')
               else Inr (se_version se, s)))"

section \<open>Reserving a device\<close>

record registration_response =
  rs_device :: uuid
  rs_matrix_user :: string
  rs_matrix_device :: string
  rs_server :: string
  rs_expires :: time

definition registrationResponse :: "key_service \<Rightarrow> uuid \<Rightarrow> uuid \<Rightarrow> time \<Rightarrow> registration_response" where
  "registrationResponse k user reg expires =
     \<lparr>rs_device = reg, rs_matrix_user = matrixUserIdFromUuid user (ks_server k),
       rs_matrix_device = matrixDeviceIdFromUuid reg, rs_server = ks_server k, rs_expires = expires\<rparr>"

definition drop_stale_registrations :: "principal \<Rightarrow> time \<Rightarrow> ('x e2e_db_scheme, unit) tx" where
  "drop_stale_registrations p now = modifyT (\<lambda>s. s\<lparr>registrations :=
     filter (\<lambda>r. \<not> (rg_session r = pn_session p \<and> rg_consumed r = None \<and> rg_expires r \<le> now)) (registrations s)\<rparr>)"

definition open_registration :: "principal \<Rightarrow> time \<Rightarrow> 'x e2e_db_scheme \<Rightarrow> registration_row option" where
  "open_registration p now s =
     find (\<lambda>r. rg_session r = pn_session p \<and> rg_user r = pn_id p \<and> rg_consumed r = None \<and> now < rg_expires r)
       (registrations s)"

definition create_registration :: "env \<Rightarrow> principal \<Rightarrow> time \<Rightarrow> ('x e2e_db_scheme, uuid) tx" where
  "create_registration e p now =
     bindT (new_uuid e) (\<lambda>i. bindT (modifyT (\<lambda>s. s\<lparr>registrations := registrations s @
       [\<lparr>rg_id = i, rg_user = pn_id p, rg_session = pn_session p, rg_created = now,
         rg_expires = now + REGISTRATION_TTL_MS, rg_consumed = None, rg_hash = None, rg_count = None\<rparr>]\<rparr>))
       (\<lambda>_. returnT i))"

definition reserveDevice ::
    "key_service \<Rightarrow> env \<Rightarrow> time \<Rightarrow> principal \<Rightarrow> ('x e2e_db_scheme, registration_response) tx" where
  "reserveDevice k e now p =
     bindT (guardT (pn_device p = None) (Conflict ''Esta sesion ya esta vinculada a un dispositivo.'')) (\<lambda>_.
     bindT (lockOperationalUser (pn_id p)) (\<lambda>_.
     bindT (requireCurrentSession p now None) (\<lambda>_.
     bindT (drop_stale_registrations p now) (\<lambda>_.
     bindT (getT (open_registration p now)) (\<lambda>found.
     case found of
       Some r \<Rightarrow> returnT (registrationResponse k (pn_id p) (rg_id r) (rg_expires r))
     | None \<Rightarrow>
         bindT (getT (\<lambda>s. count_where (\<lambda>d. d_user d = pn_id p) (devices s))) (\<lambda>historical.
         bindT (guardT (historical = 0) (Conflict
           ''El alta de otro dispositivo requiere la ceremonia de autorizacion E2EE pendiente.'')) (\<lambda>_.
         bindT (create_registration e p now) (\<lambda>i.
         returnT (registrationResponse k (pn_id p) i (now + REGISTRATION_TTL_MS))))))))))"
section \<open>Publishing keys\<close>

definition curveKeyId :: "string \<Rightarrow> error + string" where
  "curveKeyId full =
     (let prefix = signed_curve @ '':'' in
      if take (length prefix) full = prefix then Inr (drop (length prefix) full)
      else Inl (BadRequest ''Identificador de preclave invalido.''))"

text \<open>
  The trigger of both key tables: a key needs an active published device and may not repeat a
  Curve25519 key, or an identifier, of the identity keys or of the other table.
\<close>

definition published_active :: "'x e2e_db_scheme \<Rightarrow> uuid \<Rightarrow> bool" where
  "published_active s device \<longleftrightarrow>
     (\<exists>d \<in> set (devices s). d_id d = device \<and> d_status d = DevActive) \<and>
     (\<exists>m \<in> set (matrix_keys s). mk_device m = device)"

definition insert_one_time_key ::
    "env \<Rightarrow> uuid \<Rightarrow> time \<Rightarrow> string \<Rightarrow> signed_curve_key \<Rightarrow> string \<Rightarrow> ('x e2e_db_scheme, unit) tx" where
  "insert_one_time_key e device now keyId key h s =
     (if \<not> published_active s device then Inl (CheckViolation ''matrix_one_time_keys'')
      else if (\<exists>m \<in> set (matrix_keys s). mk_curve m = sk_key key) \<or>
        (\<exists>f \<in> set (fallback_keys s). fk_curve f = sk_key key \<or>
           fk_device f = device \<and> fk_algorithm f = signed_curve \<and> fk_key_id f = keyId)
      then Inl (UniqueViolation ''matrix_one_time_keys_validation'')
      else if 100 \<le> unclaimed_keys s device then Inl (CheckViolation ''matrix_one_time_keys'')
      else if \<exists>o' \<in> set (one_time_keys s). ok_curve o' = sk_key key
      then Inl (UniqueViolation ''matrix_one_time_keys_curve25519_key'')
      else Inr ((), s\<lparr>draws := Suc (draws s), one_time_keys := one_time_keys s @
        [\<lparr>ok_id = uuid_at e (draws s), ok_device = device, ok_algorithm = signed_curve, ok_key_id = keyId,
          ok_curve = sk_key key, ok_signed = key, ok_hash = h, ok_uploaded = now, ok_claimed = None\<rparr>]\<rparr>))"

definition find_one_time_key :: "'x e2e_db_scheme \<Rightarrow> uuid \<Rightarrow> string \<Rightarrow> one_time_key option" where
  "find_one_time_key s device keyId =
     find (\<lambda>o'. ok_device o' = device \<and> ok_algorithm o' = signed_curve \<and> ok_key_id o' = keyId) (one_time_keys s)"

definition publish_one_time_key ::
    "key_service \<Rightarrow> env \<Rightarrow> uuid \<Rightarrow> time \<Rightarrow> string \<times> signed_curve_key \<Rightarrow> ('x e2e_db_scheme, unit) tx" where
  "publish_one_time_key k e device now = (\<lambda>(full, key).
     bindT (liftT (curveKeyId full)) (\<lambda>keyId.
     bindT (liftT (hashMatrixCanonicalJson (ks_sha k) (JObj (curve_key_entries key)))) (\<lambda>h.
     bindT (getT (\<lambda>s. find_one_time_key s device keyId)) (\<lambda>existing.
     case existing of
       Some o' \<Rightarrow> guardT (ok_curve o' = sk_key key \<and> ok_hash o' = h)
         (Conflict ''Una preclave Matrix existente no puede sustituirse.'')
     | None \<Rightarrow> insert_one_time_key e device now keyId key h))))"

definition insertOneTimeKeys ::
    "key_service \<Rightarrow> env \<Rightarrow> uuid \<Rightarrow> (string \<times> signed_curve_key) list \<Rightarrow> time \<Rightarrow> ('x e2e_db_scheme, unit list) tx" where
  "insertOneTimeKeys k e device keys now = mapT (publish_one_time_key k e device now) keys"

definition find_fallback_key :: "'x e2e_db_scheme \<Rightarrow> uuid \<Rightarrow> string \<Rightarrow> fallback_key option" where
  "find_fallback_key s device keyId =
     find (\<lambda>f. fk_device f = device \<and> fk_algorithm f = signed_curve \<and> fk_key_id f = keyId) (fallback_keys s)"

definition insert_fallback_key ::
    "env \<Rightarrow> uuid \<Rightarrow> time \<Rightarrow> string \<Rightarrow> signed_curve_key \<Rightarrow> string \<Rightarrow> ('x e2e_db_scheme, fallback_key) tx" where
  "insert_fallback_key e device now keyId key h s =
     (if \<not> published_active s device then Inl (CheckViolation ''matrix_fallback_keys'')
      else if (\<exists>m \<in> set (matrix_keys s). mk_curve m = sk_key key) \<or>
        (\<exists>o' \<in> set (one_time_keys s). ok_curve o' = sk_key key \<or>
           ok_device o' = device \<and> ok_algorithm o' = signed_curve \<and> ok_key_id o' = keyId)
      then Inl (UniqueViolation ''matrix_fallback_keys_validation'')
      else if \<exists>f \<in> set (fallback_keys s). fk_curve f = sk_key key
      then Inl (UniqueViolation ''matrix_fallback_keys_curve25519_key'')
      else
        let f = \<lparr>fk_id = uuid_at e (draws s), fk_device = device, fk_algorithm = signed_curve, fk_key_id = keyId,
          fk_curve = sk_key key, fk_signed = key, fk_hash = h, fk_uploaded = now, fk_first_claimed = None\<rparr>
        in Inr (f, s\<lparr>draws := Suc (draws s), fallback_keys := fallback_keys s @ [f]\<rparr>))"

definition find_slot :: "'x e2e_db_scheme \<Rightarrow> uuid \<Rightarrow> fallback_slot option" where
  "find_slot s device = find (\<lambda>l. fb_device l = device \<and> fb_algorithm l = signed_curve) (fallback_slots s)"

definition current_fallback :: "'x e2e_db_scheme \<Rightarrow> fallback_slot \<Rightarrow> fallback_key option" where
  "current_fallback s l = find (\<lambda>f. fk_id f = fb_current l) (fallback_keys s)"

text \<open>The slot of the device is created, moved to a key uploaded later, or left alone.\<close>

definition move_slot :: "uuid \<Rightarrow> fallback_key \<Rightarrow> ('x e2e_db_scheme, unit) tx" where
  "move_slot device f s =
     (case find_slot s device of
        None \<Rightarrow> Inr ((), s\<lparr>fallback_slots := fallback_slots s @
          [\<lparr>fb_device = device, fb_algorithm = signed_curve, fb_current = fk_id f\<rparr>]\<rparr>)
      | Some l \<Rightarrow>
          if fb_current l = fk_id f then Inr ((), s)
          else (case current_fallback s l of
              None \<Rightarrow> Inl (RecordMissing ''currentKey'')
            | Some c \<Rightarrow>
                if fk_uploaded f \<le> fk_uploaded c
                then Inl (Conflict ''La rotacion fallback debe reintentarse con un reloj posterior.'')
                else Inr ((), s\<lparr>fallback_slots := upd_where
                  (\<lambda>l. fb_device l = device \<and> fb_algorithm l = signed_curve)
                  (\<lambda>l. l\<lparr>fb_current := fk_id f\<rparr>) (fallback_slots s)\<rparr>)))"

definition rotateFallbackKey ::
    "key_service \<Rightarrow> env \<Rightarrow> uuid \<Rightarrow> (string \<times> signed_curve_key) list \<Rightarrow> time \<Rightarrow> ('x e2e_db_scheme, unit) tx" where
  "rotateFallbackKey k e device keys now =
     (case keys of
        [] \<Rightarrow> returnT ()
      | (full, key) # _ \<Rightarrow>
          bindT (liftT (curveKeyId full)) (\<lambda>keyId.
          bindT (liftT (hashMatrixCanonicalJson (ks_sha k) (JObj (curve_key_entries key)))) (\<lambda>h.
          bindT (getT (\<lambda>s. find_fallback_key s device keyId)) (\<lambda>existing.
          bindT (case existing of
              Some f \<Rightarrow> bindT (guardT (fk_curve f = sk_key key \<and> fk_hash f = h)
                (Conflict ''Una fallback Matrix existente no puede sustituirse.'')) (\<lambda>_. returnT f)
            | None \<Rightarrow> insert_fallback_key e device now keyId key h) (\<lambda>f. move_slot device f)))))"

definition translate_unique :: "string \<Rightarrow> error + 'a \<Rightarrow> error + 'a" where
  "translate_unique msg r = (case r of Inl (UniqueViolation _) \<Rightarrow> Inl (Conflict msg) | _ \<Rightarrow> r)"

text \<open>The identity the device published, and the check that an upload does not change it.\<close>

definition find_matrix_key :: "'x e2e_db_scheme \<Rightarrow> uuid \<Rightarrow> matrix_key_row option" where
  "find_matrix_key s device = find (\<lambda>m. mk_device m = device) (matrix_keys s)"

definition same_identity :: "key_service \<Rightarrow> matrix_key_row \<Rightarrow> key_upload \<Rightarrow> error + unit" where
  "same_identity k current u =
     (case ku_device_keys u of
        None \<Rightarrow> Inr ()
      | Some d \<Rightarrow>
          bindE (hashMatrixCanonicalJson (ks_sha k) (JObj (device_keys_entries d))) (\<lambda>h.
          guardE (h = mk_hash current) (Conflict ''Las claves de identidad del dispositivo son inmutables.'')))"

definition upload_transaction ::
    "key_service \<Rightarrow> env \<Rightarrow> time \<Rightarrow> principal \<Rightarrow> uuid \<Rightarrow> json \<Rightarrow> ('x e2e_db_scheme, nat) tx" where
  "upload_transaction k e now p device v =
     bindT (lockOperationalUser (pn_id p)) (\<lambda>_.
     bindT (requireCurrentSession p now (Some device)) (\<lambda>_.
     bindT (getT (\<lambda>s. find_matrix_key s device)) (\<lambda>found.
     case found of
       None \<Rightarrow> throwT (Conflict ''El dispositivo no publico una identidad Matrix.'')
     | Some current \<Rightarrow>
         bindT (liftT (rethrowValidation (parseMatrixKeyUpload (ks_ed k) v (mk_matrix_user current)
           (mk_matrix_device current) (Some (mk_ed25519 current))))) (\<lambda>u.
         bindT (liftT (same_identity k current u)) (\<lambda>_.
         bindT (insertOneTimeKeys k e device (ku_one_time_keys u) now) (\<lambda>_.
         bindT (rotateFallbackKey k e device (ku_fallback_keys u) now) (\<lambda>_.
         getT (\<lambda>s. unclaimed_keys s device))))))))"

definition uploadKeys ::
    "key_service \<Rightarrow> env \<Rightarrow> time \<Rightarrow> principal \<Rightarrow> json \<Rightarrow> ('x e2e_db_scheme, nat) tx" where
  "uploadKeys k e now p v s =
     bindE (requireBoundKeyDevice p) (\<lambda>device.
     translate_unique ''Una clave Matrix ya existe con otro identificador o contenido.''
       (upload_transaction k e now p device v s))"

section \<open>The first publication\<close>

definition deviceKeyData ::
    "key_service \<Rightarrow> uuid \<Rightarrow> uuid \<Rightarrow> device_keys \<Rightarrow> time \<Rightarrow> error + matrix_key_row" where
  "deviceKeyData k device user d now =
     (case (map_of (dk_keys d) (curve_key_name (dk_device d)), map_of (dk_keys d) (signing_key_id (dk_device d))) of
        (Some curve, Some ed) \<Rightarrow>
          if curve = [] \<or> ed = [] then Inl (BadRequest ''Claves publicas Matrix incompletas.'')
          else bindE (hashMatrixCanonicalJson (ks_sha k) (JObj (device_keys_entries d))) (\<lambda>h.
            Inr \<lparr>mk_device = device, mk_user = user, mk_matrix_user = dk_user d, mk_matrix_device = dk_device d,
              mk_curve = curve, mk_ed25519 = ed, mk_keys = d, mk_hash = h, mk_uploaded = now\<rparr>)
      | _ \<Rightarrow> Inl (BadRequest ''Claves publicas Matrix incompletas.''))"

definition create_device :: "uuid \<Rightarrow> uuid \<Rightarrow> string \<Rightarrow> ('x e2e_db_scheme, unit) tx" where
  "create_device device user binding s =
     (if \<exists>d \<in> set (devices s). d_id d = device then Inl (UniqueViolation ''devices_pkey'')
      else Inr ((), s\<lparr>devices := devices s @ [\<lparr>d_id = device, d_user = user, d_status = DevActive,
        d_protocol = MATRIX_PROTOCOL_VERSION, d_binding = binding\<rparr>]\<rparr>))"

definition create_list_state :: "uuid \<Rightarrow> string \<Rightarrow> time \<Rightarrow> ('x e2e_db_scheme, unit) tx" where
  "create_list_state user matrixUser now s =
     (if \<exists>l \<in> set (list_states s). ls_user l = user \<or> ls_matrix_user l = matrixUser
      then Inl (UniqueViolation ''matrix_device_list_states'')
      else Inr ((), s\<lparr>list_states := list_states s @
        [\<lparr>ls_user = user, ls_matrix_user = matrixUser, ls_version = 0, ls_updated = now\<rparr>]\<rparr>))"

definition create_matrix_key :: "matrix_key_row \<Rightarrow> ('x e2e_db_scheme, unit) tx" where
  "create_matrix_key m s =
     (if (\<exists>o' \<in> set (one_time_keys s). ok_curve o' = mk_curve m) \<or> (\<exists>f \<in> set (fallback_keys s). fk_curve f = mk_curve m)
      then Inl (UniqueViolation ''matrix_device_keys_validation'')
      else if \<exists>m' \<in> set (matrix_keys s). mk_device m' = mk_device m \<or> mk_matrix_device m' = mk_matrix_device m \<or>
        mk_curve m' = mk_curve m \<or> mk_ed25519 m' = mk_ed25519 m
      then Inl (UniqueViolation ''matrix_device_keys'')
      else Inr ((), s\<lparr>matrix_keys := matrix_keys s @ [m]\<rparr>))"

definition create_cursor :: "uuid \<Rightarrow> ('x e2e_db_scheme, unit) tx" where
  "create_cursor device s =
     (if \<exists>c \<in> set (cursors s). cu_device c = device then Inl (UniqueViolation ''matrix_to_device_cursors_pkey'')
      else Inr ((), s\<lparr>cursors := cursors s @ [\<lparr>cu_device = device, cu_latest = 0\<rparr>]\<rparr>))"

text \<open>The publisher is optional.\<close>

definition announce_device :: "env \<Rightarrow> uuid \<Rightarrow> uuid \<Rightarrow> time \<Rightarrow> ('x e2e_db_scheme, unit) tx" where
  "announce_device e user device now =
     (if has_publisher e
      then bindT (publishDeviceSetChanged e user device now) (\<lambda>_.
        bindT (publishCurrentPeersToRecipient e user now) (\<lambda>_. returnT ()))
      else returnT ())"

definition link_session :: "principal \<Rightarrow> nat \<Rightarrow> uuid \<Rightarrow> time \<Rightarrow> ('x e2e_db_scheme, unit) tx" where
  "link_session p version device now s =
     (let open = (\<lambda>se. se_id se = pn_session p \<and> se_user se = pn_id p \<and> se_device se = None \<and> se_revoked se = None \<and>
          now < se_expires se \<and> se_version se = version \<and>
          (\<exists>u \<in> set (users s). u_id u = se_user se \<and> u_status u = AccActive \<and> \<not> u_reset_required u \<and>
             u_session_version u = version))
      in if count_where open (sessions s) \<noteq> 1
         then Inl (Unauthorized ''La sesion dejo de estar disponible para vincular el dispositivo.'')
         else Inr ((), s\<lparr>sessions := upd_where open (\<lambda>se. se\<lparr>se_device := Some device\<rparr>) (sessions s)\<rparr>))"

text \<open>The CHECK of the table bounds the consumption by the creation; its end was tested before.\<close>

definition consume_registration :: "uuid \<Rightarrow> time \<Rightarrow> string \<Rightarrow> nat \<Rightarrow> ('x e2e_db_scheme, unit) tx" where
  "consume_registration reg now h n s =
     (case find (\<lambda>r. rg_id r = reg) (registrations s) of
        None \<Rightarrow> Inl (RecordMissing ''matrixDeviceRegistration'')
      | Some r \<Rightarrow>
          if now < rg_created r then Inl (CheckViolation ''matrix_device_registrations_window_check'')
          else Inr ((), s\<lparr>registrations := upd_where (\<lambda>r. rg_id r = reg)
            (\<lambda>r. r\<lparr>rg_consumed := Some now, rg_hash := Some h, rg_count := Some n\<rparr>) (registrations s)\<rparr>))"

text \<open>The reservation of the session, as both routes look it up.\<close>

definition own_registration :: "principal \<Rightarrow> uuid \<Rightarrow> 'x e2e_db_scheme \<Rightarrow> error + registration_row" where
  "own_registration p reg s =
     (case find (\<lambda>r. rg_id r = reg) (registrations s) of
        None \<Rightarrow> Inl (NotFound ''Reserva de dispositivo no encontrada.'')
      | Some r \<Rightarrow>
          if rg_user r \<noteq> pn_id p \<or> rg_session r \<noteq> pn_session p
          then Inl (NotFound ''Reserva de dispositivo no encontrada.'') else Inr r)"

definition lockRegistration :: "uuid \<Rightarrow> ('x e2e_db_scheme, unit) tx" where
  "lockRegistration reg s =
     (if count_where (\<lambda>r. rg_id r = reg) (registrations s) \<noteq> 1
      then Inl (NotFound ''Reserva de dispositivo no encontrada.'') else Inr ((), s))"

definition publish_first_keys ::
    "key_service \<Rightarrow> env \<Rightarrow> time \<Rightarrow> principal \<Rightarrow> uuid \<Rightarrow> device_keys \<Rightarrow> key_upload \<Rightarrow> string \<Rightarrow>
       ('x e2e_db_scheme, unit) tx" where
  "publish_first_keys k e now p reg d u binding =
     bindT (create_device reg (pn_id p) binding) (\<lambda>_.
     bindT (create_list_state (pn_id p) (matrixUserIdFromUuid (pn_id p) (ks_server k)) now) (\<lambda>_.
     bindT (liftT (deviceKeyData k reg (pn_id p) d now)) (\<lambda>m.
     bindT (create_matrix_key m) (\<lambda>_.
     bindT (create_cursor reg) (\<lambda>_.
     bindT (insertOneTimeKeys k e reg (ku_one_time_keys u) now) (\<lambda>_.
     bindT (rotateFallbackKey k e reg (ku_fallback_keys u) now) (\<lambda>_.
     announce_device e (pn_id p) reg now)))))))"

definition complete_transaction ::
    "key_service \<Rightarrow> env \<Rightarrow> time \<Rightarrow> principal \<Rightarrow> uuid \<Rightarrow> device_keys \<Rightarrow> key_upload \<Rightarrow> string \<Rightarrow> string \<Rightarrow>
       ('x e2e_db_scheme, nat \<times> time) tx" where
  "complete_transaction k e now p reg d u h binding =
     bindT (lockOperationalUser (pn_id p)) (\<lambda>_.
     bindT (lockRegistration reg) (\<lambda>_.
     bindT (requireCurrentSession p now None) (\<lambda>version.
     bindT (bindT (getT (own_registration p reg)) liftT) (\<lambda>r.
     bindT (guardT (rg_consumed r = None \<and> now < rg_expires r)
       (Conflict ''La reserva de dispositivo ya no esta disponible.'')) (\<lambda>_.
     bindT (getT (\<lambda>s. count_where (\<lambda>dv. d_user dv = pn_id p) (devices s))) (\<lambda>historical.
     bindT (guardT (historical = 0) (Conflict ''La cuenta ya posee historial de dispositivo.'')) (\<lambda>_.
     bindT (publish_first_keys k e now p reg d u binding) (\<lambda>_.
     bindT (link_session p version reg now) (\<lambda>_.
     bindT (getT (\<lambda>s. unclaimed_keys s reg)) (\<lambda>n.
     bindT (consume_registration reg now h n) (\<lambda>_. returnT (n, now))))))))))))"

definition replayInitialUpload ::
    "time \<Rightarrow> principal \<Rightarrow> uuid \<Rightarrow> string \<Rightarrow> string \<Rightarrow> ('x e2e_db_scheme, nat \<times> time) tx" where
  "replayInitialUpload now p reg h binding =
     bindT (lockOperationalUser (pn_id p)) (\<lambda>_.
     bindT (lockRegistration reg) (\<lambda>_.
     bindT (requireCurrentSession p now (Some reg)) (\<lambda>_.
     bindT (bindT (getT (own_registration p reg)) liftT) (\<lambda>r.
     case (rg_consumed r, rg_count r) of
       (Some consumed, Some n) \<Rightarrow>
         bindT (guardT (now < rg_expires r \<and> rg_hash r = Some h) (Conflict
           ''La confirmacion del dispositivo no coincide con el alta original o ya no puede repetirse.'')) (\<lambda>_.
         bindT (getT (\<lambda>s. \<exists>d \<in> set (devices s). d_id d = reg \<and> d_user d = pn_id p \<and> d_status d = DevActive \<and>
           d_protocol d = MATRIX_PROTOCOL_VERSION \<and> d_binding d = binding)) (\<lambda>ok.
         bindT (guardT ok (Conflict ''El dispositivo publicado no coincide con la reserva.'')) (\<lambda>_.
         returnT (n, consumed))))
     | _ \<Rightarrow> throwT (Conflict
         ''La confirmacion del dispositivo no coincide con el alta original o ya no puede repetirse.'')))))"

record initial_result =
  ir_device :: uuid
  ir_matrix_user :: string
  ir_matrix_device :: string
  ir_secret :: string
  ir_published :: time
  ir_count :: nat

text \<open>The session is bound already and asks again, or it is bound by this publication.\<close>

definition initial_publication ::
    "key_service \<Rightarrow> env \<Rightarrow> time \<Rightarrow> principal \<Rightarrow> uuid \<Rightarrow> device_keys \<Rightarrow> key_upload \<Rightarrow> string \<Rightarrow> string \<Rightarrow>
       ('x e2e_db_scheme, nat \<times> time) tx" where
  "initial_publication k e now p reg d u h binding s =
     (case pn_device p of
        Some dev \<Rightarrow>
          if dev \<noteq> reg then Inl (Conflict ''Esta sesion ya esta vinculada a otro dispositivo.'')
          else replayInitialUpload now p reg h binding s
      | None \<Rightarrow> translate_unique ''El dispositivo o alguna de sus claves Matrix ya fue publicado.''
          (complete_transaction k e now p reg d u h binding s))"

definition completeInitialUpload ::
    "key_service \<Rightarrow> env \<Rightarrow> time \<Rightarrow> principal \<Rightarrow> uuid \<Rightarrow> json \<Rightarrow> ('x e2e_db_scheme, initial_result) tx" where
  "completeInitialUpload k e now p reg v s =
     (let matrixUser = matrixUserIdFromUuid (pn_id p) (ks_server k);
          matrixDevice = matrixDeviceIdFromUuid reg
      in bindE (rethrowValidation (parseInitialMatrixKeyUpload (ks_ed k) v matrixUser matrixDevice)) (\<lambda>(d, u).
         bindE (hashMatrixCanonicalJson (ks_sha k) v) (\<lambda>h.
         bindE (deriveMatrixDeviceBindingSecret k reg) (\<lambda>binding.
         bindE (initial_publication k e now p reg d u h (ib_hash binding) s) (\<lambda>((n, published), s').
         Inr (\<lparr>ir_device = reg, ir_matrix_user = matrixUser, ir_matrix_device = matrixDevice,
           ir_secret = ib_secret binding, ir_published = published, ir_count = n\<rparr>, s'))))))"
section \<open>Who may ask\<close>

definition lockConversationDeviceSets ::
    "time \<Rightarrow> uuid \<Rightarrow> uuid \<Rightarrow> uuid \<Rightarrow> ('x e2e_db_scheme, conversation_access) tx" where
  "lockConversationDeviceSets at user conversation device = lockCurrent at user conversation (Some device)"

definition peer_of :: "uuid \<Rightarrow> conversation_access \<Rightarrow> uuid" where
  "peer_of user a = (if ca_client a = user then ca_cashier a else ca_client a)"

record target_scope =
  sc_conversation :: "uuid option"
  sc_matrix_user :: string
  sc_user :: uuid

abbreviation identity_unavailable :: error where
  "identity_unavailable \<equiv> Forbidden ''La identidad Matrix no esta disponible para esta sesion.''"

definition read_target :: "key_service \<Rightarrow> string \<Rightarrow> error + (string \<times> uuid)" where
  "read_target k u =
     (case sinochatUserIdFromMatrixUserId u (ks_server k) of
        None \<Rightarrow> Inl identity_unavailable
      | Some i \<Rightarrow> Inr (u, i))"

text \<open>The scope of one target, with \<open>at\<close> the clock reading of the eligibility check.\<close>

definition related_scope ::
    "principal \<Rightarrow> (uuid \<Rightarrow> time) \<Rightarrow> string \<times> uuid \<Rightarrow> ('x e2e_db_scheme, target_scope) tx" where
  "related_scope p at = (\<lambda>(u, i).
     if i = pn_id p then returnT \<lparr>sc_conversation = None, sc_matrix_user = u, sc_user = i\<rparr>
     else bindT (case pn_role p of
           CLIENT \<Rightarrow> lockCurrentByParticipants (at i) (pn_id p) i
         | CASHIER \<Rightarrow> lockCurrentByParticipants (at i) i (pn_id p)
         | ADMIN \<Rightarrow> throwT identity_unavailable)
       (\<lambda>a. returnT \<lparr>sc_conversation = Some (ca_id a), sc_matrix_user = u, sc_user = i\<rparr>))"

definition scope_of :: "target_scope list \<Rightarrow> string \<Rightarrow> error + target_scope" where
  "scope_of scopes u =
     (case find (\<lambda>c. sc_matrix_user c = u) scopes of None \<Rightarrow> Inl identity_unavailable | Some c \<Rightarrow> Inr c)"

definition lockRelatedTargets ::
    "key_service \<Rightarrow> principal \<Rightarrow> (uuid \<Rightarrow> time) \<Rightarrow> uuid \<Rightarrow> string list \<Rightarrow> ('x e2e_db_scheme, target_scope list) tx" where
  "lockRelatedTargets k p at device us =
     (let own = matrixUserIdFromUuid (pn_id p) (ks_server k) in
      bindT (getT (\<lambda>s. find_matrix_key s device)) (\<lambda>published.
      bindT (guardT (case published of None \<Rightarrow> False | Some m \<Rightarrow> mk_user m = pn_id p \<and> mk_matrix_user m = own)
        identity_unavailable) (\<lambda>_.
      bindT (liftT (all_right (map (read_target k) us))) (\<lambda>targets.
      bindT (mapT (related_scope p at) (sort_key snd targets)) (\<lambda>scopes.
      bindT (guardT (case find (\<lambda>c. sc_user c = pn_id p) scopes of None \<Rightarrow> True | Some c \<Rightarrow> sc_matrix_user c = own)
        identity_unavailable) (\<lambda>_.
      liftT (all_right (map (scope_of scopes) us))))))))"

section \<open>keys/query\<close>

record query_response =
  qr_device_keys :: "(string \<times> (string \<times> json) list) list"
  qr_master_keys :: "(string \<times> json) list"
  qr_self_signing_keys :: "(string \<times> json) list"
  qr_user_signing_keys :: "(string \<times> json) list"

definition device_active :: "'x db_scheme \<Rightarrow> uuid \<Rightarrow> bool" where
  "device_active s device \<longleftrightarrow> (\<exists>d \<in> set (devices s). d_id d = device \<and> d_status d = DevActive)"

definition certified_keys :: "'x key_db_scheme \<Rightarrow> matrix_key_row \<Rightarrow> json" where
  "certified_keys s m =
     (case find (\<lambda>c. ct_device c = mk_device m) (certificates s) of
        Some c \<Rightarrow> ct_signed c | None \<Rightarrow> JObj (device_keys_entries (mk_keys m)))"

text \<open>The rows are read in the order of user and device; an empty list of devices asks for all.\<close>

definition query_rows :: "'x key_db_scheme \<Rightarrow> keys_query \<Rightarrow> matrix_key_row list" where
  "query_rows s q =
     sort_key mk_matrix_user (sort_key mk_matrix_device (filter (\<lambda>m. mk_matrix_user m \<in> set (map fst (kq_device_keys q)) \<and>
       device_active s (mk_device m)) (matrix_keys s)))"

definition queryResponse :: "keys_query \<Rightarrow> string \<Rightarrow> 'x key_db_scheme \<Rightarrow> query_response" where
  "queryResponse q own s =
     (let known = filter (\<lambda>i. ci_matrix_user i \<in> set (map fst (kq_device_keys q))) (identities s) in
      \<lparr>qr_device_keys = map (\<lambda>(u, ds). (u, map (\<lambda>m. (mk_matrix_device m, certified_keys s m))
          (filter (\<lambda>m. mk_matrix_user m = u \<and> (ds = [] \<or> mk_matrix_device m \<in> set ds)) (query_rows s q))))
          (kq_device_keys q),
       qr_master_keys = map (\<lambda>i. (ci_matrix_user i, ci_master_key i)) known,
       qr_self_signing_keys = map (\<lambda>i. (ci_matrix_user i, ci_self_signing_key i)) known,
       qr_user_signing_keys = map (\<lambda>i. (ci_matrix_user i, ci_user_signing_key i))
         (filter (\<lambda>i. ci_matrix_user i = own) known)\<rparr>)"

definition queryKeys ::
    "key_service \<Rightarrow> time \<Rightarrow> time \<Rightarrow> principal \<Rightarrow> uuid \<Rightarrow> json \<Rightarrow> ('x key_db_scheme, query_response) tx" where
  "queryKeys k at now p conversation v =
     bindT (liftT (requireBoundKeyDevice p)) (\<lambda>device.
     bindT (liftT (rethrowValidation (parseMatrixKeysQuery v))) (\<lambda>q.
     bindT (lockConversationDeviceSets at (pn_id p) conversation device) (\<lambda>a.
     bindT (requireCurrentSession p now (Some device)) (\<lambda>_.
     let own = matrixUserIdFromUuid (pn_id p) (ks_server k);
         peer = matrixUserIdFromUuid (peer_of (pn_id p) a) (ks_server k)
     in bindT (guardT (set (map fst (kq_device_keys q)) \<subseteq> {own, peer})
          (Forbidden ''La consulta de claves contiene una identidad no autorizada.'')) (\<lambda>_.
        getT (queryResponse q own))))))"

definition queryRelatedKeys ::
    "key_service \<Rightarrow> (uuid \<Rightarrow> time) \<Rightarrow> time \<Rightarrow> time \<Rightarrow> principal \<Rightarrow> json \<Rightarrow> ('x key_db_scheme, query_response) tx" where
  "queryRelatedKeys k at now now' p v =
     bindT (liftT (requireBoundKeyDevice p)) (\<lambda>device.
     bindT (liftT (rethrowValidation (parseMatrixKeysQuery v))) (\<lambda>q.
     bindT (requireCurrentSession p now (Some device)) (\<lambda>_.
     bindT (lockRelatedTargets k p at device (map fst (kq_device_keys q))) (\<lambda>_.
     bindT (requireCurrentSession p now' (Some device)) (\<lambda>_.
     getT (queryResponse q (matrixUserIdFromUuid (pn_id p) (ks_server k))))))))"

section \<open>keys/claim\<close>

definition available_keys :: "'x e2e_db_scheme \<Rightarrow> uuid \<Rightarrow> one_time_key list" where
  "available_keys s device = sort_key (\<lambda>o'. (ok_uploaded o', ok_id o'))
     (filter (\<lambda>o'. ok_device o' = device \<and> ok_algorithm o' = signed_curve \<and> ok_claimed o' = None) (one_time_keys s))"

definition record_result ::
    "env \<Rightarrow> uuid \<Rightarrow> uuid \<Rightarrow> uuid option \<Rightarrow> uuid option \<Rightarrow> time \<Rightarrow> ('x key_db_scheme, unit) tx" where
  "record_result e request recipient oneTime fallback now =
     bindT (new_uuid e) (\<lambda>i. modifyT (\<lambda>s. s\<lparr>claim_results := claim_results s @
       [\<lparr>cl_id = i, cl_request = request, cl_recipient = recipient, cl_algorithm = signed_curve,
         cl_one_time = oneTime, cl_fallback = fallback, cl_claimed = now\<rparr>]\<rparr>))"

text \<open>The CHECKs of the key tables: no claim is older than its key, and none than the first one.\<close>

definition take_one_time_key :: "one_time_key \<Rightarrow> time \<Rightarrow> ('x e2e_db_scheme, unit) tx" where
  "take_one_time_key o' now s =
     (if now < ok_uploaded o' then Inl (CheckViolation ''matrix_one_time_keys_claim_clock_check'')
      else Inr ((), s\<lparr>one_time_keys := upd_where (\<lambda>r. ok_id r = ok_id o') (\<lambda>r. r\<lparr>ok_claimed := Some now\<rparr>)
        (one_time_keys s)\<rparr>))"

definition mark_fallback :: "fallback_key \<Rightarrow> time \<Rightarrow> ('x e2e_db_scheme, unit) tx" where
  "mark_fallback f now s =
     (case fk_first_claimed f of
        Some t \<Rightarrow> if now < t then Inl (CheckViolation ''matrix_key_claim_results'') else Inr ((), s)
      | None \<Rightarrow>
          let open = (\<lambda>r. fk_id r = fk_id f \<and> fk_first_claimed r = None) in
          if count_where open (fallback_keys s) \<noteq> 1
          then Inl (Conflict ''La fallback Matrix cambio durante el reclamo.'')
          else if now < fk_uploaded f then Inl (CheckViolation ''matrix_fallback_keys_claim_clock_check'')
          else Inr ((), s\<lparr>fallback_keys := upd_where open (\<lambda>r. r\<lparr>fk_first_claimed := Some now\<rparr>) (fallback_keys s)\<rparr>))"

definition claimRecipientKey :: "env \<Rightarrow> uuid \<Rightarrow> time \<Rightarrow> uuid \<Rightarrow> ('x key_db_scheme, unit) tx" where
  "claimRecipientKey e request now recipient =
     bindT (getT (\<lambda>s. available_keys s recipient)) (\<lambda>available.
     case available of
       o' # _ \<Rightarrow>
         bindT (take_one_time_key o' now) (\<lambda>_. record_result e request recipient (Some (ok_id o')) None now)
     | [] \<Rightarrow>
         bindT (getT (\<lambda>s. find_slot s recipient)) (\<lambda>slot.
         case slot of
           None \<Rightarrow> record_result e request recipient None None now
         | Some l \<Rightarrow>
             bindT (getT (\<lambda>s. current_fallback s l)) (\<lambda>current.
             case current of
               None \<Rightarrow> throwT (RecordMissing ''currentKey'')
             | Some f \<Rightarrow>
                 bindT (mark_fallback f now) (\<lambda>_. record_result e request recipient None (Some (fk_id f)) now))))"

type_synonym claim_response = "(string \<times> (string \<times> (string \<times> signed_curve_key) list) list) list"

text \<open>Assigning a property of an object: in its place, or at the end.\<close>

fun put_property :: "'k \<Rightarrow> 'v \<Rightarrow> ('k \<times> 'v) list \<Rightarrow> ('k \<times> 'v) list" where
  "put_property k v [] = [(k, v)]"
| "put_property k v ((k', v') # r) = (if k = k' then (k, v) # r else (k', v') # put_property k v r)"

definition find_claimed :: "'x key_db_scheme \<Rightarrow> claim_result_row \<Rightarrow> (string \<times> signed_curve_key) option" where
  "find_claimed s r =
     (case cl_one_time r of
        Some i \<Rightarrow> map_option (\<lambda>o'. (ok_key_id o', ok_signed o')) (find (\<lambda>o'. ok_id o' = i) (one_time_keys s))
      | None \<Rightarrow>
          (case cl_fallback r of
             Some i \<Rightarrow> map_option (\<lambda>f. (fk_key_id f, fk_signed f)) (find (\<lambda>f. fk_id f = i) (fallback_keys s))
           | None \<Rightarrow> None))"

definition add_result :: "'x key_db_scheme \<Rightarrow> claim_response \<Rightarrow> claim_result_row \<Rightarrow> claim_response" where
  "add_result s acc r =
     (case (find_matrix_key s (cl_recipient r), find_claimed s r) of
        (Some m, Some (keyId, signed)) \<Rightarrow>
          let devs = (case map_of acc (mk_matrix_user m) of None \<Rightarrow> [] | Some ds \<Rightarrow> ds) in
          put_property (mk_matrix_user m) (put_property (mk_matrix_device m)
            [(cl_algorithm r @ '':'' @ keyId, signed)] devs) acc
      | _ \<Rightarrow> acc)"

definition results_of :: "'x key_db_scheme \<Rightarrow> uuid \<Rightarrow> claim_result_row list" where
  "results_of s request = sort_key cl_recipient (filter (\<lambda>r. cl_request r = request) (claim_results s))"

definition buildClaimResponse :: "uuid \<Rightarrow> 'x key_db_scheme \<Rightarrow> claim_response" where
  "buildClaimResponse request s = foldl (add_result s) [] (results_of s request)"

definition previous_claim :: "'x key_db_scheme \<Rightarrow> uuid \<Rightarrow> string \<Rightarrow> claim_request_row option" where
  "previous_claim s device request =
     find (\<lambda>c. cq_device c = device \<and> cq_request c = request) (claim_requests s)"

text \<open>The trigger of the table: the requesting device is active and has published its keys.\<close>

definition create_claim ::
    "env \<Rightarrow> uuid \<Rightarrow> uuid option \<Rightarrow> string \<Rightarrow> string \<Rightarrow> time \<Rightarrow> ('x key_db_scheme, uuid) tx" where
  "create_claim e device conversation request h now s =
     (if \<not> published_active s device then Inl (CheckViolation ''matrix_key_claim_requests'')
      else let i = uuid_at e (draws s) in
        Inr (i, s\<lparr>draws := Suc (draws s), claim_requests := claim_requests s @
          [\<lparr>cq_id = i, cq_device = device, cq_conversation = conversation, cq_request = request,
            cq_hash = h, cq_created = now\<rparr>]\<rparr>))"

definition lockMatrixDevices :: "uuid list \<Rightarrow> ('x e2e_db_scheme, unit list) tx" where
  "lockMatrixDevices ds = mapT (\<lambda>d. bindT (getT (\<lambda>s. published_active s d)) (\<lambda>ok.
     guardT ok (Conflict ''Un dispositivo destinatario dejo de estar disponible.''))) (sort ds)"

text \<open>
  The part both claim routes share: a repeated request is answered from its stored results, a new one
  takes one key of each active target.  \<open>except\<close> is the device the second route leaves out.
\<close>

definition claim_targets_of ::
    "'x e2e_db_scheme \<Rightarrow> uuid \<Rightarrow> string \<Rightarrow> string list \<Rightarrow> uuid option \<Rightarrow> matrix_key_row list" where
  "claim_targets_of s user matrixUser requested except =
     sort_key mk_device (filter (\<lambda>m. mk_user m = user \<and> mk_matrix_user m = matrixUser \<and>
       mk_matrix_device m \<in> set requested \<and> except \<noteq> Some (mk_device m) \<and> device_active s (mk_device m)) (matrix_keys s))"

definition new_claim ::
    "env \<Rightarrow> time \<Rightarrow> uuid \<Rightarrow> uuid option \<Rightarrow> string \<Rightarrow> string \<Rightarrow> uuid \<Rightarrow> string \<Rightarrow> string list \<Rightarrow> uuid option \<Rightarrow>
       ('x key_db_scheme, claim_response) tx" where
  "new_claim e now device conversation request h user matrixUser requested except =
     bindT (create_claim e device conversation request h now) (\<lambda>i.
     bindT (getT (\<lambda>s. map mk_device (claim_targets_of s user matrixUser requested except))) (\<lambda>targets.
     bindT (lockMatrixDevices targets) (\<lambda>_.
     bindT (mapT (claimRecipientKey e i now) targets) (\<lambda>_.
     getT (buildClaimResponse i)))))"

definition answer_claim ::
    "env \<Rightarrow> time \<Rightarrow> uuid \<Rightarrow> uuid option \<Rightarrow> string \<Rightarrow> string \<Rightarrow> uuid \<Rightarrow> string \<Rightarrow> string list \<Rightarrow> uuid option \<Rightarrow>
       ('x key_db_scheme, claim_response) tx" where
  "answer_claim e now device conversation request h user matrixUser requested except =
     bindT (getT (\<lambda>s. previous_claim s device request)) (\<lambda>previous.
     case previous of
       Some c \<Rightarrow>
         bindT (guardT (cq_conversation c = conversation \<and> cq_hash c = h)
           (Conflict ''El identificador de reclamo ya pertenece a otra solicitud.'')) (\<lambda>_.
         getT (buildClaimResponse (cq_id c)))
     | None \<Rightarrow> new_claim e now device conversation request h user matrixUser requested except)"

definition requested_devices :: "keys_claim \<Rightarrow> string \<Rightarrow> string list" where
  "requested_devices c u = (case map_of (kc_one_time_keys c) u of None \<Rightarrow> [] | Some ds \<Rightarrow> map fst ds)"

definition claimKeys ::
    "key_service \<Rightarrow> env \<Rightarrow> time \<Rightarrow> time \<Rightarrow> principal \<Rightarrow> uuid \<Rightarrow> string \<Rightarrow> json \<Rightarrow>
       ('x key_db_scheme, claim_response) tx" where
  "claimKeys k e at now p conversation rawRequest v =
     bindT (liftT (requireBoundKeyDevice p)) (\<lambda>device.
     bindT (liftT (rethrowValidation (parseMatrixClaimRequestId rawRequest))) (\<lambda>request.
     bindT (liftT (rethrowValidation (parseMatrixKeysClaim v))) (\<lambda>c.
     bindT (liftT (hashMatrixCanonicalJson (ks_sha k) (matrixClaimHashInput c))) (\<lambda>h.
     bindT (lockConversationDeviceSets at (pn_id p) conversation device) (\<lambda>a.
     bindT (requireCurrentSession p now (Some device)) (\<lambda>_.
     let peer = peer_of (pn_id p) a; peerMatrix = matrixUserIdFromUuid peer (ks_server k) in
     bindT (guardT (map fst (kc_one_time_keys c) = [peerMatrix])
       (Forbidden ''El reclamo de claves solo puede dirigirse a la contraparte actual.'')) (\<lambda>_.
     answer_claim e now device (Some conversation) request h peer peerMatrix (requested_devices c peerMatrix) None)))))))"

definition claimRelatedKeys ::
    "key_service \<Rightarrow> env \<Rightarrow> (uuid \<Rightarrow> time) \<Rightarrow> time \<Rightarrow> principal \<Rightarrow> string \<Rightarrow> json \<Rightarrow>
       ('x key_db_scheme, claim_response) tx" where
  "claimRelatedKeys k e at now p rawRequest v =
     bindT (liftT (requireBoundKeyDevice p)) (\<lambda>device.
     bindT (liftT (rethrowValidation (parseMatrixClaimRequestId rawRequest))) (\<lambda>request.
     bindT (liftT (rethrowValidation (parseMatrixKeysClaim v))) (\<lambda>c.
     case map fst (kc_one_time_keys c) of
       [u] \<Rightarrow>
         bindT (liftT (hashMatrixCanonicalJson (ks_sha k) (matrixClaimHashInput c))) (\<lambda>h.
         bindT (requireCurrentSession p now (Some device)) (\<lambda>_.
         bindT (lockRelatedTargets k p at device [u]) (\<lambda>scopes.
         case scopes of
           [] \<Rightarrow> throwT identity_unavailable
         | scope # _ \<Rightarrow> answer_claim e now device (sc_conversation scope) request h (sc_user scope) u
             (requested_devices c u) (Some device))))
     | _ \<Rightarrow> throwT (BadRequest ''MATRIX_KEYS_CLAIM_SINGLE_USER_REQUIRED''))))"

end
