(* ===== verification/KeyFacts.thy ===== *)
theory KeyFacts
  imports KeyDirectory
begin

text \<open>
  What the operations of the directory do to its tables, as a small set of changes, and the invariant
  of the tables that each change keeps.  An operation is a sequence of changes; whatever else the
  application does leaves these tables alone.
\<close>

section \<open>The invariant\<close>

definition same_keys :: "'x key_db_scheme \<Rightarrow> 'x key_db_scheme \<Rightarrow> bool" where
  "same_keys s s' \<longleftrightarrow>
     one_time_keys s' = one_time_keys s \<and> fallback_keys s' = fallback_keys s \<and> fallback_slots s' = fallback_slots s \<and>
     matrix_keys s' = matrix_keys s \<and> claim_requests s' = claim_requests s \<and> claim_results s' = claim_results s \<and>
     draws s \<le> draws s'"

definition handed_out :: "'x key_db_scheme \<Rightarrow> uuid list" where
  "handed_out s = List.map_filter cl_one_time (claim_results s)"

definition all_curves :: "'x key_db_scheme \<Rightarrow> string list" where
  "all_curves s = map ok_curve (one_time_keys s) @ map fk_curve (fallback_keys s) @ map mk_curve (matrix_keys s)"

definition key_ids :: "'x key_db_scheme \<Rightarrow> uuid set" where
  "key_ids s = ok_id ` set (one_time_keys s) \<union> fk_id ` set (fallback_keys s) \<union> cq_id ` set (claim_requests s)"

definition ids_ok :: "env \<Rightarrow> 'x key_db_scheme \<Rightarrow> bool" where
  "ids_ok e s \<longleftrightarrow> supply_ok e (draws s) (key_ids s) \<and> distinct (map ok_id (one_time_keys s)) \<and>
     distinct (map fk_id (fallback_keys s)) \<and> distinct (map cq_id (claim_requests s)) \<and>
     distinct (map mk_device (matrix_keys s)) \<and> distinct (map (\<lambda>c. (cq_device c, cq_request c)) (claim_requests s))"

definition result_ok :: "'x key_db_scheme \<Rightarrow> claim_result_row \<Rightarrow> bool" where
  "result_ok s r \<longleftrightarrow>
     cl_request r \<in> cq_id ` set (claim_requests s) \<and> cl_recipient r \<in> mk_device ` set (matrix_keys s) \<and>
     (\<forall>i. cl_one_time r = Some i \<longrightarrow> (\<exists>o' \<in> set (one_time_keys s). ok_id o' = i \<and> ok_device o' = cl_recipient r \<and>
        ok_claimed o' = Some (cl_claimed r))) \<and>
     (\<forall>i. cl_fallback r = Some i \<longrightarrow> (\<exists>f \<in> set (fallback_keys s). fk_id f = i \<and> fk_device f = cl_recipient r \<and>
        (\<exists>t. fk_first_claimed f = Some t \<and> t \<le> cl_claimed r)))"

definition pool_ok :: "'x key_db_scheme \<Rightarrow> bool" where
  "pool_ok s \<longleftrightarrow> distinct (handed_out s) \<and> (\<forall>r \<in> set (claim_results s). result_ok s r) \<and>
     (\<forall>o' \<in> set (one_time_keys s). ok_claimed o' \<noteq> None \<longrightarrow> ok_id o' \<in> set (handed_out s))"

definition limits_ok :: "'x key_db_scheme \<Rightarrow> bool" where
  "limits_ok s \<longleftrightarrow> (\<forall>d. unclaimed_keys s d \<le> 100)"

definition slots_ok :: "'x key_db_scheme \<Rightarrow> bool" where
  "slots_ok s \<longleftrightarrow> (\<forall>l \<in> set (fallback_slots s). \<exists>f \<in> set (fallback_keys s). fk_id f = fb_current l \<and> fk_device f = fb_device l)"

text \<open>The key is signed by the Ed25519 key the directory has for its device.\<close>

definition key_signed :: "key_service \<Rightarrow> 'x key_db_scheme \<Rightarrow> uuid \<Rightarrow> signed_curve_key \<Rightarrow> bool" where
  "key_signed k s device key \<longleftrightarrow>
     (\<exists>m \<in> set (matrix_keys s). mk_device m = device \<and>
        signature_valid (ks_ed k) (curve_key_entries key) (mk_matrix_user m) (signing_key_id (mk_matrix_device m)) (mk_ed25519 m))"

definition signed_ok :: "key_service \<Rightarrow> 'x key_db_scheme \<Rightarrow> bool" where
  "signed_ok k s \<longleftrightarrow>
     (\<forall>o' \<in> set (one_time_keys s). key_signed k s (ok_device o') (ok_signed o') \<and> ok_algorithm o' = signed_curve) \<and>
     (\<forall>f \<in> set (fallback_keys s). key_signed k s (fk_device f) (fk_signed f) \<and> fk_algorithm f = signed_curve)"

definition directory_ok :: "key_service \<Rightarrow> env \<Rightarrow> 'x key_db_scheme \<Rightarrow> bool" where
  "directory_ok k e s \<longleftrightarrow> ids_ok e s \<and> distinct (all_curves s) \<and> pool_ok s \<and> limits_ok s \<and> slots_ok s \<and> signed_ok k s"

section \<open>Changes\<close>

definition with_result ::
    "env \<Rightarrow> uuid \<Rightarrow> uuid \<Rightarrow> uuid option \<Rightarrow> uuid option \<Rightarrow> time \<Rightarrow> 'x key_db_scheme \<Rightarrow> 'x key_db_scheme" where
  "with_result e request recipient oneTime fallback now s = s\<lparr>draws := Suc (draws s), claim_results := claim_results s @
     [\<lparr>cl_id = uuid_at e (draws s), cl_request = request, cl_recipient = recipient, cl_algorithm = signed_curve,
       cl_one_time = oneTime, cl_fallback = fallback, cl_claimed = now\<rparr>]\<rparr>"

lemma with_result_simps [simp]:
  "one_time_keys (with_result e q d x y now s) = one_time_keys s"
  "fallback_keys (with_result e q d x y now s) = fallback_keys s"
  "fallback_slots (with_result e q d x y now s) = fallback_slots s"
  "matrix_keys (with_result e q d x y now s) = matrix_keys s"
  "claim_requests (with_result e q d x y now s) = claim_requests s"
  "claim_results (with_result e q d x y now s) = claim_results s @
     [\<lparr>cl_id = uuid_at e (draws s), cl_request = q, cl_recipient = d, cl_algorithm = signed_curve,
       cl_one_time = x, cl_fallback = y, cl_claimed = now\<rparr>]"
  "draws (with_result e q d x y now s) = Suc (draws s)"
  by (simp_all add: with_result_def)

text \<open>\<open>R\<close> are the requests whose results the sequence of changes may add to.\<close>

inductive key_change ::
    "key_service \<Rightarrow> env \<Rightarrow> uuid set \<Rightarrow> 'x key_db_scheme \<Rightarrow> 'x key_db_scheme \<Rightarrow> bool" for k e R where
  elsewhere: "same_keys s s' \<Longrightarrow> key_change k e R s s'"
| identity: "mk_device m \<notin> mk_device ` set (matrix_keys s) \<Longrightarrow> mk_curve m \<notin> set (all_curves s) \<Longrightarrow>
    key_change k e R s (s\<lparr>matrix_keys := matrix_keys s @ [m]\<rparr>)"
| one_time: "ok_curve o' \<notin> set (all_curves s) \<Longrightarrow> ok_claimed o' = None \<Longrightarrow> unclaimed_keys s (ok_device o') < 100 \<Longrightarrow>
    key_signed k s (ok_device o') (ok_signed o') \<Longrightarrow> ok_algorithm o' = signed_curve \<Longrightarrow> ok_id o' = uuid_at e (draws s) \<Longrightarrow>
    key_change k e R s (s\<lparr>draws := Suc (draws s), one_time_keys := one_time_keys s @ [o']\<rparr>)"
| fallback: "fk_curve f \<notin> set (all_curves s) \<Longrightarrow> fk_first_claimed f = None \<Longrightarrow>
    key_signed k s (fk_device f) (fk_signed f) \<Longrightarrow> fk_algorithm f = signed_curve \<Longrightarrow> fk_id f = uuid_at e (draws s) \<Longrightarrow>
    key_change k e R s (s\<lparr>draws := Suc (draws s), fallback_keys := fallback_keys s @ [f]\<rparr>)"
| new_slot: "find_slot s device = None \<Longrightarrow> f \<in> set (fallback_keys s) \<Longrightarrow> fk_device f = device \<Longrightarrow>
    key_change k e R s (s\<lparr>fallback_slots := fallback_slots s @
      [\<lparr>fb_device = device, fb_algorithm = signed_curve, fb_current = fk_id f\<rparr>]\<rparr>)"
| turn_slot: "find_slot s device = Some l \<Longrightarrow> current_fallback s l = Some c \<Longrightarrow> f \<in> set (fallback_keys s) \<Longrightarrow>
    fk_device f = device \<Longrightarrow> fk_uploaded c < fk_uploaded f \<Longrightarrow>
    key_change k e R s (s\<lparr>fallback_slots := upd_where (\<lambda>l. fb_device l = device \<and> fb_algorithm l = signed_curve)
      (\<lambda>l. l\<lparr>fb_current := fk_id f\<rparr>) (fallback_slots s)\<rparr>)"
| request: "previous_claim s (cq_device c) (cq_request c) = None \<Longrightarrow> cq_id c = uuid_at e (draws s) \<Longrightarrow>
    key_change k e R s (s\<lparr>draws := Suc (draws s), claim_requests := claim_requests s @ [c]\<rparr>)"
| take_key: "o' \<in> set (one_time_keys s) \<Longrightarrow> ok_claimed o' = None \<Longrightarrow> r \<in> R \<Longrightarrow> r \<in> cq_id ` set (claim_requests s) \<Longrightarrow>
    ok_device o' \<in> mk_device ` set (matrix_keys s) \<Longrightarrow>
    key_change k e R s (with_result e r (ok_device o') (Some (ok_id o')) None now
      (s\<lparr>one_time_keys := upd_where (\<lambda>x. ok_id x = ok_id o') (\<lambda>x. x\<lparr>ok_claimed := Some now\<rparr>) (one_time_keys s)\<rparr>))"
| first_fallback: "f \<in> set (fallback_keys s) \<Longrightarrow> fk_first_claimed f = None \<Longrightarrow> r \<in> R \<Longrightarrow> r \<in> cq_id ` set (claim_requests s) \<Longrightarrow>
    fk_device f \<in> mk_device ` set (matrix_keys s) \<Longrightarrow>
    key_change k e R s (with_result e r (fk_device f) None (Some (fk_id f)) now
      (s\<lparr>fallback_keys := upd_where (\<lambda>x. fk_id x = fk_id f \<and> fk_first_claimed x = None)
        (\<lambda>x. x\<lparr>fk_first_claimed := Some now\<rparr>) (fallback_keys s)\<rparr>))"
| fallback_again: "f \<in> set (fallback_keys s) \<Longrightarrow> fk_first_claimed f = Some t \<Longrightarrow> t \<le> now \<Longrightarrow> r \<in> R \<Longrightarrow>
    r \<in> cq_id ` set (claim_requests s) \<Longrightarrow> fk_device f \<in> mk_device ` set (matrix_keys s) \<Longrightarrow>
    key_change k e R s (with_result e r (fk_device f) None (Some (fk_id f)) now s)"
| no_key: "r \<in> R \<Longrightarrow> r \<in> cq_id ` set (claim_requests s) \<Longrightarrow> recipient \<in> mk_device ` set (matrix_keys s) \<Longrightarrow>
    key_change k e R s (with_result e r recipient None None now s)"

section \<open>Every change keeps the invariant\<close>

lemma curve_change: "key_change k e R s s' \<Longrightarrow> distinct (all_curves s) \<Longrightarrow> distinct (all_curves s')"
  by (induction rule: key_change.induct)
    (auto simp: all_curves_def same_keys_def with_result_def map_upd_where)

lemma ids_change:
  assumes "key_change k e R s s'" "ids_ok e s"
  shows "ids_ok e s'"
  using assms
proof (induction rule: key_change.induct)
  case (elsewhere s s')
  then show ?case by (auto simp: ids_ok_def same_keys_def key_ids_def intro: supply_ok_mono)
next
  case (one_time o' s)
  then show ?case
    using supply_ok_fresh [of e "draws s" "key_ids s" "draws s"] supply_ok_draw [of e "draws s" "key_ids s" "draws s"]
    by (auto simp: ids_ok_def key_ids_def)
next
  case (fallback f s)
  then show ?case
    using supply_ok_fresh [of e "draws s" "key_ids s" "draws s"] supply_ok_draw [of e "draws s" "key_ids s" "draws s"]
    by (auto simp: ids_ok_def key_ids_def)
next
  case (request s c)
  then show ?case
    using supply_ok_fresh [of e "draws s" "key_ids s" "draws s"] supply_ok_draw [of e "draws s" "key_ids s" "draws s"]
    by (auto simp: ids_ok_def key_ids_def previous_claim_def find_None_iff)
next
  case (take_key o' s r now)
  then show ?case
    using supply_ok_mono [of e "draws s" "key_ids s" "Suc (draws s)"]
    by (simp add: ids_ok_def key_ids_def with_result_def map_upd_where image_upd_where)
next
  case (first_fallback f s r now)
  then show ?case
    using supply_ok_mono [of e "draws s" "key_ids s" "Suc (draws s)"]
    by (simp add: ids_ok_def key_ids_def with_result_def map_upd_where image_upd_where)
next
  case (fallback_again f s t now r)
  then show ?case
    using supply_ok_mono [of e "draws s" "key_ids s" "Suc (draws s)"]
    by (simp add: ids_ok_def key_ids_def with_result_def)
next
  case (no_key r s recipient now)
  then show ?case
    using supply_ok_mono [of e "draws s" "key_ids s" "Suc (draws s)"]
    by (simp add: ids_ok_def key_ids_def with_result_def)
qed (auto simp: ids_ok_def key_ids_def)

lemma key_signed_mono:
  "key_signed k s d key \<Longrightarrow> set (matrix_keys s) \<subseteq> set (matrix_keys s') \<Longrightarrow> key_signed k s' d key"
  by (auto simp: key_signed_def)

lemma signed_change: "key_change k e R s s' \<Longrightarrow> signed_ok k s \<Longrightarrow> signed_ok k s'"
  by (induction rule: key_change.induct)
    (auto simp: signed_ok_def same_keys_def with_result_def key_signed_def set_upd_where)

lemma slots_change:
  assumes "key_change k e R s s'" "slots_ok s"
  shows "slots_ok s'"
  using assms
proof (induction rule: key_change.induct)
  case (turn_slot s device l c f)
  then show ?case by (fastforce simp: slots_ok_def set_upd_where)
next
  case (first_fallback f s r now)
  let ?g = "\<lambda>x. if fk_id x = fk_id f \<and> fk_first_claimed x = None then x\<lparr>fk_first_claimed := Some now\<rparr> else x"
  have "\<exists>x \<in> ?g ` set (fallback_keys s). fk_id x = fb_current l \<and> fk_device x = fb_device l"
    if "l \<in> set (fallback_slots s)" for l
  proof -
    from first_fallback.prems that obtain c where
      "c \<in> set (fallback_keys s)" "fk_id c = fb_current l" "fk_device c = fb_device l" by (auto simp: slots_ok_def)
    then show ?thesis by (intro bexI [of _ "?g c"]) simp_all
  qed
  then show ?case by (simp add: slots_ok_def set_upd_where)
qed (fastforce simp: slots_ok_def same_keys_def)+

lemma unclaimed_upd:
  "unclaimed_keys (s\<lparr>one_time_keys := upd_where P (\<lambda>x. x\<lparr>ok_claimed := Some now\<rparr>) (one_time_keys s)\<rparr>) d
     \<le> unclaimed_keys s d"
proof -
  have "count_where Q (upd_where P (\<lambda>x. x\<lparr>ok_claimed := Some now\<rparr>) rows) \<le> count_where Q rows"
    if "\<And>x. \<not> Q (x\<lparr>ok_claimed := Some now\<rparr>)" for Q and rows :: "one_time_key list"
    using that by (induction rows) auto
  then show ?thesis by (simp add: unclaimed_keys_def)
qed

lemma limits_change:
  assumes "key_change k e R s s'" "limits_ok s"
  shows "limits_ok s'"
  using assms
proof (induction rule: key_change.induct)
  case (one_time o' s)
  show ?case unfolding limits_ok_def
  proof
    fix d
    show "unclaimed_keys (s\<lparr>draws := Suc (draws s), one_time_keys := one_time_keys s @ [o']\<rparr>) d \<le> 100"
      using one_time.prems one_time.hyps(3) by (cases "d = ok_device o'") (auto simp: limits_ok_def unclaimed_keys_def)
  qed
next
  case (take_key o' s r now)
  have "unclaimed_keys (with_result e r (ok_device o') (Some (ok_id o')) None now (s\<lparr>one_time_keys := upd_where
      (\<lambda>x. ok_id x = ok_id o') (\<lambda>x. x\<lparr>ok_claimed := Some now\<rparr>) (one_time_keys s)\<rparr>)) d \<le> unclaimed_keys s d" for d
    using unclaimed_upd [where s = s and P = "\<lambda>x. ok_id x = ok_id o'" and now = now and d = d] by (simp only: unclaimed_keys_def with_result_simps)
  then show ?case using take_key.prems unfolding limits_ok_def by (meson le_trans)
qed (auto simp: limits_ok_def same_keys_def unclaimed_keys_def)

section \<open>Handing out\<close>

lemma handed_out_append [simp]:
  "handed_out (with_result e q d x y now s) = handed_out s @ (case x of None \<Rightarrow> [] | Some i \<Rightarrow> [i])"
  by (simp add: handed_out_def map_filter_def split: option.splits)

lemma handed_out_upd [simp]:
  "handed_out (s\<lparr>one_time_keys := x\<rparr>) = handed_out s" "handed_out (s\<lparr>fallback_keys := y\<rparr>) = handed_out s"
  by (simp_all add: handed_out_def)

lemma handed_out_iff: "i \<in> set (handed_out s) \<longleftrightarrow> (\<exists>r \<in> set (claim_results s). cl_one_time r = Some i)"
  by (force simp: handed_out_def map_filter_def)

text \<open>A result stays good while the tables grow and claims are only added.\<close>

lemma result_ok_mono:
  assumes "result_ok s r" "cq_id ` set (claim_requests s) \<subseteq> cq_id ` set (claim_requests s')"
    "mk_device ` set (matrix_keys s) \<subseteq> mk_device ` set (matrix_keys s')"
    "\<And>x. x \<in> set (one_time_keys s) \<Longrightarrow> ok_claimed x \<noteq> None \<Longrightarrow> x \<in> set (one_time_keys s')"
    "\<And>x. x \<in> set (fallback_keys s) \<Longrightarrow> fk_first_claimed x \<noteq> None \<Longrightarrow> x \<in> set (fallback_keys s')"
  shows "result_ok s' r"
proof -
  have "\<exists>o' \<in> set (one_time_keys s'). ok_id o' = i \<and> ok_device o' = cl_recipient r \<and> ok_claimed o' = Some (cl_claimed r)"
    if "cl_one_time r = Some i" for i
    using assms(1,4) that unfolding result_ok_def by (metis option.distinct(1))
  moreover have "\<exists>f \<in> set (fallback_keys s'). fk_id f = i \<and> fk_device f = cl_recipient r \<and>
      (\<exists>t. fk_first_claimed f = Some t \<and> t \<le> cl_claimed r)" if "cl_fallback r = Some i" for i
    using assms(1,5) that unfolding result_ok_def by (metis option.distinct(1))
  ultimately show ?thesis using assms(1-3) unfolding result_ok_def by blast
qed

lemma claimed_handed: "pool_ok s \<Longrightarrow> ids_ok e s \<Longrightarrow> o' \<in> set (one_time_keys s) \<Longrightarrow> ok_claimed o' = None \<Longrightarrow>
    ok_id o' \<notin> set (handed_out s)"
proof
  assume inv: "pool_ok s" "ids_ok e s" "o' \<in> set (one_time_keys s)" "ok_claimed o' = None"
    and "ok_id o' \<in> set (handed_out s)"
  then obtain x where "x \<in> set (one_time_keys s)" "ok_id x = ok_id o'" "ok_claimed x \<noteq> None"
    unfolding handed_out_iff pool_ok_def result_ok_def by fastforce
  with inv distinct_key_eq [of ok_id "one_time_keys s" x o'] show False by (simp add: ids_ok_def)
qed

lemma pool_change:
  assumes "key_change k e R s s'" "pool_ok s" "ids_ok e s"
  shows "pool_ok s'"
  using assms
proof (induction rule: key_change.induct)
  case (elsewhere s s')
  then show ?case by (simp add: pool_ok_def same_keys_def handed_out_def result_ok_def)
next
  case (identity m s)
  have "result_ok (s\<lparr>matrix_keys := matrix_keys s @ [m]\<rparr>) r" if "r \<in> set (claim_results s)" for r
  proof -
    from that identity.prems(1) have "result_ok s r" by (simp add: pool_ok_def)
    then show ?thesis by (rule result_ok_mono) auto
  qed
  then show ?case using identity.prems(1) by (simp add: pool_ok_def handed_out_def)
next
  case (one_time o' s)
  let ?s = "s\<lparr>draws := Suc (draws s), one_time_keys := one_time_keys s @ [o']\<rparr>"
  have "result_ok ?s r" if "r \<in> set (claim_results s)" for r
  proof -
    from that one_time.prems(1) have "result_ok s r" by (simp add: pool_ok_def)
    then show ?thesis by (rule result_ok_mono) auto
  qed
  then show ?case using one_time.prems(1) one_time.hyps(2) by (simp add: pool_ok_def handed_out_def)
next
  case (fallback f s)
  let ?s = "s\<lparr>draws := Suc (draws s), fallback_keys := fallback_keys s @ [f]\<rparr>"
  have "result_ok ?s r" if "r \<in> set (claim_results s)" for r
  proof -
    from that fallback.prems(1) have "result_ok s r" by (simp add: pool_ok_def)
    then show ?thesis by (rule result_ok_mono) auto
  qed
  then show ?case using fallback.prems(1) by (simp add: pool_ok_def handed_out_def)
next
  case (new_slot s device f)
  then show ?case by (simp add: pool_ok_def handed_out_def result_ok_def)
next
  case (turn_slot s device l c f)
  then show ?case by (simp add: pool_ok_def handed_out_def result_ok_def)
next
  case (request s c)
  let ?s = "s\<lparr>draws := Suc (draws s), claim_requests := claim_requests s @ [c]\<rparr>"
  have "result_ok ?s r" if "r \<in> set (claim_results s)" for r
  proof -
    from that request.prems(1) have "result_ok s r" by (simp add: pool_ok_def)
    then show ?thesis by (rule result_ok_mono) auto
  qed
  then show ?case using request.prems(1) by (simp add: pool_ok_def handed_out_def)
next
  case (take_key o' s r now)
  let ?g = "\<lambda>x. if ok_id x = ok_id o' then x\<lparr>ok_claimed := Some now\<rparr> else x"
  let ?s = "with_result e r (ok_device o') (Some (ok_id o')) None now
      (s\<lparr>one_time_keys := upd_where (\<lambda>x. ok_id x = ok_id o') (\<lambda>x. x\<lparr>ok_claimed := Some now\<rparr>) (one_time_keys s)\<rparr>)"
  have keys: "set (one_time_keys ?s) = ?g ` set (one_time_keys s)" by (simp add: set_upd_where)
  have fresh: "ok_id o' \<notin> set (handed_out s)" using take_key claimed_handed by blast
  have same: "x = o'" if "x \<in> set (one_time_keys s)" "ok_id x = ok_id o'" for x
    using that take_key distinct_key_eq [of ok_id "one_time_keys s" x o'] by (simp add: ids_ok_def)
  have old: "result_ok ?s r'" if "r' \<in> set (claim_results s)" for r'
  proof (rule result_ok_mono [of s])
    show "result_ok s r'" using that take_key.prems by (simp add: pool_ok_def)
    fix x assume "x \<in> set (one_time_keys s)" "ok_claimed x \<noteq> None"
    moreover from this same take_key.hyps(2) have "ok_id x \<noteq> ok_id o'" by metis
    ultimately show "x \<in> set (one_time_keys ?s)" unfolding keys by (intro image_eqI [of _ _ x]) simp_all
  qed simp_all
  have "?g o' \<in> set (one_time_keys ?s)" unfolding keys using take_key.hyps(1) by blast
  then have "\<exists>x \<in> set (one_time_keys ?s). ok_id x = ok_id o' \<and> ok_device x = ok_device o' \<and> ok_claimed x = Some now"
    by (rule rev_bexI) simp
  then have new: "result_ok ?s (last (claim_results ?s))"
    using take_key.hyps(4,5) by (simp add: result_ok_def)
  have "ok_id x \<in> set (handed_out ?s)" if x: "x \<in> set (one_time_keys ?s)" "ok_claimed x \<noteq> None" for x
  proof -
    from x(1) obtain y where y: "y \<in> set (one_time_keys s)" "x = ?g y" unfolding keys by blast
    show ?thesis
    proof (cases "ok_id y = ok_id o'")
      case True
      with y show ?thesis by simp
    next
      case False
      with y x(2) take_key.prems(1) have "ok_id x \<in> set (handed_out s)" by (simp add: pool_ok_def)
      then show ?thesis by simp
    qed
  qed
  then have "\<forall>x \<in> set (one_time_keys ?s). ok_claimed x \<noteq> None \<longrightarrow> ok_id x \<in> set (handed_out ?s)" by blast
  moreover have "distinct (handed_out ?s)" using fresh take_key.prems by (simp add: pool_ok_def)
  ultimately show ?case using old new by (simp add: pool_ok_def)
next
  case (first_fallback f s r now)
  let ?g = "\<lambda>x. if fk_id x = fk_id f \<and> fk_first_claimed x = None then x\<lparr>fk_first_claimed := Some now\<rparr> else x"
  let ?s = "with_result e r (fk_device f) None (Some (fk_id f)) now
      (s\<lparr>fallback_keys := upd_where (\<lambda>x. fk_id x = fk_id f \<and> fk_first_claimed x = None)
        (\<lambda>x. x\<lparr>fk_first_claimed := Some now\<rparr>) (fallback_keys s)\<rparr>)"
  have keys: "set (fallback_keys ?s) = ?g ` set (fallback_keys s)" by (simp add: set_upd_where)
  have old: "result_ok ?s r'" if "r' \<in> set (claim_results s)" for r'
  proof (rule result_ok_mono [of s])
    show "result_ok s r'" using that first_fallback.prems by (simp add: pool_ok_def)
    fix x assume "x \<in> set (fallback_keys s)" "fk_first_claimed x \<noteq> None"
    then show "x \<in> set (fallback_keys ?s)" unfolding keys by (intro image_eqI [of _ _ x]) simp_all
  qed simp_all
  have "?g f \<in> set (fallback_keys ?s)" unfolding keys using first_fallback.hyps(1) by blast
  then have "\<exists>x \<in> set (fallback_keys ?s). fk_id x = fk_id f \<and> fk_device x = fk_device f \<and>
      (\<exists>t. fk_first_claimed x = Some t \<and> t \<le> now)"
    by (rule rev_bexI) (simp add: first_fallback.hyps(2))
  then have "result_ok ?s (last (claim_results ?s))"
    using first_fallback.hyps(4,5) by (simp add: result_ok_def)
  with old first_fallback.prems show ?case by (simp add: pool_ok_def)
next
  case (fallback_again f s t now r)
  let ?s = "with_result e r (fk_device f) None (Some (fk_id f)) now s"
  have "result_ok ?s r'" if "r' \<in> set (claim_results s)" for r'
  proof -
    from that fallback_again.prems(1) have "result_ok s r'" by (simp add: pool_ok_def)
    then show ?thesis by (rule result_ok_mono) auto
  qed
  moreover have "result_ok ?s (last (claim_results ?s))"
    using fallback_again by (auto simp: result_ok_def)
  ultimately show ?case using fallback_again.prems by (simp add: pool_ok_def)
next
  case (no_key r s recipient now)
  let ?s = "with_result e r recipient None None now s"
  have "result_ok ?s r'" if "r' \<in> set (claim_results s)" for r'
  proof -
    from that no_key.prems(1) have "result_ok s r'" by (simp add: pool_ok_def)
    then show ?thesis by (rule result_ok_mono) auto
  qed
  moreover have "result_ok ?s (last (claim_results ?s))"
    using no_key by (auto simp: result_ok_def)
  ultimately show ?case using no_key.prems by (simp add: pool_ok_def)
qed

lemma directory_change: "key_change k e R s s' \<Longrightarrow> directory_ok k e s \<Longrightarrow> directory_ok k e s'"
  unfolding directory_ok_def
  using curve_change ids_change signed_change slots_change limits_change pool_change by metis

section \<open>What a change leaves\<close>

text \<open>
  Rows are never lost and their content never changes; a claim only marks a key; results are added only
  to the requests of \<open>R\<close>.
\<close>

definition rows_grow :: "uuid set \<Rightarrow> 'x key_db_scheme \<Rightarrow> 'x key_db_scheme \<Rightarrow> bool" where
  "rows_grow R s s' \<longleftrightarrow>
     set (matrix_keys s) \<subseteq> set (matrix_keys s') \<and>
     (\<exists>cs. claim_requests s' = claim_requests s @ cs) \<and>
     (\<exists>rs. claim_results s' = claim_results s @ rs \<and> (\<forall>r \<in> set rs. cl_request r \<in> R)) \<and>
     (\<forall>x \<in> set (one_time_keys s). x \<in> set (one_time_keys s') \<or>
        ok_claimed x = None \<and> (\<exists>t. x\<lparr>ok_claimed := Some t\<rparr> \<in> set (one_time_keys s'))) \<and>
     (\<forall>x \<in> set (fallback_keys s). x \<in> set (fallback_keys s') \<or>
        fk_first_claimed x = None \<and> (\<exists>t. x\<lparr>fk_first_claimed := Some t\<rparr> \<in> set (fallback_keys s')))"

lemma rows_grow_refl: "rows_grow R s s"
  by (simp add: rows_grow_def)

lemma rows_grow_trans:
  assumes "rows_grow R s s'" "rows_grow R' s' s''"
  shows "rows_grow (R \<union> R') s s''"
proof -
  have "\<forall>x \<in> set (one_time_keys s). x \<in> set (one_time_keys s'') \<or>
      ok_claimed x = None \<and> (\<exists>t. x\<lparr>ok_claimed := Some t\<rparr> \<in> set (one_time_keys s''))"
  proof
    fix x assume "x \<in> set (one_time_keys s)"
    with assms(1) consider "x \<in> set (one_time_keys s')" |
        t where "ok_claimed x = None" "x\<lparr>ok_claimed := Some t\<rparr> \<in> set (one_time_keys s')"
      by (auto simp: rows_grow_def)
    then show "x \<in> set (one_time_keys s'') \<or>
      ok_claimed x = None \<and> (\<exists>t. x\<lparr>ok_claimed := Some t\<rparr> \<in> set (one_time_keys s''))"
      using assms(2) by cases (fastforce simp: rows_grow_def)+
  qed
  moreover have "\<forall>x \<in> set (fallback_keys s). x \<in> set (fallback_keys s'') \<or>
      fk_first_claimed x = None \<and> (\<exists>t. x\<lparr>fk_first_claimed := Some t\<rparr> \<in> set (fallback_keys s''))"
  proof
    fix x assume "x \<in> set (fallback_keys s)"
    with assms(1) consider "x \<in> set (fallback_keys s')" |
        t where "fk_first_claimed x = None" "x\<lparr>fk_first_claimed := Some t\<rparr> \<in> set (fallback_keys s')"
      by (auto simp: rows_grow_def)
    then show "x \<in> set (fallback_keys s'') \<or>
      fk_first_claimed x = None \<and> (\<exists>t. x\<lparr>fk_first_claimed := Some t\<rparr> \<in> set (fallback_keys s''))"
      using assms(2) by cases (fastforce simp: rows_grow_def)+
  qed
  ultimately show ?thesis using assms unfolding rows_grow_def by auto
qed

lemma change_grows:
  assumes "key_change k e R s s'" "ids_ok e s"
  shows "rows_grow R s s'"
  using assms
proof (induction rule: key_change.induct)
  case (take_key o' s r now)
  have "x = o'" if "x \<in> set (one_time_keys s)" "ok_id x = ok_id o'" for x
    using that take_key distinct_key_eq [of ok_id "one_time_keys s" x o'] by (simp add: ids_ok_def)
  with take_key show ?case by (auto simp: rows_grow_def set_upd_where)
next
  case (first_fallback f s r now)
  then show ?case by (fastforce simp: rows_grow_def set_upd_where)
qed (auto simp: rows_grow_def same_keys_def)

section \<open>Operations are sequences of changes\<close>

abbreviation key_run :: "key_service \<Rightarrow> env \<Rightarrow> uuid set \<Rightarrow> 'x key_db_scheme \<Rightarrow> 'x key_db_scheme \<Rightarrow> bool" where
  "key_run k e R \<equiv> (key_change k e R)\<^sup>*\<^sup>*"

lemma run_ok: "key_run k e R s s' \<Longrightarrow> directory_ok k e s \<Longrightarrow> directory_ok k e s'"
  by (induction rule: rtranclp_induct) (auto intro: directory_change)

lemma run_grows: "key_run k e R s s' \<Longrightarrow> directory_ok k e s \<Longrightarrow> rows_grow R s s'"
proof (induction rule: rtranclp_induct)
  case (step y z)
  have "ids_ok e y" using run_ok [OF step.hyps(1) step.prems] by (simp add: directory_ok_def)
  from rows_grow_trans [OF step.IH [OF step.prems] change_grows [OF step.hyps(2) this]] show ?case by simp
qed (rule rows_grow_refl)

lemma run_elsewhere: "same_keys s s' \<Longrightarrow> key_run k e R s s'"
  by (simp add: r_into_rtranclp key_change.elsewhere)

lemma run_keys: "key_run k e R s s' \<Longrightarrow> set (matrix_keys s) \<subseteq> set (matrix_keys s')"
proof (induction rule: rtranclp_induct)
  case (step y z)
  have "set (matrix_keys y) \<subseteq> set (matrix_keys z)" using step.hyps(2)
    by (cases rule: key_change.cases) (auto simp: same_keys_def)
  with step.IH show ?case by blast
qed simp

lemma insert_one_time_key_run:
  assumes "insert_one_time_key e device now keyId key h s = Inr (u, s')" "key_signed k s device key"
  shows "key_run k e R s s'"
proof -
  let ?o = "\<lparr>ok_id = uuid_at e (draws s), ok_device = device, ok_algorithm = signed_curve, ok_key_id = keyId,
    ok_curve = sk_key key, ok_signed = key, ok_hash = h, ok_uploaded = now, ok_claimed = None\<rparr>"
  from assms(1) have "sk_key key \<notin> set (all_curves s)" "unclaimed_keys s device < 100"
    "s' = s\<lparr>draws := Suc (draws s), one_time_keys := one_time_keys s @ [?o]\<rparr>"
    by (auto simp: insert_one_time_key_def all_curves_def split: if_splits)
  with key_change.one_time [of ?o s k e R] assms(2) show ?thesis by (simp add: r_into_rtranclp)
qed

lemma publish_one_time_key_run:
  assumes "publish_one_time_key k e device now fk s = Inr (u, s')" "key_signed k s device (snd fk)"
  shows "key_run k e R s s'"
  using assms
  by (cases fk) (auto simp: publish_one_time_key_def tx_iffs liftT_Inr_iff
      split: option.splits intro: insert_one_time_key_run)

lemma insertOneTimeKeys_run:
  assumes "insertOneTimeKeys k e device keys now s = Inr (us, s')"
    "\<And>fk. fk \<in> set keys \<Longrightarrow> key_signed k s device (snd fk)"
  shows "key_run k e R s s'"
  using assms unfolding insertOneTimeKeys_def
proof (induction keys arbitrary: s us)
  case (Cons fk keys)
  from Cons.prems(1) obtain s1 vs where steps: "publish_one_time_key k e device now fk s = Inr ((), s1)"
      "mapT (publish_one_time_key k e device now) keys s1 = Inr (vs, s')"
    by (auto simp: tx_iffs)
  have first: "key_run k e R s s1" using publish_one_time_key_run [OF steps(1) Cons.prems(2)] by simp
  have "key_run k e R s1 s'"
  proof (rule Cons.IH [OF steps(2)])
    fix x assume "x \<in> set keys"
    with Cons.prems(2) have "key_signed k s device (snd x)" by simp
    then show "key_signed k s1 device (snd x)" using run_keys [OF first] by (rule key_signed_mono)
  qed
  with first show ?case by (rule rtranclp_trans)
qed (simp add: tx_simps)

lemma find_slot_None: "find_slot s device = None \<Longrightarrow> l \<in> set (fallback_slots s) \<Longrightarrow> fb_device l = device \<Longrightarrow>
    fb_algorithm l \<noteq> signed_curve"
  by (auto simp: find_slot_def find_None_iff)

lemma move_slot_run:
  assumes "move_slot device f s = Inr (u, s')" "f \<in> set (fallback_keys s)" "fk_device f = device"
  shows "key_run k e R s s'"
proof (cases "find_slot s device")
  case None
  with assms key_change.new_slot [OF None assms(2,3)] show ?thesis
    by (auto simp: move_slot_def intro!: r_into_rtranclp)
next
  case (Some l)
  show ?thesis
  proof (cases "fb_current l = fk_id f")
    case True
    with assms(1) Some show ?thesis by (simp add: move_slot_def)
  next
    case False
    with assms(1) Some obtain c where c: "current_fallback s l = Some c" "fk_uploaded c < fk_uploaded f"
      by (auto simp: move_slot_def split: option.splits if_splits)
    with assms Some False key_change.turn_slot [OF Some c(1) assms(2,3) c(2)] show ?thesis
      by (auto simp: move_slot_def intro!: r_into_rtranclp)
  qed
qed

lemma insert_fallback_key_run:
  assumes "insert_fallback_key e device now keyId key h s = Inr (f, s')" "key_signed k s device key"
  shows "key_run k e R s s'" "f \<in> set (fallback_keys s')" "fk_device f = device"
proof -
  let ?f = "\<lparr>fk_id = uuid_at e (draws s), fk_device = device, fk_algorithm = signed_curve, fk_key_id = keyId,
    fk_curve = sk_key key, fk_signed = key, fk_hash = h, fk_uploaded = now, fk_first_claimed = None\<rparr>"
  from assms(1) have "sk_key key \<notin> set (all_curves s)" and f: "f = ?f"
    and s': "s' = s\<lparr>draws := Suc (draws s), fallback_keys := fallback_keys s @ [?f]\<rparr>"
    by (auto simp: insert_fallback_key_def all_curves_def Let_def split: if_splits)
  with key_change.fallback [of ?f s k e R] assms(2) show "key_run k e R s s'" by (simp add: r_into_rtranclp)
  show "f \<in> set (fallback_keys s')" "fk_device f = device" by (simp_all add: f s')
qed

lemma rotateFallbackKey_run:
  assumes "rotateFallbackKey k e device keys now s = Inr (u, s')"
    "\<And>fk. fk \<in> set keys \<Longrightarrow> key_signed k s device (snd fk)"
  shows "key_run k e R s s'"
proof (cases keys)
  case Nil
  with assms(1) show ?thesis by (simp add: rotateFallbackKey_def tx_simps)
next
  case (Cons fk rest)
  obtain full key where fk: "fk = (full, key)" by (cases fk)
  with assms(2) Cons have signed: "key_signed k s device key" by fastforce
  from assms(1) Cons fk obtain keyId h f s1 where
    found: "(case find_fallback_key s device keyId of
        Some f \<Rightarrow> bindT (guardT (fk_curve f = sk_key key \<and> fk_hash f = h)
          (Conflict ''Una fallback Matrix existente no puede sustituirse.'')) (\<lambda>_. returnT f)
      | None \<Rightarrow> insert_fallback_key e device now keyId key h) s = Inr (f, s1)" and
    move: "move_slot device f s1 = Inr (u, s')"
    by (auto simp: rotateFallbackKey_def tx_iffs liftT_Inr_iff)
  have "key_run k e R s s1 \<and> f \<in> set (fallback_keys s1) \<and> fk_device f = device"
  proof (cases "find_fallback_key s device keyId")
    case None
    with found insert_fallback_key_run [OF _ signed] show ?thesis by auto
  next
    case (Some f')
    from Some have "f' \<in> set (fallback_keys s)" "fk_device f' = device"
      by (auto simp: find_fallback_key_def find_Some_iff)
    with Some found show ?thesis by (auto simp: tx_iffs)
  qed
  with move_slot_run [OF move] show ?thesis by (metis rtranclp_trans)
qed

end
