(* ===== verification/KeyRuns.thy ===== *)
theory KeyRuns
  imports KeyFacts
begin

text \<open>
  Every operation of the directory is a sequence of the changes of KeyFacts: reservations and queries
  leave its tables alone, a publication adds keys, and a claim adds one request and its results.
\<close>

lemma lockOperationalUser_same: "lockOperationalUser i s = Inr (u, s') \<Longrightarrow> s' = s"
  by (auto simp: lockOperationalUser_def split: if_splits)

lemma requireCurrentSession_same: "requireCurrentSession p now dev s = Inr (v, s') \<Longrightarrow> s' = s"
  by (auto simp: requireCurrentSession_def split: option.splits if_splits)

lemma lockRegistration_same: "lockRegistration reg s = Inr (u, s') \<Longrightarrow> s' = s"
  by (auto simp: lockRegistration_def split: if_splits)

lemma lockMatrixDevices_same: "lockMatrixDevices ds s = Inr (us, s') \<Longrightarrow> s' = s"
proof -
  have "mapT (\<lambda>d. bindT (getT (\<lambda>s. published_active s d)) (\<lambda>ok. guardT ok err)) xs s = Inr (us, s') \<Longrightarrow> s' = s"
    for xs err us by (induction xs arbitrary: us) (auto simp: tx_iffs)
  then show "lockMatrixDevices ds s = Inr (us, s') \<Longrightarrow> s' = s" by (simp add: lockMatrixDevices_def)
qed

lemmas same_state = lockOperationalUser_same requireCurrentSession_same lockRegistration_same lockMatrixDevices_same

lemma find_matrix_key_in: "find_matrix_key s device = Some m \<Longrightarrow> m \<in> set (matrix_keys s) \<and> mk_device m = device"
  by (auto simp: find_matrix_key_def find_Some_iff)

lemma rethrow_Inr: "rethrowValidation r = Inr x \<longleftrightarrow> r = Inr x"
  by (auto simp: rethrowValidation_def split: sum.splits error.splits)

lemma translate_Inr: "translate_unique msg r = Inr x \<longleftrightarrow> r = Inr x"
  by (auto simp: translate_unique_def split: sum.splits error.splits)

text \<open>The keys of an accepted upload are signed by the identity the directory has.\<close>

lemma upload_signed:
  assumes "upload_ok (ks_ed k) user device existing (mk_ed25519 m) u" "m \<in> set (matrix_keys s)"
    "mk_matrix_user m = user" "mk_matrix_device m = device"
    "fk \<in> set (ku_one_time_keys u) \<union> set (ku_fallback_keys u)"
  shows "key_signed k s (mk_device m) (snd fk)"
  using assms by (fastforce simp: key_signed_def upload_ok_def list_all_iff curve_entry_ok_def)

lemma upload_transaction_run:
  assumes "upload_transaction k e now p device v s = Inr (n, s')"
  shows "key_run k e R s s'"
proof -
  from assms obtain m u us s1 where
    found: "find_matrix_key s device = Some m" and
    parsed: "parseMatrixKeyUpload (ks_ed k) v (mk_matrix_user m) (mk_matrix_device m) (Some (mk_ed25519 m)) = Inr u" and
    one: "insertOneTimeKeys k e device (ku_one_time_keys u) now s = Inr (us, s1)" and
    two: "rotateFallbackKey k e device (ku_fallback_keys u) now s1 = Inr ((), s')"
    by (auto simp: upload_transaction_def tx_iffs liftT_Inr_iff rethrow_Inr dest!: same_state split: option.splits)
  obtain pk where "upload_ok (ks_ed k) (mk_matrix_user m) (mk_matrix_device m) (Some (mk_ed25519 m)) pk u"
    using parseMatrixKeyUpload_ok [OF parsed] by blast
  then have ok: "upload_ok (ks_ed k) (mk_matrix_user m) (mk_matrix_device m) (Some (mk_ed25519 m)) (mk_ed25519 m) u"
    by (auto simp: upload_ok_def)
  note m = find_matrix_key_in [OF found]
  have signed: "key_signed k s device (snd fk)" if "fk \<in> set (ku_one_time_keys u) \<union> set (ku_fallback_keys u)" for fk
    using upload_signed [OF ok conjunct1 [OF m] refl refl that] m by simp
  have first: "key_run k e R s s1" by (rule insertOneTimeKeys_run [OF one]) (simp add: signed)
  have "key_run k e R s1 s'"
    by (rule rotateFallbackKey_run [OF two]) (rule key_signed_mono [OF signed run_keys [OF first]], simp)
  with first show ?thesis by (rule rtranclp_trans)
qed

lemma uploadKeys_run: "uploadKeys k e now p v s = Inr (n, s') \<Longrightarrow> key_run k e R s s'"
  by (auto simp: uploadKeys_def check_iffs translate_Inr intro: upload_transaction_run)

section \<open>The first publication\<close>

lemma same_keys_trans: "same_keys s s' \<Longrightarrow> same_keys s' s'' \<Longrightarrow> same_keys s s''"
  by (simp add: same_keys_def)

lemma same_core_keys:
  fixes s s' :: "'x key_db_scheme"
  assumes "same_core s s'"
  shows "same_keys s s'"
proof -
  let ?s = "s\<lparr>draws := draws s', list_states := list_states s', list_position := list_position s',
       list_changes := list_changes s'\<rparr>"
  from assms have eq: "s' = ?s" "draws s \<le> draws s'" by (simp_all only: same_core_def)
  from arg_cong [OF eq(1), of one_time_keys] arg_cong [OF eq(1), of fallback_keys]
    arg_cong [OF eq(1), of fallback_slots] arg_cong [OF eq(1), of matrix_keys]
    arg_cong [OF eq(1), of claim_requests] arg_cong [OF eq(1), of claim_results] eq(2)
  show ?thesis by (simp add: same_keys_def)
qed

lemma publish_same: "publish e i rs ct at src bump s = Inr (u, s') \<Longrightarrow> same_core s s'"
  using publish_total [of e i rs ct at src bump s] by auto

lemma announce_core:
  fixes s s' :: "'x e2e_db_scheme"
  assumes "announce_device e user device now s = Inr (u, s')"
  shows "same_core s s'"
proof -
  have loop: "mapT (\<lambda>i. publish e i [user] CHANGED now None False) xs s = Inr (us, s') \<Longrightarrow> same_core s s'"
    for xs us and s s' :: "'x e2e_db_scheme"
    by (induction xs arbitrary: s us) (auto simp: tx_iffs intro: same_core_trans publish_same)
  from assms show ?thesis
    by (auto simp: announce_device_def publishDeviceSetChanged_def publishCurrentPeersToRecipient_def tx_iffs
        split: if_splits intro: same_core_trans publish_same loop)
qed

lemma announce_same:
  "announce_device e user device now s = Inr (u, s') \<Longrightarrow> same_keys s s'" for s s' :: "'x key_db_scheme"
  by (rule same_core_keys [OF announce_core])

lemma create_steps_same:
  "create_device device user b s = Inr (u, s') \<Longrightarrow> same_keys s s'"
  "create_list_state user mu now s = Inr (u, s') \<Longrightarrow> same_keys s s'"
  "create_cursor device s = Inr (u, s') \<Longrightarrow> same_keys s s'"
  "link_session p version device now s = Inr (u, s') \<Longrightarrow> same_keys s s'"
  "consume_registration reg now h n s = Inr (u, s') \<Longrightarrow> same_keys s s'"
  by (auto simp: create_device_def create_list_state_def create_cursor_def link_session_def consume_registration_def
      same_keys_def Let_def split: if_splits option.splits)

lemma create_matrix_key_run:
  assumes "create_matrix_key m s = Inr (u, s')"
  shows "key_run k e R s s'" "m \<in> set (matrix_keys s')"
proof -
  from assms have "mk_device m \<notin> mk_device ` set (matrix_keys s)" "mk_curve m \<notin> set (all_curves s)"
    and s': "s' = s\<lparr>matrix_keys := matrix_keys s @ [m]\<rparr>"
    by (auto simp: create_matrix_key_def all_curves_def split: if_splits)
  with key_change.identity [of m s k e R] show "key_run k e R s s'" by (simp add: r_into_rtranclp)
  show "m \<in> set (matrix_keys s')" by (simp add: s')
qed

lemma deviceKeyData_of:
  assumes "deviceKeyData k reg user d now = Inr m" "map_of (dk_keys d) (signing_key_id (dk_device d)) = Some pk"
  shows "mk_device m = reg" "mk_user m = user" "mk_matrix_user m = dk_user d" "mk_matrix_device m = dk_device d"
    "mk_ed25519 m = pk" "mk_keys m = d"
  using assms by (auto simp: deviceKeyData_def check_iffs split: option.splits if_splits)

lemma publish_first_keys_run:
  assumes "publish_first_keys k e now p reg d u binding s = Inr (w, s')"
    "upload_ok (ks_ed k) user device None pk u" "ku_device_keys u = Some d"
  shows "key_run k e R s s'"
proof -
  from assms(1) obtain s1 s2 m s3 s4 us s5 s6 where steps:
    "create_device reg (pn_id p) binding s = Inr ((), s1)"
    "create_list_state (pn_id p) (matrixUserIdFromUuid (pn_id p) (ks_server k)) now s1 = Inr ((), s2)"
    "deviceKeyData k reg (pn_id p) d now = Inr m" "create_matrix_key m s2 = Inr ((), s3)"
    "create_cursor reg s3 = Inr ((), s4)"
    "insertOneTimeKeys k e reg (ku_one_time_keys u) now s4 = Inr (us, s5)"
    "rotateFallbackKey k e reg (ku_fallback_keys u) now s5 = Inr ((), s6)"
    "announce_device e (pn_id p) reg now s6 = Inr (w, s')"
    by (auto simp: publish_first_keys_def tx_iffs liftT_Inr_iff)
  from assms(2,3) have id: "identity_ok (ks_ed k) user device pk d" by (simp add: upload_ok_def)
  then have pk: "map_of (dk_keys d) (signing_key_id (dk_device d)) = Some pk" by (simp add: identity_ok_def)
  note m = deviceKeyData_of [OF steps(3) pk]
  have r1: "key_run k e R s s2"
    by (rule run_elsewhere [OF same_keys_trans [OF create_steps_same(1) [OF steps(1)] create_steps_same(2) [OF steps(2)]]])
  have r2: "key_run k e R s2 s3" by (rule create_matrix_key_run(1) [OF steps(4)])
  have same: "same_keys s3 s4" by (rule create_steps_same(3) [OF steps(5)])
  have mem: "m \<in> set (matrix_keys s4)" using create_matrix_key_run(2) [OF steps(4)] same by (simp add: same_keys_def)
  have signed: "key_signed k s4 reg (snd fk)" if "fk \<in> set (ku_one_time_keys u) \<union> set (ku_fallback_keys u)" for fk
    using upload_signed [of k user device None m u s4 fk] assms(2) mem m id that by (simp add: identity_ok_def)
  have r3: "key_run k e R s4 s5" by (rule insertOneTimeKeys_run [OF steps(6)]) (simp add: signed)
  have r4: "key_run k e R s5 s6"
    by (rule rotateFallbackKey_run [OF steps(7)]) (rule key_signed_mono [OF signed run_keys [OF r3]], simp)
  show ?thesis
    using r1 r2 run_elsewhere [OF same] r3 r4 run_elsewhere [OF announce_same [OF steps(8)]] by (meson rtranclp_trans)
qed

lemma complete_transaction_run:
  assumes "complete_transaction k e now p reg d u h b s = Inr (w, s')"
    "upload_ok (ks_ed k) user device None pk u" "ku_device_keys u = Some d"
  shows "key_run k e R s s'"
proof -
  from assms(1) obtain x s1 version s2 n where
    "publish_first_keys k e now p reg d u b s = Inr (x, s1)"
    "link_session p version reg now s1 = Inr ((), s2)"
    "consume_registration reg now h n s2 = Inr ((), s')"
    by (auto simp: complete_transaction_def tx_iffs liftT_Inr_iff dest!: same_state)
  note steps = this
  have "key_run k e R s s1" by (rule publish_first_keys_run [OF steps(1) assms(2,3)])
  moreover have "same_keys s1 s'"
    by (rule same_keys_trans [OF create_steps_same(4) [OF steps(2)] create_steps_same(5) [OF steps(3)]])
  ultimately show ?thesis by (meson rtranclp_trans run_elsewhere)
qed

lemma replay_same: "replayInitialUpload now p reg h b s = Inr (w, s') \<Longrightarrow> s' = s"
  by (auto simp: replayInitialUpload_def tx_iffs liftT_Inr_iff dest!: same_state split: option.splits)

lemma completeInitialUpload_run:
  assumes "completeInitialUpload k e now p reg v s = Inr (w, s')"
  shows "key_run k e R s s'"
proof -
  from assms obtain d u h x and b :: issued_binding where
    parsed: "parseInitialMatrixKeyUpload (ks_ed k) v (matrixUserIdFromUuid (pn_id p) (ks_server k))
      (matrixDeviceIdFromUuid reg) = Inr (d, u)" and
    run: "initial_publication k e now p reg d u h (ib_hash b) s = Inr (x, s')"
    by (auto simp: completeInitialUpload_def bindE_Inr_iff rethrow_Inr Let_def)
  have branch: "(\<exists>x. replayInitialUpload now p reg h (ib_hash b) s = Inr (x, s')) \<or>
      (\<exists>x. complete_transaction k e now p reg d u h (ib_hash b) s = Inr (x, s'))"
    using run by (cases "pn_device p") (auto simp: initial_publication_def translate_Inr split: if_splits)
  note ok = parseInitialMatrixKeyUpload_ok [OF parsed]
  from ok(2) obtain pk where pk: "upload_ok (ks_ed k) (matrixUserIdFromUuid (pn_id p) (ks_server k))
      (matrixDeviceIdFromUuid reg) None pk u" by blast
  from branch show ?thesis
  proof
    assume "\<exists>x. replayInitialUpload now p reg h (ib_hash b) s = Inr (x, s')"
    then show ?thesis by (auto dest: replay_same)
  next
    assume "\<exists>x. complete_transaction k e now p reg d u h (ib_hash b) s = Inr (x, s')"
    then show ?thesis using complete_transaction_run [OF _ pk ok(1)] by blast
  qed
qed

lemma reserveDevice_same: "reserveDevice k e now p s = Inr (w, s') \<Longrightarrow> same_keys s s'"
  by (auto simp: reserveDevice_def create_registration_def drop_stale_registrations_def new_uuid_def tx_iffs
      same_keys_def dest!: same_state split: option.splits)

section \<open>Claims\<close>

lemma record_result_eq [tx_simps]: "record_result e q d x y now s = Inr ((), with_result e q d x y now s)"
  by (simp add: record_result_def with_result_def new_uuid_def tx_simps bindT_def)

lemma available_keys_hd:
  "available_keys s device = o' # rest \<Longrightarrow> o' \<in> set (one_time_keys s) \<and> ok_device o' = device \<and> ok_claimed o' = None"
proof -
  assume "available_keys s device = o' # rest"
  then have "o' \<in> set (available_keys s device)" by simp
  then show ?thesis by (auto simp: available_keys_def)
qed

lemma current_fallback_of:
  assumes "slots_ok s" "ids_ok e s" "find_slot s device = Some l" "current_fallback s l = Some f"
  shows "f \<in> set (fallback_keys s)" "fk_device f = device"
proof -
  from assms(3) have l: "l \<in> set (fallback_slots s)" "fb_device l = device" by (auto simp: find_slot_def find_Some_iff)
  from assms(4) have f: "f \<in> set (fallback_keys s)" "fk_id f = fb_current l"
    by (auto simp: current_fallback_def find_Some_iff)
  from assms(1) l obtain g where "g \<in> set (fallback_keys s)" "fk_id g = fb_current l" "fk_device g = device"
    by (auto simp: slots_ok_def)
  with f assms(2) distinct_key_eq [of fk_id "fallback_keys s" g f]
  show "f \<in> set (fallback_keys s)" "fk_device f = device" by (simp_all add: ids_ok_def)
qed

lemma claimRecipientKey_run:
  assumes "claimRecipientKey e q now recipient s = Inr (u, s')" "directory_ok k e s" "q \<in> R"
    "q \<in> cq_id ` set (claim_requests s)" "recipient \<in> mk_device ` set (matrix_keys s)"
  shows "key_change k e R s s'"
proof (cases "available_keys s recipient")
  case (Cons o' rest)
  note o' = available_keys_hd [OF Cons]
  from assms(1) Cons have "s' = with_result e q recipient (Some (ok_id o')) None now
      (s\<lparr>one_time_keys := upd_where (\<lambda>x. ok_id x = ok_id o') (\<lambda>x. x\<lparr>ok_claimed := Some now\<rparr>) (one_time_keys s)\<rparr>)"
    by (auto simp: claimRecipientKey_def take_one_time_key_def tx_iffs tx_simps split: if_splits)
  with key_change.take_key [of o' s q R k e now] o' assms(3-5) show ?thesis by simp
next
  case Nil
  show ?thesis
  proof (cases "find_slot s recipient")
    case None
    with assms(1) Nil have "s' = with_result e q recipient None None now s"
      by (auto simp: claimRecipientKey_def tx_iffs tx_simps)
    with key_change.no_key [of q R s recipient k e now] assms(3-5) show ?thesis by simp
  next
    case (Some l)
    with assms(1) Nil obtain f s1 where f: "current_fallback s l = Some f" and mark: "mark_fallback f now s = Inr ((), s1)"
      and s': "s' = with_result e q recipient None (Some (fk_id f)) now s1"
      by (auto simp: claimRecipientKey_def tx_iffs tx_simps split: option.splits)
    have fk: "f \<in> set (fallback_keys s)" "fk_device f = recipient"
      using current_fallback_of [OF _ _ Some f] assms(2) by (auto simp: directory_ok_def)
    show ?thesis
    proof (cases "fk_first_claimed f")
      case None
      with mark have "s1 = s\<lparr>fallback_keys := upd_where (\<lambda>x. fk_id x = fk_id f \<and> fk_first_claimed x = None)
          (\<lambda>x. x\<lparr>fk_first_claimed := Some now\<rparr>) (fallback_keys s)\<rparr>"
        by (auto simp: mark_fallback_def Let_def split: if_splits)
      with key_change.first_fallback [OF fk(1) None assms(3,4), of k e now] fk(2) assms(5) s' show ?thesis by simp
    next
      case (Some t)
      with mark have "s1 = s" "t \<le> now" by (auto simp: mark_fallback_def split: if_splits)
      with key_change.fallback_again [OF fk(1) Some _ assms(3,4), of now k e] fk(2) assms(5) s' show ?thesis by simp
    qed
  qed
qed

lemma claim_loop_run:
  assumes "mapT (claimRecipientKey e q now) ds s = Inr (us, s')" "directory_ok k e s" "q \<in> R"
    "q \<in> cq_id ` set (claim_requests s)" "set ds \<subseteq> mk_device ` set (matrix_keys s)"
  shows "key_run k e R s s'"
  using assms
proof (induction ds arbitrary: s us)
  case (Cons d ds)
  from Cons.prems(1) obtain s1 vs where steps: "claimRecipientKey e q now d s = Inr ((), s1)"
      "mapT (claimRecipientKey e q now) ds s1 = Inr (vs, s')" by (auto simp: tx_iffs)
  have one: "key_change k e R s s1" using Cons.prems by (intro claimRecipientKey_run [OF steps(1)]) auto
  then have run: "key_run k e R s s1" by blast
  note grow = run_grows [OF run Cons.prems(2)]
  have "key_run k e R s1 s'"
  proof (rule Cons.IH [OF steps(2) directory_change [OF one Cons.prems(2)] Cons.prems(3)])
    show "q \<in> cq_id ` set (claim_requests s1)" using grow Cons.prems(4) by (auto simp: rows_grow_def)
    have "mk_device ` set (matrix_keys s) \<subseteq> mk_device ` set (matrix_keys s1)" by (rule image_mono [OF run_keys [OF run]])
    with Cons.prems(5) show "set ds \<subseteq> mk_device ` set (matrix_keys s1)" by (metis list.set_intros(2) subset_iff)
  qed
  with run show ?case by (rule rtranclp_trans)
qed (simp add: tx_simps)

lemma create_claim_run:
  assumes "create_claim e device conversation q h now s = Inr (i, s')" "previous_claim s device q = None" "ids_ok e s"
  shows "key_change k e R s s'" "i \<notin> cq_id ` set (claim_requests s)" "i = uuid_at e (draws s)"
    "claim_requests s' = claim_requests s @ [\<lparr>cq_id = i, cq_device = device, cq_conversation = conversation,
      cq_request = q, cq_hash = h, cq_created = now\<rparr>]" "claim_results s' = claim_results s"
    "matrix_keys s' = matrix_keys s" "devices s' = devices s"
proof -
  let ?c = "\<lparr>cq_id = uuid_at e (draws s), cq_device = device, cq_conversation = conversation,
      cq_request = q, cq_hash = h, cq_created = now\<rparr>"
  from assms(1) have i: "i = uuid_at e (draws s)"
    and s': "s' = s\<lparr>draws := Suc (draws s), claim_requests := claim_requests s @ [?c]\<rparr>"
    by (auto simp: create_claim_def Let_def split: if_splits)
  show "key_change k e R s s'" using key_change.request [of s ?c e k R] assms(2) s' by simp
  show "i \<notin> cq_id ` set (claim_requests s)"
    using supply_ok_fresh [of e "draws s" "key_ids s" "draws s"] assms(3) i by (auto simp: ids_ok_def key_ids_def)
qed (use assms(1) in \<open>auto simp: create_claim_def Let_def split: if_splits\<close>)

text \<open>A new claim runs within its own request, which is fresh.\<close>

lemma new_claim_steps:
  assumes "new_claim e now device conversation q h user mu requested except s = Inr (resp, s')"
    "previous_claim s device q = None" "directory_ok k e s"
  obtains i s1 us where "create_claim e device conversation q h now s = Inr (i, s1)"
    "mapT (claimRecipientKey e i now) (map mk_device (claim_targets_of s1 user mu requested except)) s1 = Inr (us, s')"
    "resp = buildClaimResponse i s'" "key_run k e {i} s1 s'" "directory_ok k e s1"
    "i \<notin> cq_id ` set (claim_requests s)" "i \<in> cq_id ` set (claim_requests s1)"
proof -
  from assms(1) obtain i s1 us where steps: "create_claim e device conversation q h now s = Inr (i, s1)"
    "mapT (claimRecipientKey e i now) (map mk_device (claim_targets_of s1 user mu requested except)) s1 = Inr (us, s')"
    "resp = buildClaimResponse i s'"
    by (auto simp: new_claim_def tx_iffs dest!: lockMatrixDevices_same)
  have "ids_ok e s" using assms(3) by (simp add: directory_ok_def)
  note c = create_claim_run [OF steps(1) assms(2) this]
  have ok: "directory_ok k e s1" by (rule directory_change [OF c(1) assms(3)])
  have i: "i \<in> cq_id ` set (claim_requests s1)" by (simp add: c(4))
  have "key_run k e {i} s1 s'"
    by (rule claim_loop_run [OF steps(2) ok _ i]) (auto simp: claim_targets_of_def)
  then show ?thesis using steps ok c(2) i that by blast
qed

lemma new_claim_run:
  assumes "new_claim e now device conversation q h user mu requested except s = Inr (resp, s')"
    "previous_claim s device q = None" "directory_ok k e s"
  shows "\<exists>i. key_run k e {i} s s' \<and> i \<notin> cq_id ` set (claim_requests s)"
proof -
  obtain i s1 us where steps: "create_claim e device conversation q h now s = Inr (i, s1)" "key_run k e {i} s1 s'"
    "i \<notin> cq_id ` set (claim_requests s)"
    by (rule new_claim_steps [OF assms])
  have "key_change k e {i} s s1"
    using create_claim_run(1) [OF steps(1) assms(2)] assms(3) by (simp add: directory_ok_def)
  with steps show ?thesis by (meson converse_rtranclp_into_rtranclp)
qed

text \<open>What an operation of the directory does: a run that adds results to fresh requests only.\<close>

definition directory_effect :: "key_service \<Rightarrow> env \<Rightarrow> 'x key_db_scheme \<Rightarrow> 'x key_db_scheme \<Rightarrow> bool" where
  "directory_effect k e s s' \<longleftrightarrow> (\<exists>R. key_run k e R s s' \<and> R \<inter> cq_id ` set (claim_requests s) = {})"

lemma effect_run: "(\<And>R. key_run k e R s s') \<Longrightarrow> directory_effect k e s s'"
  unfolding directory_effect_def by blast

lemma effect_refl: "directory_effect k e s s"
  by (rule effect_run) simp

lemma answer_claim_effect:
  assumes "answer_claim e now device conversation q h user mu requested except s = Inr (resp, s')" "directory_ok k e s"
  shows "directory_effect k e s s'"
proof (cases "previous_claim s device q")
  case None
  with assms new_claim_run [OF _ None assms(2)] show ?thesis
    by (fastforce simp: answer_claim_def tx_iffs directory_effect_def)
next
  case (Some c)
  with assms(1) have "s' = s" by (auto simp: answer_claim_def tx_iffs)
  then show ?thesis by (simp add: effect_refl)
qed

end
