(* ===== verification/KeyAnswers.thy ===== *)
theory KeyAnswers
  imports KeyRuns
begin

text \<open>
  The properties of the directory of keys, over every sequence of its operations with anything else
  the application does in between.
\<close>

section \<open>Sequences of operations\<close>

inductive directory_step :: "key_service \<Rightarrow> env \<Rightarrow> 'x key_db_scheme \<Rightarrow> 'x key_db_scheme \<Rightarrow> bool" for k e where
  reserved: "reserveDevice k e now p s = Inr (r, s') \<Longrightarrow> directory_step k e s s'"
| completed: "completeInitialUpload k e now p reg v s = Inr (i, s') \<Longrightarrow> directory_step k e s s'"
| uploaded: "uploadKeys k e now p v s = Inr (n, s') \<Longrightarrow> directory_step k e s s'"
| claimed: "claimKeys k e at now p conversation q v s = Inr (c, s') \<Longrightarrow> directory_step k e s s'"
| related: "claimRelatedKeys k e ats now p q v s = Inr (c, s') \<Longrightarrow> directory_step k e s s'"
| otherwise: "same_keys s s' \<Longrightarrow> directory_step k e s s'"

lemma currentLink_same: "lockCurrent at i conv dev s = Inr (a, s') \<Longrightarrow> s' = s"
  using lockCurrent_granted by blast

lemma lockConversation_same: "lockConversationDeviceSets at i conv dev s = Inr (a, s') \<Longrightarrow> s' = s"
  by (auto simp: lockConversationDeviceSets_def dest: currentLink_same)

lemma byParticipants_same: "lockCurrentByParticipants at i j s = Inr (a, s') \<Longrightarrow> s' = s"
  by (auto simp: lockCurrentByParticipants_def split: sum.splits option.splits)

lemma related_scope_same: "related_scope p at t s = Inr (c, s') \<Longrightarrow> s' = s"
  by (cases t) (auto simp: related_scope_def tx_iffs split: if_splits user_role.splits dest: byParticipants_same)

lemma related_scopes_same: "mapT (related_scope p at) ts s = Inr (cs, s') \<Longrightarrow> s' = s"
  by (induction ts arbitrary: cs) (auto simp: tx_iffs dest!: related_scope_same)

lemma lockRelatedTargets_same: "lockRelatedTargets k p at device us s = Inr (cs, s') \<Longrightarrow> s' = s"
  by (auto simp: lockRelatedTargets_def Let_def tx_iffs liftT_Inr_iff dest!: related_scopes_same)

lemmas locks_same = same_state lockConversation_same lockRelatedTargets_same

text \<open>What an accepted claim has established before it is answered.\<close>

definition claim_admitted ::
    "key_service \<Rightarrow> time \<Rightarrow> time \<Rightarrow> principal \<Rightarrow> uuid \<Rightarrow> string \<Rightarrow> json \<Rightarrow> uuid \<Rightarrow> keys_claim \<Rightarrow> string \<Rightarrow>
       conversation_access \<Rightarrow> 'x key_db_scheme \<Rightarrow> bool" where
  "claim_admitted k at now p conversation raw v device c h a s \<longleftrightarrow>
     requireBoundKeyDevice p = Inr device \<and> request_id raw \<and> parseMatrixKeysClaim v = Inr c \<and>
     hashMatrixCanonicalJson (ks_sha k) (matrixClaimHashInput c) = Inr h \<and>
     lockConversationDeviceSets at (pn_id p) conversation device s = Inr (a, s) \<and>
     (\<exists>version. requireCurrentSession p now (Some device) s = Inr (version, s)) \<and>
     map fst (kc_one_time_keys c) = [matrixUserIdFromUuid (peer_of (pn_id p) a) (ks_server k)]"

abbreviation claim_answer ::
    "key_service \<Rightarrow> env \<Rightarrow> time \<Rightarrow> principal \<Rightarrow> uuid \<Rightarrow> string \<Rightarrow> uuid \<Rightarrow> keys_claim \<Rightarrow> string \<Rightarrow>
       conversation_access \<Rightarrow> ('x key_db_scheme, claim_response) tx" where
  "claim_answer k e now p conversation raw device c h a \<equiv>
     answer_claim e now device (Some conversation) raw h (peer_of (pn_id p) a)
       (matrixUserIdFromUuid (peer_of (pn_id p) a) (ks_server k))
       (requested_devices c (matrixUserIdFromUuid (peer_of (pn_id p) a) (ks_server k))) None"

lemma claimKeys_iff:
  "claimKeys k e at now p conversation raw v s = Inr (resp, s') \<longleftrightarrow>
     (\<exists>device c h a. claim_admitted k at now p conversation raw v device c h a s \<and>
        claim_answer k e now p conversation raw device c h a s = Inr (resp, s'))"
  (is "?lhs \<longleftrightarrow> ?rhs")
proof
  assume ?lhs
  then obtain device c h a s1 version s2 where parts: "requireBoundKeyDevice p = Inr device" "request_id raw"
    "parseMatrixKeysClaim v = Inr c" "hashMatrixCanonicalJson (ks_sha k) (matrixClaimHashInput c) = Inr h" and
    locks: "lockConversationDeviceSets at (pn_id p) conversation device s = Inr (a, s1)"
    "requireCurrentSession p now (Some device) s1 = Inr (version, s2)" and
    rest: "map fst (kc_one_time_keys c) = [matrixUserIdFromUuid (peer_of (pn_id p) a) (ks_server k)]"
    "claim_answer k e now p conversation raw device c h a s2 = Inr (resp, s')"
    by (auto simp: claimKeys_def tx_iffs liftT_Inr_iff rethrow_Inr Let_def parseMatrixClaimRequestId_def split: if_splits)
  from locks have same: "s1 = s" "s2 = s" by (auto dest: locks_same)
  with parts locks rest(1) have "claim_admitted k at now p conversation raw v device c h a s"
    by (auto simp: claim_admitted_def)
  with rest(2) same show ?rhs by blast
next
  assume ?rhs
  then show ?lhs
    by (auto simp: claim_admitted_def claimKeys_def tx_iffs liftT_Inr_iff rethrow_Inr Let_def parseMatrixClaimRequestId_def)
qed

text \<open>The same for the route without a conversation: the scope says whom the claim may reach.\<close>

definition related_admitted ::
    "key_service \<Rightarrow> (uuid \<Rightarrow> time) \<Rightarrow> principal \<Rightarrow> string \<Rightarrow> json \<Rightarrow> uuid \<Rightarrow> keys_claim \<Rightarrow> string \<Rightarrow> string \<Rightarrow>
       target_scope \<Rightarrow> 'x key_db_scheme \<Rightarrow> bool" where
  "related_admitted k at p raw v device c h u scope s \<longleftrightarrow>
     requireBoundKeyDevice p = Inr device \<and> request_id raw \<and> parseMatrixKeysClaim v = Inr c \<and>
     hashMatrixCanonicalJson (ks_sha k) (matrixClaimHashInput c) = Inr h \<and> map fst (kc_one_time_keys c) = [u] \<and>
     (\<exists>scopes. lockRelatedTargets k p at device [u] s = Inr (scope # scopes, s))"

lemma single_target:
  "(case us of [u] \<Rightarrow> f u | _ \<Rightarrow> throwT err) s = Inr r \<longleftrightarrow> (\<exists>u. us = [u] \<and> f u s = Inr r)"
  by (auto simp: throwT_def split: list.splits)

lemma first_scope:
  "(case cs of [] \<Rightarrow> throwT err | c # _ \<Rightarrow> f c) s = Inr r \<longleftrightarrow> (\<exists>c cs'. cs = c # cs' \<and> f c s = Inr r)"
  by (auto simp: throwT_def split: list.splits)

lemma claimRelatedKeys_admitted:
  assumes "claimRelatedKeys k e at now p raw v s = Inr (resp, s')"
  obtains device c h u scope where "related_admitted k at p raw v device c h u scope s"
    "answer_claim e now device (sc_conversation scope) raw h (sc_user scope) u (requested_devices c u) (Some device) s
       = Inr (resp, s')"
proof -
  from assms obtain device c h u version s1 scope scopes s2 where parts: "requireBoundKeyDevice p = Inr device" "request_id raw"
    "parseMatrixKeysClaim v = Inr c" "hashMatrixCanonicalJson (ks_sha k) (matrixClaimHashInput c) = Inr h"
    "map fst (kc_one_time_keys c) = [u]" and
    locks: "requireCurrentSession p now (Some device) s = Inr (version, s1)"
    "lockRelatedTargets k p at device [u] s1 = Inr (scope # scopes, s2)" and
    rest: "answer_claim e now device (sc_conversation scope) raw h (sc_user scope) u (requested_devices c u) (Some device) s2
       = Inr (resp, s')"
    by (auto simp: claimRelatedKeys_def single_target first_scope tx_iffs liftT_Inr_iff rethrow_Inr
        parseMatrixClaimRequestId_def split: if_splits)
  from locks have same: "s1 = s" "s2 = s" by (auto dest: locks_same)
  with parts locks have "related_admitted k at p raw v device c h u scope s" by (auto simp: related_admitted_def)
  from that [OF this] rest same show ?thesis by simp
qed

lemma step_effect:
  assumes "directory_step k e s s'" "directory_ok k e s"
  shows "directory_effect k e s s'"
  using assms
proof (induction rule: directory_step.induct)
  case (reserved now p s r s')
  then show ?case by (intro effect_run run_elsewhere reserveDevice_same)
next
  case (completed now p reg v s i s')
  then show ?case by (intro effect_run completeInitialUpload_run)
next
  case (uploaded now p v s n s')
  then show ?case by (intro effect_run uploadKeys_run)
next
  case (claimed at now p conversation q v s c s')
  then show ?case by (auto simp: claimKeys_iff intro: answer_claim_effect)
next
  case (related ats now p q v s c s')
  from related(1) show ?case
    by (rule claimRelatedKeys_admitted) (rule answer_claim_effect [OF _ related(2)])
next
  case (otherwise s s')
  then show ?case by (intro effect_run run_elsewhere)
qed

abbreviation directory_steps :: "key_service \<Rightarrow> env \<Rightarrow> 'x key_db_scheme \<Rightarrow> 'x key_db_scheme \<Rightarrow> bool" where
  "directory_steps k e \<equiv> (directory_step k e)\<^sup>*\<^sup>*"

lemma steps_keep:
  assumes "directory_steps k e s s'" "directory_ok k e s"
  shows "directory_ok k e s'" "\<exists>R. rows_grow R s s' \<and> R \<inter> cq_id ` set (claim_requests s) = {}"
proof -
  from assms have "directory_ok k e s' \<and> (\<exists>R. rows_grow R s s' \<and> R \<inter> cq_id ` set (claim_requests s) = {})"
  proof (induction rule: rtranclp_induct)
    case base
    then show ?case using rows_grow_refl [of "{}" s] by blast
  next
    case (step y z)
    then obtain R where y: "directory_ok k e y" "rows_grow R s y" "R \<inter> cq_id ` set (claim_requests s) = {}" by blast
    from step_effect [OF step.hyps(2) y(1)] obtain R' where
      run: "key_run k e R' y z" "R' \<inter> cq_id ` set (claim_requests y) = {}"
      unfolding directory_effect_def by blast
    have "cq_id ` set (claim_requests s) \<subseteq> cq_id ` set (claim_requests y)" using y(2) by (auto simp: rows_grow_def)
    with y(3) run(2) have "(R \<union> R') \<inter> cq_id ` set (claim_requests s) = {}" by blast
    with run_ok [OF run(1) y(1)] rows_grow_trans [OF y(2) run_grows [OF run(1) y(1)]] show ?case by blast
  qed
  then show "directory_ok k e s'" "\<exists>R. rows_grow R s s' \<and> R \<inter> cq_id ` set (claim_requests s) = {}" by blast+
qed

section \<open>A stored answer does not change\<close>

lemma one_time_key_stays:
  assumes "rows_grow R s s'" "ids_ok e s" "ids_ok e s'" "find (\<lambda>x. ok_id x = i) (one_time_keys s) = Some x"
  obtains y where "find (\<lambda>x. ok_id x = i) (one_time_keys s') = Some y" "ok_key_id y = ok_key_id x" "ok_signed y = ok_signed x"
proof -
  from assms(4) have x: "x \<in> set (one_time_keys s)" "ok_id x = i" by (auto simp: find_Some_iff)
  with assms(1) obtain y where "y \<in> set (one_time_keys s')" "ok_id y = i" "ok_key_id y = ok_key_id x" "ok_signed y = ok_signed x"
    by (fastforce simp: rows_grow_def)
  with assms(3) find_key_eq [of ok_id "one_time_keys s'" y] that show ?thesis by (auto simp: ids_ok_def)
qed

lemma fallback_key_stays:
  assumes "rows_grow R s s'" "ids_ok e s" "ids_ok e s'" "find (\<lambda>x. fk_id x = i) (fallback_keys s) = Some x"
  obtains y where "find (\<lambda>x. fk_id x = i) (fallback_keys s') = Some y" "fk_key_id y = fk_key_id x" "fk_signed y = fk_signed x"
proof -
  from assms(4) have x: "x \<in> set (fallback_keys s)" "fk_id x = i" by (auto simp: find_Some_iff)
  with assms(1) obtain y where "y \<in> set (fallback_keys s')" "fk_id y = i" "fk_key_id y = fk_key_id x" "fk_signed y = fk_signed x"
    by (fastforce simp: rows_grow_def)
  with assms(3) find_key_eq [of fk_id "fallback_keys s'" y] that show ?thesis by (auto simp: ids_ok_def)
qed

lemma matrix_key_of:
  "ids_ok e s \<Longrightarrow> m \<in> set (matrix_keys s) \<Longrightarrow> find_matrix_key s (mk_device m) = Some m"
  using find_key_eq [of mk_device "matrix_keys s" m] by (simp add: ids_ok_def find_matrix_key_def)

lemma found_claimed_stays:
  assumes "rows_grow R s s'" "directory_ok k e s" "directory_ok k e s'" "result_ok s r"
  shows "find_claimed s' r = find_claimed s r"
proof (cases "cl_one_time r")
  case (Some i)
  with assms(4) obtain x where "find (\<lambda>x. ok_id x = i) (one_time_keys s) = Some x"
    using assms(2) find_key_eq [of ok_id "one_time_keys s"] by (fastforce simp: result_ok_def directory_ok_def ids_ok_def)
  with one_time_key_stays [OF assms(1) _ _ this] assms(2,3) Some show ?thesis
    by (fastforce simp: find_claimed_def directory_ok_def)
next
  case None
  note outer = None
  show ?thesis
  proof (cases "cl_fallback r")
    case (Some i)
    with assms(4) obtain x where "find (\<lambda>x. fk_id x = i) (fallback_keys s) = Some x"
      using assms(2) find_key_eq [of fk_id "fallback_keys s"] by (fastforce simp: result_ok_def directory_ok_def ids_ok_def)
    with fallback_key_stays [OF assms(1) _ _ this] assms(2,3) Some None show ?thesis
      by (fastforce simp: find_claimed_def directory_ok_def)
  qed (simp add: find_claimed_def outer)
qed

lemma answer_stays:
  assumes "rows_grow R s s'" "directory_ok k e s" "directory_ok k e s'" "i \<notin> R"
  shows "buildClaimResponse i s' = buildClaimResponse i s"
proof -
  have results: "results_of s' i = results_of s i"
    using assms(1,4) by (auto simp: rows_grow_def results_of_def filter_empty_conv intro!: arg_cong [where f = "sort_key cl_recipient"])
  have "add_result s' acc r = add_result s acc r" if "r \<in> set (results_of s i)" for acc r
  proof -
    from that assms(2) have ok: "result_ok s r" by (auto simp: results_of_def directory_ok_def pool_ok_def)
    then obtain m where m: "m \<in> set (matrix_keys s)" "mk_device m = cl_recipient r" by (auto simp: result_ok_def)
    moreover have "m \<in> set (matrix_keys s')" using m(1) assms(1) by (auto simp: rows_grow_def)
    ultimately have "find_matrix_key s (cl_recipient r) = Some m" "find_matrix_key s' (cl_recipient r) = Some m"
      using assms(2,3) matrix_key_of unfolding directory_ok_def by metis+
    then show ?thesis by (simp add: add_result_def found_claimed_stays [OF assms(1-3) ok])
  qed
  then have "foldl (add_result s') acc (results_of s i) = foldl (add_result s) acc (results_of s i)" for acc
    by (intro foldl_cong) auto
  then show ?thesis by (simp add: buildClaimResponse_def results)
qed

section \<open>The empty directory\<close>

definition empty_directory :: "'x key_db_scheme \<Rightarrow> bool" where
  "empty_directory s \<longleftrightarrow> one_time_keys s = [] \<and> fallback_keys s = [] \<and> fallback_slots s = [] \<and> matrix_keys s = [] \<and>
     claim_requests s = [] \<and> claim_results s = []"

lemma empty_directory_ok: "empty_directory s \<Longrightarrow> supply_ok e (draws s) {} \<Longrightarrow> directory_ok k e s"
  by (simp add: empty_directory_def directory_ok_def ids_ok_def key_ids_def all_curves_def pool_ok_def handed_out_def
      limits_ok_def unclaimed_keys_def slots_ok_def signed_ok_def map_filter_def)

lemma pool_claimed_iff:
  assumes "directory_ok k e s" "x \<in> set (one_time_keys s)"
  shows "ok_claimed x \<noteq> None \<longleftrightarrow> ok_id x \<in> set (handed_out s)"
proof
  assume "ok_claimed x \<noteq> None"
  with assms show "ok_id x \<in> set (handed_out s)" by (auto simp: directory_ok_def pool_ok_def)
next
  assume "ok_id x \<in> set (handed_out s)"
  with assms claimed_handed [of s e x] show "ok_claimed x \<noteq> None" by (auto simp: directory_ok_def)
qed

section \<open>Repeated claims\<close>

lemma previous_claim_stays:
  "rows_grow R s s' \<Longrightarrow> previous_claim s device q = Some c \<Longrightarrow> previous_claim s' device q = Some c"
  by (auto simp: rows_grow_def previous_claim_def find_append)

lemma new_claim_recorded:
  assumes "new_claim e now device conversation q h user mu requested except s = Inr (resp, s')"
    "previous_claim s device q = None" "directory_ok k e s"
  shows "\<exists>c. previous_claim s' device q = Some c \<and> cq_conversation c = conversation \<and> cq_hash c = h \<and>
    resp = buildClaimResponse (cq_id c) s'"
proof -
  obtain i s1 us where steps: "create_claim e device conversation q h now s = Inr (i, s1)" "resp = buildClaimResponse i s'"
    "key_run k e {i} s1 s'" "directory_ok k e s1"
    by (rule new_claim_steps [OF assms])
  have "ids_ok e s" using assms(3) by (simp add: directory_ok_def)
  note c = create_claim_run [OF steps(1) assms(2) this]
  let ?c = "\<lparr>cq_id = i, cq_device = device, cq_conversation = conversation, cq_request = q, cq_hash = h, cq_created = now\<rparr>"
  have "previous_claim s1 device q = Some ?c" using assms(2) by (simp add: previous_claim_def c(4) find_append)
  from previous_claim_stays [OF run_grows [OF steps(3,4)] this] have "previous_claim s' device q = Some ?c" .
  with steps(2) show ?thesis by (intro exI [of _ ?c]) simp
qed

lemma answer_recorded:
  assumes "answer_claim e now device conversation q h user mu requested except s = Inr (resp, s')" "directory_ok k e s"
  shows "\<exists>c. previous_claim s' device q = Some c \<and> cq_conversation c = conversation \<and> cq_hash c = h \<and>
    resp = buildClaimResponse (cq_id c) s'"
proof (cases "previous_claim s device q")
  case None
  with assms(1) have "new_claim e now device conversation q h user mu requested except s = Inr (resp, s')"
    by (auto simp: answer_claim_def tx_iffs)
  then show ?thesis by (rule new_claim_recorded [OF _ None assms(2)])
next
  case (Some c)
  with assms(1) show ?thesis by (auto simp: answer_claim_def tx_iffs)
qed

text \<open>Once answered, a claim has its answer for good: in every later state, and without a change.\<close>

lemma answer_repeats:
  assumes "answer_claim e now device conversation q h user mu requested except s = Inr (resp, s')" "directory_ok k e s"
    "directory_ok k e s'" "directory_steps k e s' s''"
  shows "answer_claim e' now' device conversation q h user' mu' requested' except' s'' = Inr (resp, s'')"
proof -
  from answer_recorded [OF assms(1,2)] obtain c where c: "previous_claim s' device q = Some c"
    "cq_conversation c = conversation" "cq_hash c = h" "resp = buildClaimResponse (cq_id c) s'" by blast
  from steps_keep [OF assms(4,3)] obtain R where later: "directory_ok k e s''" "rows_grow R s' s''"
    "R \<inter> cq_id ` set (claim_requests s') = {}" by blast
  have "cq_id c \<in> cq_id ` set (claim_requests s')" using c(1) by (auto simp: previous_claim_def find_Some_iff)
  with later(3) have "cq_id c \<notin> R" by blast
  from answer_stays [OF later(2) assms(3) later(1) this] previous_claim_stays [OF later(2) c(1)] c
  show ?thesis by (simp add: answer_claim_def tx_simps bindT_def)
qed

lemma admitted_determined:
  assumes "claim_admitted k at now p conversation q v device c h a s" "claim_admitted k at' now' p conversation q v device' c' h' a' s'"
  shows "device' = device" "c' = c" "h' = h"
  using assms by (auto simp: claim_admitted_def)

section \<open>Which key is handed out\<close>

definition unclaimed_of :: "uuid \<Rightarrow> one_time_key \<Rightarrow> bool" where
  "unclaimed_of device o' \<longleftrightarrow> ok_device o' = device \<and> ok_algorithm o' = signed_curve \<and> ok_claimed o' = None"

definition right_key :: "'x key_db_scheme \<Rightarrow> claim_result_row \<Rightarrow> bool" where
  "right_key s r \<longleftrightarrow>
     (\<exists>o' \<in> set (one_time_keys s). unclaimed_of (cl_recipient r) o' \<and> cl_one_time r = Some (ok_id o') \<and> cl_fallback r = None \<and>
        (\<forall>x \<in> set (one_time_keys s). unclaimed_of (cl_recipient r) x \<longrightarrow> (ok_uploaded o', ok_id o') \<le> (ok_uploaded x, ok_id x))) \<or>
     (\<forall>x \<in> set (one_time_keys s). \<not> unclaimed_of (cl_recipient r) x) \<and> cl_one_time r = None \<and>
        cl_fallback r = map_option fb_current (find_slot s (cl_recipient r))"

lemma available_keys_alt: "available_keys s device = sort_key (\<lambda>o'. (ok_uploaded o', ok_id o')) (filter (unclaimed_of device) (one_time_keys s))"
  by (simp add: available_keys_def unclaimed_of_def [abs_def])

lemma right_key_intro:
  assumes "available_keys s d = o' # rest"
  shows "o' \<in> set (one_time_keys s)" "unclaimed_of d o'"
    "\<forall>x \<in> set (one_time_keys s). unclaimed_of d x \<longrightarrow> (ok_uploaded o', ok_id o') \<le> (ok_uploaded x, ok_id x)"
proof -
  have set: "set (available_keys s d) = {x \<in> set (one_time_keys s). unclaimed_of d x}" by (auto simp: available_keys_alt)
  from assms have "o' \<in> set (available_keys s d)" by simp
  with set show "o' \<in> set (one_time_keys s)" "unclaimed_of d o'" by blast+
  have "sorted (map (\<lambda>o'. (ok_uploaded o', ok_id o')) (o' # rest))"
    unfolding assms [symmetric] available_keys_alt by simp
  then have "(ok_uploaded o', ok_id o') \<le> (ok_uploaded x, ok_id x)" if "x \<in> set (o' # rest)" for x
    using that by auto
  with set assms show "\<forall>x \<in> set (one_time_keys s). unclaimed_of d x \<longrightarrow> (ok_uploaded o', ok_id o') \<le> (ok_uploaded x, ok_id x)"
    by (metis (mono_tags, lifting) mem_Collect_eq)
qed

lemma claimRecipientKey_result:
  assumes "claimRecipientKey e q now d s = Inr (u, s')" "ids_ok e s"
  obtains r where "claim_results s' = claim_results s @ [r]" "cl_request r = q" "cl_recipient r = d" "cl_claimed r = now"
    "right_key s r" "fallback_slots s' = fallback_slots s"
    "\<And>d'. d' \<noteq> d \<Longrightarrow> filter (unclaimed_of d') (one_time_keys s') = filter (unclaimed_of d') (one_time_keys s)"
proof (cases "available_keys s d")
  case (Cons o' rest)
  note o' = right_key_intro [OF Cons]
  let ?s = "s\<lparr>one_time_keys := upd_where (\<lambda>x. ok_id x = ok_id o') (\<lambda>x. x\<lparr>ok_claimed := Some now\<rparr>) (one_time_keys s)\<rparr>"
  from assms(1) Cons have s': "s' = with_result e q d (Some (ok_id o')) None now ?s"
    by (auto simp: claimRecipientKey_def take_one_time_key_def tx_iffs tx_simps split: if_splits)
  have "filter (unclaimed_of d') (upd_where (\<lambda>x. ok_id x = ok_id o') (\<lambda>x. x\<lparr>ok_claimed := Some now\<rparr>) rows)
      = filter (unclaimed_of d') rows" if "\<forall>x \<in> set rows. ok_id x = ok_id o' \<longrightarrow> ok_device x \<noteq> d'" for d' rows
    using that by (induction rows) (auto simp: unclaimed_of_def)
  moreover have "\<forall>x \<in> set (one_time_keys s). ok_id x = ok_id o' \<longrightarrow> ok_device x = d"
    using o'(1,2) assms(2) distinct_key_eq [of ok_id "one_time_keys s" _ o'] by (auto simp: ids_ok_def unclaimed_of_def)
  ultimately have frame: "filter (unclaimed_of d') (one_time_keys s') = filter (unclaimed_of d') (one_time_keys s)" if "d' \<noteq> d" for d'
    using that by (auto simp: s')
  let ?r = "last (claim_results s')"
  have r: "claim_results s' = claim_results s @ [?r]" "cl_request ?r = q" "cl_recipient ?r = d" "cl_claimed ?r = now"
    "cl_one_time ?r = Some (ok_id o')" "cl_fallback ?r = None" "fallback_slots s' = fallback_slots s"
    by (simp_all add: s')
  have "right_key s ?r" unfolding right_key_def r(3,5,6)
    by (intro disjI1 bexI [of _ o']) (simp_all only: o' simp_thms, use o'(3) in blast)
  from that [OF r(1-4) this r(7) frame] show ?thesis .
next
  case Nil
  then have none: "\<forall>x \<in> set (one_time_keys s). \<not> unclaimed_of d x"
    by (metis available_keys_alt filter_empty_conv length_0_conv length_sort)
  show ?thesis
  proof (cases "find_slot s d")
    case None
    with assms(1) Nil have s': "s' = with_result e q d None None now s"
      by (auto simp: claimRecipientKey_def tx_iffs tx_simps)
    show ?thesis by (rule that) (use none None in \<open>auto simp: s' right_key_def\<close>)
  next
    case (Some l)
    with assms(1) Nil obtain f s1 where f: "current_fallback s l = Some f" and mark: "mark_fallback f now s = Inr ((), s1)"
      and s': "s' = with_result e q d None (Some (fk_id f)) now s1"
      by (auto simp: claimRecipientKey_def tx_iffs tx_simps split: option.splits)
    from mark have s1: "one_time_keys s1 = one_time_keys s" "fallback_slots s1 = fallback_slots s" "claim_results s1 = claim_results s"
      by (auto simp: mark_fallback_def Let_def split: option.splits if_splits)
    from f have "fk_id f = fb_current l" by (auto simp: current_fallback_def find_Some_iff)
    with Some none s1 show ?thesis by (intro that) (auto simp: s' right_key_def)
  qed
qed

lemma right_key_alt:
  "right_key s r \<longleftrightarrow> (let us = filter (unclaimed_of (cl_recipient r)) (one_time_keys s) in
     (\<exists>o' \<in> set us. cl_one_time r = Some (ok_id o') \<and> cl_fallback r = None \<and>
        (\<forall>x \<in> set us. (ok_uploaded o', ok_id o') \<le> (ok_uploaded x, ok_id x))) \<or>
     us = [] \<and> cl_one_time r = None \<and> cl_fallback r = map_option fb_current (find_slot s (cl_recipient r)))"
  unfolding right_key_def Let_def filter_empty_conv set_filter by blast

lemma right_key_cong:
  "filter (unclaimed_of (cl_recipient r)) (one_time_keys s') = filter (unclaimed_of (cl_recipient r)) (one_time_keys s) \<Longrightarrow>
     fallback_slots s' = fallback_slots s \<Longrightarrow> right_key s' r \<Longrightarrow> right_key s r"
  by (simp only: right_key_alt find_slot_def)

lemma claim_loop_results:
  assumes "mapT (claimRecipientKey e q now) ds s = Inr (us, s')" "directory_ok k e s" "q \<in> cq_id ` set (claim_requests s)"
    "set ds \<subseteq> mk_device ` set (matrix_keys s)" "distinct ds"
  shows "\<exists>rs. claim_results s' = claim_results s @ rs \<and> map cl_recipient rs = ds \<and>
    (\<forall>r \<in> set rs. cl_request r = q \<and> cl_claimed r = now \<and> right_key s r)"
  using assms
proof (induction ds arbitrary: s us)
  case (Cons d ds)
  from Cons.prems(1) obtain s1 vs where steps: "claimRecipientKey e q now d s = Inr ((), s1)"
      "mapT (claimRecipientKey e q now) ds s1 = Inr (vs, s')" by (auto simp: tx_iffs)
  have "ids_ok e s" using Cons.prems(2) by (simp add: directory_ok_def)
  from claimRecipientKey_result [OF steps(1) this] obtain r where
    r: "claim_results s1 = claim_results s @ [r]" "cl_request r = q" "cl_recipient r = d" "cl_claimed r = now" "right_key s r" and
    frame: "fallback_slots s1 = fallback_slots s"
    "\<And>d'. d' \<noteq> d \<Longrightarrow> filter (unclaimed_of d') (one_time_keys s1) = filter (unclaimed_of d') (one_time_keys s)" by metis
  have one: "key_change k e {q} s s1" using Cons.prems by (intro claimRecipientKey_run [OF steps(1)]) auto
  then have run: "key_run k e {q} s s1" by blast
  note grow = run_grows [OF run Cons.prems(2)]
  have sub: "mk_device ` set (matrix_keys s) \<subseteq> mk_device ` set (matrix_keys s1)" by (rule image_mono [OF run_keys [OF run]])
  have "\<exists>rs. claim_results s' = claim_results s1 @ rs \<and> map cl_recipient rs = ds \<and>
    (\<forall>r \<in> set rs. cl_request r = q \<and> cl_claimed r = now \<and> right_key s1 r)"
  proof (rule Cons.IH [OF steps(2) directory_change [OF one Cons.prems(2)]])
    show "q \<in> cq_id ` set (claim_requests s1)" using grow Cons.prems(3) by (auto simp: rows_grow_def)
    show "set ds \<subseteq> mk_device ` set (matrix_keys s1)" using sub Cons.prems(4) by (metis list.set_intros(2) subset_iff)
    show "distinct ds" using Cons.prems(5) by simp
  qed
  then obtain rs where rs: "claim_results s' = claim_results s1 @ rs" "map cl_recipient rs = ds"
    "\<forall>r \<in> set rs. cl_request r = q \<and> cl_claimed r = now \<and> right_key s1 r" by blast
  have "right_key s x" if "x \<in> set rs" for x
  proof (rule right_key_cong [of x s1 s])
    have "cl_recipient x \<in> set ds" using that rs(2) by auto
    with Cons.prems(5) have "cl_recipient x \<noteq> d" by auto
    then show "filter (unclaimed_of (cl_recipient x)) (one_time_keys s1) = filter (unclaimed_of (cl_recipient x)) (one_time_keys s)"
      by (rule frame(2))
  qed (use frame(1) rs(3) that in auto)
  with r rs show ?case by (intro exI [of _ "r # rs"]) auto
qed (simp add: tx_simps)

lemma new_claim_results:
  assumes "new_claim e now device conversation q h user mu requested except s = Inr (resp, s')"
    "previous_claim s device q = None" "directory_ok k e s"
  shows "\<exists>rs. claim_results s' = claim_results s @ rs \<and>
    map cl_recipient rs = map mk_device (claim_targets_of s user mu requested except) \<and>
    (\<forall>r \<in> set rs. cl_claimed r = now \<and> right_key s r)"
proof -
  obtain i s1 us where steps: "create_claim e device conversation q h now s = Inr (i, s1)"
    "mapT (claimRecipientKey e i now) (map mk_device (claim_targets_of s1 user mu requested except)) s1 = Inr (us, s')"
    "directory_ok k e s1" "i \<in> cq_id ` set (claim_requests s1)"
    by (rule new_claim_steps [OF assms])
  have ids: "ids_ok e s" "ids_ok e s1" using assms(3) steps(3) by (simp_all add: directory_ok_def)
  note c = create_claim_run [OF steps(1) assms(2) ids(1)]
  have same: "one_time_keys s1 = one_time_keys s" "fallback_slots s1 = fallback_slots s"
    using steps(1) by (auto simp: create_claim_def Let_def split: if_splits)
  have targets: "claim_targets_of s1 user mu requested except = claim_targets_of s user mu requested except"
    by (simp add: claim_targets_of_def device_active_def c(6,7))
  have "distinct (map mk_device (claim_targets_of s1 user mu requested except))"
    using ids(2) by (simp add: claim_targets_of_def ids_ok_def distinct_map inj_on_filter_key_eq inj_on_def)
  with claim_loop_results [OF steps(2,3,4)] obtain rs where rs: "claim_results s' = claim_results s1 @ rs"
    "map cl_recipient rs = map mk_device (claim_targets_of s1 user mu requested except)"
    "\<forall>r \<in> set rs. cl_request r = i \<and> cl_claimed r = now \<and> right_key s1 r"
    by (auto simp: claim_targets_of_def)
  have "right_key s r" if "right_key s1 r" for r
    using that by (rule right_key_cong [rotated 2]) (simp_all add: same)
  with rs show ?thesis by (auto simp: c(5) targets)
qed

lemma answer_results:
  assumes "answer_claim e now device conversation q h user mu requested except s = Inr (resp, s')" "directory_ok k e s"
  shows "\<exists>rs. claim_results s' = claim_results s @ rs \<and> (\<forall>r \<in> set rs. right_key s r \<and> cl_claimed r = now \<and>
    cl_recipient r \<in> mk_device ` set (claim_targets_of s user mu requested except))"
proof (cases "previous_claim s device q")
  case None
  with assms(1) have "new_claim e now device conversation q h user mu requested except s = Inr (resp, s')"
    by (auto simp: answer_claim_def tx_iffs)
  from new_claim_results [OF this None assms(2)] obtain rs where rs: "claim_results s' = claim_results s @ rs"
    "map cl_recipient rs = map mk_device (claim_targets_of s user mu requested except)"
    "\<forall>r \<in> set rs. cl_claimed r = now \<and> right_key s r" by blast
  from arg_cong [OF rs(2), of set] have "cl_recipient ` set rs = mk_device ` set (claim_targets_of s user mu requested except)" by simp
  with rs(1,3) show ?thesis by blast
next
  case (Some c)
  with assms(1) have "s' = s" by (auto simp: answer_claim_def tx_iffs)
  then show ?thesis by simp
qed

section \<open>Who is reached\<close>

lemma related_scope_of:
  assumes "related_scope p at (u, i) s = Inr (scope, s')"
  shows "sc_matrix_user scope = u" "sc_user scope = i"
    "sc_conversation scope = None \<and> i = pn_id p \<or>
     (\<exists>a. access_granted (at i) s a \<and> sc_conversation scope = Some (ca_id a) \<and> {ca_client a, ca_cashier a} = {pn_id p, i})"
proof -
  show "sc_matrix_user scope = u" "sc_user scope = i"
    using assms by (auto simp: related_scope_def tx_iffs split: if_splits)
  show "sc_conversation scope = None \<and> i = pn_id p \<or>
     (\<exists>a. access_granted (at i) s a \<and> sc_conversation scope = Some (ca_id a) \<and> {ca_client a, ca_cashier a} = {pn_id p, i})"
  proof (cases "i = pn_id p")
    case True
    with assms show ?thesis by (auto simp: related_scope_def tx_iffs)
  next
    case False
    show ?thesis
    proof (cases "pn_role p")
      case CLIENT
      with assms False show ?thesis
        by (fastforce simp: related_scope_def tx_iffs dest: lockCurrentByParticipants_granted)
    next
      case CASHIER
      with assms False show ?thesis
        by (fastforce simp: related_scope_def tx_iffs dest: lockCurrentByParticipants_granted)
    next
      case ADMIN
      with assms False show ?thesis by (simp add: related_scope_def tx_iffs)
    qed
  qed
qed

lemma all_right_single: "all_right [x] = Inr ys \<longleftrightarrow> (\<exists>y. x = Inr y \<and> ys = [y])"
  by (cases x) auto

lemma single_scope:
  assumes "lockRelatedTargets k p at device [u] s = Inr (scope # scopes, s)"
  shows "sc_matrix_user scope = u"
    "sc_conversation scope = None \<and> sc_user scope = pn_id p \<or>
     (\<exists>a. access_granted (at (sc_user scope)) s a \<and> sc_conversation scope = Some (ca_id a) \<and>
        {ca_client a, ca_cashier a} = {pn_id p, sc_user scope})"
proof -
  from assms obtain i c where c: "related_scope p at (u, i) s = Inr (c, s)" and scope: "scope_of [c] u = Inr scope"
    by (auto simp: lockRelatedTargets_def Let_def tx_iffs liftT_Inr_iff read_target_def all_right_single
        split: option.splits sum.splits dest: related_scope_same)
  from scope have "scope = c" by (auto simp: scope_of_def split: option.splits if_splits)
  with related_scope_of [OF c] show "sc_matrix_user scope = u"
    "sc_conversation scope = None \<and> sc_user scope = pn_id p \<or>
     (\<exists>a. access_granted (at (sc_user scope)) s a \<and> sc_conversation scope = Some (ca_id a) \<and>
        {ca_client a, ca_cashier a} = {pn_id p, sc_user scope})" by simp_all
qed

section \<open>The answer is signed\<close>

definition all_answers :: "(string \<Rightarrow> string \<Rightarrow> string \<Rightarrow> signed_curve_key \<Rightarrow> bool) \<Rightarrow> claim_response \<Rightarrow> bool" where
  "all_answers P resp \<longleftrightarrow> (\<forall>(u, ds) \<in> set resp. \<forall>(d, ks) \<in> set ds. \<forall>(full, key) \<in> set ks. P u d full key)"

lemma put_property_in: "x \<in> set (put_property k v xs) \<Longrightarrow> x = (k, v) \<or> x \<in> set xs"
  by (induction k v xs rule: put_property.induct) (auto split: if_splits)

lemma all_answers_put:
  assumes "all_answers P resp" "P u d full key"
  shows "all_answers P (put_property u (put_property d [(full, key)] (case map_of resp u of None \<Rightarrow> [] | Some ds \<Rightarrow> ds)) resp)"
proof -
  have old: "\<forall>(full, key) \<in> set ks. P u' d' full key" if "(u', ds) \<in> set resp" "(d', ks) \<in> set ds" for u' ds d' ks
    using assms(1) that by (fastforce simp: all_answers_def)
  have devs: "\<forall>(full, key) \<in> set ks. P u d' full key"
    if "(d', ks) \<in> set (put_property d [(full, key)] (case map_of resp u of None \<Rightarrow> [] | Some ds \<Rightarrow> ds))" for d' ks
  proof (cases "map_of resp u")
    case None
    with put_property_in [OF that] assms(2) show ?thesis by simp
  next
    case (Some ds)
    with put_property_in [OF that] consider "d' = d" "ks = [(full, key)]" | "(d', ks) \<in> set ds" by auto
    then show ?thesis by cases (use assms(2) in simp, rule old [OF map_of_SomeD [OF Some]])
  qed
  show ?thesis unfolding all_answers_def
  proof clarify
    fix u' ds d' ks full' key'
    assume in': "(u', ds) \<in> set (put_property u (put_property d [(full, key)]
        (case map_of resp u of None \<Rightarrow> [] | Some ds \<Rightarrow> ds)) resp)" "(d', ks) \<in> set ds" "(full', key') \<in> set ks"
    from put_property_in [OF in'(1)] show "P u' d' full' key'" using in'(2,3) devs old by fastforce
  qed
qed

definition answer_signed :: "key_service \<Rightarrow> 'x key_db_scheme \<Rightarrow> string \<Rightarrow> string \<Rightarrow> string \<Rightarrow> signed_curve_key \<Rightarrow> bool" where
  "answer_signed k s u d full key \<longleftrightarrow>
     (\<exists>m \<in> set (matrix_keys s). mk_matrix_user m = u \<and> mk_matrix_device m = d \<and>
        signature_valid (ks_ed k) (curve_key_entries key) u (signing_key_id d) (mk_ed25519 m))"

lemma found_signed:
  assumes "directory_ok k e s" "result_ok s r" "find_claimed s r = Some (keyId, key)"
  shows "key_signed k s (cl_recipient r) key"
proof (cases "cl_one_time r")
  case (Some i)
  with assms(3) obtain x where x: "x \<in> set (one_time_keys s)" "ok_id x = i" "ok_signed x = key"
    by (auto simp: find_claimed_def dest: find_SomeD)
  from assms(2) Some obtain y where y: "y \<in> set (one_time_keys s)" "ok_id y = i" "ok_device y = cl_recipient r"
    by (auto simp: result_ok_def)
  from assms(1) x y distinct_key_eq [of ok_id "one_time_keys s" x y] have "ok_device x = cl_recipient r"
    by (simp add: directory_ok_def ids_ok_def)
  with assms(1) x show ?thesis by (auto simp: directory_ok_def signed_ok_def)
next
  case None
  with assms(3) obtain i x where i: "cl_fallback r = Some i" and x: "x \<in> set (fallback_keys s)" "fk_id x = i" "fk_signed x = key"
    by (auto simp: find_claimed_def split: option.splits dest: find_SomeD)
  from assms(2) i obtain y where y: "y \<in> set (fallback_keys s)" "fk_id y = i" "fk_device y = cl_recipient r"
    by (auto simp: result_ok_def)
  from assms(1) x y distinct_key_eq [of fk_id "fallback_keys s" x y] have "fk_device x = cl_recipient r"
    by (simp add: directory_ok_def ids_ok_def)
  with assms(1) x show ?thesis by (auto simp: directory_ok_def signed_ok_def)
qed

lemma built_answer_signed:
  assumes "directory_ok k e s"
  shows "all_answers (answer_signed k s) (buildClaimResponse i s)"
proof -
  have step: "all_answers (answer_signed k s) (add_result s acc r)"
    if "all_answers (answer_signed k s) acc" "result_ok s r" for acc r
  proof (cases "find_matrix_key s (cl_recipient r)")
    case (Some m)
    note m = find_matrix_key_in [OF Some]
    show ?thesis
    proof (cases "find_claimed s r")
      case (Some x)
      then obtain keyId key where key: "find_claimed s r = Some (keyId, key)" by (cases x) simp
      from found_signed [OF assms that(2) this] obtain m' where
        m': "m' \<in> set (matrix_keys s)" "mk_device m' = cl_recipient r"
        "signature_valid (ks_ed k) (curve_key_entries key) (mk_matrix_user m') (signing_key_id (mk_matrix_device m')) (mk_ed25519 m')"
        by (auto simp: key_signed_def)
      have "m' = m" using m m'(1,2) assms distinct_key_eq [of mk_device "matrix_keys s" m' m]
        by (simp add: directory_ok_def ids_ok_def)
      with m m'(3) have "answer_signed k s (mk_matrix_user m) (mk_matrix_device m) (cl_algorithm r @ '':'' @ keyId) key"
        by (auto simp: answer_signed_def)
      from all_answers_put [where P = "answer_signed k s", OF that(1) this] show ?thesis
        by (simp add: add_result_def \<open>find_matrix_key s (cl_recipient r) = Some m\<close> key Let_def)
    qed (simp add: add_result_def that(1) split: option.splits)
  qed (simp add: add_result_def that(1))
  have "all_answers (answer_signed k s) (foldl (add_result s) acc rs)"
    if "all_answers (answer_signed k s) acc" "\<forall>r \<in> set rs. result_ok s r" for acc rs
    using that by (induction rs arbitrary: acc) (simp_all add: step)
  moreover have "\<forall>r \<in> set (results_of s i). result_ok s r"
    using assms by (auto simp: results_of_def directory_ok_def pool_ok_def)
  moreover have "all_answers (answer_signed k s) []" by (simp add: all_answers_def)
  ultimately show ?thesis by (simp add: buildClaimResponse_def)
qed

end
