(* ===== verification/KeyDemo.thy ===== *)
theory KeyDemo
  imports KeyAnswers
begin

text \<open>
  A concrete run of the directory, on which the properties are exercised: from tables without a key
  the client and the cashier of the world of Eligibility publish the keys of their devices, the cashier
  with a one-time and a fallback key, and the client claims a key of the cashier.
\<close>

section \<open>Two uploads\<close>

definition demo_ed25519 :: ed25519 where
  "demo_ed25519 = \<lparr>ed_small_order = \<lambda>_. Some False, ed_verify = \<lambda>key m sig. take 32 sig = key\<rparr>"

definition demo_key_service :: key_service where
  "demo_key_service = \<lparr>ks_server = ''s'', ks_sha = \<lambda>_. replicate 64 (CHR ''0''), ks_hmac = \<lambda>_. replicate 32 0,
     ks_ed = demo_ed25519\<rparr>"

definition demo_key_ids :: env where
  "demo_key_ids = \<lparr>uuid_at = \<lambda>i. i + 100, random_at = \<lambda>_ _. 0, has_publisher = False\<rparr>"

text \<open>The identifiers 00000000-0000-4000-8000-00000000000n of the two devices.\<close>

definition demo_key_device :: "nat \<Rightarrow> uuid" where
  "demo_key_device n = 4 * 16 ^ 19 + 8 * 16 ^ 15 + n"

definition demo_matrix_user :: "char \<Rightarrow> string" where
  "demo_matrix_user c = ''@u'' @ replicate 31 (CHR ''0'') @ [c] @ '':s''"

definition demo_matrix_device :: "char \<Rightarrow> string" where
  "demo_matrix_device c = ''D0000000000004000800000000000000'' @ [c]"

definition demo_signatures :: "char \<Rightarrow> char \<Rightarrow> signature_map" where
  "demo_signatures c s = [(demo_matrix_user c, [(signing_key_id (demo_matrix_device c), replicate 86 s)])]"

definition demo_identity :: "char \<Rightarrow> char \<Rightarrow> char \<Rightarrow> device_keys" where
  "demo_identity c s curve = \<lparr>dk_algorithms = [MATRIX_OLM_ALGORITHM, MATRIX_MEGOLM_ALGORITHM], dk_device = demo_matrix_device c,
     dk_keys = [(curve_key_name (demo_matrix_device c), replicate 43 curve),
       (signing_key_id (demo_matrix_device c), replicate 43 s)],
     dk_signatures = demo_signatures c s, dk_user = demo_matrix_user c\<rparr>"

definition demo_curve_key :: "bool \<Rightarrow> char \<Rightarrow> signed_curve_key" where
  "demo_curve_key fallback curve =
     \<lparr>sk_key = replicate 43 curve, sk_fallback = fallback, sk_signatures = demo_signatures (CHR ''2'') (CHR ''A'')\<rparr>"

definition demo_client_upload :: key_upload where
  "demo_client_upload = \<lparr>ku_device_keys = Some (demo_identity (CHR ''1'') (CHR ''Q'') (CHR ''E'')),
     ku_one_time_keys = [], ku_fallback_keys = []\<rparr>"

definition demo_cashier_upload :: key_upload where
  "demo_cashier_upload = \<lparr>ku_device_keys = Some (demo_identity (CHR ''2'') (CHR ''A'') (CHR ''U'')),
     ku_one_time_keys = [(''signed_curve25519:k1'', demo_curve_key False (CHR ''I''))],
     ku_fallback_keys = [(''signed_curve25519:f1'', demo_curve_key True (CHR ''M''))]\<rparr>"

definition upload_json :: "key_upload \<Rightarrow> json" where
  "upload_json u = JObj ((case ku_device_keys u of None \<Rightarrow> [] | Some d \<Rightarrow> [(''device_keys'', JObj (device_keys_entries d))]) @
     [(''one_time_keys'', JObj (map (\<lambda>(f, k). (f, JObj (curve_key_entries k))) (ku_one_time_keys u))),
      (''fallback_keys'', JObj (map (\<lambda>(f, k). (f, JObj (curve_key_entries k))) (ku_fallback_keys u)))])"

lemma hexs_numeral: "hexs (numeral k) n = hexs (pred_numeral k) (n div 16) @ [hex_digit (n mod 16)]"
  unfolding numeral_eq_Suc [of k] by (rule hexs.simps(2))

lemma hexs_of_0: "hexs k 0 = replicate k (CHR ''0'')"
  by (induction k) (simp_all add: hex_digit_def replicate_append_same)

lemma demo_user_ids:
  "matrixUserIdFromUuid 1 ''s'' = demo_matrix_user (CHR ''1'')" "matrixUserIdFromUuid 2 ''s'' = demo_matrix_user (CHR ''2'')"
  by (simp_all add: matrixUserIdFromUuid_def uuidHex_def uuid_text_def demo_matrix_user_def hexs_numeral hexs_of_0 hex_digit_def
    flip: replicate_add)

lemma demo_uuid_texts:
  "uuid_text (demo_key_device 1) = ''00000000-0000-4000-8000-000000000001''"
  "uuid_text (demo_key_device 2) = ''00000000-0000-4000-8000-000000000002''"
  by (simp_all add: demo_key_device_def uuid_text_def hexs_numeral hexs_of_0 hex_digit_def, simp_all add: numeral_eq_Suc)

lemma demo_device_ids:
  "matrixDeviceIdFromUuid (demo_key_device 1) = demo_matrix_device (CHR ''1'')"
  "matrixDeviceIdFromUuid (demo_key_device 2) = demo_matrix_device (CHR ''2'')"
  unfolding matrixDeviceIdFromUuid_def uuidHex_def demo_uuid_texts by code_simp+

lemma demo_client_accepted:
  "parseMatrixKeyUpload demo_ed25519 (upload_json demo_client_upload) (demo_matrix_user (CHR ''1''))
     (demo_matrix_device (CHR ''1'')) None = Inr demo_client_upload"
  by code_simp

lemma demo_cashier_accepted:
  "parseMatrixKeyUpload demo_ed25519 (upload_json demo_cashier_upload) (demo_matrix_user (CHR ''2''))
     (demo_matrix_device (CHR ''2'')) None = Inr demo_cashier_upload"
  by code_simp

definition demo_zeros :: string where
  "demo_zeros = replicate 64 (CHR ''0'')"

lemma demo_client_hashed: "hashMatrixCanonicalJson (ks_sha demo_key_service) (upload_json demo_client_upload) = Inr demo_zeros"
  by code_simp
lemma demo_cashier_hashed: "hashMatrixCanonicalJson (ks_sha demo_key_service) (upload_json demo_cashier_upload) = Inr demo_zeros"
  by code_simp

definition demo_binding :: issued_binding where
  "demo_binding = \<lparr>ib_secret = replicate 43 (CHR ''A''), ib_hash = demo_zeros\<rparr>"

lemma demo_bindings:
  "deriveMatrixDeviceBindingSecret demo_key_service (demo_key_device 1) = Inr demo_binding"
  "deriveMatrixDeviceBindingSecret demo_key_service (demo_key_device 2) = Inr demo_binding"
  unfolding deriveMatrixDeviceBindingSecret_def demo_uuid_texts by code_simp+

section \<open>The tables before and after\<close>

definition demo_registration :: "nat \<Rightarrow> registration_row" where
  "demo_registration n = \<lparr>rg_id = demo_key_device n, rg_user = n, rg_session = 69 + n, rg_created = 0, rg_expires = 600000,
     rg_consumed = None, rg_hash = None, rg_count = None\<rparr>"

definition demo_session :: "nat \<Rightarrow> session_row" where
  "demo_session n = \<lparr>se_id = 69 + n, se_user = n, se_device = None, se_expires = 1000, se_revoked = None, se_version = 0\<rparr>"

definition demo_keyless :: key_db where
  "demo_keyless = \<lparr>draws = 0, users = users demo_world, cashiers = cashiers demo_world,
     subscriptions = subscriptions demo_world, blocks = [], assignments = assignments demo_world,
     conversations = conversations demo_world, requests = [], notifications = [], audits = [],
     devices = [], list_states = [], list_position = 0, list_changes = [],
     sessions = [demo_session 1, demo_session 2], matrix_keys = [], cursors = [], td_transactions = [], td_events = [],
     sync_batches = [], one_time_keys = [], fallback_keys = [], fallback_slots = [],
     registrations = [demo_registration 1, demo_registration 2],
     claim_requests = [], claim_results = [], identities = [], certificates = []\<rparr>"

definition demo_device_row :: "nat \<Rightarrow> device_row" where
  "demo_device_row n = \<lparr>d_id = demo_key_device n, d_user = n, d_status = DevActive, d_protocol = ''matrix-olm-v1'',
     d_binding = demo_zeros\<rparr>"

definition demo_list_state :: "nat \<Rightarrow> char \<Rightarrow> list_state_row" where
  "demo_list_state n c = \<lparr>ls_user = n, ls_matrix_user = demo_matrix_user c, ls_version = 0, ls_updated = 10\<rparr>"

definition demo_key_row :: "nat \<Rightarrow> char \<Rightarrow> char \<Rightarrow> char \<Rightarrow> matrix_key_row" where
  "demo_key_row n c s curve = \<lparr>mk_device = demo_key_device n, mk_user = n, mk_matrix_user = demo_matrix_user c,
     mk_matrix_device = demo_matrix_device c, mk_curve = replicate 43 curve, mk_ed25519 = replicate 43 s,
     mk_keys = demo_identity c s curve, mk_hash = demo_zeros, mk_uploaded = 10\<rparr>"

definition demo_consumed :: "nat \<Rightarrow> nat \<Rightarrow> registration_row" where
  "demo_consumed n keys = (demo_registration n)\<lparr>rg_consumed := Some 10, rg_hash := Some demo_zeros, rg_count := Some keys\<rparr>"

definition demo_client_published :: key_db where
  "demo_client_published = demo_keyless\<lparr>devices := [demo_device_row 1], list_states := [demo_list_state 1 (CHR ''1'')],
     sessions := [(demo_session 1)\<lparr>se_device := Some (demo_key_device 1)\<rparr>, demo_session 2],
     matrix_keys := [demo_key_row 1 (CHR ''1'') (CHR ''Q'') (CHR ''E'')],
     cursors := [\<lparr>cu_device = demo_key_device 1, cu_latest = 0\<rparr>],
     registrations := [demo_consumed 1 0, demo_registration 2]\<rparr>"

definition demo_one_time_key :: one_time_key where
  "demo_one_time_key = \<lparr>ok_id = 100, ok_device = demo_key_device 2, ok_algorithm = signed_curve, ok_key_id = ''k1'',
     ok_curve = replicate 43 (CHR ''I''), ok_signed = demo_curve_key False (CHR ''I''), ok_hash = demo_zeros,
     ok_uploaded = 10, ok_claimed = None\<rparr>"

definition demo_fallback_key :: fallback_key where
  "demo_fallback_key = \<lparr>fk_id = 101, fk_device = demo_key_device 2, fk_algorithm = signed_curve, fk_key_id = ''f1'',
     fk_curve = replicate 43 (CHR ''M''), fk_signed = demo_curve_key True (CHR ''M''), fk_hash = demo_zeros,
     fk_uploaded = 10, fk_first_claimed = None\<rparr>"

definition demo_published :: key_db where
  "demo_published = demo_client_published\<lparr>draws := 2, devices := [demo_device_row 1, demo_device_row 2],
     list_states := [demo_list_state 1 (CHR ''1''), demo_list_state 2 (CHR ''2'')],
     sessions := [(demo_session 1)\<lparr>se_device := Some (demo_key_device 1)\<rparr>, (demo_session 2)\<lparr>se_device := Some (demo_key_device 2)\<rparr>],
     matrix_keys := [demo_key_row 1 (CHR ''1'') (CHR ''Q'') (CHR ''E''), demo_key_row 2 (CHR ''2'') (CHR ''A'') (CHR ''U'')],
     cursors := [\<lparr>cu_device = demo_key_device 1, cu_latest = 0\<rparr>, \<lparr>cu_device = demo_key_device 2, cu_latest = 0\<rparr>],
     one_time_keys := [demo_one_time_key], fallback_keys := [demo_fallback_key],
     fallback_slots := [\<lparr>fb_device = demo_key_device 2, fb_algorithm = signed_curve, fb_current = 101\<rparr>],
     registrations := [demo_consumed 1 0, demo_consumed 2 1]\<rparr>"

definition demo_key_client :: "uuid option \<Rightarrow> principal" where
  "demo_key_client d = \<lparr>pn_id = 1, pn_role = CLIENT, pn_session = 70, pn_device = d\<rparr>"

definition demo_key_cashier :: "uuid option \<Rightarrow> principal" where
  "demo_key_cashier d = \<lparr>pn_id = 2, pn_role = CASHIER, pn_session = 71, pn_device = d\<rparr>"

lemma demo_matrix_ids [simp]:
  "matrixUserIdFromUuid (pn_id (demo_key_client d)) (ks_server demo_key_service) = demo_matrix_user (CHR ''1'')"
  "matrixUserIdFromUuid (pn_id (demo_key_cashier d)) (ks_server demo_key_service) = demo_matrix_user (CHR ''2'')"
  "matrixUserIdFromUuid (Suc 0) (ks_server demo_key_service) = demo_matrix_user (CHR ''1'')"
  "matrixUserIdFromUuid 2 (ks_server demo_key_service) = demo_matrix_user (CHR ''2'')"
  using demo_user_ids by (simp_all add: demo_key_client_def demo_key_cashier_def demo_key_service_def)

lemma demo_distinct [simp]:
  "demo_key_device (Suc 0) \<noteq> demo_key_device 2" "demo_key_device 2 \<noteq> demo_key_device (Suc 0)"
  "demo_matrix_user c = demo_matrix_user c' \<longleftrightarrow> c = c'" "demo_matrix_device c = demo_matrix_device c' \<longleftrightarrow> c = c'"
  by (simp_all add: demo_key_device_def demo_matrix_user_def demo_matrix_device_def)

lemma demo_identity_hash [simp]:
  "hashMatrixCanonicalJson (ks_sha demo_key_service) (JObj (device_keys_entries (demo_identity (CHR ''1'') (CHR ''Q'') (CHR ''E''))))
     = Inr demo_zeros"
  "hashMatrixCanonicalJson (ks_sha demo_key_service) (JObj (device_keys_entries (demo_identity (CHR ''2'') (CHR ''A'') (CHR ''U''))))
     = Inr demo_zeros"
  "hashMatrixCanonicalJson (ks_sha demo_key_service) (JObj (curve_key_entries (demo_curve_key False (CHR ''I'')))) = Inr demo_zeros"
  "hashMatrixCanonicalJson (ks_sha demo_key_service) (JObj (curve_key_entries (demo_curve_key True (CHR ''M'')))) = Inr demo_zeros"
  by code_simp+

lemma demo_curve_ids [simp]:
  "curveKeyId (''signed_curve25519:k1'') = Inr ''k1''" "curveKeyId (''signed_curve25519:f1'') = Inr ''f1''"
  by code_simp+

lemma demo_identity_fields:
  "dk_device (demo_identity c s curve) = demo_matrix_device c" "dk_user (demo_identity c s curve) = demo_matrix_user c"
  "map_of (dk_keys (demo_identity c s curve)) (curve_key_name (demo_matrix_device c)) = Some (replicate 43 curve)"
  "map_of (dk_keys (demo_identity c s curve)) (signing_key_id (demo_matrix_device c)) = Some (replicate 43 s)"
  by (simp_all add: demo_identity_def curve_key_name_def signing_key_id_def)

lemma demo_key_row_fields [simp]:
  "mk_device (demo_key_row n c s curve) = demo_key_device n" "mk_user (demo_key_row n c s curve) = n"
  "mk_matrix_user (demo_key_row n c s curve) = demo_matrix_user c"
  "mk_matrix_device (demo_key_row n c s curve) = demo_matrix_device c"
  "mk_curve (demo_key_row n c s curve) = replicate 43 curve" "mk_ed25519 (demo_key_row n c s curve) = replicate 43 s"
  by (simp_all add: demo_key_row_def)

lemma demo_curve_key_fields [simp]: "sk_key (demo_curve_key f curve) = replicate 43 curve"
  by (simp add: demo_curve_key_def)

lemma demo_identity_row [simp]:
  "deviceKeyData demo_key_service (demo_key_device n) n (demo_identity (CHR ''1'') (CHR ''Q'') (CHR ''E'')) 10 =
     Inr (demo_key_row n (CHR ''1'') (CHR ''Q'') (CHR ''E''))"
  "deviceKeyData demo_key_service (demo_key_device n) n (demo_identity (CHR ''2'') (CHR ''A'') (CHR ''U'')) 10 =
     Inr (demo_key_row n (CHR ''2'') (CHR ''A'') (CHR ''U''))"
  by (simp_all add: deviceKeyData_def demo_identity_fields demo_key_row_def)

lemmas publish_defs = complete_transaction_def publish_first_keys_def lockOperationalUser_def lockRegistration_def
  requireCurrentSession_def own_registration_def create_device_def create_list_state_def create_matrix_key_def
  create_cursor_def insertOneTimeKeys_def publish_one_time_key_def find_one_time_key_def insert_one_time_key_def
  published_active_def unclaimed_keys_def rotateFallbackKey_def insert_fallback_key_def move_slot_def find_slot_def
  find_fallback_key_def announce_device_def link_session_def consume_registration_def

lemmas demo_key_defs = demo_keyless_def demo_client_published_def demo_published_def demo_world_def empty_db_def
  demo_session_def demo_registration_def demo_consumed_def demo_device_row_def demo_list_state_def
  demo_one_time_key_def demo_fallback_key_def demo_key_ids_def demo_binding_def

lemma demo_client_completed:
  "complete_transaction demo_key_service demo_key_ids 10 (demo_key_client None) (demo_key_device 1)
     (demo_identity (CHR ''1'') (CHR ''Q'') (CHR ''E'')) demo_client_upload demo_zeros (ib_hash demo_binding)
     demo_keyless = Inr ((0, 10), demo_client_published)"
  by (simp add: publish_defs demo_key_defs demo_client_upload_def demo_key_client_def bindT_def tx_simps Let_def)

lemma demo_cashier_completed:
  "complete_transaction demo_key_service demo_key_ids 10 (demo_key_cashier None) (demo_key_device 2)
     (demo_identity (CHR ''2'') (CHR ''A'') (CHR ''U'')) demo_cashier_upload demo_zeros (ib_hash demo_binding)
     demo_client_published = Inr ((1, 10), demo_published)"
  by (simp add: publish_defs demo_key_defs demo_cashier_upload_def demo_key_cashier_def bindT_def tx_simps Let_def)

section \<open>The run\<close>

lemma demo_client_completes:
  "\<exists>r. completeInitialUpload demo_key_service demo_key_ids 10 (demo_key_client None) (demo_key_device 1)
     (upload_json demo_client_upload) demo_keyless = Inr (r, demo_client_published)"
  unfolding completeInitialUpload_def Let_def demo_matrix_ids demo_device_ids
  using demo_client_accepted demo_client_completed demo_client_hashed demo_bindings(1)
  by (simp add: parseInitialMatrixKeyUpload_def demo_client_upload_def initial_publication_def translate_unique_def
      demo_key_client_def rethrowValidation_def demo_key_service_def)

lemma demo_cashier_completes:
  "\<exists>r. completeInitialUpload demo_key_service demo_key_ids 10 (demo_key_cashier None) (demo_key_device 2)
     (upload_json demo_cashier_upload) demo_client_published = Inr (r, demo_published)"
  unfolding completeInitialUpload_def Let_def demo_matrix_ids demo_device_ids
  using demo_cashier_accepted demo_cashier_completed demo_cashier_hashed demo_bindings(2)
  by (simp add: parseInitialMatrixKeyUpload_def demo_cashier_upload_def initial_publication_def translate_unique_def
      demo_key_cashier_def rethrowValidation_def demo_key_service_def)

lemma demo_keyless_empty: "empty_directory demo_keyless" "supply_ok demo_key_ids (draws demo_keyless) {}"
  by (simp_all add: empty_directory_def demo_keyless_def supply_ok_def demo_key_ids_def)

lemma demo_published_steps: "directory_steps demo_key_service demo_key_ids demo_keyless demo_published"
proof -
  have "directory_step demo_key_service demo_key_ids demo_keyless demo_client_published"
    using demo_client_completes by (blast intro: directory_step.completed)
  moreover have "directory_step demo_key_service demo_key_ids demo_client_published demo_published"
    using demo_cashier_completes by (blast intro: directory_step.completed)
  ultimately show ?thesis by (rule converse_rtranclp_into_rtranclp [OF _ r_into_rtranclp])
qed

lemma demo_published_ok: "directory_ok demo_key_service demo_key_ids demo_published"
  by (rule steps_keep(1) [OF demo_published_steps empty_directory_ok [OF demo_keyless_empty]])

definition demo_claim :: keys_claim where
  "demo_claim = \<lparr>kc_one_time_keys = [(demo_matrix_user (CHR ''2''), [(demo_matrix_device (CHR ''2''), signed_curve)])],
     kc_timeout = None\<rparr>"

definition demo_claimed :: key_db where
  "demo_claimed = demo_published\<lparr>draws := 4,
     one_time_keys := [demo_one_time_key\<lparr>ok_claimed := Some 20\<rparr>],
     claim_requests := [\<lparr>cq_id = 102, cq_device = demo_key_device 1, cq_conversation = Some 50, cq_request = ''q1'',
       cq_hash = demo_zeros, cq_created = 20\<rparr>],
     claim_results := [\<lparr>cl_id = 103, cl_request = 102, cl_recipient = demo_key_device 2, cl_algorithm = signed_curve,
       cl_one_time = Some 100, cl_fallback = None, cl_claimed = 20\<rparr>]\<rparr>"

definition demo_answer :: claim_response where
  "demo_answer = [(demo_matrix_user (CHR ''2''), [(demo_matrix_device (CHR ''2''),
     [(''signed_curve25519:k1'', demo_curve_key False (CHR ''I''))])])]"

definition demo_claim_access :: conversation_access where
  "demo_claim_access = \<lparr>ca_id = 50, ca_assignment = 40, ca_client = 1, ca_cashier = 2, ca_ends = Some 100\<rparr>"

lemma demo_claim_parsed: "parseMatrixKeysClaim (matrixClaimHashInput demo_claim) = Inr demo_claim"
  "hashMatrixCanonicalJson (ks_sha demo_key_service) (matrixClaimHashInput demo_claim) = Inr demo_zeros" "request_id ''q1''"
  by code_simp+

lemma demo_claim_locked:
  "lockConversationDeviceSets 20 1 50 (demo_key_device 1) demo_published = Inr (demo_claim_access, demo_published)"
  by (simp add: lockConversationDeviceSets_def lockCurrent_def eligible_rows_def eligible_joins_def demo_key_defs participant_def
      verified_profile_def usable_cashier_def usable_client_def in_period_def access_of_def singleOrNull_def demo_claim_access_def)

abbreviation demo_claimant :: principal where
  "demo_claimant \<equiv> demo_key_client (Some (demo_key_device 1))"

lemma demo_claim_answered:
  "answer_claim demo_key_ids 20 (demo_key_device 1) (Some 50) ''q1'' demo_zeros 2 (demo_matrix_user (CHR ''2''))
     [demo_matrix_device (CHR ''2'')] None demo_published = Inr (demo_answer, demo_claimed)"
  by (simp add: answer_claim_def previous_claim_def new_claim_def create_claim_def claim_targets_of_def lockMatrixDevices_def
      published_active_def device_active_def claimRecipientKey_def available_keys_def take_one_time_key_def record_result_def
      new_uuid_def buildClaimResponse_def results_of_def add_result_def find_claimed_def find_matrix_key_def
      demo_key_defs demo_claimed_def demo_answer_def bindT_def tx_simps Let_def)

lemma demo_claims:
  "claimKeys demo_key_service demo_key_ids 20 20 demo_claimant 50 ''q1'' (matrixClaimHashInput demo_claim) demo_published =
     Inr (demo_answer, demo_claimed)"
proof -
  have "claim_admitted demo_key_service 20 20 demo_claimant 50 ''q1'' (matrixClaimHashInput demo_claim) (demo_key_device 1)
      demo_claim demo_zeros demo_claim_access demo_published"
    using demo_claim_parsed demo_claim_locked
    by (simp add: claim_admitted_def requireBoundKeyDevice_def demo_key_client_def requireCurrentSession_def peer_of_def
      demo_claim_access_def demo_claim_def demo_key_defs)
  moreover have "claim_answer demo_key_service demo_key_ids 20 demo_claimant 50 ''q1'' (demo_key_device 1) demo_claim demo_zeros
      demo_claim_access demo_published = Inr (demo_answer, demo_claimed)"
    using demo_claim_answered by (simp add: peer_of_def demo_claim_access_def demo_key_client_def requested_devices_def demo_claim_def)
  ultimately show ?thesis unfolding claimKeys_iff by blast
qed

end
