(* ===== verification/KeyReplay.thy ===== *)
theory KeyReplay
  imports KeyRuns
begin

text \<open>
  The first publication of a device, asked for again by its session when the answer was lost: what
  the publication leaves in the tables of users, sessions and registrations is what the replay checks.
\<close>

definition same_accounts :: "'x e2e_db_scheme \<Rightarrow> 'x e2e_db_scheme \<Rightarrow> bool" where
  "same_accounts s s' \<longleftrightarrow> users s' = users s \<and> sessions s' = sessions s \<and> registrations s' = registrations s \<and>
     devices s' = devices s"

lemma same_accounts_refl [simp]: "same_accounts s s"
  by (simp add: same_accounts_def)

lemma same_accounts_trans: "same_accounts s s' \<Longrightarrow> same_accounts s' s'' \<Longrightarrow> same_accounts s s''"
  by (simp add: same_accounts_def)

lemma same_core_accounts: "same_core s s' \<Longrightarrow> same_accounts s s'" for s :: "'x e2e_db_scheme"
  unfolding same_core_def same_accounts_def by (cases s; cases s') simp

lemma publication_accounts:
  "create_list_state user mu now s = Inr (u, s') \<Longrightarrow> same_accounts s s'"
  "create_matrix_key m s = Inr (u, s') \<Longrightarrow> same_accounts s s'"
  "create_cursor device s = Inr (u, s') \<Longrightarrow> same_accounts s s'"
  "insert_one_time_key e device now i key h s = Inr (u, s') \<Longrightarrow> same_accounts s s'"
  "insert_fallback_key e device now i key h s = Inr (f, s') \<Longrightarrow> same_accounts s s'"
  "move_slot device f s = Inr (u, s') \<Longrightarrow> same_accounts s s'"
  by (auto simp: same_accounts_def create_list_state_def create_matrix_key_def create_cursor_def insert_one_time_key_def
      insert_fallback_key_def move_slot_def Let_def split: if_splits option.splits)

lemma insertOneTimeKeys_accounts:
  "insertOneTimeKeys k e device keys now s = Inr (us, s') \<Longrightarrow> same_accounts s s'"
proof (induction keys arbitrary: s us)
  case (Cons fk keys)
  then obtain s1 vs where steps: "publish_one_time_key k e device now fk s = Inr ((), s1)"
    "insertOneTimeKeys k e device keys now s1 = Inr (vs, s')"
    by (auto simp: insertOneTimeKeys_def tx_iffs)
  have "same_accounts s s1" using steps(1)
    by (auto simp: publish_one_time_key_def tx_iffs liftT_Inr_iff split: prod.splits option.splits dest: publication_accounts)
  with Cons.IH [OF steps(2)] show ?case using same_accounts_trans by blast
qed (simp add: insertOneTimeKeys_def tx_simps)

lemma rotateFallbackKey_accounts:
  "rotateFallbackKey k e device keys now s = Inr (u, s') \<Longrightarrow> same_accounts s s'"
  by (cases keys) (fastforce simp: rotateFallbackKey_def tx_iffs liftT_Inr_iff split: option.splits prod.splits
      dest: publication_accounts intro: same_accounts_trans)+

lemma publish_first_keys_accounts:
  assumes "publish_first_keys k e now p reg d u binding s = Inr (w, s')"
  shows "same_accounts (s\<lparr>devices := devices s @ [\<lparr>d_id = reg, d_user = pn_id p, d_status = DevActive,
    d_protocol = MATRIX_PROTOCOL_VERSION, d_binding = binding\<rparr>]\<rparr>) s'"
proof -
  from assms obtain s1 s2 m s3 s4 us s5 s6 where steps:
    "create_device reg (pn_id p) binding s = Inr ((), s1)"
    "create_list_state (pn_id p) (matrixUserIdFromUuid (pn_id p) (ks_server k)) now s1 = Inr ((), s2)"
    "create_matrix_key m s2 = Inr ((), s3)" "create_cursor reg s3 = Inr ((), s4)"
    "insertOneTimeKeys k e reg (ku_one_time_keys u) now s4 = Inr (us, s5)"
    "rotateFallbackKey k e reg (ku_fallback_keys u) now s5 = Inr ((), s6)"
    "announce_device e (pn_id p) reg now s6 = Inr (w, s')"
    by (auto simp: publish_first_keys_def tx_iffs liftT_Inr_iff)
  have "same_accounts s1 s'"
    using publication_accounts(1) [OF steps(2)] publication_accounts(2) [OF steps(3)] publication_accounts(3) [OF steps(4)]
      insertOneTimeKeys_accounts [OF steps(5)] rotateFallbackKey_accounts [OF steps(6)]
      same_core_accounts [OF announce_core [OF steps(7)]]
    by (meson same_accounts_trans)
  moreover have "s1 = s\<lparr>devices := devices s @ [\<lparr>d_id = reg, d_user = pn_id p, d_status = DevActive,
    d_protocol = MATRIX_PROTOCOL_VERSION, d_binding = binding\<rparr>]\<rparr>"
    using steps(1) by (auto simp: create_device_def split: if_splits)
  ultimately show ?thesis by simp
qed

lemma find_upd_key:
  assumes "find (\<lambda>x. key x = i) xs = Some x" "P x" "\<And>y. key (f y) = key y"
  shows "find (\<lambda>x. key x = i) (upd_where P f xs) = Some (f x)"
  using assms by (induction xs) (auto split: if_splits)

lemma count_upd_key:
  "(\<And>y. key (f y) = key y) \<Longrightarrow> count_where (\<lambda>x. key x = i) (upd_where P f xs) = count_where (\<lambda>x. key x = i) xs"
  by (induction xs) auto

lemma find_user_active:
  assumes "requireCurrentSession p now dev s = Inr (version, s')"
  obtains se u where "find (\<lambda>se. se_id se = pn_session p) (sessions s) = Some se" "se_user se = pn_id p" "se_device se = dev"
    "se_revoked se = None" "now < se_expires se" "version = se_version se" "find (\<lambda>u. u_id u = pn_id p) (users s) = Some u"
    "u_session_version u = se_version se" "u_status u = AccActive" "\<not> u_reset_required u"
  using assms that by (auto simp: requireCurrentSession_def split: option.splits if_splits)

text \<open>The session that was current before it is linked is current for its device afterwards.\<close>

lemma linked_session_current:
  assumes "requireCurrentSession p now None s = Inr (version, s)" "link_session p version reg now s1 = Inr ((), s2)"
    "users s1 = users s" "sessions s1 = sessions s" "users s' = users s2" "sessions s' = sessions s2"
    "\<And>se. find (\<lambda>se. se_id se = pn_session p) (sessions s) = Some se \<Longrightarrow> now' < se_expires se"
  shows "requireCurrentSession (p\<lparr>pn_device := Some reg\<rparr>) now' (Some reg) s' = Inr (version, s')"
proof -
  from assms(1) obtain se u where se: "find (\<lambda>se. se_id se = pn_session p) (sessions s) = Some se" "se_user se = pn_id p"
    "se_device se = None" "se_revoked se = None" "now < se_expires se" "version = se_version se"
    "find (\<lambda>u. u_id u = pn_id p) (users s) = Some u" "u_session_version u = se_version se" "u_status u = AccActive"
    "\<not> u_reset_required u" by (rule find_user_active)
  let ?open = "\<lambda>x. se_id x = pn_session p \<and> se_user x = pn_id p \<and> se_device x = None \<and> se_revoked x = None \<and>
    now < se_expires x \<and> se_version x = version \<and> (\<exists>u \<in> set (users s1). u_id u = se_user x \<and> u_status u = AccActive \<and>
      \<not> u_reset_required u \<and> u_session_version u = version)"
  from assms(2) have s2: "s2 = s1\<lparr>sessions := upd_where ?open (\<lambda>x. x\<lparr>se_device := Some reg\<rparr>) (sessions s1)\<rparr>"
    by (auto simp: link_session_def Let_def split: if_splits)
  have u: "u \<in> set (users s1)" "u_id u = pn_id p" using se(7) assms(3) by (auto simp: find_Some_iff)
  have id: "se_id se = pn_session p" using se(1) by (auto simp: find_Some_iff)
  have open_se: "?open se" using se(2-6,8-10) id u by (auto intro!: bexI [of _ u])
  have linked: "sessions s' = upd_where ?open (\<lambda>x. x\<lparr>se_device := Some reg\<rparr>) (sessions s1)"
    by (simp add: s2 assms(6))
  have "find (\<lambda>se. se_id se = pn_session p) (sessions s') = Some (se\<lparr>se_device := Some reg\<rparr>)"
    unfolding linked by (rule find_upd_key [where key = se_id and x = se]) (fact open_se | simp add: assms(4) se(1))+
  moreover have "users s' = users s" by (simp add: s2 assms(3,5))
  ultimately show ?thesis using se assms(7) [OF se(1)] by (simp add: requireCurrentSession_def)
qed

text \<open>The same session finds its device and its consumed registration in the tables the publication left.\<close>

lemma complete_replays:
  assumes "complete_transaction k e now p reg d u h binding s = Inr ((n, published), s')"
    "\<And>se. find (\<lambda>se. se_id se = pn_session p) (sessions s) = Some se \<Longrightarrow> now' < se_expires se"
    "\<And>r. find (\<lambda>r. rg_id r = reg) (registrations s) = Some r \<Longrightarrow> now' < rg_expires r"
  shows "replayInitialUpload now' (p\<lparr>pn_device := Some reg\<rparr>) reg h binding s' = Inr ((n, published), s')"
proof -
  from assms(1) obtain t1 t2 t3 version r x s1 s2 where parts: "lockOperationalUser (pn_id p) s = Inr ((), t1)"
    "lockRegistration reg t1 = Inr ((), t2)" "requireCurrentSession p now None t2 = Inr (version, t3)"
    "own_registration p reg t3 = Inr r" "publish_first_keys k e now p reg d u binding t3 = Inr (x, s1)"
    "link_session p version reg now s1 = Inr ((), s2)" "consume_registration reg now h n s2 = Inr ((), s')" "published = now"
    by (auto simp: complete_transaction_def tx_iffs liftT_Inr_iff)
  have "t1 = s" "t2 = t1" "t3 = t2" using parts(1-3) by (auto dest: same_state)
  note steps = parts [unfolded this]
  from steps(4) have r: "find (\<lambda>r. rg_id r = reg) (registrations s) = Some r" "rg_user r = pn_id p" "rg_session r = pn_session p"
    by (auto simp: own_registration_def split: option.splits if_splits)
  note first = publish_first_keys_accounts [OF steps(5)]
  from steps(6) obtain ses where s2: "s2 = s1\<lparr>sessions := ses\<rparr>"
    by (auto simp: link_session_def Let_def split: if_splits)
  from steps(7) have s': "s' = s2\<lparr>registrations := upd_where (\<lambda>r. rg_id r = reg)
      (\<lambda>r. r\<lparr>rg_consumed := Some now, rg_hash := Some h, rg_count := Some n\<rparr>) (registrations s2)\<rparr>"
    by (auto simp: consume_registration_def split: option.splits if_splits)
  have consumed: "registrations s' = upd_where (\<lambda>r. rg_id r = reg)
      (\<lambda>r. r\<lparr>rg_consumed := Some now, rg_hash := Some h, rg_count := Some n\<rparr>) (registrations s)"
    using first by (simp add: s' s2 same_accounts_def)
  have reg: "rg_id r = reg" using r(1) by (auto simp: find_Some_iff)
  have registration: "find (\<lambda>r. rg_id r = reg) (registrations s') =
      Some (r\<lparr>rg_consumed := Some now, rg_hash := Some h, rg_count := Some n\<rparr>)"
    unfolding consumed by (rule find_upd_key [where key = rg_id and x = r]) (simp_all add: r(1) reg)
  have users: "users s' = users s" using first by (simp add: s' s2 same_accounts_def)
  have "count_where (\<lambda>r. rg_id r = reg) (registrations s') = count_where (\<lambda>r. rg_id r = reg) (registrations s)"
    unfolding consumed by (rule count_upd_key [where key = rg_id]) simp
  then have locked: "lockOperationalUser (pn_id p) s' = Inr ((), s')" "lockRegistration reg s' = Inr ((), s')"
    using steps(1,2) users by (auto simp: lockOperationalUser_def lockRegistration_def split: if_splits)
  have device: "\<exists>dv \<in> set (devices s'). d_id dv = reg \<and> d_user dv = pn_id p \<and> d_status dv = DevActive \<and>
      d_protocol dv = MATRIX_PROTOCOL_VERSION \<and> d_binding dv = binding"
    using first by (simp add: s' s2 same_accounts_def)
  have "requireCurrentSession (p\<lparr>pn_device := Some reg\<rparr>) now' (Some reg) s' = Inr (version, s')"
    by (rule linked_session_current [OF steps(3,6) _ _ _ _ assms(2)]) (use first in \<open>simp_all add: same_accounts_def s'\<close>)
  with locked registration device r assms(3) [OF r(1)] steps(8) show ?thesis
    by (simp add: replayInitialUpload_def own_registration_def bindT_def tx_simps)
qed

lemma initial_replays:
  assumes "completeInitialUpload k e now p reg v s = Inr (res, s')" "pn_device p = None"
    "\<And>se. find (\<lambda>se. se_id se = pn_session p) (sessions s) = Some se \<Longrightarrow> now' < se_expires se"
    "\<And>r. find (\<lambda>r. rg_id r = reg) (registrations s) = Some r \<Longrightarrow> now' < rg_expires r"
  shows "completeInitialUpload k e now' (p\<lparr>pn_device := Some reg\<rparr>) reg v s' = Inr (res, s')"
proof -
  from assms(1) obtain d u h n published and b :: issued_binding where
    parsed: "rethrowValidation (parseInitialMatrixKeyUpload (ks_ed k) v (matrixUserIdFromUuid (pn_id p) (ks_server k))
      (matrixDeviceIdFromUuid reg)) = Inr (d, u)" "hashMatrixCanonicalJson (ks_sha k) v = Inr h"
      "deriveMatrixDeviceBindingSecret k reg = Inr b" and
    run: "initial_publication k e now p reg d u h (ib_hash b) s = Inr ((n, published), s')" and
    res: "res = \<lparr>ir_device = reg, ir_matrix_user = matrixUserIdFromUuid (pn_id p) (ks_server k),
      ir_matrix_device = matrixDeviceIdFromUuid reg, ir_secret = ib_secret b, ir_published = published, ir_count = n\<rparr>"
    by (auto simp: completeInitialUpload_def bindE_Inr_iff Let_def)
  from run assms(2) have "complete_transaction k e now p reg d u h (ib_hash b) s = Inr ((n, published), s')"
    by (simp add: initial_publication_def translate_Inr)
  from complete_replays [OF this assms(3,4)] parsed res show ?thesis
    by (simp add: completeInitialUpload_def initial_publication_def Let_def)
qed

text \<open>What the publication leaves in the reservation and the table of devices.\<close>

lemma complete_leaves:
  assumes "complete_transaction k e now p reg d u h binding s = Inr ((n, published), s')"
  shows "\<exists>g. find (\<lambda>r. rg_id r = reg) (registrations s') = Some g \<and> rg_user g = pn_id p \<and> rg_session g = pn_session p \<and>
    rg_consumed g = Some published \<and> rg_hash g = Some h \<and> rg_count g = Some n"
    "\<exists>dv \<in> set (devices s'). d_id dv = reg \<and> d_user dv = pn_id p \<and> d_status dv = DevActive \<and>
      d_protocol dv = MATRIX_PROTOCOL_VERSION \<and> d_binding dv = binding"
proof -
  from assms obtain t1 t2 t3 version r x s1 s2 where parts: "lockOperationalUser (pn_id p) s = Inr ((), t1)"
    "lockRegistration reg t1 = Inr ((), t2)" "requireCurrentSession p now None t2 = Inr (version, t3)"
    "own_registration p reg t3 = Inr r" "publish_first_keys k e now p reg d u binding t3 = Inr (x, s1)"
    "link_session p version reg now s1 = Inr ((), s2)" "consume_registration reg now h n s2 = Inr ((), s')" "published = now"
    by (auto simp: complete_transaction_def tx_iffs liftT_Inr_iff)
  have "t1 = s" "t2 = t1" "t3 = t2" using parts(1-3) by (auto dest: same_state)
  note steps = parts [unfolded this]
  from steps(4) have r: "find (\<lambda>r. rg_id r = reg) (registrations s) = Some r" "rg_user r = pn_id p" "rg_session r = pn_session p"
    by (auto simp: own_registration_def split: option.splits if_splits)
  note first = publish_first_keys_accounts [OF steps(5)]
  from steps(6) obtain ses where s2: "s2 = s1\<lparr>sessions := ses\<rparr>"
    by (auto simp: link_session_def Let_def split: if_splits)
  from steps(7) have s': "s' = s2\<lparr>registrations := upd_where (\<lambda>r. rg_id r = reg)
      (\<lambda>r. r\<lparr>rg_consumed := Some now, rg_hash := Some h, rg_count := Some n\<rparr>) (registrations s2)\<rparr>"
    by (auto simp: consume_registration_def split: option.splits if_splits)
  have consumed: "registrations s' = upd_where (\<lambda>r. rg_id r = reg)
      (\<lambda>r. r\<lparr>rg_consumed := Some now, rg_hash := Some h, rg_count := Some n\<rparr>) (registrations s)"
    using first by (simp add: s' s2 same_accounts_def)
  have reg: "rg_id r = reg" using r(1) by (auto simp: find_Some_iff)
  have "find (\<lambda>r. rg_id r = reg) (registrations s') =
      Some (r\<lparr>rg_consumed := Some now, rg_hash := Some h, rg_count := Some n\<rparr>)"
    unfolding consumed by (rule find_upd_key [where key = rg_id and x = r]) (simp_all add: r(1) reg)
  with r steps(8) show "\<exists>g. find (\<lambda>r. rg_id r = reg) (registrations s') = Some g \<and> rg_user g = pn_id p \<and>
      rg_session g = pn_session p \<and> rg_consumed g = Some published \<and> rg_hash g = Some h \<and> rg_count g = Some n" by simp
  show "\<exists>dv \<in> set (devices s'). d_id dv = reg \<and> d_user dv = pn_id p \<and> d_status dv = DevActive \<and>
      d_protocol dv = MATRIX_PROTOCOL_VERSION \<and> d_binding dv = binding"
    using first by (simp add: s' s2 same_accounts_def)
qed

text \<open>Any state that has kept the reservation answers as the publication did.\<close>

lemma replay_later:
  assumes "complete_transaction k e now p reg d u h binding s = Inr ((n, published), s')"
    and kept: "find (\<lambda>g. rg_id g = reg) (registrations s'') = find (\<lambda>g. rg_id g = reg) (registrations s')"
  shows "replayInitialUpload now' (p\<lparr>pn_device := dev\<rparr>) reg h binding s'' = Inr (x, t) \<Longrightarrow> x = (n, published) \<and> t = s''"
    and "lockOperationalUser (pn_id p) s'' = Inr ((), s'') \<Longrightarrow> lockRegistration reg s'' = Inr ((), s'') \<Longrightarrow>
      requireCurrentSession (p\<lparr>pn_device := dev\<rparr>) now' (Some reg) s'' = Inr (w, s'') \<Longrightarrow>
      {dv \<in> set (devices s'). d_id dv = reg} \<subseteq> set (devices s'') \<Longrightarrow>
      \<forall>g \<in> set (registrations s'). rg_id g = reg \<longrightarrow> now' < rg_expires g \<Longrightarrow>
      replayInitialUpload now' (p\<lparr>pn_device := dev\<rparr>) reg h binding s'' = Inr ((n, published), s'')"
proof -
  from complete_leaves [OF assms(1)] obtain g dv where
    g: "find (\<lambda>r. rg_id r = reg) (registrations s') = Some g" "rg_user g = pn_id p" "rg_session g = pn_session p"
      "rg_consumed g = Some published" "rg_hash g = Some h" "rg_count g = Some n" and
    dv: "dv \<in> set (devices s')" "d_id dv = reg" "d_user dv = pn_id p" "d_status dv = DevActive"
      "d_protocol dv = MATRIX_PROTOCOL_VERSION" "d_binding dv = binding" by blast
  have own: "own_registration (p\<lparr>pn_device := dev\<rparr>) reg s'' = Inr g"
    using kept g by (simp add: own_registration_def)
  show "x = (n, published) \<and> t = s''" if "replayInitialUpload now' (p\<lparr>pn_device := dev\<rparr>) reg h binding s'' = Inr (x, t)"
  proof -
    from that obtain t1 t2 t3 v r where steps: "lockOperationalUser (pn_id p) s'' = Inr ((), t1)"
      "lockRegistration reg t1 = Inr ((), t2)" "requireCurrentSession (p\<lparr>pn_device := dev\<rparr>) now' (Some reg) t2 = Inr (v, t3)"
      "own_registration (p\<lparr>pn_device := dev\<rparr>) reg t3 = Inr r"
      by (auto simp: replayInitialUpload_def tx_iffs liftT_Inr_iff)
    have "t1 = s''" "t2 = t1" "t3 = t2" using steps(1-3) by (auto dest: same_state)
    note steps = steps [unfolded this]
    from that steps own g show ?thesis
      by (auto simp: replayInitialUpload_def bindT_def tx_simps split: if_splits)
  qed
  assume lock: "lockOperationalUser (pn_id p) s'' = Inr ((), s'')" "lockRegistration reg s'' = Inr ((), s'')"
      "requireCurrentSession (p\<lparr>pn_device := dev\<rparr>) now' (Some reg) s'' = Inr (w, s'')"
    and devices: "{dv \<in> set (devices s'). d_id dv = reg} \<subseteq> set (devices s'')"
    and live: "\<forall>g \<in> set (registrations s'). rg_id g = reg \<longrightarrow> now' < rg_expires g"
  have "now' < rg_expires g" using live find_SomeD [OF g(1)] by simp
  moreover have "\<exists>d \<in> set (devices s''). d_id d = reg \<and> d_user d = pn_id p \<and> d_status d = DevActive \<and>
      d_protocol d = MATRIX_PROTOCOL_VERSION \<and> d_binding d = binding"
    using devices dv by (intro bexI [of _ dv]) auto
  ultimately show "replayInitialUpload now' (p\<lparr>pn_device := dev\<rparr>) reg h binding s'' = Inr ((n, published), s'')"
    using lock own g by (simp add: replayInitialUpload_def bindT_def tx_simps)
qed

lemma initial_later:
  assumes "completeInitialUpload k e now p reg v s = Inr (res, s')" "pn_device p = None"
    and kept: "find (\<lambda>g. rg_id g = reg) (registrations s'') = find (\<lambda>g. rg_id g = reg) (registrations s')"
  shows "completeInitialUpload k e' now' (p\<lparr>pn_device := Some reg\<rparr>) reg v s'' = Inr (x, t) \<Longrightarrow> x = res \<and> t = s''"
    and "lockOperationalUser (pn_id p) s'' = Inr ((), s'') \<Longrightarrow> lockRegistration reg s'' = Inr ((), s'') \<Longrightarrow>
      requireCurrentSession (p\<lparr>pn_device := Some reg\<rparr>) now' (Some reg) s'' = Inr (w, s'') \<Longrightarrow>
      {dv \<in> set (devices s'). d_id dv = reg} \<subseteq> set (devices s'') \<Longrightarrow>
      \<forall>g \<in> set (registrations s'). rg_id g = reg \<longrightarrow> now' < rg_expires g \<Longrightarrow>
      completeInitialUpload k e' now' (p\<lparr>pn_device := Some reg\<rparr>) reg v s'' = Inr (res, s'')"
proof -
  from assms(1) obtain d u h n published and b :: issued_binding where
    parsed: "rethrowValidation (parseInitialMatrixKeyUpload (ks_ed k) v (matrixUserIdFromUuid (pn_id p) (ks_server k))
      (matrixDeviceIdFromUuid reg)) = Inr (d, u)" "hashMatrixCanonicalJson (ks_sha k) v = Inr h"
      "deriveMatrixDeviceBindingSecret k reg = Inr b" and
    run: "initial_publication k e now p reg d u h (ib_hash b) s = Inr ((n, published), s')" and
    res: "res = \<lparr>ir_device = reg, ir_matrix_user = matrixUserIdFromUuid (pn_id p) (ks_server k),
      ir_matrix_device = matrixDeviceIdFromUuid reg, ir_secret = ib_secret b, ir_published = published, ir_count = n\<rparr>"
    by (auto simp: completeInitialUpload_def bindE_Inr_iff Let_def)
  from run assms(2) have c: "complete_transaction k e now p reg d u h (ib_hash b) s = Inr ((n, published), s')"
    by (simp add: initial_publication_def translate_Inr)
  note later = replay_later [OF c kept, where dev = "Some reg"]
  show "x = res \<and> t = s''" if "completeInitialUpload k e' now' (p\<lparr>pn_device := Some reg\<rparr>) reg v s'' = Inr (x, t)"
  proof -
    from that parsed obtain y where y: "replayInitialUpload now' (p\<lparr>pn_device := Some reg\<rparr>) reg h (ib_hash b) s'' = Inr (y, t)"
      "x = \<lparr>ir_device = reg, ir_matrix_user = matrixUserIdFromUuid (pn_id p) (ks_server k),
      ir_matrix_device = matrixDeviceIdFromUuid reg, ir_secret = ib_secret b, ir_published = snd y, ir_count = fst y\<rparr>"
      by (auto simp: completeInitialUpload_def initial_publication_def Let_def bindE_Inr_iff)
    from later(1) [OF y(1)] y(2) res show ?thesis by simp
  qed
  assume lock: "lockOperationalUser (pn_id p) s'' = Inr ((), s'')" "lockRegistration reg s'' = Inr ((), s'')"
      "requireCurrentSession (p\<lparr>pn_device := Some reg\<rparr>) now' (Some reg) s'' = Inr (w, s'')"
    and devices: "{dv \<in> set (devices s'). d_id dv = reg} \<subseteq> set (devices s'')"
    and live: "\<forall>g \<in> set (registrations s'). rg_id g = reg \<longrightarrow> now' < rg_expires g"
  from later(2) [OF lock devices live] parsed res
  show "completeInitialUpload k e' now' (p\<lparr>pn_device := Some reg\<rparr>) reg v s'' = Inr (res, s'')"
    by (simp add: completeInitialUpload_def initial_publication_def Let_def)
qed

end
