(* ===== verification/KeyClaims.thy ===== *)
theory KeyClaims
  imports KeyDemo KeyReplay
begin

text \<open>
  The properties of the directory of keys, each with a run of it on the concrete world of KeyDemo.
\<close>

section \<open>Claims on the concrete world\<close>

lemma claim_steps:
  assumes "claimKeys k e at now p conversation q v s = Inr (resp, s')"
  shows "directory_steps k e s s'"
proof -
  from assms have "directory_step k e s s'" by (rule directory_step.claimed)
  then show ?thesis by (rule r_into_rtranclp)
qed

lemma demo_claim_steps: "directory_steps demo_key_service demo_key_ids demo_published demo_claimed"
  by (rule claim_steps [OF demo_claims])

lemma demo_claimed_steps: "directory_steps demo_key_service demo_key_ids demo_keyless demo_claimed"
  using demo_published_steps demo_claim_steps by (rule rtranclp_trans)

lemma demo_claim_again:
  "claim_admitted demo_key_service 30 30 demo_claimant 50 ''q1'' (matrixClaimHashInput demo_claim) (demo_key_device 1)
     demo_claim demo_zeros demo_claim_access demo_claimed"
proof -
  have "lockConversationDeviceSets 30 1 50 (demo_key_device 1) demo_claimed = Inr (demo_claim_access, demo_claimed)"
    by (simp add: lockConversationDeviceSets_def lockCurrent_def eligible_rows_def eligible_joins_def demo_claimed_def demo_key_defs
        participant_def verified_profile_def usable_cashier_def usable_client_def in_period_def access_of_def singleOrNull_def
        demo_claim_access_def)
  then show ?thesis using demo_claim_parsed
    by (simp add: claim_admitted_def requireBoundKeyDevice_def demo_key_client_def requireCurrentSession_def peer_of_def
        demo_claim_access_def demo_claim_def demo_claimed_def demo_key_defs)
qed

lemma demo_claimant_device: "requireBoundKeyDevice demo_claimant = Inr (demo_key_device 1)"
  by (simp add: requireBoundKeyDevice_def demo_key_client_def)

definition demo_query :: keys_query where
  "demo_query = \<lparr>kq_device_keys = [(demo_matrix_user (CHR ''1''), []), (demo_matrix_user (CHR ''2''), [])], kq_timeout = None\<rparr>"

lemma demo_queries:
  "\<exists>r. queryKeys demo_key_service 20 20 demo_claimant 50 (matrixQueryHashInput demo_query) demo_published = Inr (r, demo_published)"
proof -
  have "parseMatrixKeysQuery (matrixQueryHashInput demo_query) = Inr demo_query" by code_simp
  then show ?thesis using demo_claim_locked
    by (simp add: queryKeys_def requireBoundKeyDevice_def demo_key_client_def requireCurrentSession_def peer_of_def
        demo_claim_access_def demo_query_def demo_key_defs bindT_def tx_simps rethrowValidation_def Let_def)
qed

section \<open>Properties\<close>

text \<open>C26: an upload of keys is accepted only when one Ed25519 key, the one the directory already has for the
  device or else the one the upload brings, signs the identity keys and every one-time and fallback key
  in it over their canonical text, names the user and the device expected, and no Curve25519 key in it repeats.\<close>

theorem accepted_upload_signed:
  assumes "parseMatrixKeyUpload ed v user device existing = Inr u"
  shows "\<exists>publicKey. upload_ok ed user device existing publicKey u"
  using assms by (rule parseMatrixKeyUpload_ok)

theorem accepted_upload_signed_witness:
  "\<exists>publicKey. upload_ok demo_ed25519 (demo_matrix_user (CHR ''2'')) (demo_matrix_device (CHR ''2'')) None publicKey
     demo_cashier_upload"
  using accepted_upload_signed [OF demo_cashier_accepted] .

text \<open>C27: a session that lost the answer to the first publication of its device can ask again, once bound to
  the device.  Right after the publication, while the session and the reservation last, the same request
  gets the same answer, with the same binding secret and count of keys, and changes nothing.  So it does
  in any later state, whatever has been uploaded and claimed meanwhile, that has kept the reservation as
  the publication left it: each success gives that answer, and it succeeds while the user may operate,
  the session is current, the device stands as published and the reservation has not expired.\<close>

theorem initial_upload_replayed:
  assumes "completeInitialUpload k e now p reg v s = Inr (r, s')" "pn_device p = None"
  shows "((\<forall>se \<in> set (sessions s). se_id se = pn_session p \<longrightarrow> now' < se_expires se) \<longrightarrow>
      (\<forall>g \<in> set (registrations s). rg_id g = reg \<longrightarrow> now' < rg_expires g) \<longrightarrow>
      completeInitialUpload k e now' (p\<lparr>pn_device := Some reg\<rparr>) reg v s' = Inr (r, s')) \<and>
    (find (\<lambda>g. rg_id g = reg) (registrations s'') = find (\<lambda>g. rg_id g = reg) (registrations s') \<longrightarrow>
      (\<forall>x t. completeInitialUpload k e' now' (p\<lparr>pn_device := Some reg\<rparr>) reg v s'' = Inr (x, t) \<longrightarrow> x = r \<and> t = s'') \<and>
      (lockOperationalUser (pn_id p) s'' = Inr ((), s'') \<and> lockRegistration reg s'' = Inr ((), s'') \<and>
       (\<exists>w. requireCurrentSession (p\<lparr>pn_device := Some reg\<rparr>) now' (Some reg) s'' = Inr (w, s'')) \<and>
       {dv \<in> set (devices s'). d_id dv = reg} \<subseteq> set (devices s'') \<and>
       (\<forall>g \<in> set (registrations s'). rg_id g = reg \<longrightarrow> now' < rg_expires g) \<longrightarrow>
       completeInitialUpload k e' now' (p\<lparr>pn_device := Some reg\<rparr>) reg v s'' = Inr (r, s'')))"
proof -
  have "completeInitialUpload k e now' (p\<lparr>pn_device := Some reg\<rparr>) reg v s' = Inr (r, s')"
    if "\<forall>se \<in> set (sessions s). se_id se = pn_session p \<longrightarrow> now' < se_expires se"
      "\<forall>g \<in> set (registrations s). rg_id g = reg \<longrightarrow> now' < rg_expires g"
    by (rule initial_replays [OF assms]) (use that in \<open>auto dest: find_SomeD\<close>)
  then show ?thesis using initial_later [OF assms, of s''] by blast
qed

text \<open>The cashier asks again after a client has claimed the one key it had published.\<close>

theorem initial_upload_replayed_witness:
  "\<exists>r. completeInitialUpload demo_key_service demo_key_ids 10 (demo_key_cashier None) (demo_key_device 2)
      (upload_json demo_cashier_upload) demo_client_published = Inr (r, demo_published) \<and>
    completeInitialUpload demo_key_service demo_key_ids 20 (demo_key_cashier (Some (demo_key_device 2))) (demo_key_device 2)
      (upload_json demo_cashier_upload) demo_claimed = Inr (r, demo_claimed) \<and>
    unclaimed_keys demo_published (demo_key_device 2) = 1 \<and> unclaimed_keys demo_claimed (demo_key_device 2) = 0"
proof -
  obtain r where first: "completeInitialUpload demo_key_service demo_key_ids 10 (demo_key_cashier None) (demo_key_device 2)
     (upload_json demo_cashier_upload) demo_client_published = Inr (r, demo_published)"
    using demo_cashier_completes by blast
  have p: "(demo_key_cashier None)\<lparr>pn_device := Some (demo_key_device 2)\<rparr> = demo_key_cashier (Some (demo_key_device 2))"
    "pn_device (demo_key_cashier None) = None" "pn_id (demo_key_cashier d) = 2" for d
    by (simp_all add: demo_key_cashier_def)
  have kept: "registrations demo_claimed = registrations demo_published" "devices demo_claimed = devices demo_published"
    by (simp_all add: demo_claimed_def)
  have lock: "lockOperationalUser 2 demo_claimed = Inr ((), demo_claimed)"
    "lockRegistration (demo_key_device 2) demo_claimed = Inr ((), demo_claimed)"
    "requireCurrentSession (demo_key_cashier (Some (demo_key_device 2))) 20 (Some (demo_key_device 2)) demo_claimed =
       Inr (0, demo_claimed)"
    by (simp_all add: lockOperationalUser_def lockRegistration_def requireCurrentSession_def demo_key_cashier_def
        demo_claimed_def demo_key_defs)
  have live: "\<forall>g \<in> set (registrations demo_published). rg_id g = demo_key_device 2 \<longrightarrow> 20 < rg_expires g"
    by (simp add: demo_key_defs)
  have "unclaimed_keys demo_published (demo_key_device 2) = 1 \<and> unclaimed_keys demo_claimed (demo_key_device 2) = 0"
    by (simp add: unclaimed_keys_def demo_claimed_def demo_key_defs)
  moreover have "completeInitialUpload demo_key_service demo_key_ids 20 (demo_key_cashier (Some (demo_key_device 2)))
      (demo_key_device 2) (upload_json demo_cashier_upload) demo_claimed = Inr (r, demo_claimed)"
  proof -
    have pre: "find (\<lambda>g. rg_id g = demo_key_device 2) (registrations demo_claimed) =
        find (\<lambda>g. rg_id g = demo_key_device 2) (registrations demo_published)" by (simp only: kept)
    have cond: "lockOperationalUser (pn_id (demo_key_cashier None)) demo_claimed = Inr ((), demo_claimed) \<and>
       lockRegistration (demo_key_device 2) demo_claimed = Inr ((), demo_claimed) \<and>
       (\<exists>w. requireCurrentSession ((demo_key_cashier None)\<lparr>pn_device := Some (demo_key_device 2)\<rparr>) 20
          (Some (demo_key_device 2)) demo_claimed = Inr (w, demo_claimed)) \<and>
       {dv \<in> set (devices demo_published). d_id dv = demo_key_device 2} \<subseteq> set (devices demo_claimed) \<and>
       (\<forall>g \<in> set (registrations demo_published). rg_id g = demo_key_device 2 \<longrightarrow> 20 < rg_expires g)"
      using lock live unfolding p kept by blast
    from initial_upload_replayed [OF first p(2), THEN conjunct2, THEN mp, OF pre, THEN conjunct2, THEN mp, OF cond]
    show ?thesis unfolding p .
  qed
  ultimately show ?thesis using first by blast
qed

text \<open>C20: whatever sequence of operations the directory runs from its empty tables, a one-time key is handed out at
  most once, to a claim for its own device; a key is marked as claimed exactly when it was handed out; no
  device keeps more than 100 unclaimed keys; and no Curve25519 key is ever published twice.\<close>

theorem one_time_keys_handed_out_once:
  assumes "empty_directory s" "supply_ok e (draws s) {}" "directory_steps k e s s'"
  shows "distinct (handed_out s') \<and>
    (\<forall>o' \<in> set (one_time_keys s'). ok_claimed o' \<noteq> None \<longleftrightarrow> ok_id o' \<in> set (handed_out s')) \<and>
    (\<forall>r \<in> set (claim_results s'). \<forall>i. cl_one_time r = Some i \<longrightarrow>
       (\<exists>o' \<in> set (one_time_keys s'). ok_id o' = i \<and> ok_device o' = cl_recipient r \<and> ok_claimed o' = Some (cl_claimed r))) \<and>
    (\<forall>d. unclaimed_keys s' d \<le> 100) \<and> distinct (all_curves s')"
proof -
  have ok: "directory_ok k e s'" by (rule steps_keep(1) [OF assms(3) empty_directory_ok [OF assms(1,2)]])
  with pool_claimed_iff [OF ok] show ?thesis
    by (auto simp: directory_ok_def pool_ok_def limits_ok_def result_ok_def)
qed

theorem one_time_keys_handed_out_once_witness:
  "handed_out demo_claimed = [100] \<and> distinct (handed_out demo_claimed) \<and> (\<forall>d. unclaimed_keys demo_claimed d \<le> 100)"
  using one_time_keys_handed_out_once [OF demo_keyless_empty demo_claimed_steps]
  by (simp add: handed_out_def demo_claimed_def map_filter_def)

text \<open>Nothing the directory has published changes afterwards: the identity keys of a device stay as they are, a
  one-time or a fallback key keeps its content, and a claim, once marked on it, keeps its time.\<close>

theorem published_keys_stay:
  assumes "directory_ok k e s" "directory_steps k e s s'"
  shows "set (matrix_keys s) \<subseteq> set (matrix_keys s') \<and>
    (\<forall>x \<in> set (one_time_keys s). \<exists>y \<in> set (one_time_keys s'). y\<lparr>ok_claimed := ok_claimed x\<rparr> = x \<and>
       (ok_claimed x = None \<or> ok_claimed y = ok_claimed x)) \<and>
    (\<forall>x \<in> set (fallback_keys s). \<exists>y \<in> set (fallback_keys s'). y\<lparr>fk_first_claimed := fk_first_claimed x\<rparr> = x \<and>
       (fk_first_claimed x = None \<or> fk_first_claimed y = fk_first_claimed x))"
proof -
  from steps_keep(2) [OF assms(2,1)] obtain R where grow: "rows_grow R s s'" by blast
  have "\<exists>y \<in> set (one_time_keys s'). y\<lparr>ok_claimed := ok_claimed x\<rparr> = x \<and> (ok_claimed x = None \<or> ok_claimed y = ok_claimed x)"
    if x: "x \<in> set (one_time_keys s)" for x
  proof -
    from grow x consider "x \<in> set (one_time_keys s')" |
        t where "ok_claimed x = None" "x\<lparr>ok_claimed := Some t\<rparr> \<in> set (one_time_keys s')"
      by (auto simp: rows_grow_def)
    then show ?thesis by cases (auto intro: rev_bexI)
  qed
  moreover have "\<exists>y \<in> set (fallback_keys s'). y\<lparr>fk_first_claimed := fk_first_claimed x\<rparr> = x \<and>
      (fk_first_claimed x = None \<or> fk_first_claimed y = fk_first_claimed x)"
    if x: "x \<in> set (fallback_keys s)" for x
  proof -
    from grow x consider "x \<in> set (fallback_keys s')" |
        t where "fk_first_claimed x = None" "x\<lparr>fk_first_claimed := Some t\<rparr> \<in> set (fallback_keys s')"
      by (auto simp: rows_grow_def)
    then show ?thesis by cases (auto intro: rev_bexI)
  qed
  moreover have "set (matrix_keys s) \<subseteq> set (matrix_keys s')" using grow by (simp add: rows_grow_def)
  ultimately show ?thesis by blast
qed

theorem published_keys_stay_witness:
  "\<exists>y \<in> set (one_time_keys demo_claimed). y\<lparr>ok_claimed := None\<rparr> = demo_one_time_key"
  using published_keys_stay [OF demo_published_ok demo_claim_steps]
  by (auto simp: demo_published_def demo_one_time_key_def)

text \<open>C21: a claim that was answered has its answer for good.  Sent again with its identifier, after any operations of
  the directory and anything else in between, it is either refused because the device may no longer ask
  or answered with the same keys, and it consumes nothing; where it is admitted it is answered.\<close>

theorem repeated_claim_same_answer:
  assumes "directory_ok k e s" "claimKeys k e at now p conversation q v s = Inr (resp, s')" "directory_steps k e s' s''"
  shows "(\<forall>at' now' r. claimKeys k e at' now' p conversation q v s'' = Inr r \<longrightarrow> r = (resp, s'')) \<and>
    (\<forall>at' now' device c h a. claim_admitted k at' now' p conversation q v device c h a s'' \<longrightarrow>
       claimKeys k e at' now' p conversation q v s'' = Inr (resp, s''))"
proof -
  from assms(2) obtain device c h a where first: "claim_admitted k at now p conversation q v device c h a s"
    "claim_answer k e now p conversation q device c h a s = Inr (resp, s')"
    unfolding claimKeys_iff by blast
  have "directory_ok k e s'"
    by (rule steps_keep(1) [OF claim_steps [OF assms(2)] assms(1)])
  note again = answer_repeats [OF first(2) assms(1) this assms(3)]
  have answered: "claim_answer k e now' p conversation q device' c' h' a' s'' = Inr (resp, s'')"
    if "claim_admitted k at' now' p conversation q v device' c' h' a' s''" for at' now' device' c' h' a'
    using again admitted_determined(1,3) [OF first(1) that] by simp
  show ?thesis
  proof (intro conjI allI impI)
    fix at' now' r
    assume "claimKeys k e at' now' p conversation q v s'' = Inr r"
    moreover obtain resp' t where r: "r = (resp', t)" by (cases r)
    ultimately have "claimKeys k e at' now' p conversation q v s'' = Inr (resp', t)" by simp
    then obtain device' c' h' a' where admitted: "claim_admitted k at' now' p conversation q v device' c' h' a' s''" and
      "claim_answer k e now' p conversation q device' c' h' a' s'' = Inr (resp', t)" unfolding claimKeys_iff by blast
    with answered [OF admitted] r show "r = (resp, s'')" by simp
  next
    fix at' now' device' c' h' a'
    assume admitted: "claim_admitted k at' now' p conversation q v device' c' h' a' s''"
    from answered [OF admitted] admitted show "claimKeys k e at' now' p conversation q v s'' = Inr (resp, s'')"
      unfolding claimKeys_iff by blast
  qed
qed

theorem repeated_claim_same_answer_witness:
  "claimKeys demo_key_service demo_key_ids 30 30 demo_claimant 50 ''q1'' (matrixClaimHashInput demo_claim) demo_claimed =
     Inr (demo_answer, demo_claimed)"
  using repeated_claim_same_answer [OF demo_published_ok demo_claims rtranclp.rtrancl_refl] demo_claim_again by blast

text \<open>C22: a new claim takes, for each device it targets and in their order, the oldest unclaimed one-time key of the
  device; only a device without one gives its current fallback key, and only a device without both gives nothing.\<close>

theorem claim_hands_out_oldest:
  assumes "directory_ok k e s" "claimKeys k e at now p conversation q v s = Inr (resp, s')"
    "requireBoundKeyDevice p = Inr device" "previous_claim s device q = None"
  shows "\<exists>c a rs. parseMatrixKeysClaim v = Inr c \<and> lockCurrent at (pn_id p) conversation (Some device) s = Inr (a, s) \<and>
    (let peer = peer_of (pn_id p) a; u = matrixUserIdFromUuid peer (ks_server k) in
       claim_results s' = claim_results s @ rs \<and>
       map cl_recipient rs = map mk_device (claim_targets_of s peer u (requested_devices c u) None) \<and>
       (\<forall>r \<in> set rs. cl_claimed r = now \<and> right_key s r))"
proof -
  from assms(2) obtain device' c h a where first: "claim_admitted k at now p conversation q v device' c h a s"
    "claim_answer k e now p conversation q device' c h a s = Inr (resp, s')"
    unfolding claimKeys_iff by blast
  with assms(3) have [simp]: "device' = device" by (simp add: claim_admitted_def)
  let ?u = "matrixUserIdFromUuid (peer_of (pn_id p) a) (ks_server k)"
  from first(2) assms(4) have "new_claim e now device (Some conversation) q h (peer_of (pn_id p) a) ?u
      (requested_devices c ?u) None s = Inr (resp, s')"
    by (auto simp: answer_claim_def tx_iffs)
  from new_claim_results [OF this assms(4,1)] first(1) show ?thesis
    unfolding Let_def claim_admitted_def lockConversationDeviceSets_def by auto
qed

theorem claim_hands_out_oldest_witness:
  "\<exists>c a rs. parseMatrixKeysClaim (matrixClaimHashInput demo_claim) = Inr c \<and>
     lockCurrent 20 (pn_id demo_claimant) 50 (Some (demo_key_device 1)) demo_published = Inr (a, demo_published) \<and>
     claim_results demo_claimed = claim_results demo_published @ rs \<and> (\<forall>r \<in> set rs. right_key demo_published r)"
proof -
  have "previous_claim demo_published (demo_key_device 1) ''q1'' = None"
    by (simp add: previous_claim_def demo_key_defs)
  from claim_hands_out_oldest [OF demo_published_ok demo_claims demo_claimant_device this] show ?thesis
    unfolding Let_def by blast
qed

text \<open>C23: no key leaves the directory but to the counterpart of a conversation that is current at the claim, or to
  another device of the same account, and only keys of active devices do: on both routes, each key handed
  out anew is of an active published device of that user.\<close>

theorem claims_reach_counterpart:
  assumes "directory_ok k e s" "m \<in> set (matrix_keys s)" "r \<in> set (claim_results s')" "r \<notin> set (claim_results s)"
    "cl_recipient r = mk_device m"
  shows "(claimKeys k e at now p conversation q v s = Inr (resp, s') \<longrightarrow>
      device_active s (mk_device m) \<and> (\<exists>a. access_granted at s a \<and> ca_id a = conversation \<and>
        pn_id p \<in> {ca_client a, ca_cashier a} \<and> mk_user m = peer_of (pn_id p) a)) \<and>
    (claimRelatedKeys k e ats now p q v s = Inr (resp, s') \<longrightarrow>
      device_active s (mk_device m) \<and> Some (mk_device m) \<noteq> pn_device p \<and> (mk_user m = pn_id p \<or>
        (\<exists>a. access_granted (ats (mk_user m)) s a \<and> {ca_client a, ca_cashier a} = {pn_id p, mk_user m})))"
proof -
  have m: "m' = m" if "m' \<in> set (matrix_keys s)" "cl_recipient r = mk_device m'" for m'
    using that assms(1,2,5) distinct_key_eq [of mk_device "matrix_keys s" m' m] by (simp add: directory_ok_def ids_ok_def)
  have target: "m \<in> set (claim_targets_of s user mu requested except)"
    if "answer_claim e now device conv q h user mu requested except s = Inr (resp, s')"
    for device conv h user mu requested except
  proof -
    from answer_results [OF that assms(1)] assms(3,4)
    have "cl_recipient r \<in> mk_device ` set (claim_targets_of s user mu requested except)" by auto
    then obtain m' where "m' \<in> set (claim_targets_of s user mu requested except)" "cl_recipient r = mk_device m'" by blast
    with m [of m'] show ?thesis by (auto simp: claim_targets_of_def)
  qed
  show ?thesis
  proof (rule conjI; rule impI)
    assume "claimKeys k e at now p conversation q v s = Inr (resp, s')"
    then obtain device c h a where "claim_admitted k at now p conversation q v device c h a s"
      "claim_answer k e now p conversation q device c h a s = Inr (resp, s')" unfolding claimKeys_iff by blast
    with target show "device_active s (mk_device m) \<and> (\<exists>a. access_granted at s a \<and> ca_id a = conversation \<and>
        pn_id p \<in> {ca_client a, ca_cashier a} \<and> mk_user m = peer_of (pn_id p) a)"
      using lockCurrent_granted unfolding claim_admitted_def lockConversationDeviceSets_def claim_targets_of_def by fastforce
  next
    assume "claimRelatedKeys k e ats now p q v s = Inr (resp, s')"
    then obtain device c h u scope where rel: "related_admitted k ats p q v device c h u scope s" and
      answer: "answer_claim e now device (sc_conversation scope) q h (sc_user scope) u (requested_devices c u) (Some device) s
        = Inr (resp, s')" by (rule claimRelatedKeys_admitted)
    from target [OF answer] have t: "mk_user m = sc_user scope" "device_active s (mk_device m)" "mk_device m \<noteq> device"
      by (auto simp: claim_targets_of_def)
    from rel have "pn_device p = Some device" by (auto simp: related_admitted_def requireBoundKeyDevice_def split: option.splits if_splits)
    with t rel show "device_active s (mk_device m) \<and> Some (mk_device m) \<noteq> pn_device p \<and> (mk_user m = pn_id p \<or>
        (\<exists>a. access_granted (ats (mk_user m)) s a \<and> {ca_client a, ca_cashier a} = {pn_id p, mk_user m}))"
      using single_scope(2) unfolding related_admitted_def by fastforce
  qed
qed

theorem claims_reach_counterpart_witness:
  "device_active demo_published (demo_key_device 2) \<and> (\<exists>a. access_granted 20 demo_published a \<and> ca_id a = 50)"
  using claims_reach_counterpart [OF demo_published_ok, of "demo_key_row 2 (CHR ''2'') (CHR ''A'') (CHR ''U'')"
      "hd (claim_results demo_claimed)" demo_claimed 20 20 demo_claimant 50 "''q1''"] demo_claims
  by (fastforce simp: demo_claimed_def demo_published_def demo_client_published_def demo_keyless_def)

text \<open>C24: every key in the answer to a claim carries a signature of its device that verifies: under the Ed25519 key
  the directory publishes for the user and device the answer names, over the canonical text of the key.\<close>

theorem claimed_keys_verify:
  assumes "directory_ok k e s" "claimKeys k e at now p conversation q v s = Inr (resp, s')"
    "(u, ds) \<in> set resp" "(d, keys) \<in> set ds" "(full, key) \<in> set keys"
  shows "\<exists>m \<in> set (matrix_keys s'). mk_matrix_user m = u \<and> mk_matrix_device m = d \<and>
    verifyMatrixSignedObject (ks_ed k) (curve_key_entries key) u (signing_key_id d) (mk_ed25519 m) err = Inr ()"
proof -
  from assms(2) obtain device c h a where "claim_answer k e now p conversation q device c h a s = Inr (resp, s')"
    unfolding claimKeys_iff by blast
  from answer_recorded [OF this assms(1)] obtain i where i: "resp = buildClaimResponse i s'" by blast
  have "directory_ok k e s'"
    by (rule steps_keep(1) [OF claim_steps [OF assms(2)] assms(1)])
  from built_answer_signed [OF this, of i] assms(3-5) show ?thesis
    unfolding all_answers_def answer_signed_def verify_iff i by fastforce
qed

theorem claimed_keys_verify_witness:
  "\<exists>m \<in> set (matrix_keys demo_claimed). mk_matrix_user m = demo_matrix_user (CHR ''2'') \<and>
     verifyMatrixSignedObject (ks_ed demo_key_service) (curve_key_entries (demo_curve_key False (CHR ''I'')))
       (demo_matrix_user (CHR ''2'')) (signing_key_id (demo_matrix_device (CHR ''2''))) (mk_ed25519 m) [] = Inr ()"
  using claimed_keys_verify [OF demo_published_ok demo_claims, of "demo_matrix_user (CHR ''2'')"] unfolding demo_answer_def
  by fastforce

text \<open>What an answer to a query discloses, if it discloses nothing about users outside \<open>U\<close>.\<close>

definition discloses_only :: "string set \<Rightarrow> string \<Rightarrow> 'x key_db_scheme \<Rightarrow> query_response \<Rightarrow> bool" where
  "discloses_only U own s r \<longleftrightarrow>
     fst ` set (qr_device_keys r) \<union> fst ` set (qr_master_keys r) \<union> fst ` set (qr_self_signing_keys r) \<subseteq> U \<and>
     fst ` set (qr_user_signing_keys r) \<subseteq> {own} \<and>
     (\<forall>(u, ds) \<in> set (qr_device_keys r). \<forall>d \<in> fst ` set ds.
        \<exists>m \<in> set (matrix_keys s). mk_matrix_user m = u \<and> mk_matrix_device m = d \<and> device_active s (mk_device m))"

lemma queryResponse_discloses:
  assumes "set (map fst (kq_device_keys q)) \<subseteq> U"
  shows "discloses_only U own s (queryResponse q own s)"
proof -
  have rows: "m \<in> set (matrix_keys s) \<and> device_active s (mk_device m)" if "m \<in> set (query_rows s q)" for m
    using that by (auto simp: query_rows_def)
  have "fst ` set (qr_device_keys (queryResponse q own s)) \<union> fst ` set (qr_master_keys (queryResponse q own s)) \<union>
     fst ` set (qr_self_signing_keys (queryResponse q own s)) \<subseteq> set (map fst (kq_device_keys q))"
    unfolding queryResponse_def Let_def by force
  moreover have "fst ` set (qr_user_signing_keys (queryResponse q own s)) \<subseteq> {own}"
    unfolding queryResponse_def Let_def by force
  moreover have "\<forall>(u, ds) \<in> set (qr_device_keys (queryResponse q own s)). \<forall>d \<in> fst ` set ds.
     \<exists>m \<in> set (matrix_keys s). mk_matrix_user m = u \<and> mk_matrix_device m = d \<and> device_active s (mk_device m)"
    unfolding queryResponse_def Let_def using rows by fastforce
  ultimately show ?thesis using assms unfolding discloses_only_def by (meson subset_trans)
qed

text \<open>Every identity the route without a conversation is asked about is the own one or the counterpart's.\<close>

definition reachable_user :: "key_service \<Rightarrow> (uuid \<Rightarrow> time) \<Rightarrow> principal \<Rightarrow> 'x key_db_scheme \<Rightarrow> string \<Rightarrow> bool" where
  "reachable_user k ats p s u \<longleftrightarrow> (\<exists>i. sinochatUserIdFromMatrixUserId u (ks_server k) = Some i \<and>
     (i = pn_id p \<or> (\<exists>a. access_granted (ats i) s a \<and> {ca_client a, ca_cashier a} = {pn_id p, i})))"

lemma all_right_target:
  "all_right (map (read_target k) us) = Inr ts \<Longrightarrow> u \<in> set us \<Longrightarrow>
     \<exists>i. (u, i) \<in> set ts \<and> sinochatUserIdFromMatrixUserId u (ks_server k) = Some i"
  by (induction us arbitrary: ts) (auto simp: read_target_def split: option.splits sum.splits)

lemma related_scopes_reach:
  assumes "mapT (related_scope p ats) ts s = Inr (cs, s')" "(u, i) \<in> set ts"
  shows "i = pn_id p \<or> (\<exists>a. access_granted (ats i) s a \<and> {ca_client a, ca_cashier a} = {pn_id p, i})"
  using assms
proof (induction ts arbitrary: cs)
  case (Cons t ts)
  from Cons.prems(1) obtain c s1 cs' where steps: "related_scope p ats t s = Inr (c, s1)" "mapT (related_scope p ats) ts s1 = Inr (cs', s')"
    by (auto simp: tx_iffs)
  have "s1 = s" using related_scope_same [OF steps(1)] .
  with steps Cons.IH Cons.prems(2) show ?case
  proof (cases "t = (u, i)")
    case True
    with related_scope_of(3) [of p ats u i s c s1] steps(1) show ?thesis by blast
  qed auto
qed simp

lemma lockRelatedTargets_reach:
  assumes "lockRelatedTargets k p ats device us s = Inr (cs, s')" "u \<in> set us"
  shows "reachable_user k ats p s u"
proof -
  from assms(1) obtain ts scopes where parts: "all_right (map (read_target k) us) = Inr ts"
    "\<exists>s''. mapT (related_scope p ats) (sort_key snd ts) s = Inr (scopes, s'')"
    by (auto simp: lockRelatedTargets_def Let_def tx_iffs liftT_Inr_iff)
  from all_right_target [OF parts(1) assms(2)] obtain i where i: "(u, i) \<in> set ts"
    "sinochatUserIdFromMatrixUserId u (ks_server k) = Some i" by blast
  with parts(2) related_scopes_reach [of p ats "sort_key snd ts" s scopes _ u i] show ?thesis
    unfolding reachable_user_def by auto
qed

text \<open>C25: a query of keys changes nothing and discloses only the two parties of a current conversation: the users
  of the answer are the asking user and counterparts it has a current conversation with, the devices are
  active devices of them, and a user-signing key is given to its owner only.\<close>

theorem query_discloses_parties:
  "(queryKeys k at now p conversation v s = Inr (r, s') \<longrightarrow>
     s' = s \<and> (\<exists>a. access_granted at s a \<and> ca_id a = conversation \<and> pn_id p \<in> {ca_client a, ca_cashier a} \<and>
       discloses_only {matrixUserIdFromUuid (pn_id p) (ks_server k), matrixUserIdFromUuid (peer_of (pn_id p) a) (ks_server k)}
         (matrixUserIdFromUuid (pn_id p) (ks_server k)) s r)) \<and>
   (queryRelatedKeys k ats now now' p v s = Inr (r, s') \<longrightarrow>
     s' = s \<and> discloses_only {u. reachable_user k ats p s u} (matrixUserIdFromUuid (pn_id p) (ks_server k)) s r)"
proof (rule conjI; rule impI)
  assume query: "queryKeys k at now p conversation v s = Inr (r, s')"
  let ?own = "matrixUserIdFromUuid (pn_id p) (ks_server k)"
  from query obtain device q a s1 n s2 where locks: "lockConversationDeviceSets at (pn_id p) conversation device s = Inr (a, s1)"
    "requireCurrentSession p now (Some device) s1 = Inr (n, s2)" and
    users: "set (map fst (kq_device_keys q)) \<subseteq> {?own, matrixUserIdFromUuid (peer_of (pn_id p) a) (ks_server k)}" and
    r: "r = queryResponse q ?own s2" "s' = s2"
    by (auto simp: queryKeys_def tx_iffs liftT_Inr_iff Let_def)
  from locks have same: "s2 = s" by (auto dest: locks_same)
  from locks(1) have granted: "access_granted at s a" "ca_id a = conversation" "pn_id p \<in> {ca_client a, ca_cashier a}"
    unfolding lockConversationDeviceSets_def using lockCurrent_granted by blast+
  from queryResponse_discloses [OF users, of ?own s] granted r show "s' = s \<and> (\<exists>a. access_granted at s a \<and>
      ca_id a = conversation \<and> pn_id p \<in> {ca_client a, ca_cashier a} \<and>
      discloses_only {?own, matrixUserIdFromUuid (peer_of (pn_id p) a) (ks_server k)} ?own s r)"
    unfolding same by blast
next
  assume query: "queryRelatedKeys k ats now now' p v s = Inr (r, s')"
  let ?own = "matrixUserIdFromUuid (pn_id p) (ks_server k)"
  from query obtain device q n s1 cs s2 n' s3 where steps: "requireCurrentSession p now (Some device) s = Inr (n, s1)"
    "lockRelatedTargets k p ats device (map fst (kq_device_keys q)) s1 = Inr (cs, s2)"
    "requireCurrentSession p now' (Some device) s2 = Inr (n', s3)" "r = queryResponse q ?own s3" "s' = s3"
    by (auto simp: queryRelatedKeys_def tx_iffs liftT_Inr_iff)
  have same: "s1 = s" "s2 = s1" "s3 = s2"
    using locks_same(2) [OF steps(1)] locks_same(2) [OF steps(3)] lockRelatedTargets_same [OF steps(2)] by simp_all
  have "set (map fst (kq_device_keys q)) \<subseteq> {u. reachable_user k ats p s u}"
    using lockRelatedTargets_reach [OF steps(2)] same by auto
  from queryResponse_discloses [OF this, of ?own s] steps(4,5) same
  show "s' = s \<and> discloses_only {u. reachable_user k ats p s u} ?own s r" by simp
qed

theorem query_discloses_parties_witness:
  "\<exists>r a. queryKeys demo_key_service 20 20 demo_claimant 50 (matrixQueryHashInput demo_query) demo_published =
     Inr (r, demo_published) \<and> access_granted 20 demo_published a \<and> ca_id a = 50"
proof -
  from demo_queries obtain r where r: "queryKeys demo_key_service 20 20 demo_claimant 50 (matrixQueryHashInput demo_query)
      demo_published = Inr (r, demo_published)" by blast
  with query_discloses_parties [of demo_key_service 20 20 demo_claimant 50 "matrixQueryHashInput demo_query" demo_published r
      demo_published] show ?thesis by blast
qed

end
