(* ===== verification/Spec2Isabelle.thy ===== *)
theory Spec2Isabelle
  imports Constraints Moderation RateLimit TransportClaims MessageClaims RetentionClaims KeyClaims
begin

text \<open>
  A verification library for the API of SinoChat (src/apps/api), the server of an end-to-end
  encrypted chat between clients and cashiers.

  \<^bold>\<open>The program.\<close>  The server keeps its state in PostgreSQL.  A client has at most one cashier
  (an assignment), the pair has one conversation, and everything else hangs on that link: who may
  read or write, which devices a message is sealed for, to whom a device list is announced.
  The services are TypeScript classes whose public methods are transactions.  They interact through
  the tables and through calls: the message and the transport services ask the eligibility service
  whether the link of a user is current; the assignment service ends and creates links and announces
  both to the device-list publisher; a cashier who blocks a client ends their link through it, and the
  fifth cashier to do so has the client suspended for review; a worker ends the links of cashiers whose subscription expired;
  the rate limiter stands before every request and keeps its counters in Redis; another worker purges
  expired messages, events and uploads, with the encrypted photos they name in the object storage.
  A device publishes its identity keys, one-time keys and a fallback key in the directory of keys,
  which binds its session to it; the devices of the other party take from there the keys they need to
  open an encrypted session, one one-time key for each.

  \<^bold>\<open>How code is modelled.\<close>  A table is a list of records (Database, ToDevice, Messages), a statement
  is a list operation (\<open>filter\<close>, \<open>upd_where\<close>, \<open>count_where\<close>), a transaction is a function from the
  database to an error or a result with the database it leaves (type \<open>tx\<close> of Prelude: an error leaves
  nothing behind), and a request made of several transactions is an \<open>action\<close>, which leaves a state
  also when it fails.  Every throw of the code is a branch with its class and text (accents left out).
  The record of each service extends the one of the services it calls, so that their operations run
  on it unchanged.  Clock readings are arguments, one for each reading of the code, in its order.

  \<^bold>\<open>Theories and sources\<close> (paths below src/apps/api/src):
  \<^item> Prelude: identifiers, instants, errors, the transaction type, tables as lists, and the locale
    \<open>keeps_invariant\<close> under which a loop of operations keeps what each of them keeps.
  \<^item> Database: the tables of prisma/schema.prisma that the services use, and the supplies of
    identifiers and random numbers (\<open>env\<close>).
  \<^item> CashierSelection: assignments/cashier-selection.ts, selectLeastLoadedCashier.
  \<^item> DeviceLists: database/matrix-device-list.publisher.ts, the stream of device-list changes.
  \<^item> Eligibility: assignments/conversation-eligibility.service.ts, the joins that decide who may use a
    conversation now, and its contract as the locale \<open>access_control\<close>.
  \<^item> Assignments, Reconciliation: assignments/assignments.service.ts and
    assignments/subscription-expiry.worker.ts.  AssignmentLinks (the invariant of the tables),
    AssignmentService (run lemmas), AssignmentProperties and AssignmentClaims prove them correct;
    Constraints adds the deferred trigger of the schema that checks a reassignment at commit.
  \<^item> Moderation: moderation/moderation-policy.ts and blockClient of moderation/moderation.service.ts.
    With it every writer of the assignment tables is modelled, and the theory states the states
    reachable by all of them (\<open>service_step\<close>, \<open>reachable_from\<close>).
  \<^item> RateLimit: rate-limit/rate-limit.storage.ts, the Lua script, the reply parser and the connection
    as a state machine.
  \<^item> Text, Bytes, Json, JsonParse: decimal and hexadecimal texts, base64, UTF-8, JSON.stringify,
    JSON.parse and the canonical encoding of e2ee/matrix-key-upload.ts.
  \<^item> SyncToken: e2ee/matrix-sync-token.ts.  ToDeviceRequest: e2ee/matrix-to-device.ts and
    e2ee/matrix-room-event.ts.  ToDevice: e2ee/matrix-to-device.service.ts, send and sync, with the
    facts of Transport and the properties of TransportClaims.
  \<^item> KeyUpload: the parsers and signature checks of e2ee/matrix-key-upload.ts.  KeyRequests:
    e2ee/matrix-key-requests.ts.  KeyDirectory: e2ee/matrix-key-directory.service.ts, every operation,
    with the identifiers of packages/contracts/src/index.ts and devices/device-binding-secret.ts.
    KeyFacts states the invariant of its tables (\<open>directory_ok\<close>) and the changes they undergo, KeyRuns
    shows each operation to be a sequence of such changes, KeyAnswers follows the stored answers over
    any later operations, KeyReplay the repeated first publication; KeyDemo is a concrete run and
    KeyClaims holds the properties.
  \<^item> UploadGrants: messages/upload-grant.service.ts and messages/dto/request-upload.dto.ts.  Messages:
    messages/messages.service.ts and messages/messages.controller.ts, with MessageFacts and
    MessageClaims.
  \<^item> ObjectStorage: storage/object-storage.service.ts, the bucket of the photos, and the contract of a
    deletion as the locale \<open>object_deletion\<close>.  Retention: retention/retention.service.ts, the batch that
    purges what has expired.  RetentionSteps interleaves the purges of any number of workers with the
    requests of the message service, step by step; RetentionBatch computes the result of one batch;
    RetentionClaims holds the properties.

  \<^bold>\<open>What the lemmas show.\<close>  Each service has an invariant of its tables that every operation keeps
  (\<open>stream_ok\<close>, \<open>wf\<close>, \<open>transport_ok\<close>, \<open>directory_ok\<close>, \<open>message_ok\<close> with \<open>uploads_ok\<close>), from which the properties of
  its operations follow: access is granted only along a current link and ends with it; a
  reassignment moves the client to the least loaded eligible cashier or leaves a request; the
  expiry worker makes progress; a send reaches each target once and a repeated send changes nothing;
  a sync deletes only what it is told was received; a message has one envelope for each active
  device; a photo permission is good for one message, whatever requests and sends run in between; receipts
  only advance; polling loses and repeats nothing, also while messages arrive and expire;
  no purge touches the photo of a message that lives, however requests and workers interleave, no
  photo stays in the bucket that the tables do not name or, after a batch, that has expired, and a
  batch removes exactly what is due; a
  one-time key is handed out once, the oldest first, signed by its device and only to the counterpart
  or to another device of the account, and a repeated claim or first publication gets its first answer.
  Parsers and encoders have round trips, and the parsers' results are characterised.

  \<^bold>\<open>Parameters.\<close>  SHA-256 and HMAC (\<open>crypto\<close>, \<open>gc_hmac\<close>), with the shape of their results as a
  hypothesis (\<open>crypto_ok\<close>) and, where a property speaks of forgery, that they do not collide on the
  texts compared; node's and PostgreSQL's identifiers, fresh by \<open>supply_ok\<close>; the object storage
  (\<open>object_storage\<close> for the message service, the S3 client \<open>s3_client\<close> for its own model, with what its
  answers may be trusted for in \<open>s3_sound\<close> and \<open>s3_documented\<close>); the URL parser; the Redis client;
  Ed25519 (\<open>ed25519\<close>: the check of points and the verification of signatures), SHA-256 and the HMAC
  under the binding secret in \<open>key_service\<close>, of which nothing is assumed.  Where other requests may commit between two transactions of a
  handler, what they do is an argument of the model, so that the properties hold for any of them or
  name the interleavings they need.

  \<^bold>\<open>Bounds and fuel.\<close>  JSON.parse recurses on fuel, twice the length of the text and two more, which
  is proved enough for every text (JsonParse, \<open>json_fuel_enough\<close>); the 10,000 rounds of a purge of
  versions are the code's own bound; all other recursions are structural.  The interleavings of
  RetentionSteps draw at most \<open>n\<close> identifiers, for any \<open>n\<close> for which they fit the text of a UUID.
  Its clocks may differ by five minutes: an upload lands before the end of its reservation (the URL is
  signed for half of its ten minutes), and a message is created no two days before the end of an open one.
  Counts are compared as the safe integers of JavaScript where the code does (\<open>within_counts\<close>).

  \<^bold>\<open>Not modelled.\<close>  Locks and isolation levels have no effect in a sequential model; of the triggers
  of the schema the ones of the modelled tables that a transaction could violate are modelled.  Left
  out of them are the CHECK constraints of the assignment tables that compare the instants of a row,
  which only a clock set back could violate, and the one that a request made for a block or a report,
  and no other, names that block, as its callers do.  Characters
  beyond 255 are read as character 255, JSON numbers beyond 53 bits are kept as text, and identifiers
  are taken in their canonical lower-case form.  Cross-signing, the approval and the verification of
  further devices, and device recovery are left out of the directory of keys; the web client, authentication, administration,
  reports with their encrypted evidence, invitations, realtime delivery, the timers of the workers, configuration (but for the
  object storage) and the operator's scripts are left out.
\<close>

end
